(* ===== verification/Prelude.thy ===== *)
theory Prelude
  imports Main "HOL-Library.Word"
begin

unbundle bit_operations_syntax

text \<open>
  Shared vocabulary of the development.

  Rust's machine integers appear in two forms. Bit sets and payload words are
  \<open>64 word\<close> and \<open>8 word\<close> values. Identifiers, counters, sizes and addresses are
  natural numbers, and every operation of the source that can reach the limit of
  its type is written with that limit: \<open>checked_add\<close>, \<open>saturating_add\<close>,
  \<open>saturating_mul\<close> and \<open>wrapping_add\<close> below take the largest value of the type as
  their first argument.

  A fallible Rust function returns \<open>'e + 'a\<close>: \<open>Inl\<close> is \<open>Err\<close>, \<open>Inr\<close> is \<open>Ok\<close>.
  A \<open>Mutex\<close>-protected operation is one atomic state transformer.
\<close>

section \<open>Machine integers\<close>

type_synonym u64 = "64 word"
type_synonym u8 = "8 word"

definition u32_max :: nat where
  "u32_max = 4294967295"

definition u64_max :: nat where
  "u64_max = 18446744073709551615"

definition usize_max :: nat where
  "usize_max = u64_max"

text \<open>Rust's integer methods, for a type whose largest value is \<open>m\<close>.\<close>

definition checked_add :: "nat \<Rightarrow> nat \<Rightarrow> nat \<Rightarrow> nat option" where
  "checked_add m a b = (if a + b \<le> m then Some (a + b) else None)"

definition saturating_add :: "nat \<Rightarrow> nat \<Rightarrow> nat \<Rightarrow> nat" where
  "saturating_add m a b = (if a + b \<le> m then a + b else m)"

definition saturating_mul :: "nat \<Rightarrow> nat \<Rightarrow> nat \<Rightarrow> nat" where
  "saturating_mul m a b = (if a * b \<le> m then a * b else m)"

definition wrapping_add :: "nat \<Rightarrow> nat \<Rightarrow> nat \<Rightarrow> nat" where
  "wrapping_add m a b = (a + b) mod Suc m"

text \<open>Rust's \<open>saturating_sub\<close> on an unsigned type is subtraction on \<open>nat\<close>.\<close>

named_theorems rust_int

lemma checked_add_Some [rust_int]:
  "checked_add m a b = Some c \<longleftrightarrow> c = a + b \<and> a + b \<le> m"
  by (auto simp: checked_add_def)

lemma checked_add_None [rust_int]: "checked_add m a b = None \<longleftrightarrow> m < a + b"
  by (auto simp: checked_add_def)

lemma saturating_add_le [simp]: "saturating_add m a b \<le> m"
  by (simp add: saturating_add_def)

lemma saturating_add_mono: "a \<le> m \<Longrightarrow> a \<le> saturating_add m a b"
  by (simp add: saturating_add_def)

lemma saturating_add_exact: "a + b \<le> m \<Longrightarrow> saturating_add m a b = a + b"
  by (simp add: saturating_add_def)

lemma saturating_add_pos: "0 < m \<Longrightarrow> 0 < b \<Longrightarrow> 0 < saturating_add m a b"
  by (auto simp: saturating_add_def)

section \<open>Lists as slices, vectors and ring buffers\<close>

lemma list_update_same_set: "i < length xs \<Longrightarrow> y \<in> set (xs[i := y])"
  by (simp add: set_update_memI)

text \<open>The ring of the indices \<open>h, h + 1, \<dots>\<close> modulo \<open>n\<close> read off an array.\<close>

definition ring_slice :: "'a list \<Rightarrow> nat \<Rightarrow> nat \<Rightarrow> 'a list" where
  "ring_slice xs h k = map (\<lambda>i. xs ! ((h + i) mod length xs)) [0..<k]"

lemma length_ring_slice [simp]: "length (ring_slice xs h k) = k"
  by (simp add: ring_slice_def)

lemma ring_slice_0 [simp]: "ring_slice xs h 0 = []"
  by (simp add: ring_slice_def)

lemma ring_slice_nth [simp]:
  "i < k \<Longrightarrow> ring_slice xs h k ! i = xs ! ((h + i) mod length xs)"
  by (simp add: ring_slice_def)

lemma ring_slice_Suc_front:
  "ring_slice xs h (Suc k) = xs ! (h mod length xs) # ring_slice xs (Suc h) k"
  by (rule nth_equalityI) (auto simp: nth_Cons split: nat.split)

lemma ring_slice_mod: "ring_slice xs (h mod length xs) k = ring_slice xs h k"
  by (rule nth_equalityI) (auto simp: mod_add_left_eq)

lemma ring_slice_append:
  "ring_slice xs h (j + k) = ring_slice xs h j @ ring_slice xs (h + j) k"
  by (rule nth_equalityI) (auto simp: nth_append ac_simps)

lemma ring_slice_cong:
  assumes "length ys = length xs"
    and "\<And>i. i < k \<Longrightarrow> ys ! ((h + i) mod length xs) = xs ! ((h + i) mod length xs)"
  shows "ring_slice ys h k = ring_slice xs h k"
  using assms by (intro nth_equalityI) auto

text \<open>Distinct offsets below the ring's length name distinct slots.\<close>

lemma ring_index_inj:
  fixes h i j n :: nat
  assumes "i < n" "j < n" "(h + i) mod n = (h + j) mod n"
  shows "i = j"
proof (rule ccontr)
  assume "i \<noteq> j"
  then consider "i < j" | "j < i" by linarith
  then show False
  proof cases
    case 1
    from assms(3) have "n dvd (h + j) - (h + i)"
      by (metis mod_eq_dvd_iff_nat 1 add_le_cancel_left less_imp_le)
    then have "n dvd j - i" by simp
    with 1 assms(2) show False by (auto dest: dvd_imp_le)
  next
    case 2
    from assms(3) have "n dvd (h + i) - (h + j)"
      by (metis mod_eq_dvd_iff_nat 2 add_le_cancel_left less_imp_le)
    then have "n dvd i - j" by simp
    with 2 assms(1) show False by (auto dest: dvd_imp_le)
  qed
qed

lemma ring_slice_update_outside:
  assumes "k \<le> j" "j < length xs"
  shows "ring_slice (xs[(h + j) mod length xs := y]) h k = ring_slice xs h k"
proof (rule ring_slice_cong)
  fix i assume "i < k"
  with assms have "(h + i) mod length xs \<noteq> (h + j) mod length xs"
    using ring_index_inj[of i "length xs" j h] by auto
  then show "xs[(h + j) mod length xs := y] ! ((h + i) mod length xs)
      = xs ! ((h + i) mod length xs)"
    by (metis nth_list_update_neq)
qed simp

lemma ring_slice_update_before:
  assumes "h < length xs" "k < length xs"
  shows "ring_slice (xs[h := y]) (Suc h) k = ring_slice xs (Suc h) k"
proof -
  have "Suc h + (length xs - 1) = h + length xs" using assms(1) by simp
  then have "(Suc h + (length xs - 1)) mod length xs = h" using assms(1) by simp
  then show ?thesis
    using ring_slice_update_outside[of k "length xs - 1" xs "Suc h" y] assms by simp
qed

lemma ring_prev:
  fixes h n :: nat
  assumes "h < n"
  shows "Suc ((h + n - 1) mod n) mod n = h"
  using assms by (cases h) (auto simp: mod_Suc)

section \<open>Slice copies\<close>

text \<open>\<open>destination[at..at + n].copy_from_slice(source)\<close> for a source of length \<open>n\<close>.\<close>

definition copy_slice :: "'a list \<Rightarrow> nat \<Rightarrow> 'a list \<Rightarrow> 'a list" where
  "copy_slice destination at source =
     take at destination @ source @ drop (at + length source) destination"

definition copy_prefix :: "'a list \<Rightarrow> 'a list \<Rightarrow> 'a list" where
  "copy_prefix destination source = source @ drop (length source) destination"

lemma length_copy_slice [simp]:
  "at + length source \<le> length destination \<Longrightarrow>
   length (copy_slice destination at source) = length destination"
  by (simp add: copy_slice_def)

lemma nth_copy_slice:
  "at + length source \<le> length destination \<Longrightarrow> j < length destination \<Longrightarrow>
   copy_slice destination at source ! j =
     (if at \<le> j \<and> j < at + length source then source ! (j - at) else destination ! j)"
  by (auto simp: copy_slice_def nth_append min_def)

lemma copy_slice_Nil [simp]: "copy_slice destination at [] = destination"
  by (simp add: copy_slice_def)

lemma length_copy_prefix [simp]:
  "length source \<le> length destination \<Longrightarrow> length (copy_prefix destination source) = length destination"
  by (simp add: copy_prefix_def)

lemma take_copy_prefix [simp]: "take (length source) (copy_prefix destination source) = source"
  by (simp add: copy_prefix_def)

text \<open>A write of \<open>count\<close> elements at ring position \<open>h\<close>, split at the end of the array.\<close>

lemma ring_split_write_nth:
  fixes xs bs :: "'a list"
  assumes h: "h < length xs" and c: "count \<le> length xs" "count \<le> length bs"
    and f: "first = min count (length xs - h)" and i: "i < length xs"
  shows "copy_slice (copy_slice xs h (take first bs)) 0 (drop first (take count bs))
           ! ((h + i) mod length xs)
         = (if i < count then bs ! i else xs ! ((h + i) mod length xs))"
proof (cases "h + i < length xs")
  case True
  with assms show ?thesis by (auto simp: nth_copy_slice min_def)
next
  case False
  with h i have "(h + i) mod length xs = h + i - length xs"
    by (simp add: mod_if)
  with False assms show ?thesis by (auto simp: nth_copy_slice min_def add.commute)
qed

end
