(* ===== verification/BTree_Map.thy ===== *)
theory BTree_Map
  imports Prelude
begin

text \<open>
  Rust's \<open>alloc::collections::BTreeMap\<close> as the kernel uses it: the association
  list of its entries in ascending key order. Iteration order, \<open>len\<close>, \<open>values\<close>
  and \<open>retain\<close> read the list; \<open>get\<close>, \<open>insert\<close> and \<open>remove\<close> are the usual map
  operations. The interface the kernel components rely on is the locale
  \<open>ordered_map\<close>, interpreted below on the list operations.
\<close>

type_synonym ('k, 'v) btree_map = "('k \<times> 'v) list"

definition bt_get :: "('k, 'v) btree_map \<Rightarrow> 'k \<Rightarrow> 'v option" where
  "bt_get m k = map_of m k"

fun bt_insert :: "'k::linorder \<Rightarrow> 'v \<Rightarrow> ('k, 'v) btree_map \<Rightarrow> ('k, 'v) btree_map" where
  "bt_insert k v [] = [(k, v)]"
| "bt_insert k v ((a, b) # m) =
     (if k < a then (k, v) # (a, b) # m
      else if k = a then (k, v) # m
      else (a, b) # bt_insert k v m)"

definition bt_remove :: "'k \<Rightarrow> ('k, 'v) btree_map \<Rightarrow> ('k, 'v) btree_map" where
  "bt_remove k m = filter (\<lambda>e. fst e \<noteq> k) m"

definition bt_contains :: "('k, 'v) btree_map \<Rightarrow> 'k \<Rightarrow> bool" where
  "bt_contains m k = (bt_get m k \<noteq> None)"

definition bt_keys :: "('k, 'v) btree_map \<Rightarrow> 'k set" where
  "bt_keys m = fst ` set m"

definition bt_values :: "('k, 'v) btree_map \<Rightarrow> 'v list" where
  "bt_values m = map snd m"

text \<open>\<open>for value in map.values_mut() { *value = f(value) }\<close>\<close>

definition bt_map_values :: "('v \<Rightarrow> 'w) \<Rightarrow> ('k, 'v) btree_map \<Rightarrow> ('k, 'w) btree_map" where
  "bt_map_values f m = map (\<lambda>(k, v). (k, f v)) m"

text \<open>\<open>map.retain(|key, value| { *value = f(value); p(key, value) })\<close>: the closure may
  change the value before it decides.\<close>

definition bt_retain ::
  "('v \<Rightarrow> 'v) \<Rightarrow> ('k \<Rightarrow> 'v \<Rightarrow> bool) \<Rightarrow> ('k, 'v) btree_map \<Rightarrow> ('k, 'v) btree_map" where
  "bt_retain f p m = filter (\<lambda>(k, v). p k v) (bt_map_values f m)"

definition bt_inv :: "('k::linorder, 'v) btree_map \<Rightarrow> bool" where
  "bt_inv m = sorted_wrt (<) (map fst m)"

named_theorems btree

lemma bt_get_Nil [simp, btree]: "bt_get [] k = None"
  by (simp add: bt_get_def)

lemma bt_get_insert [simp, btree]: "bt_get (bt_insert k v m) = (bt_get m)(k \<mapsto> v)"
  by (induction k v m rule: bt_insert.induct) (auto simp: bt_get_def fun_eq_iff)

lemma bt_get_remove [simp, btree]: "bt_get (bt_remove k m) = (bt_get m)(k := None)"
  by (induction m) (auto simp: bt_get_def bt_remove_def fun_eq_iff)

lemma bt_contains_iff: "bt_contains m k \<longleftrightarrow> k \<in> bt_keys m"
  by (auto simp: bt_contains_def bt_get_def bt_keys_def map_of_eq_None_iff)

lemma bt_keys_dom: "bt_keys m = dom (bt_get m)"
  by (simp add: bt_keys_def bt_get_def [abs_def] dom_map_of_conv_image_fst)

lemma bt_get_None_iff: "bt_get m k = None \<longleftrightarrow> k \<notin> bt_keys m"
  by (auto simp: bt_keys_dom)

lemma finite_bt_keys [simp]: "finite (bt_keys m)"
  by (simp add: bt_keys_def)

lemma bt_keys_insert [simp, btree]: "bt_keys (bt_insert k v m) = insert k (bt_keys m)"
  by (simp add: bt_keys_dom)

lemma bt_keys_remove [simp, btree]: "bt_keys (bt_remove k m) = bt_keys m - {k}"
  by (simp add: bt_keys_dom)

lemma bt_keys_Nil [simp, btree]: "bt_keys [] = {}"
  by (simp add: bt_keys_def)

lemma bt_get_map_values [simp, btree]:
  "bt_get (bt_map_values f m) k = map_option f (bt_get m k)"
  by (induction m) (auto simp: bt_get_def bt_map_values_def)

lemma bt_keys_map_values [simp, btree]: "bt_keys (bt_map_values f m) = bt_keys m"
  by (auto simp: bt_keys_dom)

lemma set_bt_insert_subset: "set (bt_insert k v m) \<subseteq> insert (k, v) (set m)"
  by (induction k v m rule: bt_insert.induct) auto

lemma bt_inv_Nil [simp]: "bt_inv []"
  by (simp add: bt_inv_def)

lemma bt_inv_insert [simp]: "bt_inv m \<Longrightarrow> bt_inv (bt_insert k v m)"
proof (induction k v m rule: bt_insert.induct)
  case (1 k v)
  show ?case by (simp add: bt_inv_def)
next
  case (2 k v a b m)
  have sub: "fst ` set (bt_insert k v m) \<subseteq> insert k (fst ` set m)"
    using set_bt_insert_subset[of k v m] by auto
  from 2 sub show ?case by (fastforce simp: bt_inv_def)
qed

lemma bt_inv_filter: "bt_inv m \<Longrightarrow> bt_inv (filter P m)"
  by (auto simp: bt_inv_def sorted_wrt_map sorted_wrt_filter)

lemma bt_inv_remove [simp]: "bt_inv m \<Longrightarrow> bt_inv (bt_remove k m)"
  by (simp add: bt_remove_def bt_inv_filter)

lemma bt_inv_map_values [simp]: "bt_inv m \<Longrightarrow> bt_inv (bt_map_values f m)"
  by (simp add: bt_inv_def bt_map_values_def comp_def case_prod_beta)

lemma bt_inv_retain [simp]: "bt_inv m \<Longrightarrow> bt_inv (bt_retain f p m)"
  by (simp add: bt_retain_def bt_inv_filter)

lemma bt_inv_distinct: "bt_inv m \<Longrightarrow> distinct (map fst m)"
  by (simp add: bt_inv_def strict_sorted_iff)

text \<open>With distinct keys the entries of the list are the graph of the map.\<close>

lemma bt_get_Some_iff: "bt_inv m \<Longrightarrow> bt_get m k = Some v \<longleftrightarrow> (k, v) \<in> set m"
  by (simp add: bt_get_def bt_inv_distinct)

lemma bt_get_in_set: "bt_get m k = Some v \<Longrightarrow> (k, v) \<in> set m"
  by (simp add: bt_get_def map_of_SomeD)

lemma bt_get_in_values: "bt_get m k = Some v \<Longrightarrow> v \<in> set (bt_values m)"
  by (force simp: bt_values_def dest: bt_get_in_set)

lemma bt_len_card: "bt_inv m \<Longrightarrow> length m = card (bt_keys m)"
  by (metis bt_inv_distinct bt_keys_def distinct_card length_map set_map)

lemma bt_len_insert_fresh:
  "k \<notin> bt_keys m \<Longrightarrow> length (bt_insert k v m) = Suc (length m)"
  by (induction k v m rule: bt_insert.induct) (auto simp: bt_keys_def)

lemma bt_get_retain:
  assumes "bt_inv m"
  shows "bt_get (bt_retain f p m) k =
    (case bt_get m k of
       None \<Rightarrow> None
     | Some v \<Rightarrow> if p k (f v) then Some (f v) else None)"
  using assms
proof (induction m)
  case Nil
  show ?case by (simp add: bt_retain_def bt_map_values_def)
next
  case (Cons e m)
  obtain a b where e: "e = (a, b)" by (cases e)
  from Cons.prems have inv: "bt_inv m" and fresh: "a \<notin> bt_keys m"
    by (auto simp: bt_inv_def bt_keys_def e)
  from fresh have "bt_get m a = None" by (simp add: bt_get_None_iff)
  with Cons.IH[OF inv] show ?case
    by (cases "k = a") (auto simp: e bt_retain_def bt_map_values_def bt_get_def)
qed

text \<open>A map determines its list: the representation is canonical.\<close>

lemma bt_ext:
  assumes "bt_inv m" "bt_inv m'" "bt_get m = bt_get m'"
  shows "m = m'"
proof -
  have set_eq: "set m = set m'"
  proof (rule set_eqI)
    fix e :: "'a \<times> 'b"
    obtain k v where "e = (k, v)" by (cases e)
    with assms show "e \<in> set m \<longleftrightarrow> e \<in> set m'"
      by (metis bt_get_Some_iff)
  qed
  have "inj_on fst (set m \<union> set m')"
    using bt_inv_distinct[OF assms(1)] by (simp add: set_eq[symmetric] distinct_map)
  then show ?thesis
    using assms(1,2) set_eq
    by (intro map_sorted_distinct_set_unique[of fst]) (auto simp: bt_inv_def strict_sorted_iff)
qed

lemma bt_insert_remove:
  "bt_inv m \<Longrightarrow> bt_get m k = Some v \<Longrightarrow> bt_insert k v (bt_remove k m) = m"
  by (rule bt_ext) auto

lemma bt_remove_insert:
  "bt_inv m \<Longrightarrow> bt_get m k = None \<Longrightarrow> bt_remove k (bt_insert k v m) = m"
  by (rule bt_ext) auto

section \<open>The map interface\<close>

locale ordered_map =
  fixes empty :: "'m"
    and insert_entry :: "'k::linorder \<Rightarrow> 'v \<Rightarrow> 'm \<Rightarrow> 'm"
    and remove_entry :: "'k \<Rightarrow> 'm \<Rightarrow> 'm"
    and get_entry :: "'m \<Rightarrow> 'k \<Rightarrow> 'v option"
    and entry_count :: "'m \<Rightarrow> nat"
    and invar :: "'m \<Rightarrow> bool"
  assumes get_empty: "get_entry empty k = None"
    and get_insert: "get_entry (insert_entry k v m) = (get_entry m)(k \<mapsto> v)"
    and get_remove: "get_entry (remove_entry k m) = (get_entry m)(k := None)"
    and count_card: "invar m \<Longrightarrow> entry_count m = card (dom (get_entry m))"
    and finite_dom: "finite (dom (get_entry m))"
    and invar_empty: "invar empty"
    and invar_insert: "invar m \<Longrightarrow> invar (insert_entry k v m)"
    and invar_remove: "invar m \<Longrightarrow> invar (remove_entry k m)"
begin

lemma count_insert_fresh:
  assumes "invar m" "get_entry m k = None"
  shows "entry_count (insert_entry k v m) = Suc (entry_count m)"
proof -
  from assms(2) have "k \<notin> dom (get_entry m)" by (simp add: domIff)
  with assms finite_dom[of m] show ?thesis
    by (simp add: count_card invar_insert get_insert)
qed

lemma count_insert_present:
  assumes "invar m" "get_entry m k = Some w"
  shows "entry_count (insert_entry k v m) = entry_count m"
proof -
  from assms(2) have "insert k (dom (get_entry m)) = dom (get_entry m)" by auto
  with assms show ?thesis
    by (simp add: count_card invar_insert get_insert)
qed

lemma count_remove_present:
  assumes "invar m" "get_entry m k = Some w"
  shows "Suc (entry_count (remove_entry k m)) = entry_count m"
proof -
  from assms(2) have "k \<in> dom (get_entry m)" by auto
  with finite_dom[of m] have "Suc (card (dom (get_entry m) - {k})) = card (dom (get_entry m))"
    by (rule card_Suc_Diff1)
  with assms(1) show ?thesis
    by (simp only: count_card invar_remove get_remove dom_fun_upd simp_thms if_True)
qed

lemma insert_remove_roundtrip:
  assumes "get_entry m k = None"
  shows "get_entry (remove_entry k (insert_entry k v m)) = get_entry m"
  using assms by (auto simp: get_insert get_remove)

lemma remove_insert_roundtrip:
  assumes "get_entry m k = Some v"
  shows "get_entry (insert_entry k v (remove_entry k m)) = get_entry m"
  using assms by (auto simp: get_insert get_remove)

end

interpretation btree: ordered_map "[]" bt_insert bt_remove bt_get length bt_inv
  by unfold_locales (auto simp: bt_len_card bt_keys_dom simp flip: bt_keys_dom)

end
