(* ===== verification/Capability.thy ===== *)
theory Capability
  imports BTree_Map
begin

text \<open>
  Capability rights and per-task capability spaces
  (\<open>kernel/core/src/capability/types.rs\<close> and \<open>space.rs\<close>).

  A \<open>KernelObjectRef\<close> is an \<open>Arc\<close> to a registry record; the model names it by the
  record's \<open>ObjectId\<close>. The space's \<open>Mutex\<close> makes each method one atomic transformer
  of \<open>capability_space\<close>. The last section puts any number of spaces and in-flight
  transfers together as a step relation and shows that authority never grows.
\<close>

section \<open>Rights\<close>

type_synonym object_id = nat
type_synonym capability_handle = nat
type_synonym capability_rights = u64

definition NONE :: capability_rights where "NONE = 0"
definition READ :: capability_rights where "READ = push_bit 0 1"
definition WRITE :: capability_rights where "WRITE = push_bit 1 1"
definition MAP :: capability_rights where "MAP = push_bit 2 1"
definition SIGNAL :: capability_rights where "SIGNAL = push_bit 3 1"
definition WAIT :: capability_rights where "WAIT = push_bit 4 1"
definition SEND :: capability_rights where "SEND = push_bit 5 1"
definition RECEIVE :: capability_rights where "RECEIVE = push_bit 6 1"
definition DUPLICATE :: capability_rights where "DUPLICATE = push_bit 7 1"
definition TRANSFER :: capability_rights where "TRANSFER = push_bit 8 1"
definition MANAGE :: capability_rights where "MANAGE = push_bit 9 1"

lemmas rights_defs = NONE_def READ_def WRITE_def MAP_def SIGNAL_def WAIT_def SEND_def
  RECEIVE_def DUPLICATE_def TRANSFER_def MANAGE_def

definition rights_union :: "capability_rights \<Rightarrow> capability_rights \<Rightarrow> capability_rights" where
  "rights_union a b = a OR b"

definition rights_contains :: "capability_rights \<Rightarrow> capability_rights \<Rightarrow> bool" where
  "rights_contains a b \<longleftrightarrow> a AND b = b"

definition rights_intersect :: "capability_rights \<Rightarrow> capability_rights \<Rightarrow> capability_rights" where
  "rights_intersect a b = a AND b"

definition rights_without :: "capability_rights \<Rightarrow> capability_rights \<Rightarrow> capability_rights" where
  "rights_without a b = a AND NOT b"

definition channel_endpoint_rights :: capability_rights where
  "channel_endpoint_rights =
     rights_union (rights_union (rights_union (rights_union (rights_union (rights_union
       READ WRITE) WAIT) SEND) RECEIVE) DUPLICATE) TRANSFER"

definition task_rights :: capability_rights where
  "task_rights =
     rights_union (rights_union (rights_union (rights_union (rights_union
       READ WRITE) WAIT) MANAGE) DUPLICATE) TRANSFER"

definition thread_rights :: capability_rights where
  "thread_rights =
     rights_union (rights_union (rights_union (rights_union (rights_union
       READ WRITE) MANAGE) WAIT) DUPLICATE) TRANSFER"

definition memory_object_rights :: capability_rights where
  "memory_object_rights =
     rights_union (rights_union (rights_union (rights_union
       READ WRITE) MAP) DUPLICATE) TRANSFER"

definition timer_rights :: capability_rights where
  "timer_rights =
     rights_union (rights_union (rights_union (rights_union
       READ WRITE) WAIT) DUPLICATE) TRANSFER"

definition event_rights :: capability_rights where
  "event_rights =
     rights_union (rights_union (rights_union (rights_union
       READ SIGNAL) WAIT) DUPLICATE) TRANSFER"

definition bootstrap_rights :: capability_rights where
  "bootstrap_rights = MANAGE"

definition packet_interface_rights :: capability_rights where
  "packet_interface_rights =
     rights_union (rights_union (rights_union (rights_union
       READ WRITE) WAIT) DUPLICATE) TRANSFER"

definition display_output_rights :: capability_rights where
  "display_output_rights =
     rights_union (rights_union (rights_union READ WRITE) DUPLICATE) TRANSFER"

definition input_source_rights :: capability_rights where
  "input_source_rights =
     rights_union (rights_union (rights_union READ WAIT) DUPLICATE) TRANSFER"

definition audio_endpoint_rights :: capability_rights where
  "audio_endpoint_rights =
     rights_union (rights_union (rights_union READ WRITE) DUPLICATE) TRANSFER"

definition block_device_rights :: capability_rights where
  "block_device_rights =
     rights_union (rights_union (rights_union READ WRITE) DUPLICATE) TRANSFER"

lemmas rights_set_defs = channel_endpoint_rights_def task_rights_def thread_rights_def
  memory_object_rights_def timer_rights_def event_rights_def bootstrap_rights_def
  packet_interface_rights_def display_output_rights_def input_source_rights_def
  audio_endpoint_rights_def block_device_rights_def

text \<open>A rights word is the set of its bits; \<open>contains\<close> is inclusion of those sets.\<close>

definition right_bits :: "capability_rights \<Rightarrow> nat set" where
  "right_bits r = {n. bit r n}"

lemma rights_contains_iff: "rights_contains a b \<longleftrightarrow> right_bits b \<subseteq> right_bits a"
proof
  assume c: "rights_contains a b"
  show "right_bits b \<subseteq> right_bits a"
  proof
    fix n assume "n \<in> right_bits b"
    with c have "bit (a AND b) n" by (simp add: rights_contains_def right_bits_def)
    then show "n \<in> right_bits a" by (simp add: right_bits_def bit_and_iff)
  qed
next
  assume "right_bits b \<subseteq> right_bits a"
  then show "rights_contains a b"
    unfolding rights_contains_def right_bits_def
    by (intro bit_word_eqI) (auto simp: bit_and_iff)
qed

lemma right_bits_union: "right_bits (rights_union a b) = right_bits a \<union> right_bits b"
  by (auto simp: rights_union_def right_bits_def bit_simps)

lemma right_bits_intersect: "right_bits (rights_intersect a b) = right_bits a \<inter> right_bits b"
  by (auto simp: rights_intersect_def right_bits_def bit_simps)

lemma right_bits_without: "right_bits (rights_without a b) = right_bits a - right_bits b"
  by (auto simp: rights_without_def right_bits_def bit_simps dest: bit_imp_le_length)

section \<open>Capability spaces\<close>

record capability_entry =
  ce_object :: object_id
  ce_rights :: capability_rights
  ce_badge :: "u64 option"

record capability_space =
  next_handle :: nat
  entries :: "(capability_handle, capability_entry) btree_map"

record capability_descriptor =
  cd_handle :: capability_handle
  cd_object :: object_id
  cd_rights :: capability_rights
  cd_badge :: "u64 option"

record capability_view =
  cv_handle :: capability_handle
  cv_object :: object_id
  cv_rights :: capability_rights
  cv_badge :: "u64 option"

record prepared_transfer =
  pt_object :: object_id
  pt_rights :: capability_rights
  pt_badge :: "u64 option"
  moved_source :: "capability_handle option"
  moved_source_rights :: "capability_rights option"
  moved_source_badge :: "u64 option option"

datatype transfer_mode = Move | Copy

datatype capability_error =
    InvalidHandle
  | HandleSpaceExhausted
  | RightsViolation capability_rights capability_rights
  | RequestedRightsExceedSource
  | DuplicateForbidden
  | TransferForbidden

definition transfer_descriptor ::
  "prepared_transfer \<Rightarrow> capability_handle \<Rightarrow> capability_descriptor" where
  "transfer_descriptor t h =
     \<lparr>cd_handle = h, cd_object = pt_object t, cd_rights = pt_rights t, cd_badge = pt_badge t\<rparr>"

definition capability_space_new :: capability_space where
  "capability_space_new = \<lparr>next_handle = 1, entries = []\<rparr>"

definition allocate_handle ::
  "capability_space \<Rightarrow> (capability_error + capability_handle) \<times> capability_space" where
  "allocate_handle s =
     (let handle = next_handle s in
      case checked_add u32_max (next_handle s) 1 of
        None \<Rightarrow> (Inl HandleSpaceExhausted, s)
      | Some n \<Rightarrow> (Inr handle, s\<lparr>next_handle := n\<rparr>))"

definition install ::
  "capability_space \<Rightarrow> object_id \<Rightarrow> capability_rights \<Rightarrow> u64 option
   \<Rightarrow> (capability_error + capability_handle) \<times> capability_space" where
  "install s object rights badge =
     (case allocate_handle s of
        (Inl e, s') \<Rightarrow> (Inl e, s')
      | (Inr handle, s') \<Rightarrow>
          (Inr handle,
           s'\<lparr>entries := bt_insert handle
             \<lparr>ce_object = object, ce_rights = rights, ce_badge = badge\<rparr> (entries s')\<rparr>))"

definition resolve ::
  "capability_space \<Rightarrow> capability_handle \<Rightarrow> capability_rights
   \<Rightarrow> capability_error + capability_view" where
  "resolve s handle required =
     (case bt_get (entries s) handle of
        None \<Rightarrow> Inl InvalidHandle
      | Some entry \<Rightarrow>
          if \<not> rights_contains (ce_rights entry) required
          then Inl (RightsViolation required (ce_rights entry))
          else Inr \<lparr>cv_handle = handle, cv_object = ce_object entry,
                    cv_rights = ce_rights entry, cv_badge = ce_badge entry\<rparr>)"

definition duplicate ::
  "capability_space \<Rightarrow> capability_handle \<Rightarrow> capability_rights \<Rightarrow> u64 option option
   \<Rightarrow> (capability_error + capability_handle) \<times> capability_space" where
  "duplicate s source requested badge_override =
     (case bt_get (entries s) source of
        None \<Rightarrow> (Inl InvalidHandle, s)
      | Some entry \<Rightarrow>
          if \<not> rights_contains (ce_rights entry) DUPLICATE then (Inl DuplicateForbidden, s)
          else if \<not> rights_contains (ce_rights entry) requested
          then (Inl RequestedRightsExceedSource, s)
          else (case allocate_handle s of
                  (Inl e, s') \<Rightarrow> (Inl e, s')
                | (Inr handle, s') \<Rightarrow>
                    (Inr handle,
                     s'\<lparr>entries := bt_insert handle
                       \<lparr>ce_object = ce_object entry, ce_rights = requested,
                        ce_badge = (case badge_override of None \<Rightarrow> ce_badge entry | Some b \<Rightarrow> b)\<rparr>
                       (entries s')\<rparr>)))"

definition prepare_transfer ::
  "capability_space \<Rightarrow> capability_handle \<Rightarrow> capability_rights \<Rightarrow> transfer_mode
   \<Rightarrow> (capability_error + prepared_transfer) \<times> capability_space" where
  "prepare_transfer s handle requested mode =
     (case bt_get (entries s) handle of
        None \<Rightarrow> (Inl InvalidHandle, s)
      | Some entry \<Rightarrow>
          if \<not> rights_contains (ce_rights entry) TRANSFER then (Inl TransferForbidden, s)
          else if mode = Copy \<and> \<not> rights_contains (ce_rights entry) DUPLICATE
          then (Inl DuplicateForbidden, s)
          else if \<not> rights_contains (ce_rights entry) requested
          then (Inl RequestedRightsExceedSource, s)
          else
            (Inr \<lparr>pt_object = ce_object entry, pt_rights = requested, pt_badge = ce_badge entry,
                  moved_source = (if mode = Move then Some handle else None),
                  moved_source_rights = (if mode = Move then Some (ce_rights entry) else None),
                  moved_source_badge = (if mode = Move then Some (ce_badge entry) else None)\<rparr>,
             if mode = Move then s\<lparr>entries := bt_remove handle (entries s)\<rparr> else s))"

definition rollback_moved ::
  "capability_space \<Rightarrow> prepared_transfer \<Rightarrow> bool \<times> capability_space" where
  "rollback_moved s t =
     (case moved_source t of
        None \<Rightarrow> (False, s)
      | Some source \<Rightarrow>
        (case moved_source_rights t of
           None \<Rightarrow> (False, s)
         | Some rights \<Rightarrow>
             if bt_contains (entries s) source then (False, s)
             else (True, s\<lparr>entries := bt_insert source
                     \<lparr>ce_object = pt_object t, ce_rights = rights,
                      ce_badge = (case moved_source_badge t of None \<Rightarrow> pt_badge t | Some b \<Rightarrow> b)\<rparr>
                     (entries s)\<rparr>)))"

definition accept_transfer ::
  "capability_space \<Rightarrow> prepared_transfer
   \<Rightarrow> (capability_error + capability_handle) \<times> capability_space" where
  "accept_transfer s t = install s (pt_object t) (pt_rights t) (pt_badge t)"

definition close_handle ::
  "capability_space \<Rightarrow> capability_handle
   \<Rightarrow> (capability_error + capability_descriptor) \<times> capability_space" where
  "close_handle s handle =
     (case bt_get (entries s) handle of
        None \<Rightarrow> (Inl InvalidHandle, s)
      | Some entry \<Rightarrow>
          (Inr \<lparr>cd_handle = handle, cd_object = ce_object entry,
                cd_rights = ce_rights entry, cd_badge = ce_badge entry\<rparr>,
           s\<lparr>entries := bt_remove handle (entries s)\<rparr>))"

definition handle_count :: "capability_space \<Rightarrow> nat" where
  "handle_count s = length (entries s)"

definition list_descriptors :: "capability_space \<Rightarrow> capability_descriptor list" where
  "list_descriptors s =
     map (\<lambda>(handle, entry). \<lparr>cd_handle = handle, cd_object = ce_object entry,
            cd_rights = ce_rights entry, cd_badge = ce_badge entry\<rparr>) (entries s)"

definition resolve_descriptor ::
  "capability_space \<Rightarrow> capability_handle \<Rightarrow> capability_descriptor option" where
  "resolve_descriptor s handle =
     map_option (\<lambda>entry. \<lparr>cd_handle = handle, cd_object = ce_object entry,
            cd_rights = ce_rights entry, cd_badge = ce_badge entry\<rparr>)
       (bt_get (entries s) handle)"

section \<open>Well-formed spaces\<close>

text \<open>Handles are numbered from 1 and the counter stays a \<open>u32\<close> above every handle in use.\<close>

definition space_inv :: "capability_space \<Rightarrow> bool" where
  "space_inv s \<longleftrightarrow>
     bt_inv (entries s) \<and> 1 \<le> next_handle s \<and> next_handle s \<le> u32_max \<and>
     (\<forall>h \<in> bt_keys (entries s). 1 \<le> h \<and> h < next_handle s)"

named_theorems cap_defs

lemmas cap_op_defs [cap_defs] = allocate_handle_def install_def duplicate_def
  prepare_transfer_def rollback_moved_def accept_transfer_def close_handle_def

lemma allocate_handle_Inr:
  "allocate_handle s = (Inr h, s') \<longleftrightarrow>
     h = next_handle s \<and> next_handle s < u32_max \<and> s' = s\<lparr>next_handle := Suc (next_handle s)\<rparr>"
  by (auto simp: allocate_handle_def checked_add_def)

lemma allocate_handle_Inl:
  "allocate_handle s = (Inl e, s') \<longleftrightarrow>
     e = HandleSpaceExhausted \<and> u32_max \<le> next_handle s \<and> s' = s"
  by (auto simp: allocate_handle_def checked_add_def)

lemma install_Inr:
  "install s ob r b = (Inr h, s') \<longleftrightarrow>
     h = next_handle s \<and> next_handle s < u32_max \<and>
     s' = s\<lparr>next_handle := Suc h,
            entries := bt_insert h \<lparr>ce_object = ob, ce_rights = r, ce_badge = b\<rparr> (entries s)\<rparr>"
  by (auto simp: install_def allocate_handle_def checked_add_def)

lemma install_Inl:
  "install s ob r b = (Inl e, s') \<longleftrightarrow>
     e = HandleSpaceExhausted \<and> u32_max \<le> next_handle s \<and> s' = s"
  by (auto simp: install_def allocate_handle_def checked_add_def)

lemma duplicate_Inr:
  "duplicate s src req bo = (Inr h, s') \<longleftrightarrow>
     (\<exists>e. bt_get (entries s) src = Some e \<and> rights_contains (ce_rights e) DUPLICATE \<and>
        rights_contains (ce_rights e) req \<and>
        install s (ce_object e) req (case bo of None \<Rightarrow> ce_badge e | Some b \<Rightarrow> b) = (Inr h, s'))"
  by (auto simp: duplicate_def install_Inr allocate_handle_def checked_add_def
        split: option.splits)

lemma duplicate_Inl_unchanged: "duplicate s src req bo = (Inl e, s') \<Longrightarrow> s' = s"
  by (auto simp: duplicate_def allocate_handle_Inl split: option.splits if_splits prod.splits sum.splits)

lemma prepare_transfer_Inr:
  "prepare_transfer s h req mode = (Inr t, s') \<longleftrightarrow>
     (\<exists>e. bt_get (entries s) h = Some e \<and> rights_contains (ce_rights e) TRANSFER \<and>
        (mode = Copy \<longrightarrow> rights_contains (ce_rights e) DUPLICATE) \<and>
        rights_contains (ce_rights e) req \<and>
        t = \<lparr>pt_object = ce_object e, pt_rights = req, pt_badge = ce_badge e,
             moved_source = (if mode = Move then Some h else None),
             moved_source_rights = (if mode = Move then Some (ce_rights e) else None),
             moved_source_badge = (if mode = Move then Some (ce_badge e) else None)\<rparr> \<and>
        s' = (if mode = Move then s\<lparr>entries := bt_remove h (entries s)\<rparr> else s))"
  by (auto simp: prepare_transfer_def split: option.splits if_splits)

lemma prepare_transfer_Inl_unchanged: "prepare_transfer s h req mode = (Inl e, s') \<Longrightarrow> s' = s"
  by (auto simp: prepare_transfer_def split: option.splits if_splits)

lemma rollback_moved_True:
  "rollback_moved s t = (True, s') \<longleftrightarrow>
     (\<exists>src r. moved_source t = Some src \<and> moved_source_rights t = Some r \<and>
        bt_get (entries s) src = None \<and>
        s' = s\<lparr>entries := bt_insert src
               \<lparr>ce_object = pt_object t, ce_rights = r,
                ce_badge = (case moved_source_badge t of None \<Rightarrow> pt_badge t | Some b \<Rightarrow> b)\<rparr>
               (entries s)\<rparr>)"
  by (auto simp: rollback_moved_def bt_contains_def split: option.splits if_splits)

lemma rollback_moved_False: "rollback_moved s t = (False, s') \<Longrightarrow> s' = s"
  by (auto simp: rollback_moved_def split: option.splits if_splits)

lemma close_handle_Inr:
  "close_handle s h = (Inr d, s') \<longleftrightarrow>
     (\<exists>e. bt_get (entries s) h = Some e \<and>
        d = \<lparr>cd_handle = h, cd_object = ce_object e, cd_rights = ce_rights e, cd_badge = ce_badge e\<rparr> \<and>
        s' = s\<lparr>entries := bt_remove h (entries s)\<rparr>)"
  by (auto simp: close_handle_def split: option.splits)

lemma close_handle_Inl:
  "close_handle s h = (Inl e, s') \<longleftrightarrow> e = InvalidHandle \<and> bt_get (entries s) h = None \<and> s' = s"
  by (auto simp: close_handle_def split: option.splits)

lemma space_inv_new: "space_inv capability_space_new"
  by (simp add: space_inv_def capability_space_new_def u32_max_def)

lemma space_inv_install:
  assumes "space_inv s" "install s ob r b = (res, s')"
  shows "space_inv s'"
proof (cases res)
  case (Inl e)
  with assms show ?thesis by (simp add: install_Inl)
next
  case (Inr h)
  with assms show ?thesis by (auto simp: install_Inr space_inv_def less_Suc_eq)
qed

lemma space_inv_duplicate:
  assumes "space_inv s" "duplicate s src req bo = (res, s')"
  shows "space_inv s'"
proof (cases res)
  case (Inl e)
  with assms show ?thesis by (auto dest: duplicate_Inl_unchanged)
next
  case (Inr h)
  with assms show ?thesis by (auto simp: duplicate_Inr intro: space_inv_install)
qed

lemma space_inv_prepare_transfer:
  assumes "space_inv s" "prepare_transfer s h req mode = (res, s')"
  shows "space_inv s'"
proof (cases res)
  case (Inl e)
  with assms show ?thesis by (auto dest: prepare_transfer_Inl_unchanged)
next
  case (Inr t)
  with assms show ?thesis by (auto simp: prepare_transfer_Inr space_inv_def split: if_splits)
qed

lemma space_inv_close:
  assumes "space_inv s" "close_handle s h = (res, s')"
  shows "space_inv s'"
  using assms by (cases res) (auto simp: close_handle_Inl close_handle_Inr space_inv_def)

text \<open>A rollback is well formed when the moved handle was issued by this space.\<close>

definition moved_from :: "capability_space \<Rightarrow> prepared_transfer \<Rightarrow> bool" where
  "moved_from s t \<longleftrightarrow> (\<forall>h. moved_source t = Some h \<longrightarrow> 1 \<le> h \<and> h < next_handle s)"

lemma space_inv_rollback:
  assumes "space_inv s" "moved_from s t" "rollback_moved s t = (ok, s')"
  shows "space_inv s'"
  using assms
  by (cases ok) (auto simp: rollback_moved_True space_inv_def moved_from_def
      dest!: rollback_moved_False)

lemma prepare_transfer_moved_from:
  assumes "space_inv s" "prepare_transfer s h req mode = (Inr t, s')"
  shows "moved_from s' t"
  using assms by (auto simp: prepare_transfer_Inr space_inv_def moved_from_def bt_keys_dom
      split: if_splits)

section \<open>Many spaces and in-flight transfers\<close>

text \<open>
  The spaces of all tasks and the transfers prepared so far. A transfer stays
  available after it is accepted or rolled back: envelopes are cloned on their way,
  so the relation allows more than the IPC code does.
\<close>

record cap_system =
  spaces :: "nat \<Rightarrow> capability_space"
  in_flight :: "prepared_transfer set"

inductive cap_step :: "cap_system \<Rightarrow> cap_system \<Rightarrow> bool" where
  step_duplicate:
    "duplicate (spaces c i) src req bo = (res, s') \<Longrightarrow>
     cap_step c (c\<lparr>spaces := (spaces c)(i := s')\<rparr>)"
| step_prepare:
    "prepare_transfer (spaces c i) h req mode = (Inr t, s') \<Longrightarrow>
     cap_step c (c\<lparr>spaces := (spaces c)(i := s'), in_flight := insert t (in_flight c)\<rparr>)"
| step_accept:
    "t \<in> in_flight c \<Longrightarrow> accept_transfer (spaces c i) t = (res, s') \<Longrightarrow>
     cap_step c (c\<lparr>spaces := (spaces c)(i := s')\<rparr>)"
| step_rollback:
    "t \<in> in_flight c \<Longrightarrow> rollback_moved (spaces c i) t = (ok, s') \<Longrightarrow>
     cap_step c (c\<lparr>spaces := (spaces c)(i := s')\<rparr>)"
| step_close:
    "close_handle (spaces c i) h = (res, s') \<Longrightarrow>
     cap_step c (c\<lparr>spaces := (spaces c)(i := s')\<rparr>)"
| step_drop:
    "cap_step c (c\<lparr>in_flight := in_flight c - {t}\<rparr>)"

text \<open>The rights over an object that some space or some transfer still carries.\<close>

definition space_authority :: "capability_space \<Rightarrow> object_id \<Rightarrow> nat set" where
  "space_authority s ob =
     {n. \<exists>h e. bt_get (entries s) h = Some e \<and> ce_object e = ob \<and> n \<in> right_bits (ce_rights e)}"

definition transfer_authority :: "prepared_transfer \<Rightarrow> object_id \<Rightarrow> nat set" where
  "transfer_authority t ob =
     (if pt_object t = ob
      then right_bits (pt_rights t) \<union>
           (case moved_source_rights t of None \<Rightarrow> {} | Some r \<Rightarrow> right_bits r)
      else {})"

definition authority :: "cap_system \<Rightarrow> object_id \<Rightarrow> nat set" where
  "authority c ob =
     (\<Union>i. space_authority (spaces c i) ob) \<union> (\<Union>t \<in> in_flight c. transfer_authority t ob)"

lemma space_authority_remove:
  "space_authority (s\<lparr>entries := bt_remove h (entries s)\<rparr>) ob \<subseteq> space_authority s ob"
  by (auto simp: space_authority_def split: if_splits)

lemma space_authority_insert:
  "space_authority (s\<lparr>next_handle := n, entries := bt_insert h e (entries s)\<rparr>) ob
     \<subseteq> space_authority s ob \<union> (if ce_object e = ob then right_bits (ce_rights e) else {})"
  by (auto simp: space_authority_def split: if_splits)

lemma space_authority_insert_entry:
  "space_authority (s\<lparr>entries := bt_insert h e (entries s)\<rparr>) ob
     \<subseteq> space_authority s ob \<union> (if ce_object e = ob then right_bits (ce_rights e) else {})"
  by (auto simp: space_authority_def split: if_splits)

lemma space_authority_entry:
  "bt_get (entries s) h = Some e \<Longrightarrow> right_bits (ce_rights e) \<subseteq> space_authority s (ce_object e)"
  by (auto simp: space_authority_def)

lemma install_authority:
  "install s ob r b = (res, s') \<Longrightarrow>
     space_authority s' x \<subseteq> space_authority s x \<union> (if ob = x then right_bits r else {})"
proof (cases res)
  case (Inl e)
  moreover assume "install s ob r b = (res, s')"
  ultimately show ?thesis by (simp add: install_Inl)
next
  case (Inr h)
  moreover assume "install s ob r b = (res, s')"
  ultimately show ?thesis
    using space_authority_insert
      [where s = s and n = "Suc h" and h = h and ob = x
        and e = "\<lparr>ce_object = ob, ce_rights = r, ce_badge = b\<rparr>"]
    by (auto simp: install_Inr split: if_splits)
qed

lemma duplicate_authority:
  assumes "duplicate s src req bo = (res, s')"
  shows "space_authority s' x \<subseteq> space_authority s x"
proof (cases res)
  case (Inl e)
  with assms show ?thesis by (auto dest: duplicate_Inl_unchanged)
next
  case (Inr h)
  with assms obtain e where e: "bt_get (entries s) src = Some e"
      "rights_contains (ce_rights e) req"
      "install s (ce_object e) req (case bo of None \<Rightarrow> ce_badge e | Some b \<Rightarrow> b) = (Inr h, s')"
    by (auto simp: duplicate_Inr)
  from install_authority[OF e(3), of x] e(2) space_authority_entry[OF e(1)] show ?thesis
    by (auto simp: rights_contains_iff split: if_splits)
qed

lemma prepare_transfer_authority:
  assumes "prepare_transfer s h req mode = (Inr t, s')"
  shows "space_authority s' x \<subseteq> space_authority s x"
    and "transfer_authority t x \<subseteq> space_authority s x"
proof -
  from assms obtain e where e: "bt_get (entries s) h = Some e"
      "right_bits req \<subseteq> right_bits (ce_rights e)" "pt_object t = ce_object e" "pt_rights t = req"
      "moved_source_rights t = (if mode = Move then Some (ce_rights e) else None)"
      "s' = (if mode = Move then s\<lparr>entries := bt_remove h (entries s)\<rparr> else s)"
    by (auto simp: prepare_transfer_Inr rights_contains_iff)
  show "space_authority s' x \<subseteq> space_authority s x"
    using space_authority_remove[where s = s and h = h and ob = x] by (simp add: e(6))
  show "transfer_authority t x \<subseteq> space_authority s x"
    using space_authority_entry[OF e(1)] e(2)
    by (auto simp: transfer_authority_def e(3-5) split: if_splits)
qed

lemma rollback_authority:
  assumes "rollback_moved s t = (ok, s')"
  shows "space_authority s' x \<subseteq> space_authority s x \<union> transfer_authority t x"
proof (cases ok)
  case True
  with assms obtain src r b where r: "moved_source_rights t = Some r"
      "s' = s\<lparr>entries := bt_insert src
               \<lparr>ce_object = pt_object t, ce_rights = r, ce_badge = b\<rparr> (entries s)\<rparr>"
    by (auto simp: rollback_moved_True)
  show ?thesis
    using space_authority_insert_entry
      [where s = s and h = src and ob = x
        and e = "\<lparr>ce_object = pt_object t, ce_rights = r, ce_badge = b\<rparr>"]
    by (auto simp: r transfer_authority_def split: if_splits)
next
  case False
  with assms show ?thesis by (auto dest: rollback_moved_False)
qed

lemma close_authority:
  "close_handle s h = (res, s') \<Longrightarrow> space_authority s' x \<subseteq> space_authority s x"
  using space_authority_remove[where s = s and h = h and ob = x]
  by (cases res) (auto simp: close_handle_Inl close_handle_Inr)

lemma accept_authority:
  "accept_transfer s t = (res, s') \<Longrightarrow>
     space_authority s' x \<subseteq> space_authority s x \<union> transfer_authority t x"
  using install_authority[of s "pt_object t" "pt_rights t" "pt_badge t" res s' x]
  by (auto simp: accept_transfer_def transfer_authority_def split: if_splits)

lemma authority_space_update:
  assumes "space_authority s' x \<subseteq> authority c x"
  shows "authority (c\<lparr>spaces := (spaces c)(i := s')\<rparr>) x \<subseteq> authority c x"
proof -
  have "(\<Union>j. space_authority (((spaces c)(i := s')) j) x)
      \<subseteq> space_authority s' x \<union> (\<Union>j. space_authority (spaces c j) x)"
    by (auto split: if_splits)
  with assms show ?thesis by (auto simp: authority_def)
qed

lemma authority_of_space: "space_authority (spaces c i) x \<subseteq> authority c x"
  by (auto simp: authority_def)

lemma authority_of_transfer: "t \<in> in_flight c \<Longrightarrow> transfer_authority t x \<subseteq> authority c x"
  by (auto simp: authority_def)

lemma cap_step_authority: "cap_step c c' \<Longrightarrow> authority c' x \<subseteq> authority c x"
proof (induction rule: cap_step.induct)
  case (step_duplicate c i src req bo res s')
  show ?case
    using duplicate_authority[OF step_duplicate, of x] authority_of_space[of c i x]
    by (intro authority_space_update) blast
next
  case (step_prepare c i h req mode t s')
  from prepare_transfer_authority[OF step_prepare, of x] authority_of_space[of c i x]
  have "space_authority s' x \<subseteq> authority c x" "transfer_authority t x \<subseteq> authority c x" by blast+
  then have "authority (c\<lparr>spaces := (spaces c)(i := s')\<rparr>) x \<union> transfer_authority t x
      \<subseteq> authority c x"
    using authority_space_update[of s' x c i] by blast
  then show ?case by (auto simp: authority_def)
next
  case (step_accept t c i res s')
  show ?case
    using accept_authority[OF step_accept(2), of x] authority_of_space[of c i x]
      authority_of_transfer[OF step_accept(1), of x]
    by (intro authority_space_update) blast
next
  case (step_rollback t c i ok s')
  show ?case
    using rollback_authority[OF step_rollback(2), of x] authority_of_space[of c i x]
      authority_of_transfer[OF step_rollback(1), of x]
    by (intro authority_space_update) blast
next
  case (step_close c i h res s')
  show ?case
    using close_authority[OF step_close, of x] authority_of_space[of c i x]
    by (intro authority_space_update) blast
next
  case (step_drop c t)
  show ?case by (auto simp: authority_def)
qed

lemma cap_steps_authority: "cap_step\<^sup>*\<^sup>* c c' \<Longrightarrow> authority c' x \<subseteq> authority c x"
  by (induction rule: rtranclp_induct) (auto dest: cap_step_authority)

section \<open>Traces of one space\<close>

text \<open>\<open>space_trace s hs s'\<close>: operations lead from \<open>s\<close> to \<open>s'\<close> and issue the handles \<open>hs\<close>
  in this order.\<close>

inductive space_trace ::
  "capability_space \<Rightarrow> capability_handle list \<Rightarrow> capability_space \<Rightarrow> bool" where
  trace_nil: "space_trace s [] s"
| trace_install:
    "install s ob r b = (Inr h, s1) \<Longrightarrow> space_trace s1 hs s2 \<Longrightarrow> space_trace s (h # hs) s2"
| trace_install_fail:
    "install s ob r b = (Inl e, s1) \<Longrightarrow> space_trace s1 hs s2 \<Longrightarrow> space_trace s hs s2"
| trace_duplicate:
    "duplicate s src req bo = (Inr h, s1) \<Longrightarrow> space_trace s1 hs s2 \<Longrightarrow> space_trace s (h # hs) s2"
| trace_duplicate_fail:
    "duplicate s src req bo = (Inl e, s1) \<Longrightarrow> space_trace s1 hs s2 \<Longrightarrow> space_trace s hs s2"
| trace_prepare:
    "prepare_transfer s h req mode = (res, s1) \<Longrightarrow> space_trace s1 hs s2 \<Longrightarrow> space_trace s hs s2"
| trace_rollback:
    "moved_from s t \<Longrightarrow> rollback_moved s t = (ok, s1) \<Longrightarrow> space_trace s1 hs s2 \<Longrightarrow>
     space_trace s hs s2"
| trace_close:
    "close_handle s h = (res, s1) \<Longrightarrow> space_trace s1 hs s2 \<Longrightarrow> space_trace s hs s2"

lemma next_handle_install: "install s ob r b = (Inr h, s1) \<Longrightarrow> h = next_handle s \<and> next_handle s1 = Suc h"
  by (simp add: install_Inr)

lemma next_handle_duplicate:
  "duplicate s src req bo = (Inr h, s1) \<Longrightarrow> h = next_handle s \<and> next_handle s1 = Suc h"
  by (auto simp: duplicate_Inr install_Inr)

lemma next_handle_prepare:
  "prepare_transfer s h req mode = (res, s1) \<Longrightarrow> next_handle s1 = next_handle s"
  by (auto simp: prepare_transfer_def split: option.splits if_splits)

lemma next_handle_rollback: "rollback_moved s t = (ok, s1) \<Longrightarrow> next_handle s1 = next_handle s"
  by (auto simp: rollback_moved_def split: option.splits if_splits)

lemma next_handle_close: "close_handle s h = (res, s1) \<Longrightarrow> next_handle s1 = next_handle s"
  by (auto simp: close_handle_def split: option.splits)

lemma space_trace_inv: "space_trace s hs s' \<Longrightarrow> space_inv s \<Longrightarrow> space_inv s'"
  by (induction rule: space_trace.induct)
    (auto intro: space_inv_install space_inv_duplicate space_inv_prepare_transfer
      space_inv_rollback space_inv_close)

lemma space_trace_issued:
  "space_trace s hs s' \<Longrightarrow>
     sorted_wrt (<) hs \<and> next_handle s \<le> next_handle s' \<and>
     (\<forall>h \<in> set hs. next_handle s \<le> h \<and> h < next_handle s')"
proof (induction rule: space_trace.induct)
  case (trace_nil s)
  show ?case by simp
next
  case (trace_install s ob r b h s1 hs s2)
  with next_handle_install[OF trace_install(1)] show ?case by auto
next
  case (trace_install_fail s ob r b e s1 hs s2)
  then show ?case by (simp add: install_Inl)
next
  case (trace_duplicate s src req bo h s1 hs s2)
  with next_handle_duplicate[OF trace_duplicate(1)] show ?case by auto
next
  case (trace_duplicate_fail s src req bo e s1 hs s2)
  then show ?case by (auto dest: duplicate_Inl_unchanged)
next
  case (trace_prepare s h req mode res s1 hs s2)
  then show ?case by (simp add: next_handle_prepare)
next
  case (trace_rollback s t ok s1 hs s2)
  then show ?case by (simp add: next_handle_rollback)
next
  case (trace_close s h res s1 hs s2)
  then show ?case by (simp add: next_handle_close)
qed

section \<open>Properties\<close>

text \<open>C1. Authority confinement. Whatever sequence of duplications, prepared transfers,
  accepted transfers, rollbacks, closes and drops the tasks perform on their capability
  spaces, no right over any object appears that some space or some in-flight transfer did
  not already carry: the only source of authority is \<open>install\<close>.\<close>

theorem authority_never_grows:
  assumes "cap_step\<^sup>*\<^sup>* c c'"
  shows "authority c' ob \<subseteq> authority c ob"
  using assms by (rule cap_steps_authority)

definition sample_space :: capability_space where
  "sample_space =
     \<lparr>next_handle = 2,
      entries = [(1, \<lparr>ce_object = 9, ce_rights = memory_object_rights, ce_badge = Some 7\<rparr>)]\<rparr>"

definition sample_system :: cap_system where
  "sample_system = \<lparr>spaces = (\<lambda>_. sample_space), in_flight = {}\<rparr>"

lemmas sample_eval = sample_space_def bt_get_def bt_remove_def bt_contains_def
  rights_contains_def rights_set_defs rights_union_def rights_defs

lemma sample_duplicate:
  "duplicate sample_space 1 READ None =
     (Inr 2, \<lparr>next_handle = 3,
       entries = [(1, \<lparr>ce_object = 9, ce_rights = memory_object_rights, ce_badge = Some 7\<rparr>),
                  (2, \<lparr>ce_object = 9, ce_rights = READ, ce_badge = Some 7\<rparr>)]\<rparr>)"
  by (simp add: duplicate_def allocate_handle_def checked_add_def u32_max_def sample_eval)

theorem authority_never_grows_witness:
  "\<exists>c'. cap_step\<^sup>*\<^sup>* sample_system c' \<and> c' \<noteq> sample_system \<and>
     authority c' 9 \<subseteq> authority sample_system 9"
proof -
  let ?c = "sample_system\<lparr>spaces := (spaces sample_system)(0 :=
      snd (duplicate sample_space 1 READ None))\<rparr>"
  have "duplicate (spaces sample_system 0) 1 READ None =
      (Inr 2, snd (duplicate sample_space 1 READ None))"
    by (simp add: sample_system_def sample_duplicate del: One_nat_def)
  then have step: "cap_step\<^sup>*\<^sup>* sample_system ?c"
    by (intro r_into_rtranclp step_duplicate)
  have "next_handle (spaces ?c 0) \<noteq> next_handle (spaces sample_system 0)"
    by (simp add: sample_duplicate del: One_nat_def) (simp add: sample_system_def sample_space_def)
  then have "?c \<noteq> sample_system" by metis
  with step authority_never_grows[OF step, of 9] show ?thesis by blast
qed

text \<open>C23. Exact rollback of a move. If preparing a transfer in \<open>Move\<close> mode succeeded, the
  source handle no longer resolves; rolling the transfer back restores the space exactly as
  it was (same handle, original rights and badge), and rolling it back a second time changes
  nothing and reports that nothing was restored.\<close>

theorem rollback_moved_restores:
  assumes "space_inv s" and "prepare_transfer s h req Move = (Inr t, s')"
  shows "(\<forall>r. resolve s' h r = Inl InvalidHandle) \<and>
    rollback_moved s' t = (True, s) \<and> rollback_moved s t = (False, s)"
proof -
  from assms(2) obtain e where e: "bt_get (entries s) h = Some e"
      "t = \<lparr>pt_object = ce_object e, pt_rights = req, pt_badge = ce_badge e, moved_source = Some h,
           moved_source_rights = Some (ce_rights e), moved_source_badge = Some (ce_badge e)\<rparr>"
      "s' = s\<lparr>entries := bt_remove h (entries s)\<rparr>"
    by (auto simp: prepare_transfer_Inr)
  have "bt_insert h \<lparr>ce_object = ce_object e, ce_rights = ce_rights e, ce_badge = ce_badge e\<rparr>
      (bt_remove h (entries s)) = entries s"
    using assms(1) e(1) by (cases e) (simp add: bt_insert_remove space_inv_def)
  with e show ?thesis
    by (simp add: resolve_def rollback_moved_def bt_contains_def)
qed

theorem rollback_moved_restores_witness:
  "\<exists>t s'. space_inv sample_space \<and>
     prepare_transfer sample_space 1 READ Move = (Inr t, s') \<and>
     rollback_moved s' t = (True, sample_space)"
proof -
  have inv: "space_inv sample_space"
    by (simp add: space_inv_def sample_space_def bt_inv_def bt_keys_def u32_max_def)
  obtain t s' where p: "prepare_transfer sample_space 1 READ Move = (Inr t, s')"
    by (simp add: prepare_transfer_def sample_eval)
  from rollback_moved_restores[OF inv p] inv p show ?thesis by blast
qed

text \<open>Handles are never reissued. Along every sequence of operations on one space the
  handles it issues are strictly increasing, start at the counter's value and stay below the
  \<open>u32\<close> limit: a closed or moved-away handle value never comes to name something else
  (a rollback only puts back what it named before).\<close>

theorem issued_handles_never_reused:
  assumes "space_inv s" and "space_trace s hs s'"
  shows "distinct hs \<and> sorted_wrt (<) hs \<and> (\<forall>h \<in> set hs. h \<notin> bt_keys (entries s) \<and> h < u32_max)"
proof -
  from assms(2) have "sorted_wrt (<) hs" "\<forall>h \<in> set hs. next_handle s \<le> h \<and> h < next_handle s'"
    using space_trace_issued by blast+
  moreover have "space_inv s'" using assms(2,1) by (rule space_trace_inv)
  ultimately show ?thesis
    using assms(1) by (fastforce simp: space_inv_def strict_sorted_iff)
qed

theorem issued_handles_never_reused_witness:
  "\<exists>s'. space_inv sample_space \<and> space_trace sample_space [2, 3] s' \<and> distinct [2, 3 :: nat]"
proof -
  have inv: "space_inv sample_space"
    by (simp add: space_inv_def sample_space_def bt_inv_def bt_keys_def u32_max_def)
  obtain s1 where s1: "install sample_space 4 READ None = (Inr 2, s1)" "next_handle s1 = 3"
    by (simp add: install_Inr sample_space_def u32_max_def)
  obtain s2 where s2: "close_handle s1 2 = (Inr \<lparr>cd_handle = 2, cd_object = 4,
      cd_rights = READ, cd_badge = None\<rparr>, s2)" "next_handle s2 = 3"
    using s1 by (simp add: install_Inr close_handle_Inr)
  obtain s3 where s3: "install s2 4 READ None = (Inr 3, s3)"
    using s2(2) by (simp add: install_Inr u32_max_def)
  have tr: "space_trace sample_space [2, 3] s3"
    by (rule trace_install[OF s1(1)], rule trace_close[OF s2(1)], rule trace_install[OF s3],
        rule trace_nil)
  from issued_handles_never_reused[OF inv tr] inv tr show ?thesis by blast
qed

text \<open>A move transfer carries exactly the requested rights. After a \<open>Move\<close> of a handle
  out of one space and its acceptance into another, the sender cannot resolve the handle for
  any rights, and the receiver's new handle resolves for \<open>r\<close> exactly when \<open>r\<close> is contained
  in the requested rights, which the source contained; object and badge are the source's.\<close>

theorem move_transfer_end_to_end:
  assumes "prepare_transfer sender h req Move = (Inr t, sender')"
    and "accept_transfer receiver t = (Inr h', receiver')"
  shows "\<exists>e. bt_get (entries sender) h = Some e \<and> rights_contains (ce_rights e) req \<and>
    (\<forall>r. resolve sender' h r = Inl InvalidHandle) \<and>
    (\<forall>r. resolve receiver' h' r =
       (if rights_contains req r
        then Inr \<lparr>cv_handle = h', cv_object = ce_object e, cv_rights = req, cv_badge = ce_badge e\<rparr>
        else Inl (RightsViolation r req))) \<and>
    (\<forall>g. g \<noteq> h' \<longrightarrow> bt_get (entries receiver') g = bt_get (entries receiver) g)"
  using assms
  by (auto simp: prepare_transfer_Inr accept_transfer_def install_Inr resolve_def)

theorem move_transfer_end_to_end_witness:
  "\<exists>t s' r'. prepare_transfer sample_space 1 READ Move = (Inr t, s') \<and>
     accept_transfer capability_space_new t = (Inr 1, r') \<and>
     resolve r' 1 WRITE = Inl (RightsViolation WRITE READ)"
proof -
  obtain t s' where p: "prepare_transfer sample_space 1 READ Move = (Inr t, s')"
    by (simp add: prepare_transfer_def sample_eval)
  obtain r' where a: "accept_transfer capability_space_new t = (Inr 1, r')"
    by (simp add: accept_transfer_def install_Inr capability_space_new_def u32_max_def)
  have "\<not> rights_contains READ WRITE" by (simp add: rights_contains_def rights_defs)
  with move_transfer_end_to_end[OF p a] p a show ?thesis by auto
qed

end
