(* ===== verification/Deque_Spec.thy ===== *)
theory Deque_Spec
  imports Prelude
begin

text \<open>
  The interface of a bounded queue with Rust's \<open>Result\<close>/\<open>Option\<close> conventions:
  \<open>push_back\<close> and \<open>push_front\<close> hand the element back when the queue is full,
  \<open>pop_front\<close> returns \<open>None\<close> when it is empty. The abstraction of a queue is the
  list of its elements, oldest first.
\<close>

datatype 'a deque_op = PushBack 'a | PopFront | PushFront 'a

text \<open>What an operation answers: whether a push was taken, and what a pop returned.\<close>

datatype 'a deque_answer = Pushed bool | Popped "'a option"

text \<open>The reference queue: a list of at most \<open>n\<close> elements.\<close>

fun list_step :: "nat \<Rightarrow> 'a list \<Rightarrow> 'a deque_op \<Rightarrow> 'a deque_answer \<times> 'a list" where
  "list_step n xs (PushBack x) =
     (if length xs < n then (Pushed True, xs @ [x]) else (Pushed False, xs))"
| "list_step n xs PopFront =
     (case xs of [] \<Rightarrow> (Popped None, []) | y # ys \<Rightarrow> (Popped (Some y), ys))"
| "list_step n xs (PushFront x) =
     (if length xs < n then (Pushed True, x # xs) else (Pushed False, xs))"

fun list_run :: "nat \<Rightarrow> 'a list \<Rightarrow> 'a deque_op list \<Rightarrow> 'a deque_answer list \<times> 'a list" where
  "list_run n xs [] = ([], xs)"
| "list_run n xs (c # cs) =
     (let (a, ys) = list_step n xs c; (as, zs) = list_run n ys cs in (a # as, zs))"

text \<open>An implementation, run on the same commands.\<close>

fun impl_step ::
  "('q \<Rightarrow> 'a \<Rightarrow> ('a + unit) \<times> 'q) \<Rightarrow> ('q \<Rightarrow> 'a option \<times> 'q) \<Rightarrow> ('q \<Rightarrow> 'a \<Rightarrow> ('a + unit) \<times> 'q)
   \<Rightarrow> 'q \<Rightarrow> 'a deque_op \<Rightarrow> 'a deque_answer \<times> 'q" where
  "impl_step pb pf pu q (PushBack x) =
     (let (r, q') = pb q x in (Pushed (case r of Inl _ \<Rightarrow> False | Inr _ \<Rightarrow> True), q'))"
| "impl_step pb pf pu q PopFront = (let (r, q') = pf q in (Popped r, q'))"
| "impl_step pb pf pu q (PushFront x) =
     (let (r, q') = pu q x in (Pushed (case r of Inl _ \<Rightarrow> False | Inr _ \<Rightarrow> True), q'))"

fun impl_run ::
  "('q \<Rightarrow> 'a \<Rightarrow> ('a + unit) \<times> 'q) \<Rightarrow> ('q \<Rightarrow> 'a option \<times> 'q) \<Rightarrow> ('q \<Rightarrow> 'a \<Rightarrow> ('a + unit) \<times> 'q)
   \<Rightarrow> 'q \<Rightarrow> 'a deque_op list \<Rightarrow> 'a deque_answer list \<times> 'q" where
  "impl_run pb pf pu q [] = ([], q)"
| "impl_run pb pf pu q (c # cs) =
     (let (a, q1) = impl_step pb pf pu q c; (as, q2) = impl_run pb pf pu q1 cs in (a # as, q2))"

locale bounded_deque =
  fixes capacity :: nat
    and contents :: "'q \<Rightarrow> 'a list"
    and invar :: "'q \<Rightarrow> bool"
    and push_back :: "'q \<Rightarrow> 'a \<Rightarrow> ('a + unit) \<times> 'q"
    and pop_front :: "'q \<Rightarrow> 'a option \<times> 'q"
    and push_front :: "'q \<Rightarrow> 'a \<Rightarrow> ('a + unit) \<times> 'q"
  assumes bounded: "invar q \<Longrightarrow> length (contents q) \<le> capacity"
    and push_back_full:
      "invar q \<Longrightarrow> length (contents q) = capacity \<Longrightarrow> push_back q x = (Inl x, q)"
    and push_back_room:
      "invar q \<Longrightarrow> length (contents q) < capacity \<Longrightarrow>
       \<exists>q'. push_back q x = (Inr (), q') \<and> invar q' \<and> contents q' = contents q @ [x]"
    and pop_front_empty:
      "invar q \<Longrightarrow> contents q = [] \<Longrightarrow> pop_front q = (None, q)"
    and pop_front_cons:
      "invar q \<Longrightarrow> contents q = x # xs \<Longrightarrow>
       \<exists>q'. pop_front q = (Some x, q') \<and> invar q' \<and> contents q' = xs"
    and push_front_full:
      "invar q \<Longrightarrow> length (contents q) = capacity \<Longrightarrow> push_front q x = (Inl x, q)"
    and push_front_room:
      "invar q \<Longrightarrow> length (contents q) < capacity \<Longrightarrow>
       \<exists>q'. push_front q x = (Inr (), q') \<and> invar q' \<and> contents q' = x # contents q"
begin

lemma step_refines:
  assumes "invar q" and "impl_step push_back pop_front push_front q c = (a, q')"
  shows "invar q' \<and> list_step capacity (contents q) c = (a, contents q')"
proof (cases c)
  case (PushBack x)
  show ?thesis
  proof (cases "length (contents q) < capacity")
    case True
    with assms PushBack push_back_room[OF assms(1) True, of x] show ?thesis by auto
  next
    case False
    with bounded[OF assms(1)] have "length (contents q) = capacity" by simp
    with assms PushBack push_back_full[OF assms(1) this, of x] False show ?thesis by auto
  qed
next
  case PopFront
  show ?thesis
  proof (cases "contents q")
    case Nil
    with assms PopFront pop_front_empty[OF assms(1) Nil] show ?thesis by auto
  next
    case (Cons y ys)
    with assms PopFront pop_front_cons[OF assms(1) Cons] show ?thesis by auto
  qed
next
  case (PushFront x)
  show ?thesis
  proof (cases "length (contents q) < capacity")
    case True
    with assms PushFront push_front_room[OF assms(1) True, of x] show ?thesis by auto
  next
    case False
    with bounded[OF assms(1)] have "length (contents q) = capacity" by simp
    with assms PushFront push_front_full[OF assms(1) this, of x] False show ?thesis by auto
  qed
qed

lemma run_refines:
  assumes "invar q" and "impl_run push_back pop_front push_front q cs = (as, q')"
  shows "invar q' \<and> list_run capacity (contents q) cs = (as, contents q')"
  using assms
proof (induction cs arbitrary: q as q')
  case Nil
  then show ?case by simp
next
  case (Cons c cs)
  obtain a q1 where s: "impl_step push_back pop_front push_front q c = (a, q1)"
    by (metis surj_pair)
  obtain bs q2 where r: "impl_run push_back pop_front push_front q1 cs = (bs, q2)"
    by (metis surj_pair)
  from step_refines[OF Cons.prems(1) s] have q1: "invar q1"
      "list_step capacity (contents q) c = (a, contents q1)" by auto
  from Cons.IH[OF q1(1) r] q1(2) s r Cons.prems(2) show ?case by simp
qed

lemma pop_then_push_front:
  assumes "invar q" "pop_front q = (Some x, q1)"
  shows "\<exists>q2. push_front q1 x = (Inr (), q2) \<and> invar q2 \<and> contents q2 = contents q"
proof (cases "contents q")
  case Nil
  with assms pop_front_empty[OF assms(1) Nil] show ?thesis by simp
next
  case (Cons y ys)
  with assms pop_front_cons[OF assms(1) Cons] have q1: "invar q1" "contents q1 = ys" "y = x"
    by auto
  from bounded[OF assms(1)] Cons have "length ys < capacity" by simp
  with push_front_room[OF q1(1), of x] q1 Cons show ?thesis by auto
qed

end

end
