(* ===== verification/Channel.thy ===== *)
theory Channel
  imports Capability Deque_Spec
begin

text \<open>
  Messages and channel endpoints (\<open>kernel/core/src/ipc/types.rs\<close> and
  \<open>endpoint.rs\<close>): the fixed-size outgoing message, the envelope an endpoint queues,
  the received message, and the bounded ring of envelopes behind an endpoint.
  The ring is shown to implement the \<open>bounded_deque\<close> interface.
\<close>

section \<open>Messages\<close>

definition MAX_MESSAGE_WORDS :: nat where "MAX_MESSAGE_WORDS = 16"
definition IPC_MAX_HANDLES :: nat where "IPC_MAX_HANDLES = 8"
definition MAX_MESSAGE_CAPABILITIES :: nat where "MAX_MESSAGE_CAPABILITIES = IPC_MAX_HANDLES"
definition MAX_QUEUED_MESSAGES_PER_ENDPOINT :: nat where "MAX_QUEUED_MESSAGES_PER_ENDPOINT = 64"

type_synonym message_tag = nat

record message_buffer_descriptor =
  bd_word_count :: nat
  bd_transfers_capability :: bool

record shared_memory_hint =
  hint_offset_bytes :: nat
  hint_length_bytes :: nat
  hint_writable :: bool

datatype ipc_error =
    EndpointNotReady
  | BufferShapeInvalid
  | CapabilityFailure capability_error
  | ObjectKindMismatch
  | EndpointClosed
  | InvalidReplyEndpoint
  | QueueEmpty
  | QueueFull nat nat
  | MessageTooLarge nat nat
  | TooManyTransfers nat nat

text \<open>Fixed-size arrays are lists; \<open>message_shape\<close> below fixes their lengths.\<close>

record outgoing_message =
  om_tag :: message_tag
  om_word_count :: nat
  om_words :: "u64 list"
  om_capability_count :: nat
  om_capabilities :: "prepared_transfer option list"
  om_reply_endpoint :: "prepared_transfer option"
  om_shared_memory_hint :: "shared_memory_hint option"

record message_envelope =
  me_tag :: message_tag
  me_word_count :: nat
  me_words :: "u64 list"
  me_capability_count :: nat
  me_capabilities :: "prepared_transfer option list"
  me_reply_endpoint :: "prepared_transfer option"
  me_shared_memory_hint :: "shared_memory_hint option"

record received_message =
  rm_tag :: message_tag
  rm_word_count :: nat
  rm_words :: "u64 list"
  rm_transferred_capability_count :: nat
  rm_transferred_capabilities :: "capability_handle list"
  rm_reply_endpoint :: "capability_handle option"
  rm_shared_memory_hint :: "shared_memory_hint option"

record message_receipt =
  mr_peer :: object_id
  mr_descriptor :: message_buffer_descriptor


definition outgoing_message_new ::
  "message_tag \<Rightarrow> u64 list \<Rightarrow> ipc_error + outgoing_message" where
  "outgoing_message_new tag words =
     (if length words > MAX_MESSAGE_WORDS
      then Inl (MessageTooLarge (length words) MAX_MESSAGE_WORDS)
      else Inr \<lparr>om_tag = tag, om_word_count = length words,
                om_words = copy_prefix (replicate MAX_MESSAGE_WORDS 0) words,
                om_capability_count = 0,
                om_capabilities = replicate MAX_MESSAGE_CAPABILITIES None,
                om_reply_endpoint = None, om_shared_memory_hint = None\<rparr>)"

definition add_transfer ::
  "outgoing_message \<Rightarrow> prepared_transfer \<Rightarrow> ipc_error + outgoing_message" where
  "add_transfer message transfer =
     (if om_capability_count message = MAX_MESSAGE_CAPABILITIES
      then Inl (TooManyTransfers (om_capability_count message + 1) MAX_MESSAGE_CAPABILITIES)
      else Inr (message\<lparr>om_capabilities :=
                  (om_capabilities message)[om_capability_count message := Some transfer],
                om_capability_count := om_capability_count message + 1\<rparr>))"

definition with_reply_endpoint :: "outgoing_message \<Rightarrow> prepared_transfer \<Rightarrow> outgoing_message" where
  "with_reply_endpoint message reply = message\<lparr>om_reply_endpoint := Some reply\<rparr>"

definition with_shared_memory_hint ::
  "outgoing_message \<Rightarrow> shared_memory_hint \<Rightarrow> outgoing_message" where
  "with_shared_memory_hint message hint = message\<lparr>om_shared_memory_hint := Some hint\<rparr>"

definition message_descriptor :: "outgoing_message \<Rightarrow> message_buffer_descriptor" where
  "message_descriptor message =
     \<lparr>bd_word_count = om_word_count message,
      bd_transfers_capability =
        (om_capability_count message \<noteq> 0 \<or> om_reply_endpoint message \<noteq> None)\<rparr>"

definition received_words :: "received_message \<Rightarrow> u64 list" where
  "received_words message = take (rm_word_count message) (rm_words message)"

definition received_capabilities :: "received_message \<Rightarrow> capability_handle list" where
  "received_capabilities message =
     take (rm_transferred_capability_count message) (rm_transferred_capabilities message)"

text \<open>The shape every message built by the constructors has: the first
  \<open>capability_count\<close> slots are filled and the rest are empty.\<close>

definition message_shape :: "outgoing_message \<Rightarrow> bool" where
  "message_shape message \<longleftrightarrow>
     length (om_words message) = MAX_MESSAGE_WORDS \<and>
     om_word_count message \<le> MAX_MESSAGE_WORDS \<and>
     length (om_capabilities message) = MAX_MESSAGE_CAPABILITIES \<and>
     om_capability_count message \<le> MAX_MESSAGE_CAPABILITIES \<and>
     (\<forall>i < MAX_MESSAGE_CAPABILITIES.
        (om_capabilities message ! i \<noteq> None) = (i < om_capability_count message))"

lemma message_shape_new:
  "outgoing_message_new tag words = Inr message \<Longrightarrow> message_shape message"
  by (auto simp: outgoing_message_new_def message_shape_def split: if_splits)

lemma message_shape_add_transfer:
  "message_shape message \<Longrightarrow> add_transfer message t = Inr message' \<Longrightarrow> message_shape message'"
  by (auto simp: add_transfer_def message_shape_def nth_list_update less_Suc_eq split: if_splits)

lemma message_shape_with_reply_endpoint:
  "message_shape message \<Longrightarrow> message_shape (with_reply_endpoint message t)"
  by (simp add: with_reply_endpoint_def message_shape_def)

lemma message_shape_with_hint:
  "message_shape message \<Longrightarrow> message_shape (with_shared_memory_hint message hint)"
  by (simp add: with_shared_memory_hint_def message_shape_def)

section \<open>The message queue\<close>

record 'e message_queue =
  mq_slots :: "'e option list"
  mq_head :: nat
  mq_len :: nat

definition message_queue_new :: "'e message_queue" where
  "message_queue_new =
     \<lparr>mq_slots = replicate MAX_QUEUED_MESSAGES_PER_ENDPOINT None, mq_head = 0, mq_len = 0\<rparr>"

definition push_back :: "'e message_queue \<Rightarrow> 'e \<Rightarrow> ('e + unit) \<times> 'e message_queue" where
  "push_back q envelope =
     (if mq_len q = length (mq_slots q) then (Inl envelope, q)
      else let index = (mq_head q + mq_len q) mod length (mq_slots q)
           in (Inr (), q\<lparr>mq_slots := (mq_slots q)[index := Some envelope],
                         mq_len := mq_len q + 1\<rparr>))"

definition pop_front :: "'e message_queue \<Rightarrow> 'e option \<times> 'e message_queue" where
  "pop_front q =
     (if mq_len q = 0 then (None, q)
      else (mq_slots q ! mq_head q,
            q\<lparr>mq_slots := (mq_slots q)[mq_head q := None],
              mq_head := (mq_head q + 1) mod length (mq_slots q),
              mq_len := mq_len q - 1\<rparr>))"

definition push_front :: "'e message_queue \<Rightarrow> 'e \<Rightarrow> ('e + unit) \<times> 'e message_queue" where
  "push_front q envelope =
     (if mq_len q = length (mq_slots q) then (Inl envelope, q)
      else let head = (mq_head q + length (mq_slots q) - 1) mod length (mq_slots q)
           in (Inr (), q\<lparr>mq_slots := (mq_slots q)[head := Some envelope],
                         mq_head := head, mq_len := mq_len q + 1\<rparr>))"

text \<open>An endpoint: a weak reference to its peer and the queue of messages sent to it.\<close>

record channel_endpoint =
  ep_peer :: "object_id option"
  ep_queue :: "message_envelope message_queue"

definition channel_endpoint_new :: channel_endpoint where
  "channel_endpoint_new = \<lparr>ep_peer = None, ep_queue = message_queue_new\<rparr>"

definition connect :: "channel_endpoint \<Rightarrow> object_id \<Rightarrow> channel_endpoint" where
  "connect endpoint peer = endpoint\<lparr>ep_peer := Some peer\<rparr>"

section \<open>The ring implements a bounded deque\<close>

definition mq_inv :: "'e message_queue \<Rightarrow> bool" where
  "mq_inv q \<longleftrightarrow>
     length (mq_slots q) = MAX_QUEUED_MESSAGES_PER_ENDPOINT \<and>
     mq_head q < length (mq_slots q) \<and> mq_len q \<le> length (mq_slots q) \<and>
     (\<forall>i < length (mq_slots q).
        (mq_slots q ! ((mq_head q + i) mod length (mq_slots q)) \<noteq> None) = (i < mq_len q))"

definition mq_contents :: "'e message_queue \<Rightarrow> 'e list" where
  "mq_contents q = map the (ring_slice (mq_slots q) (mq_head q) (mq_len q))"

lemma length_mq_contents [simp]: "length (mq_contents q) = mq_len q"
  by (simp add: mq_contents_def)

lemma mq_inv_new: "mq_inv message_queue_new"
  by (simp add: mq_inv_def message_queue_new_def MAX_QUEUED_MESSAGES_PER_ENDPOINT_def)

lemma mq_contents_new [simp]: "mq_contents message_queue_new = []"
  by (simp add: mq_contents_def message_queue_new_def)

lemma push_back_mq_inv:
  assumes "mq_inv q" "mq_len q < length (mq_slots q)"
  shows "mq_inv (q\<lparr>mq_slots := (mq_slots q)[(mq_head q + mq_len q) mod length (mq_slots q) := Some e],
      mq_len := mq_len q + 1\<rparr>)"
proof -
  let ?n = "length (mq_slots q)"
  let ?k = "(mq_head q + mq_len q) mod ?n"
  have n0: "0 < ?n" using assms(2) by linarith
  then have k: "?k < ?n" by (rule mod_less_divisor)
  have "(mq_slots q)[?k := Some e] ! ((mq_head q + i) mod ?n) \<noteq> None \<longleftrightarrow> i < mq_len q + 1"
    if "i < ?n" for i
  proof (cases "i = mq_len q")
    case True
    with k show ?thesis by simp
  next
    case False
    then have "(mq_head q + i) mod ?n \<noteq> ?k"
      using ring_index_inj[OF that assms(2)] by auto
    with assms(1) that False show ?thesis by (auto simp: mq_inv_def)
  qed
  with assms show ?thesis by (simp add: mq_inv_def)
qed

lemma push_back_contents:
  assumes "mq_inv q" "mq_len q < length (mq_slots q)"
  shows "mq_contents (q\<lparr>mq_slots := (mq_slots q)[(mq_head q + mq_len q) mod length (mq_slots q) := Some e],
      mq_len := mq_len q + 1\<rparr>) = mq_contents q @ [e]"
proof -
  have "0 < length (mq_slots q)" using assms by linarith
  then show ?thesis
    using assms(2) ring_slice_append[of "(mq_slots q)[(mq_head q + mq_len q) mod length (mq_slots q) := Some e]"
        "mq_head q" "mq_len q" 1]
    by (simp add: mq_contents_def ring_slice_update_outside ring_slice_Suc_front)
qed

text \<open>Moving the head to the next slot, or back to the previous one, renumbers the offsets.\<close>

lemma pop_front_mq_inv:
  assumes "mq_inv q" "0 < mq_len q"
  shows "mq_inv (q\<lparr>mq_slots := (mq_slots q)[mq_head q := None],
      mq_head := (mq_head q + 1) mod length (mq_slots q), mq_len := mq_len q - 1\<rparr>)"
proof -
  let ?n = "length (mq_slots q)" and ?h = "mq_head q"
  have h: "?h < ?n" using assms by (simp add: mq_inv_def)
  have slots: "(mq_slots q ! ((?h + i) mod ?n) \<noteq> None) = (i < mq_len q)" if "i < ?n" for i
    using assms(1) that unfolding mq_inv_def by blast
  have "(mq_slots q)[?h := None] ! (((?h + 1) mod ?n + i) mod ?n) \<noteq> None \<longleftrightarrow> i < mq_len q - 1"
    if i: "i < ?n" for i
  proof -
    have idx: "((?h + 1) mod ?n + i) mod ?n = (?h + Suc i) mod ?n"
      by (simp add: mod_add_left_eq)
    show ?thesis
    proof (cases "Suc i < ?n")
      case True
      have "0 < ?n" using True by linarith
      with True ring_index_inj[of "Suc i" ?n 0 ?h] h have "(?h + Suc i) mod ?n \<noteq> ?h"
        by (metis add_0_right mod_less nat.distinct(1))
      then have "(mq_slots q)[?h := None] ! ((?h + Suc i) mod ?n) = mq_slots q ! ((?h + Suc i) mod ?n)"
        by simp
      with slots[OF True] show ?thesis by (simp only: idx) auto
    next
      case False
      with i have "Suc i = ?n" by simp
      with h have "(?h + Suc i) mod ?n = ?h" by simp
      moreover have "mq_len q \<le> ?n" using assms(1) by (simp add: mq_inv_def)
      ultimately show ?thesis using h \<open>Suc i = ?n\<close> by (simp only: idx nth_list_update_eq) auto
    qed
  qed
  with assms h show ?thesis by (auto simp: mq_inv_def)
qed

lemma mq_contents_Cons:
  assumes "mq_inv q" "0 < mq_len q"
  shows "\<exists>x. mq_slots q ! mq_head q = Some x \<and> mq_contents q =
    x # mq_contents (q\<lparr>mq_slots := (mq_slots q)[mq_head q := None],
      mq_head := (mq_head q + 1) mod length (mq_slots q), mq_len := mq_len q - 1\<rparr>)"
proof -
  let ?n = "length (mq_slots q)" and ?h = "mq_head q"
  have h: "?h < ?n" "mq_len q \<le> ?n" using assms by (auto simp: mq_inv_def)
  have "0 < ?n" using h(1) by linarith
  with assms have "mq_slots q ! ((?h + 0) mod ?n) \<noteq> None"
    unfolding mq_inv_def by blast
  with h obtain x where x: "mq_slots q ! ?h = Some x" by auto
  have "ring_slice ((mq_slots q)[?h := None]) (Suc ?h) (mq_len q - 1)
      = ring_slice (mq_slots q) (Suc ?h) (mq_len q - 1)"
    using h assms(2) by (intro ring_slice_update_before) auto
  moreover have "ring_slice (mq_slots q) ?h (mq_len q)
      = mq_slots q ! ?h # ring_slice (mq_slots q) (Suc ?h) (mq_len q - 1)"
    using ring_slice_Suc_front[of "mq_slots q" ?h "mq_len q - 1"] h assms(2) by simp
  moreover have "ring_slice ((mq_slots q)[?h := None]) ((?h + 1) mod ?n) (mq_len q - 1)
      = ring_slice ((mq_slots q)[?h := None]) (Suc ?h) (mq_len q - 1)"
    using ring_slice_mod[of "(mq_slots q)[?h := None]" "Suc ?h"] by simp
  ultimately show ?thesis using x by (simp add: mq_contents_def)
qed

lemma push_front_mq_inv:
  assumes "mq_inv q" "mq_len q < length (mq_slots q)"
  shows "mq_inv (q\<lparr>mq_slots := (mq_slots q)[(mq_head q + length (mq_slots q) - 1) mod length (mq_slots q) := Some e],
      mq_head := (mq_head q + length (mq_slots q) - 1) mod length (mq_slots q), mq_len := mq_len q + 1\<rparr>)"
proof -
  let ?n = "length (mq_slots q)"
  let ?p = "(mq_head q + ?n - 1) mod ?n"
  have h: "mq_head q < ?n" using assms by (simp add: mq_inv_def)
  then have "0 < ?n" by linarith
  then have p: "?p < ?n" by (rule mod_less_divisor)
  have "(mq_slots q)[?p := Some e] ! ((?p + i) mod ?n) \<noteq> None \<longleftrightarrow> i < mq_len q + 1"
    if i: "i < ?n" for i
  proof (cases i)
    case 0
    with p show ?thesis by simp
  next
    case (Suc j)
    have "(?p + i) mod ?n = (Suc ?p mod ?n + j) mod ?n" by (simp add: Suc mod_add_left_eq)
    also have "\<dots> = (mq_head q + j) mod ?n" by (simp only: ring_prev[OF h])
    finally have idx: "(?p + i) mod ?n = (mq_head q + j) mod ?n" .
    have "(?p + i) mod ?n \<noteq> ?p"
      using ring_index_inj[OF i \<open>0 < ?n\<close>, of ?p] p Suc by auto
    then have "(mq_slots q)[?p := Some e] ! ((?p + i) mod ?n) = mq_slots q ! ((mq_head q + j) mod ?n)"
      by (metis idx nth_list_update_neq)
    moreover have "j < ?n" using i Suc by simp
    then have "(mq_slots q ! ((mq_head q + j) mod ?n) \<noteq> None) = (j < mq_len q)"
      using assms(1) unfolding mq_inv_def by blast
    ultimately show ?thesis using Suc by simp
  qed
  with assms p show ?thesis by (simp add: mq_inv_def)
qed

lemma push_front_contents:
  assumes "mq_inv q" "mq_len q < length (mq_slots q)"
  shows "mq_contents (q\<lparr>mq_slots := (mq_slots q)[(mq_head q + length (mq_slots q) - 1) mod length (mq_slots q) := Some e],
      mq_head := (mq_head q + length (mq_slots q) - 1) mod length (mq_slots q), mq_len := mq_len q + 1\<rparr>)
    = e # mq_contents q"
proof -
  let ?n = "length (mq_slots q)"
  let ?p = "(mq_head q + ?n - 1) mod ?n"
  let ?s = "(mq_slots q)[?p := Some e]"
  have h: "mq_head q < ?n" using assms by (simp add: mq_inv_def)
  then have "0 < ?n" by linarith
  then have p: "?p < ?n" by (rule mod_less_divisor)
  have "ring_slice ?s (Suc ?p) (mq_len q) = ring_slice (mq_slots q) (Suc ?p) (mq_len q)"
    using p assms(2) by (rule ring_slice_update_before)
  also have "\<dots> = ring_slice (mq_slots q) (mq_head q) (mq_len q)"
    using ring_slice_mod[of "mq_slots q" "Suc ?p"] ring_prev[OF h] by simp
  finally show ?thesis
    using p by (simp add: mq_contents_def ring_slice_Suc_front)
qed

interpretation mq: bounded_deque MAX_QUEUED_MESSAGES_PER_ENDPOINT mq_contents mq_inv
  push_back pop_front push_front
proof unfold_locales
  fix q :: "'a message_queue" and x :: 'a and xs
  assume inv: "mq_inv q"
  then have n: "length (mq_slots q) = MAX_QUEUED_MESSAGES_PER_ENDPOINT" by (simp add: mq_inv_def)
  show "length (mq_contents q) \<le> MAX_QUEUED_MESSAGES_PER_ENDPOINT"
    using inv by (simp add: mq_inv_def)
  show "push_back q x = (Inl x, q)" "push_front q x = (Inl x, q)"
    if "length (mq_contents q) = MAX_QUEUED_MESSAGES_PER_ENDPOINT"
    using that n by (simp_all add: push_back_def push_front_def)
  show "\<exists>q'. push_back q x = (Inr (), q') \<and> mq_inv q' \<and> mq_contents q' = mq_contents q @ [x]"
    "\<exists>q'. push_front q x = (Inr (), q') \<and> mq_inv q' \<and> mq_contents q' = x # mq_contents q"
    if "length (mq_contents q) < MAX_QUEUED_MESSAGES_PER_ENDPOINT"
    using that n push_back_mq_inv[OF inv] push_back_contents[OF inv]
      push_front_mq_inv[OF inv] push_front_contents[OF inv]
    by (simp_all add: push_back_def push_front_def Let_def)
  show "pop_front q = (None, q)" if "mq_contents q = []"
  proof -
    from that have "mq_len q = 0" by (metis length_mq_contents list.size(3))
    then show ?thesis by (simp add: pop_front_def)
  qed
  show "\<exists>q'. pop_front q = (Some x, q') \<and> mq_inv q' \<and> mq_contents q' = xs"
    if "mq_contents q = x # xs"
  proof -
    from that have "0 < mq_len q" by (metis length_mq_contents length_greater_0_conv list.discI)
    with that mq_contents_Cons[OF inv] pop_front_mq_inv[OF inv] show ?thesis
      by (auto simp: pop_front_def)
  qed
qed

text \<open>C19. The message queue of an endpoint behaves like a plain first-in first-out list
  of at most 64 envelopes: any sequence of \<open>push_back\<close>, \<open>pop_front\<close> and \<open>push_front\<close>
  calls on a new queue gives, call by call, the answers the list gives, however often the
  head has wrapped around the slot array, and ends with the same envelopes in the same
  order.\<close>

theorem message_queue_refines_fifo:
  "map_prod id mq_contents (impl_run push_back pop_front push_front message_queue_new cs) =
   list_run MAX_QUEUED_MESSAGES_PER_ENDPOINT [] cs"
proof -
  obtain as q where r: "impl_run push_back pop_front push_front message_queue_new cs = (as, q)"
    by (metis surj_pair)
  from mq.run_refines[OF mq_inv_new r] show ?thesis by (simp add: r)
qed

end
