(* ===== verification/Pipe.thy ===== *)
theory Pipe
  imports Prelude
begin

text \<open>
  The byte-stream pipe (\<open>PipeObject\<close> in \<open>kernel/core/src/object/objects.rs\<close>): a
  64 KiB ring buffer whose \<open>head\<close> is the next slot to write and whose \<open>len\<close> bytes
  before it are readable, with reader and writer reference counts. The interface
  \<open>byte_stream\<close> says what a byte stream promises; the pipe implements it.
\<close>

section \<open>The pipe object\<close>

definition PIPE_BUFFER_BYTES :: nat where
  "PIPE_BUFFER_BYTES = 64 * 1024"

record pipe_snapshot =
  readable_bytes :: nat
  free_bytes :: nat
  snapshot_readers :: nat
  snapshot_writers :: nat

datatype pipe_read_outcome = ReadBytes nat | EndOfStream
datatype pipe_write_outcome = WroteBytes nat | WouldBlock | BrokenPipe

record pipe_state =
  pipe_buf :: "u8 list"
  pipe_head :: nat
  pipe_len :: nat
  pipe_readers :: nat
  pipe_writers :: nat

definition pipe_new :: pipe_state where
  "pipe_new = \<lparr>pipe_buf = replicate PIPE_BUFFER_BYTES 0, pipe_head = 0, pipe_len = 0,
               pipe_readers = 1, pipe_writers = 1\<rparr>"

definition pipe_snapshot_of :: "pipe_state \<Rightarrow> pipe_snapshot" where
  "pipe_snapshot_of state =
     \<lparr>readable_bytes = pipe_len state, free_bytes = PIPE_BUFFER_BYTES - pipe_len state,
      snapshot_readers = pipe_readers state, snapshot_writers = pipe_writers state\<rparr>"

text \<open>\<open>read\<close> returns the outcome, the caller's buffer and the new state.\<close>

definition pipe_read ::
  "pipe_state \<Rightarrow> u8 list \<Rightarrow> pipe_read_outcome \<times> u8 list \<times> pipe_state" where
  "pipe_read state out =
     (if pipe_len state = 0 then
        (if pipe_writers state = 0 then (EndOfStream, out, state) else (ReadBytes 0, out, state))
      else if out = [] then (ReadBytes 0, out, state)
      else
        let tail = (pipe_head state + PIPE_BUFFER_BYTES - pipe_len state) mod PIPE_BUFFER_BYTES;
            contiguous = PIPE_BUFFER_BYTES - tail;
            count = min (min (length out) (pipe_len state)) contiguous
        in (ReadBytes count, copy_prefix out (take count (drop tail (pipe_buf state))),
            state\<lparr>pipe_len := pipe_len state - count\<rparr>))"

definition pipe_write :: "pipe_state \<Rightarrow> u8 list \<Rightarrow> pipe_write_outcome \<times> pipe_state" where
  "pipe_write state bytes =
     (if bytes = [] then (WroteBytes 0, state)
      else if pipe_readers state = 0 then (BrokenPipe, state)
      else
        let space = PIPE_BUFFER_BYTES - pipe_len state
        in if space = 0 then (WouldBlock, state)
           else
             let count = min space (length bytes);
                 head = pipe_head state;
                 contiguous = PIPE_BUFFER_BYTES - head;
                 first = min count contiguous;
                 buf = copy_slice (pipe_buf state) head (take first bytes);
                 buf' = (if count > first then copy_slice buf 0 (drop first (take count bytes))
                         else buf)
             in (WroteBytes count,
                 state\<lparr>pipe_buf := buf', pipe_head := (head + count) mod PIPE_BUFFER_BYTES,
                       pipe_len := pipe_len state + count\<rparr>))"

definition close_writer :: "pipe_state \<Rightarrow> bool \<times> pipe_state" where
  "close_writer state =
     (let writers = (if pipe_writers state > 0 then pipe_writers state - 1 else pipe_writers state)
      in (writers = 0, state\<lparr>pipe_writers := writers\<rparr>))"

definition close_reader :: "pipe_state \<Rightarrow> bool \<times> pipe_state" where
  "close_reader state =
     (let readers = (if pipe_readers state > 0 then pipe_readers state - 1 else pipe_readers state)
      in (readers = 0, state\<lparr>pipe_readers := readers\<rparr>))"

definition add_reader :: "pipe_state \<Rightarrow> pipe_state" where
  "add_reader state = state\<lparr>pipe_readers := saturating_add u32_max (pipe_readers state) 1\<rparr>"

definition add_writer :: "pipe_state \<Rightarrow> pipe_state" where
  "add_writer state = state\<lparr>pipe_writers := saturating_add u32_max (pipe_writers state) 1\<rparr>"

section \<open>What a byte stream promises\<close>

text \<open>\<open>put\<close> takes a prefix of the bytes offered and returns how many; \<open>get k\<close> takes at
  most \<open>k\<close> bytes off the front, and at least one when there is one.\<close>

locale byte_stream =
  fixes contents :: "'s \<Rightarrow> 'b list"
    and invar :: "'s \<Rightarrow> bool"
    and put :: "'s \<Rightarrow> 'b list \<Rightarrow> nat \<times> 's"
    and get :: "'s \<Rightarrow> nat \<Rightarrow> 'b list \<times> 's"
  assumes write_law: "invar s \<Longrightarrow> put s bs = (n, s') \<Longrightarrow>
      invar s' \<and> n \<le> length bs \<and> contents s' = contents s @ take n bs"
    and read_law: "invar s \<Longrightarrow> get s k = (xs, s') \<Longrightarrow>
      invar s' \<and> length xs \<le> k \<and> contents s = xs @ contents s'"
    and read_progress: "invar s \<Longrightarrow> contents s \<noteq> [] \<Longrightarrow> 0 < k \<Longrightarrow> get s k = (xs, s') \<Longrightarrow> xs \<noteq> []"

text \<open>Repeated reads of chunks of \<open>k\<close> bytes, \<open>fuel\<close> times at most.\<close>

fun drain :: "('s \<Rightarrow> nat \<Rightarrow> 'b list \<times> 's) \<Rightarrow> nat \<Rightarrow> nat \<Rightarrow> 's \<Rightarrow> 'b list \<times> 's" where
  "drain rd k 0 s = ([], s)"
| "drain rd k (Suc fuel) s =
     (let (xs, s1) = rd s k; (ys, s2) = drain rd k fuel s1 in (xs @ ys, s2))"

context byte_stream
begin

lemma drain_delivers:
  assumes "invar s" "0 < k" "length (contents s) \<le> fuel" "drain get k fuel s = (ys, s')"
  shows "ys = contents s \<and> contents s' = [] \<and> invar s'"
  using assms
proof (induction fuel arbitrary: s ys s')
  case 0
  then show ?case by simp
next
  case (Suc fuel)
  obtain xs s1 where r: "get s k = (xs, s1)" by (metis surj_pair)
  obtain zs s2 where d: "drain get k fuel s1 = (zs, s2)" by (metis surj_pair)
  from read_law[OF Suc.prems(1) r] have s1: "invar s1" "contents s = xs @ contents s1" by auto
  have "length (contents s1) \<le> fuel"
  proof (cases "contents s = []")
    case False
    from read_progress[OF Suc.prems(1) False Suc.prems(2) r] s1(2) Suc.prems(3) show ?thesis
      by (cases xs) auto
  qed (use s1 in simp)
  from Suc.IH[OF s1(1) Suc.prems(2) this d] s1 r d Suc.prems(4) show ?case by simp
qed

end

section \<open>The ring holds the stream\<close>

definition pipe_tail :: "pipe_state \<Rightarrow> nat" where
  "pipe_tail s = (pipe_head s + PIPE_BUFFER_BYTES - pipe_len s) mod PIPE_BUFFER_BYTES"

definition pipe_contents :: "pipe_state \<Rightarrow> u8 list" where
  "pipe_contents s = ring_slice (pipe_buf s) (pipe_tail s) (pipe_len s)"

definition pipe_inv :: "pipe_state \<Rightarrow> bool" where
  "pipe_inv s \<longleftrightarrow> length (pipe_buf s) = PIPE_BUFFER_BYTES \<and> pipe_head s < PIPE_BUFFER_BYTES \<and>
     pipe_len s \<le> PIPE_BUFFER_BYTES"

lemma PIPE_BUFFER_BYTES_pos [simp]: "0 < PIPE_BUFFER_BYTES"
  by (simp add: PIPE_BUFFER_BYTES_def)

lemma length_pipe_contents [simp]: "length (pipe_contents s) = pipe_len s"
  by (simp add: pipe_contents_def)

lemma pipe_new_inv: "pipe_inv pipe_new"
  by (simp add: pipe_inv_def pipe_new_def)

lemma pipe_new_contents [simp]: "pipe_contents pipe_new = []"
  by (simp add: pipe_contents_def pipe_new_def)

text \<open>Position \<open>i\<close> of the readable bytes, counted from the write head.\<close>

lemma pipe_tail_offset:
  assumes "pipe_inv s"
  shows "(pipe_tail s + i) mod PIPE_BUFFER_BYTES =
         (pipe_head s + (PIPE_BUFFER_BYTES - pipe_len s + i)) mod PIPE_BUFFER_BYTES"
  using assms by (simp add: pipe_tail_def pipe_inv_def mod_add_left_eq add.assoc)

lemma pipe_write_buf:
  assumes "pipe_inv s" and "first = min count (PIPE_BUFFER_BYTES - pipe_head s)"
    and "count \<le> PIPE_BUFFER_BYTES - pipe_len s" "count \<le> length bytes"
    and "s' = s\<lparr>pipe_buf := copy_slice (copy_slice (pipe_buf s) (pipe_head s) (take first bytes)) 0
               (drop first (take count bytes)),
             pipe_head := (pipe_head s + count) mod PIPE_BUFFER_BYTES, pipe_len := pipe_len s + count\<rparr>"
  shows "pipe_inv s' \<and> pipe_contents s' = pipe_contents s @ take count bytes"
proof -
  let ?N = PIPE_BUFFER_BYTES
  note inv = assms(1)[unfolded pipe_inv_def]
  have N: "length (pipe_buf s) = ?N" "pipe_head s < ?N" "pipe_len s \<le> ?N" using inv by auto
  have len': "length (pipe_buf s') = ?N"
    using assms N by (auto simp: min_def)
  have inv': "pipe_inv s'"
    using assms N len' by (simp add: pipe_inv_def)
  have nth: "pipe_buf s' ! ((pipe_head s + i) mod ?N) =
      (if i < count then bytes ! i else pipe_buf s ! ((pipe_head s + i) mod ?N))" if "i < ?N" for i
    using ring_split_write_nth[of "pipe_head s" "pipe_buf s" count bytes first i] that assms N
    by simp
  have tail: "(pipe_tail s' + i) mod ?N = (pipe_head s + (?N - pipe_len s + i)) mod ?N" for i
  proof -
    have "(pipe_tail s' + i) mod ?N =
        (pipe_head s + count + (?N - (pipe_len s + count) + i)) mod ?N"
      using pipe_tail_offset[OF inv', of i] by (simp add: assms(5) mod_add_left_eq)
    then show ?thesis using assms(3) N by (simp add: algebra_simps)
  qed
  have "pipe_contents s' ! i = (pipe_contents s @ take count bytes) ! i"
    if i: "i < pipe_len s + count" for i
  proof (cases "i < pipe_len s")
    case True
    have "?N - pipe_len s + i < ?N" "count \<le> ?N - pipe_len s + i" using True N assms(3) by auto
    then have "pipe_contents s' ! i = pipe_buf s ! ((pipe_head s + (?N - pipe_len s + i)) mod ?N)"
      using i nth[of "?N - pipe_len s + i"]
      by (simp add: pipe_contents_def assms(5)[THEN arg_cong[where f = pipe_len]] len' tail)
    with True show ?thesis
      by (simp add: pipe_contents_def nth_append pipe_tail_offset[OF assms(1)] N)
  next
    case False
    then obtain j where j: "i = pipe_len s + j" by (metis le_add_diff_inverse not_less)
    have "(pipe_tail s' + i) mod ?N = (pipe_head s + j) mod ?N"
      using tail[of i] N by (simp add: j) (metis add.assoc add.commute mod_add_self2)
    with i j nth[of j] assms(3) show ?thesis
      by (simp add: pipe_contents_def nth_append assms(5)[THEN arg_cong[where f = pipe_len]] len')
  qed
  moreover have "pipe_len s' = pipe_len s + count" using assms(5) by simp
  ultimately have "pipe_contents s' = pipe_contents s @ take count bytes"
    using assms(4) by (intro nth_equalityI) auto
  with inv' show ?thesis by simp
qed

lemma pipe_write_cases:
  assumes "pipe_inv s" "pipe_write s bytes = (outcome, s')"
  obtains (refused) "s' = s" "outcome \<in> {WroteBytes 0, WouldBlock, BrokenPipe}"
  | (taken) count where "outcome = WroteBytes count" "pipe_inv s'" "0 < count"
      "count = min (PIPE_BUFFER_BYTES - pipe_len s) (length bytes)"
      "pipe_contents s' = pipe_contents s @ take count bytes"
      "pipe_readers s' = pipe_readers s" "pipe_writers s' = pipe_writers s"
proof (cases "bytes = [] \<or> pipe_readers s = 0 \<or> PIPE_BUFFER_BYTES - pipe_len s = 0")
  case True
  with assms(2) refused show ?thesis by (auto simp: pipe_write_def Let_def split: if_splits)
next
  case False
  let ?c = "min (PIPE_BUFFER_BYTES - pipe_len s) (length bytes)"
  let ?f = "min ?c (PIPE_BUFFER_BYTES - pipe_head s)"
  let ?b1 = "copy_slice (pipe_buf s) (pipe_head s) (take ?f bytes)"
  let ?b2 = "copy_slice ?b1 0 (drop ?f (take ?c bytes))"
  have b: "(if ?f < ?c then ?b2 else ?b1) = ?b2" by auto
  have "pipe_write s bytes = (WroteBytes ?c, s\<lparr>pipe_buf := (if ?f < ?c then ?b2 else ?b1),
      pipe_head := (pipe_head s + ?c) mod PIPE_BUFFER_BYTES, pipe_len := pipe_len s + ?c\<rparr>)"
    using False unfolding pipe_write_def Let_def by simp
  with assms(2) have o: "outcome = WroteBytes ?c" "s' = s\<lparr>pipe_buf := ?b2,
      pipe_head := (pipe_head s + ?c) mod PIPE_BUFFER_BYTES, pipe_len := pipe_len s + ?c\<rparr>"
    unfolding b by simp_all
  have w: "pipe_inv s'" "pipe_contents s' = pipe_contents s @ take ?c bytes"
    using pipe_write_buf[OF assms(1) refl _ _ o(2)] by simp_all
  have "0 < ?c" using False by simp
  then show ?thesis by (rule taken[OF o(1) w(1) _ refl w(2)]) (simp_all add: o(2))
qed

lemma pipe_read_slice:
  assumes "pipe_inv s" "count \<le> pipe_len s" "count \<le> PIPE_BUFFER_BYTES - pipe_tail s"
    and "s' = s\<lparr>pipe_len := pipe_len s - count\<rparr>"
  shows "pipe_inv s' \<and> length (take count (drop (pipe_tail s) (pipe_buf s))) = count \<and>
    pipe_contents s = take count (drop (pipe_tail s) (pipe_buf s)) @ pipe_contents s'"
proof -
  let ?N = PIPE_BUFFER_BYTES
  have N: "length (pipe_buf s) = ?N" "pipe_len s \<le> ?N" using assms(1) by (auto simp: pipe_inv_def)
  have t: "pipe_tail s < ?N" by (simp add: pipe_tail_def)
  have inv': "pipe_inv s'" using assms(1) by (auto simp: pipe_inv_def assms(4))
  have tail': "(pipe_tail s' + i) mod ?N = (pipe_tail s + count + i) mod ?N" for i
    using pipe_tail_offset[OF inv', of i] pipe_tail_offset[OF assms(1), of "count + i"] assms(2) N
    by (simp add: assms(4) algebra_simps)
  have "ring_slice (pipe_buf s) (pipe_tail s) count = take count (drop (pipe_tail s) (pipe_buf s))"
    using assms(3) N t by (intro nth_equalityI) auto
  moreover have "ring_slice (pipe_buf s) (pipe_tail s + count) (pipe_len s - count) =
      pipe_contents s'"
    using tail' N by (intro nth_equalityI) (auto simp: pipe_contents_def assms(4))
  ultimately show ?thesis
    using ring_slice_append[of "pipe_buf s" "pipe_tail s" count "pipe_len s - count"] assms(2,3) N inv' t
    by (simp add: pipe_contents_def)
qed

lemma pipe_read_cases:
  assumes "pipe_inv s" "pipe_read s out = (outcome, out', s')"
  obtains (eof) "outcome = EndOfStream" "pipe_contents s = []" "pipe_writers s = 0" "s' = s" "out' = out"
  | (none) "outcome = ReadBytes 0" "s' = s" "out' = out" "pipe_contents s = [] \<and> pipe_writers s > 0
      \<or> pipe_contents s \<noteq> [] \<and> out = []"
  | (some) count where "outcome = ReadBytes count" "0 < count" "count \<le> length out" "pipe_inv s'"
      "pipe_contents s = take count out' @ pipe_contents s'" "length (take count out') = count"
      "pipe_readers s' = pipe_readers s" "pipe_writers s' = pipe_writers s"
proof (cases "pipe_len s = 0 \<or> out = []")
  case True
  have e: "pipe_contents s = [] \<longleftrightarrow> pipe_len s = 0" by (metis length_pipe_contents length_0_conv)
  show ?thesis
  proof (cases "pipe_len s = 0 \<and> pipe_writers s = 0")
    case eos: True
    with assms(2) e show ?thesis by (intro eof) (simp_all add: pipe_read_def)
  next
    case False
    with assms(2) True e show ?thesis
      by (intro none) (simp_all add: pipe_read_def split: if_splits)
  qed
next
  case False
  let ?c = "min (min (length out) (pipe_len s)) (PIPE_BUFFER_BYTES - pipe_tail s)"
  let ?t = "take ?c (drop (pipe_tail s) (pipe_buf s))"
  have "pipe_tail s < PIPE_BUFFER_BYTES" by (simp add: pipe_tail_def)
  with False have pos: "0 < ?c" by simp
  from False assms(2) have o: "outcome = ReadBytes ?c" "out' = copy_prefix out ?t"
    "s' = s\<lparr>pipe_len := pipe_len s - ?c\<rparr>"
    by (simp_all add: pipe_read_def Let_def pipe_tail_def)
  from pipe_read_slice[OF assms(1) _ _ o(3)] have r: "pipe_inv s'" "length ?t = ?c"
    "pipe_contents s = ?t @ pipe_contents s'" by auto
  from r(2) have t: "take ?c out' = ?t" unfolding o(2) by (metis take_copy_prefix)
  show ?thesis
  proof (rule some)
    show "outcome = ReadBytes ?c" "0 < ?c" "pipe_inv s'" by (fact o pos r)+
    show "?c \<le> length out" by simp
    show "pipe_contents s = take ?c out' @ pipe_contents s'" using r(3) t by simp
    show "length (take ?c out') = ?c" using r(2) t by simp
  qed (simp_all add: o(3))
qed

text \<open>The pipe seen as a byte stream: what a write accepted and what a read delivered.\<close>

definition pipe_put :: "pipe_state \<Rightarrow> u8 list \<Rightarrow> nat \<times> pipe_state" where
  "pipe_put s bytes =
     (case pipe_write s bytes of (outcome, s') \<Rightarrow>
        (case outcome of WroteBytes n \<Rightarrow> n | _ \<Rightarrow> 0, s'))"

definition pipe_get :: "pipe_state \<Rightarrow> nat \<Rightarrow> u8 list \<times> pipe_state" where
  "pipe_get s k =
     (case pipe_read s (replicate k 0) of (outcome, out, s') \<Rightarrow>
        (case outcome of ReadBytes n \<Rightarrow> take n out | EndOfStream \<Rightarrow> [], s'))"

lemma pipe_put_law:
  assumes "pipe_inv s" "pipe_put s bytes = (n, s')"
  shows "pipe_inv s' \<and> n \<le> length bytes \<and> pipe_contents s' = pipe_contents s @ take n bytes"
proof -
  obtain outcome where w: "pipe_write s bytes = (outcome, s')"
    and n: "n = (case outcome of WroteBytes n \<Rightarrow> n | _ \<Rightarrow> 0)"
    using assms(2) by (auto simp: pipe_put_def split: prod.splits)
  from assms(1) w show ?thesis by (cases rule: pipe_write_cases) (use n assms(1) in auto)
qed

lemma pipe_get_law:
  assumes "pipe_inv s" "pipe_get s k = (xs, s')"
  shows "pipe_inv s' \<and> length xs \<le> k \<and> pipe_contents s = xs @ pipe_contents s'"
    and "pipe_contents s \<noteq> [] \<Longrightarrow> 0 < k \<Longrightarrow> xs \<noteq> []"
proof -
  obtain outcome out where r: "pipe_read s (replicate k 0) = (outcome, out, s')"
    and xs: "xs = (case outcome of ReadBytes n \<Rightarrow> take n out | EndOfStream \<Rightarrow> [])"
    using assms(2) by (auto simp: pipe_get_def split: prod.splits)
  from assms(1) r show "pipe_inv s' \<and> length xs \<le> k \<and> pipe_contents s = xs @ pipe_contents s'"
    by (cases rule: pipe_read_cases) (use xs assms(1) in auto)
  from assms(1) r show "pipe_contents s \<noteq> [] \<Longrightarrow> 0 < k \<Longrightarrow> xs \<noteq> []"
    by (cases rule: pipe_read_cases) (use xs in auto)
qed

interpretation pipe_stream: byte_stream pipe_contents pipe_inv pipe_put pipe_get
  by unfold_locales (use pipe_put_law pipe_get_law in blast)+

section \<open>Histories of a pipe\<close>

text \<open>Any interleaving of reads, writes and reference-count changes by any number of
  holders, with the bytes each call accepted and delivered.\<close>

datatype pipe_op =
    PipeWrite "u8 list" | PipeRead "u8 list" | CloseWriter | CloseReader | AddWriter | AddReader

fun pipe_step :: "pipe_state \<Rightarrow> pipe_op \<Rightarrow> u8 list \<times> u8 list \<times> pipe_state" where
  "pipe_step s (PipeWrite bytes) =
     (case pipe_write s bytes of (outcome, s') \<Rightarrow>
        (case outcome of WroteBytes n \<Rightarrow> take n bytes | _ \<Rightarrow> [], [], s'))"
| "pipe_step s (PipeRead out) =
     (case pipe_read s out of (outcome, out', s') \<Rightarrow>
        ([], case outcome of ReadBytes n \<Rightarrow> take n out' | EndOfStream \<Rightarrow> [], s'))"
| "pipe_step s CloseWriter = ([], [], snd (close_writer s))"
| "pipe_step s CloseReader = ([], [], snd (close_reader s))"
| "pipe_step s AddWriter = ([], [], add_writer s)"
| "pipe_step s AddReader = ([], [], add_reader s)"

fun pipe_run :: "pipe_state \<Rightarrow> pipe_op list \<Rightarrow> u8 list \<times> u8 list \<times> pipe_state" where
  "pipe_run s [] = ([], [], s)"
| "pipe_run s (c # cs) =
     (let (accepted, delivered, s1) = pipe_step s c; (accepted', delivered', s2) = pipe_run s1 cs
      in (accepted @ accepted', delivered @ delivered', s2))"

lemma pipe_step_stream:
  assumes "pipe_inv s" "pipe_step s c = (accepted, delivered, s')"
  shows "pipe_inv s' \<and> pipe_contents s @ accepted = delivered @ pipe_contents s'"
proof (cases c)
  case (PipeWrite bytes)
  with assms(2) obtain outcome where w: "pipe_write s bytes = (outcome, s')"
    and a: "accepted = (case outcome of WroteBytes n \<Rightarrow> take n bytes | _ \<Rightarrow> [])" "delivered = []"
    by (auto split: prod.splits)
  from assms(1) w show ?thesis by (cases rule: pipe_write_cases) (use a assms(1) in auto)
next
  case (PipeRead out)
  with assms(2) obtain outcome out' where r: "pipe_read s out = (outcome, out', s')"
    and d: "delivered = (case outcome of ReadBytes n \<Rightarrow> take n out' | EndOfStream \<Rightarrow> [])" "accepted = []"
    by (auto split: prod.splits)
  from assms(1) r show ?thesis by (cases rule: pipe_read_cases) (use d assms(1) in auto)
qed (use assms in \<open>auto simp: close_writer_def close_reader_def add_writer_def add_reader_def Let_def
       pipe_inv_def pipe_contents_def pipe_tail_def\<close>)

lemma pipe_run_stream:
  assumes "pipe_inv s" "pipe_run s cs = (accepted, delivered, s')"
  shows "pipe_inv s' \<and> pipe_contents s @ accepted = delivered @ pipe_contents s'"
  using assms
proof (induction cs arbitrary: s accepted delivered s')
  case (Cons c cs)
  obtain a1 d1 s1 where s: "pipe_step s c = (a1, d1, s1)" by (metis surj_pair)
  obtain a2 d2 s2 where r: "pipe_run s1 cs = (a2, d2, s2)" by (metis surj_pair)
  from pipe_step_stream[OF Cons.prems(1) s] have 1: "pipe_inv s1"
    "pipe_contents s @ a1 = d1 @ pipe_contents s1" by auto
  from Cons.IH[OF 1(1) r] have 2: "pipe_inv s2" "pipe_contents s1 @ a2 = d2 @ pipe_contents s2"
    by auto
  have "pipe_contents s @ a1 @ a2 = d1 @ d2 @ pipe_contents s2"
    using 1(2) 2(2) by (metis append.assoc)
  with 2(1) s r Cons.prems(2) show ?case by simp
qed simp


text \<open>Every accepted byte can be read back, whatever the interleaving was and whoever
  has closed the pipe since: reading in chunks of \<open>k > 0\<close> bytes as many times as there are
  buffered bytes returns precisely what was accepted and not yet delivered, and the next read
  reports end of stream exactly when every writer has closed.\<close>

theorem pipe_delivers_every_byte:
  assumes "0 < k"
  shows "case pipe_run pipe_new cs of (accepted, delivered, s) \<Rightarrow>
     (case drain pipe_get k (pipe_len s) s of (rest, s') \<Rightarrow>
        delivered @ rest = accepted \<and>
        (fst (pipe_read s' (replicate k 0)) = EndOfStream \<longleftrightarrow> pipe_writers s' = 0))"
proof -
  obtain a d s where r: "pipe_run pipe_new cs = (a, d, s)" by (metis surj_pair)
  obtain rest s' where dr: "drain pipe_get k (pipe_len s) s = (rest, s')" by (metis surj_pair)
  from pipe_run_stream[OF pipe_new_inv r] have s: "pipe_inv s" "a = d @ pipe_contents s" by auto
  from pipe_stream.drain_delivers[OF s(1) assms _ dr] have "rest = pipe_contents s"
    "pipe_contents s' = []" by auto
  moreover from this(2) have "pipe_len s' = 0" by (metis length_pipe_contents list.size(3))
  ultimately show ?thesis using s(2) by (simp add: r dr pipe_read_def)
qed

theorem pipe_delivers_every_byte_witness:
  "case pipe_run pipe_new [PipeWrite [1, 2, 3], CloseWriter] of (accepted, delivered, s) \<Rightarrow>
     (case drain pipe_get 2 (pipe_len s) s of (rest, s') \<Rightarrow>
        delivered @ rest = accepted \<and>
        (fst (pipe_read s' (replicate 2 0)) = EndOfStream \<longleftrightarrow> pipe_writers s' = 0))"
  by (rule pipe_delivers_every_byte) simp

end
