(* ===== verification/Phys_Frames.thy ===== *)
theory Phys_Frames
  imports Prelude "HOL-Library.Multiset"
begin

text \<open>
  The physical frame allocator (\<open>kernel/core/src/memory/phys.rs\<close>) over the boot
  memory map (\<open>kernel/core/src/bootstrap/types.rs\<close>). The fixed arrays
  \<open>regions[..region_count]\<close> and \<open>reclaimed[..reclaimed_count]\<close> are the lists of
  their used entries; the code never reads the entries past the count. Frame numbers
  and addresses are natural numbers; the only addition of the source that can pass
  \<open>u64::MAX\<close> is the one in \<open>align_up\<close>, which wraps.
  The frames an allocator can still hand out form a multiset, so that handing out
  a frame twice is visible as a multiplicity.
\<close>

section \<open>Addresses, frames and the boot memory map\<close>

type_synonym physical_address = nat

definition PAGE_SIZE_BYTES :: nat where "PAGE_SIZE_BYTES = 4096"

definition align_up :: "physical_address \<Rightarrow> nat \<Rightarrow> physical_address" where
  "align_up address align =
     (let remainder = address mod align
      in if remainder = 0 then address else wrapping_add u64_max address (align - remainder))"

definition align_down :: "physical_address \<Rightarrow> nat \<Rightarrow> physical_address" where
  "align_down address align = address - address mod align"

datatype page_size = Size4KiB | Size2MiB | Size1GiB

fun page_size_bytes :: "page_size \<Rightarrow> nat" where
  "page_size_bytes Size4KiB = 4 * 1024"
| "page_size_bytes Size2MiB = 2 * 1024 * 1024"
| "page_size_bytes Size1GiB = 1024 * 1024 * 1024"

record frame =
  frame_base :: physical_address
  frame_size :: page_size

datatype boot_memory_region_kind =
    Usable | BootServicesReclaimable | BootloaderOwned | AcpiReclaimable
  | FirmwareReserved | Device | Reserved | Unknown nat

record boot_memory_region =
  br_start :: physical_address
  br_end :: physical_address
  br_kind :: boot_memory_region_kind

datatype mapping_error = AddressAlignment | AlreadyMapped | FrameAllocationFailed | Unsupported

datatype initialization_error =
    MissingMemoryMap | HeapAlreadyInitialized | KernelHeapExhausted
  | Mapping mapping_error | TooManyUsableRegions

section \<open>The allocator\<close>

definition MAX_ALLOCATABLE_REGIONS :: nat where "MAX_ALLOCATABLE_REGIONS = 128"
definition MAX_RECLAIMED_REGIONS :: nat where "MAX_RECLAIMED_REGIONS = 256"

record frame_region_cursor =
  start_frame :: nat
  end_frame_exclusive :: nat
  next_frame :: nat

record early_frame_allocator =
  regions :: "frame_region_cursor list"
  active_region :: nat
  allocated_frames :: nat
  reclaimed_boot_service_frames :: nat
  reclaimed :: "frame_region_cursor list"
  freed_frames_recorded :: nat
  dropped_free_frames :: nat

record frame_allocator_stats =
  fs_allocatable_regions :: nat
  fs_allocated_frames :: nat
  fs_remaining_frames :: nat
  fs_reclaimed_boot_service_frames :: nat
  fs_freed_frames_recorded :: nat
  fs_dropped_free_frames :: nat

definition push_region ::
  "frame_region_cursor list \<Rightarrow> nat \<Rightarrow> nat \<Rightarrow> initialization_error + frame_region_cursor list" where
  "push_region rs lo hi =
     (if length rs = MAX_ALLOCATABLE_REGIONS then Inl TooManyUsableRegions
      else Inr (rs @ [\<lparr>start_frame = lo, end_frame_exclusive = hi, next_frame = lo\<rparr>]))"

definition region_frames :: "boot_memory_region \<Rightarrow> nat \<times> nat" where
  "region_frames region =
     (align_up (br_start region) PAGE_SIZE_BYTES div PAGE_SIZE_BYTES,
      align_down (br_end region) PAGE_SIZE_BYTES div PAGE_SIZE_BYTES)"

text \<open>The loop both constructors run: append the whole frames of every region of one kind,
  and count them. The regions pushed before an error stay pushed.\<close>

fun push_boot_regions ::
  "boot_memory_region_kind \<Rightarrow> boot_memory_region list \<Rightarrow> frame_region_cursor list \<Rightarrow> nat
   \<Rightarrow> (initialization_error + nat) \<times> frame_region_cursor list" where
  "push_boot_regions kind [] rs reclaimed_frames = (Inr reclaimed_frames, rs)"
| "push_boot_regions kind (region # rest) rs reclaimed_frames =
     (if br_kind region \<noteq> kind then push_boot_regions kind rest rs reclaimed_frames
      else
        (case region_frames region of (lo, hi) \<Rightarrow>
           if hi \<le> lo then push_boot_regions kind rest rs reclaimed_frames
           else
             (case push_region rs lo hi of
                Inl e \<Rightarrow> (Inl e, rs)
              | Inr rs' \<Rightarrow>
                  push_boot_regions kind rest rs' (saturating_add u64_max reclaimed_frames (hi - lo)))))"

definition from_boot_context ::
  "boot_memory_region list \<Rightarrow> initialization_error + early_frame_allocator" where
  "from_boot_context memory_regions =
     (case push_boot_regions Usable memory_regions [] 0 of
        (Inl e, _) \<Rightarrow> Inl e
      | (Inr _, rs) \<Rightarrow>
          Inr \<lparr>regions = rs, active_region = 0, allocated_frames = 0,
               reclaimed_boot_service_frames = 0, reclaimed = [],
               freed_frames_recorded = 0, dropped_free_frames = 0\<rparr>)"

definition reclaim_boot_services ::
  "early_frame_allocator \<Rightarrow> boot_memory_region list
   \<Rightarrow> (initialization_error + nat) \<times> early_frame_allocator" where
  "reclaim_boot_services a memory_regions =
     (case push_boot_regions BootServicesReclaimable memory_regions (regions a) 0 of
        (Inl e, rs) \<Rightarrow> (Inl e, a\<lparr>regions := rs\<rparr>)
      | (Inr reclaimed_frames, rs) \<Rightarrow>
          (Inr reclaimed_frames,
           a\<lparr>regions := rs,
             reclaimed_boot_service_frames :=
               saturating_add u64_max (reclaimed_boot_service_frames a) reclaimed_frames\<rparr>))"

text \<open>\<open>allocate_4kib\<close> first walks the reclaimed pool, then the boot regions from the active one.\<close>

fun take_reclaimed :: "frame_region_cursor list \<Rightarrow> (nat \<times> frame_region_cursor list) option" where
  "take_reclaimed [] = None"
| "take_reclaimed (region # rest) =
     (if next_frame region < end_frame_exclusive region
      then Some (next_frame region, region\<lparr>next_frame := next_frame region + 1\<rparr> # rest)
      else (case take_reclaimed rest of
              None \<Rightarrow> None
            | Some (f, rest') \<Rightarrow> Some (f, region # rest')))"

function take_fresh ::
  "frame_region_cursor list \<Rightarrow> nat \<Rightarrow> nat option \<times> frame_region_cursor list \<times> nat" where
  "take_fresh rs active =
     (if active < length rs then
        let region = rs ! active
        in if next_frame region < end_frame_exclusive region
           then (Some (next_frame region), rs[active := region\<lparr>next_frame := next_frame region + 1\<rparr>], active)
           else take_fresh rs (active + 1)
      else (None, rs, active))"
  by pat_completeness auto
termination by (relation "measure (\<lambda>(rs, active). length rs - active)") auto

declare take_fresh.simps [simp del]

definition frame_at :: "nat \<Rightarrow> frame" where
  "frame_at frame_number = \<lparr>frame_base = frame_number * PAGE_SIZE_BYTES, frame_size = Size4KiB\<rparr>"

definition allocate_4kib :: "early_frame_allocator \<Rightarrow> frame option \<times> early_frame_allocator" where
  "allocate_4kib a =
     (case take_reclaimed (reclaimed a) of
        Some (f, pool) \<Rightarrow>
          (Some (frame_at f), a\<lparr>reclaimed := pool, allocated_frames := allocated_frames a + 1\<rparr>)
      | None \<Rightarrow>
          (case take_fresh (regions a) (active_region a) of
             (Some f, rs, active) \<Rightarrow>
               (Some (frame_at f),
                a\<lparr>regions := rs, active_region := active, allocated_frames := allocated_frames a + 1\<rparr>)
           | (None, rs, active) \<Rightarrow> (None, a\<lparr>regions := rs, active_region := active\<rparr>)))"

definition remove_reclaimed :: "frame_region_cursor list \<Rightarrow> nat \<Rightarrow> frame_region_cursor list" where
  "remove_reclaimed pool index = take index pool @ drop (index + 1) pool"

definition absorb_right :: "frame_region_cursor list \<Rightarrow> nat \<Rightarrow> frame_region_cursor list" where
  "absorb_right pool index =
     (if index + 1 < length pool
         \<and> end_frame_exclusive (pool ! index) = start_frame (pool ! (index + 1))
      then remove_reclaimed
             (pool[index := (pool ! index)\<lparr>end_frame_exclusive := end_frame_exclusive (pool ! (index + 1))\<rparr>])
             (index + 1)
      else pool)"

definition absorb_left :: "frame_region_cursor list \<Rightarrow> nat \<Rightarrow> frame_region_cursor list" where
  "absorb_left pool index =
     (if index > 0
         \<and> end_frame_exclusive (pool ! (index - 1)) = start_frame (pool ! index)
      then remove_reclaimed
             (pool[index - 1 := (pool ! (index - 1))\<lparr>end_frame_exclusive := end_frame_exclusive (pool ! index)\<rparr>])
             index
      else pool)"

text \<open>The scan of \<open>free_4kib\<close>: the merged pool, or the slot to insert a new region at.\<close>

function scan_free ::
  "frame_region_cursor list \<Rightarrow> nat \<Rightarrow> nat \<Rightarrow> nat \<Rightarrow> frame_region_cursor list + nat" where
  "scan_free pool frame_number index insert_at =
     (if index < length pool then
        let region = pool ! index
        in if end_frame_exclusive region = frame_number then
             Inl (absorb_right
                    (pool[index := region\<lparr>end_frame_exclusive := end_frame_exclusive region + 1\<rparr>]) index)
           else if start_frame region = frame_number + 1 \<and> next_frame region = start_frame region then
             Inl (absorb_left
                    (pool[index := region\<lparr>start_frame := frame_number, next_frame := frame_number\<rparr>]) index)
           else
             scan_free pool frame_number (index + 1)
               (if start_frame region > frame_number \<and> insert_at = length pool then index else insert_at)
      else Inr insert_at)"
  by pat_completeness auto
termination by (relation "measure (\<lambda>(pool, f, index, i). length pool - index)") auto

declare scan_free.simps [simp del]

definition free_4kib :: "early_frame_allocator \<Rightarrow> physical_address \<Rightarrow> bool \<times> early_frame_allocator" where
  "free_4kib a base =
     (if base mod PAGE_SIZE_BYTES \<noteq> 0 then (False, a)
      else
        let frame_number = base div PAGE_SIZE_BYTES
        in case scan_free (reclaimed a) frame_number 0 (length (reclaimed a)) of
             Inl pool \<Rightarrow>
               (True, a\<lparr>reclaimed := pool, freed_frames_recorded := freed_frames_recorded a + 1\<rparr>)
           | Inr insert_at \<Rightarrow>
               if length (reclaimed a) = MAX_RECLAIMED_REGIONS
               then (False, a\<lparr>dropped_free_frames := dropped_free_frames a + 1\<rparr>)
               else
                 (True,
                  a\<lparr>reclaimed :=
                      take insert_at (reclaimed a)
                      @ [\<lparr>start_frame = frame_number, end_frame_exclusive = frame_number + 1,
                          next_frame = frame_number\<rparr>]
                      @ drop insert_at (reclaimed a),
                    freed_frames_recorded := freed_frames_recorded a + 1\<rparr>))"

definition cursor_frames :: "frame_region_cursor list \<Rightarrow> nat" where
  "cursor_frames rs = sum_list (map (\<lambda>r. end_frame_exclusive r - next_frame r) rs)"

definition remaining_frames :: "early_frame_allocator \<Rightarrow> nat" where
  "remaining_frames a = cursor_frames (regions a)"

definition reclaimable_frames :: "early_frame_allocator \<Rightarrow> nat" where
  "reclaimable_frames a = cursor_frames (reclaimed a)"

definition usable_headroom_frames :: "early_frame_allocator \<Rightarrow> nat" where
  "usable_headroom_frames a = remaining_frames a + reclaimable_frames a"

definition frame_stats :: "early_frame_allocator \<Rightarrow> frame_allocator_stats" where
  "frame_stats a =
     \<lparr>fs_allocatable_regions = length (regions a), fs_allocated_frames = allocated_frames a,
      fs_remaining_frames = remaining_frames a,
      fs_reclaimed_boot_service_frames = reclaimed_boot_service_frames a,
      fs_freed_frames_recorded = freed_frames_recorded a,
      fs_dropped_free_frames = dropped_free_frames a\<rparr>"

section \<open>The frames an allocator can still hand out\<close>

definition cursor_mset :: "frame_region_cursor \<Rightarrow> nat multiset" where
  "cursor_mset r = mset [next_frame r..<end_frame_exclusive r]"

fun cursors_mset :: "frame_region_cursor list \<Rightarrow> nat multiset" where
  "cursors_mset [] = {#}"
| "cursors_mset (r # rs) = cursor_mset r + cursors_mset rs"

definition cursor_ok :: "frame_region_cursor \<Rightarrow> bool" where
  "cursor_ok r \<longleftrightarrow> start_frame r \<le> next_frame r \<and> next_frame r \<le> end_frame_exclusive r"

definition available :: "early_frame_allocator \<Rightarrow> nat multiset" where
  "available a = cursors_mset (reclaimed a) + cursors_mset (drop (active_region a) (regions a))"

definition allocator_inv :: "early_frame_allocator \<Rightarrow> bool" where
  "allocator_inv a \<longleftrightarrow> list_all cursor_ok (regions a) \<and> list_all cursor_ok (reclaimed a) \<and>
     active_region a \<le> length (regions a) \<and>
     (\<forall>r \<in> set (take (active_region a) (regions a)). next_frame r = end_frame_exclusive r)"

lemma cursor_ok_fresh [simp]:
  "cursor_ok \<lparr>start_frame = lo, end_frame_exclusive = hi, next_frame = lo\<rparr> \<longleftrightarrow> lo \<le> hi"
  by (simp add: cursor_ok_def)

lemma cursors_mset_append [simp]: "cursors_mset (xs @ ys) = cursors_mset xs + cursors_mset ys"
  by (induction xs) auto

lemma cursor_mset_next:
  "next_frame r < end_frame_exclusive r \<Longrightarrow>
   cursor_mset r = add_mset (next_frame r) (cursor_mset (r\<lparr>next_frame := next_frame r + 1\<rparr>))"
  by (simp add: cursor_mset_def upt_conv_Cons)

lemma cursor_mset_empty [simp]: "end_frame_exclusive r \<le> next_frame r \<Longrightarrow> cursor_mset r = {#}"
  by (simp add: cursor_mset_def)

lemma cursors_mset_update:
  "i < length rs \<Longrightarrow> cursors_mset (rs[i := r]) + cursor_mset (rs ! i) = cursors_mset rs + cursor_mset r"
proof (induction rs arbitrary: i)
  case (Cons x xs)
  then show ?case
  proof (cases i)
    case (Suc j)
    with Cons.IH[of j] Cons.prems show ?thesis by (simp add: ac_simps)
  qed (simp add: ac_simps)
qed simp

lemma cursors_mset_remove:
  "i < length rs \<Longrightarrow> cursors_mset rs = cursor_mset (rs ! i) + cursors_mset (remove_reclaimed rs i)"
  by (subst id_take_nth_drop[of i rs]) (auto simp: remove_reclaimed_def ac_simps)

lemma cursors_mset_size: "size (cursors_mset rs) = cursor_frames rs"
  by (induction rs) (auto simp: cursor_frames_def cursor_mset_def)

lemma cursors_mset_exhausted:
  "\<forall>r \<in> set rs. next_frame r = end_frame_exclusive r \<Longrightarrow> cursors_mset rs = {#}"
  by (induction rs) auto

section \<open>Allocation\<close>

lemma take_reclaimed_Some:
  "take_reclaimed rs = Some (f, rs') \<Longrightarrow> list_all cursor_ok rs \<Longrightarrow>
   cursors_mset rs = add_mset f (cursors_mset rs') \<and> list_all cursor_ok rs'"
proof (induction rs arbitrary: rs')
  case (Cons r rs)
  show ?case
  proof (cases "next_frame r < end_frame_exclusive r")
    case True
    with Cons.prems cursor_mset_next[OF True] show ?thesis by (auto simp: cursor_ok_def)
  next
    case False
    with Cons show ?thesis by (auto split: option.splits)
  qed
qed simp

lemma take_reclaimed_None: "take_reclaimed rs = None \<Longrightarrow> cursors_mset rs = {#}"
  by (induction rs) (auto split: if_splits option.splits)

lemma take_fresh_Some:
  assumes "take_fresh rs k = (Some f, rs', k')" "list_all cursor_ok rs"
    "\<forall>r \<in> set (take k rs). next_frame r = end_frame_exclusive r"
  shows "cursors_mset (drop k rs) = add_mset f (cursors_mset (drop k' rs')) \<and>
    list_all cursor_ok rs' \<and> k' < length rs' \<and>
    (\<forall>r \<in> set (take k' rs'). next_frame r = end_frame_exclusive r)"
  using assms
proof (induction rs k arbitrary: f rs' k' rule: take_fresh.induct)
  case (1 rs k)
  from "1.prems"(1) have k: "k < length rs"
    by (subst (asm) take_fresh.simps) (auto split: if_splits)
  note d = Cons_nth_drop_Suc[OF k, symmetric]
  have ok: "cursor_ok (rs ! k)" using "1.prems"(2) k by (simp add: list_all_length)
  show ?case
  proof (cases "next_frame (rs ! k) < end_frame_exclusive (rs ! k)")
    case True
    with "1.prems"(1) k have r: "f = next_frame (rs ! k)" "k' = k"
      "rs' = rs[k := (rs ! k)\<lparr>next_frame := next_frame (rs ! k) + 1\<rparr>]"
      by (subst (asm) take_fresh.simps, simp add: Let_def)+
    with True k d "1.prems" ok cursor_mset_next[OF True] show ?thesis
      by (auto simp: drop_update_swap list_all_length nth_list_update cursor_ok_def
          Cons_nth_drop_Suc[symmetric])
  next
    case False
    then have e: "next_frame (rs ! k) = end_frame_exclusive (rs ! k)"
      using ok by (simp add: cursor_ok_def)
    have n: "take_fresh rs (k + 1) = (Some f, rs', k')"
      using "1.prems"(1) k False by (subst (asm) take_fresh.simps) (simp add: Let_def)
    have "\<forall>r \<in> set (take (k + 1) rs). next_frame r = end_frame_exclusive r"
      using "1.prems"(3) e k by (auto simp: take_Suc_conv_app_nth)
    from "1.IH"[OF k refl False n "1.prems"(2) this] d e show ?thesis by simp
  qed
qed

lemma take_fresh_None:
  assumes "take_fresh rs k = (None, rs', k')" "list_all cursor_ok rs" "k \<le> length rs"
    "\<forall>r \<in> set (take k rs). next_frame r = end_frame_exclusive r"
  shows "cursors_mset (drop k rs) = {#} \<and> rs' = rs \<and> k' = length rs \<and>
    (\<forall>r \<in> set rs. next_frame r = end_frame_exclusive r)"
  using assms
proof (induction rs k arbitrary: rs' k' rule: take_fresh.induct)
  case (1 rs k)
  show ?case
  proof (cases "k < length rs")
    case k: True
    have ok: "cursor_ok (rs ! k)" using "1.prems"(2) k by (simp add: list_all_length)
    have False': "\<not> next_frame (rs ! k) < end_frame_exclusive (rs ! k)"
      using "1.prems"(1) k by (subst (asm) take_fresh.simps) (auto simp: Let_def split: if_splits)
    then have e: "next_frame (rs ! k) = end_frame_exclusive (rs ! k)"
      using ok by (simp add: cursor_ok_def)
    have n: "take_fresh rs (k + 1) = (None, rs', k')"
      using "1.prems"(1) k False' by (subst (asm) take_fresh.simps) (simp add: Let_def)
    have "\<forall>r \<in> set (take (k + 1) rs). next_frame r = end_frame_exclusive r"
      using "1.prems"(4) e k by (auto simp: take_Suc_conv_app_nth)
    from "1.IH"[OF k refl False' n "1.prems"(2) _ this] e k Cons_nth_drop_Suc[OF k, symmetric]
    show ?thesis by simp
  next
    case False
    with "1.prems" show ?thesis by (subst (asm) (1) take_fresh.simps) auto
  qed
qed

text \<open>One allocation takes one available frame; it fails only when none is left.\<close>

lemma allocate_Some:
  assumes "allocator_inv a" "allocate_4kib a = (Some fr, a')"
  shows "\<exists>f. fr = frame_at f \<and> available a = add_mset f (available a') \<and> allocator_inv a'"
proof (cases "take_reclaimed (reclaimed a)")
  case (Some q)
  obtain f pool where q: "q = (f, pool)" by (metis surj_pair)
  from assms Some q take_reclaimed_Some[of "reclaimed a" f pool] show ?thesis
    by (auto simp: allocate_4kib_def available_def allocator_inv_def)
next
  case None
  from assms None obtain f rs k where t: "take_fresh (regions a) (active_region a) = (Some f, rs, k)"
    and r: "fr = frame_at f"
      "a' = a\<lparr>regions := rs, active_region := k, allocated_frames := allocated_frames a + 1\<rparr>"
    by (auto simp: allocate_4kib_def split: prod.splits option.splits)
  from take_fresh_Some[OF t] assms(1) r show ?thesis
    by (auto simp: available_def allocator_inv_def)
qed

lemma allocate_None:
  assumes "allocator_inv a" "allocate_4kib a = (None, a')"
  shows "available a = {#} \<and> available a' = {#} \<and> allocator_inv a'"
proof -
  from assms(2) obtain rs k where n: "take_reclaimed (reclaimed a) = None"
    and t: "take_fresh (regions a) (active_region a) = (None, rs, k)"
    and a': "a' = a\<lparr>regions := rs, active_region := k\<rparr>"
    by (auto simp: allocate_4kib_def split: prod.splits option.splits)
  from take_fresh_None[OF t] assms(1) take_reclaimed_None[OF n] a' show ?thesis
    by (auto simp: available_def allocator_inv_def)
qed

section \<open>Freeing\<close>

text \<open>The merge of \<open>absorb_right\<close> keeps the left cursor and drops the right one, and with it the
  right cursor's position: it is sound only when the right region is still untouched. The
  predicate says that freeing a frame would merge with a right neighbour that has already
  handed out some of its frames.\<close>

definition merges_consumed_region :: "frame_region_cursor list \<Rightarrow> nat \<Rightarrow> bool" where
  "merges_consumed_region pool f \<longleftrightarrow>
     (\<exists>i < length pool - 1. end_frame_exclusive (pool ! i) = f \<and>
        start_frame (pool ! (i + 1)) = f + 1 \<and> next_frame (pool ! (i + 1)) \<noteq> f + 1)"

lemma list_all_remove_reclaimed: "list_all P rs \<Longrightarrow> list_all P (remove_reclaimed rs i)"
  by (auto simp: remove_reclaimed_def list_all_iff dest: in_set_takeD in_set_dropD)

lemma list_all_update: "list_all P rs \<Longrightarrow> P r \<Longrightarrow> list_all P (rs[i := r])"
  by (cases "i < length rs") (auto simp: list_all_length nth_list_update)

lemma cursor_mset_join:
  "next_frame l \<le> m \<Longrightarrow> m \<le> e \<Longrightarrow>
   cursor_mset (l\<lparr>end_frame_exclusive := e\<rparr>) =
   cursor_mset (l\<lparr>end_frame_exclusive := m\<rparr>) + mset [m..<e]"
  using upt_add_eq_append[of "next_frame l" m "e - m"] by (simp add: cursor_mset_def)

lemma cursor_mset_extend:
  "next_frame r \<le> end_frame_exclusive r \<Longrightarrow>
   cursor_mset (r\<lparr>end_frame_exclusive := end_frame_exclusive r + 1\<rparr>) =
   add_mset (end_frame_exclusive r) (cursor_mset r)"
  by (simp add: cursor_mset_def)

lemma absorb_right_frames:
  assumes "list_all cursor_ok pool" "i < length pool"
    and "i + 1 < length pool \<Longrightarrow> end_frame_exclusive (pool ! i) = start_frame (pool ! (i + 1)) \<Longrightarrow>
         next_frame (pool ! (i + 1)) = start_frame (pool ! (i + 1))"
  shows "cursors_mset (absorb_right pool i) = cursors_mset pool \<and>
         list_all cursor_ok (absorb_right pool i)"
proof (cases "i + 1 < length pool \<and> end_frame_exclusive (pool ! i) = start_frame (pool ! (i + 1))")
  case True
  let ?l = "pool ! i" and ?r = "pool ! (i + 1)"
  let ?l' = "?l\<lparr>end_frame_exclusive := end_frame_exclusive ?r\<rparr>"
  have ok: "cursor_ok ?l" "cursor_ok ?r" using assms(1) True by (auto simp: list_all_length)
  have "cursor_mset ?l' = cursor_mset ?l + cursor_mset ?r"
    using cursor_mset_join[of ?l "start_frame ?r" "end_frame_exclusive ?r"] True ok assms(3)
    by (auto simp: cursor_ok_def cursor_mset_def)
  moreover have "cursors_mset (pool[i := ?l']) = cursor_mset ?r + cursors_mset (absorb_right pool i)"
    using cursors_mset_remove[of "i + 1" "pool[i := ?l']"] True by (simp add: absorb_right_def)
  ultimately have "cursors_mset (absorb_right pool i) = cursors_mset pool"
    using cursors_mset_update[OF assms(2), of ?l'] by (simp add: ac_simps)
  moreover have "cursor_ok ?l'" using ok True by (auto simp: cursor_ok_def)
  ultimately show ?thesis
    using assms(1) True by (simp add: absorb_right_def list_all_remove_reclaimed list_all_update)
qed (use assms in \<open>auto simp: absorb_right_def\<close>)

lemma absorb_left_frames:
  assumes "list_all cursor_ok pool" "i < length pool"
    and "next_frame (pool ! i) = start_frame (pool ! i)"
  shows "cursors_mset (absorb_left pool i) = cursors_mset pool \<and>
         list_all cursor_ok (absorb_left pool i)"
proof (cases "i > 0 \<and> end_frame_exclusive (pool ! (i - 1)) = start_frame (pool ! i)")
  case True
  then have "i - 1 + 1 = i" by simp
  with absorb_right_frames[of pool "i - 1"] assms True show ?thesis
    by (simp add: absorb_left_def absorb_right_def)
qed (use assms in \<open>auto simp: absorb_left_def\<close>)

lemma scan_free_merges:
  assumes "scan_free pool f k ins = Inl pool'" "list_all cursor_ok pool"
    "\<not> merges_consumed_region pool f"
  shows "cursors_mset pool' = add_mset f (cursors_mset pool) \<and> list_all cursor_ok pool'"
  using assms
proof (induction pool f k ins rule: scan_free.induct)
  case (1 pool f k ins)
  have k: "k < length pool"
    using "1.prems"(1) by (subst (asm) scan_free.simps) (auto split: if_splits)
  let ?r = "pool ! k"
  have ok: "cursor_ok ?r" using "1.prems"(2) k by (simp add: list_all_length)
  show ?case
  proof (cases "end_frame_exclusive ?r = f")
    case True
    let ?r' = "?r\<lparr>end_frame_exclusive := end_frame_exclusive ?r + 1\<rparr>"
    have p': "pool' = absorb_right (pool[k := ?r']) k"
      using "1.prems"(1) k True by (subst (asm) scan_free.simps) (simp add: Let_def)
    have all: "list_all cursor_ok (pool[k := ?r'])"
      using "1.prems"(2) by (rule list_all_update) (use ok in \<open>simp add: cursor_ok_def\<close>)
    have "next_frame (pool ! (k + 1)) = start_frame (pool ! (k + 1))"
      if "k + 1 < length pool" "f + 1 = start_frame (pool ! (k + 1))"
      using "1.prems"(3) that True unfolding merges_consumed_region_def by force
    with absorb_right_frames[OF all, of k] k True have
      "cursors_mset pool' = cursors_mset (pool[k := ?r']) \<and> list_all cursor_ok pool'"
      by (auto simp: p')
    moreover have "cursors_mset (pool[k := ?r']) = add_mset f (cursors_mset pool)"
      using cursors_mset_update[OF k, of ?r'] cursor_mset_extend[of ?r] ok True
      by (simp add: cursor_ok_def)
    ultimately show ?thesis by simp
  next
    case ne: False
    show ?thesis
    proof (cases "start_frame ?r = f + 1 \<and> next_frame ?r = start_frame ?r")
      case True
      let ?r' = "?r\<lparr>start_frame := f, next_frame := f\<rparr>"
      have p': "pool' = absorb_left (pool[k := ?r']) k"
        using "1.prems"(1) k True ne by (subst (asm) scan_free.simps) (simp add: Let_def)
      have all: "list_all cursor_ok (pool[k := ?r'])"
        using "1.prems"(2) by (rule list_all_update) (use ok True in \<open>simp add: cursor_ok_def\<close>)
      from absorb_left_frames[OF all, of k] k have
        "cursors_mset pool' = cursors_mset (pool[k := ?r']) \<and> list_all cursor_ok pool'"
        by (auto simp: p')
      moreover have "cursor_mset ?r' = add_mset f (cursor_mset ?r)"
        using True ok by (simp add: cursor_mset_def cursor_ok_def upt_conv_Cons)
      then have "cursors_mset (pool[k := ?r']) = add_mset f (cursors_mset pool)"
        using cursors_mset_update[OF k, of ?r'] by simp
      ultimately show ?thesis by simp
    next
      case False
      have "scan_free pool f (k + 1)
          (if start_frame ?r > f \<and> ins = length pool then k else ins) = Inl pool'"
        using "1.prems"(1) k ne False
        by (subst (asm) scan_free.simps) (auto simp: Let_def split: if_splits)
      from "1.IH"[OF k refl ne False this "1.prems"(2,3)] show ?thesis .
    qed
  qed
qed

lemma free_4kib_frames:
  assumes "allocator_inv a" "free_4kib a base = (recorded, a')"
    "\<not> merges_consumed_region (reclaimed a) (base div PAGE_SIZE_BYTES)"
  shows "allocator_inv a' \<and>
    available a' = (if recorded then add_mset (base div PAGE_SIZE_BYTES) (available a) else available a)"
proof (cases "base mod PAGE_SIZE_BYTES = 0")
  case True
  let ?f = "base div PAGE_SIZE_BYTES"
  show ?thesis
  proof (cases "scan_free (reclaimed a) ?f 0 (length (reclaimed a))")
    case (Inl pool)
    with scan_free_merges[OF Inl _ assms(3)] True assms(1,2) show ?thesis
      by (auto simp: free_4kib_def allocator_inv_def available_def)
  next
    case (Inr ins)
    have t: "cursors_mset (take ins xs) + cursors_mset (drop ins xs) = cursors_mset xs" for xs
      by (metis append_take_drop_id cursors_mset_append)
    have "list_all cursor_ok (take ins (reclaimed a))" "list_all cursor_ok (drop ins (reclaimed a))"
      using assms(1) by (auto simp: allocator_inv_def list_all_iff dest: in_set_takeD in_set_dropD)
    with Inr True assms(1,2) t[of "reclaimed a"] show ?thesis
      by (cases "length (reclaimed a) = MAX_RECLAIMED_REGIONS")
        (auto simp: free_4kib_def Let_def allocator_inv_def available_def cursor_mset_def)
  qed
qed (use assms in \<open>auto simp: free_4kib_def\<close>)

section \<open>Building the allocator from the memory map\<close>

text \<open>The whole frames of the regions of one kind, in the order of the map.\<close>

definition boot_frames :: "boot_memory_region_kind \<Rightarrow> boot_memory_region list \<Rightarrow> nat list" where
  "boot_frames kind memory_regions =
     concat (map (\<lambda>region. case region_frames region of (lo, hi) \<Rightarrow> [lo..<hi])
       (filter (\<lambda>region. br_kind region = kind) memory_regions))"

lemma push_boot_regions_frames:
  "push_boot_regions kind memory_regions rs n = (res, rs') \<Longrightarrow>
   \<exists>ys. rs' = rs @ ys \<and> list_all cursor_ok ys \<and>
        cursors_mset ys \<subseteq># mset (boot_frames kind memory_regions)"
proof (induction kind memory_regions rs n rule: push_boot_regions.induct)
  case (2 kind region rest rs n)
  obtain lo hi where f: "region_frames region = (lo, hi)" by (metis surj_pair)
  show ?case
  proof (cases "br_kind region = kind \<and> lo < hi")
    case True
    show ?thesis
    proof (cases "push_region rs lo hi")
      case (Inl e)
      with True f "2.prems" show ?thesis by auto
    next
      case (Inr rs1)
      then have rs1: "rs1 = rs @ [\<lparr>start_frame = lo, end_frame_exclusive = hi, next_frame = lo\<rparr>]"
        by (auto simp: push_region_def split: if_splits)
      from True f Inr "2.prems" "2.IH"(3)[of lo hi rs1] f obtain ys where
        "rs' = rs1 @ ys" "list_all cursor_ok ys"
        "cursors_mset ys \<subseteq># mset (boot_frames kind rest)" by auto
      with rs1 True f show ?thesis
        by (auto simp: boot_frames_def cursor_mset_def)
    qed
  next
    case False
    with f "2.prems" "2.IH"(1,2) have "\<exists>ys. rs' = rs @ ys \<and> list_all cursor_ok ys \<and>
        cursors_mset ys \<subseteq># mset (boot_frames kind rest)" by (auto split: if_splits)
    moreover have "mset (boot_frames kind rest) \<subseteq># mset (boot_frames kind (region # rest))"
      by (simp add: boot_frames_def)
    ultimately show ?thesis by (blast intro: subset_mset.order_trans)
  qed
qed simp

lemma from_boot_context_frames:
  assumes "from_boot_context memory_regions = Inr a"
  shows "allocator_inv a \<and> available a \<subseteq># mset (boot_frames Usable memory_regions)"
proof -
  from assms obtain n rs where p: "push_boot_regions Usable memory_regions [] 0 = (Inr n, rs)"
    and a: "a = \<lparr>regions = rs, active_region = 0, allocated_frames = 0,
               reclaimed_boot_service_frames = 0, reclaimed = [],
               freed_frames_recorded = 0, dropped_free_frames = 0\<rparr>"
    by (auto simp: from_boot_context_def split: prod.splits sum.splits)
  from push_boot_regions_frames[OF p] show ?thesis by (auto simp: a allocator_inv_def available_def)
qed

lemma reclaim_boot_services_frames:
  assumes "allocator_inv a" "reclaim_boot_services a memory_regions = (res, a')"
  shows "allocator_inv a' \<and>
    available a' \<subseteq># available a + mset (boot_frames BootServicesReclaimable memory_regions)"
proof -
  obtain q rs where p:
    "push_boot_regions BootServicesReclaimable memory_regions (regions a) 0 = (q, rs)"
    by (metis surj_pair)
  from assms(2) p have a': "regions a' = rs" "active_region a' = active_region a"
    "reclaimed a' = reclaimed a"
    by (auto simp: reclaim_boot_services_def split: sum.splits)
  from push_boot_regions_frames[OF p] assms(1) show ?thesis
    by (auto simp: allocator_inv_def available_def a' subset_mset.add_left_mono add.assoc)
qed

section \<open>Histories of the allocator\<close>

text \<open>A history allocates, and frees frames that are in use. The second component is the
  multiset of the base addresses of the frames handed out and not freed since.\<close>

inductive frame_step ::
  "early_frame_allocator \<times> physical_address multiset
   \<Rightarrow> early_frame_allocator \<times> physical_address multiset \<Rightarrow> bool" where
  frame_allocated: "allocate_4kib a = (Some f, a') \<Longrightarrow>
     frame_step (a, used) (a', add_mset (frame_base f) used)"
| frame_exhausted: "allocate_4kib a = (None, a') \<Longrightarrow> frame_step (a, used) (a', used)"
| frame_freed: "base \<in># used \<Longrightarrow>
     \<not> merges_consumed_region (reclaimed a) (base div PAGE_SIZE_BYTES) \<Longrightarrow>
     free_4kib a base = (recorded, a') \<Longrightarrow> frame_step (a, used) (a', used - {#base#})"

inductive_cases frame_stepE: "frame_step (a, used) (a', used')"

definition frames_tracked ::
  "nat multiset \<Rightarrow> early_frame_allocator \<times> physical_address multiset \<Rightarrow> bool" where
  "frames_tracked stock s \<longleftrightarrow> allocator_inv (fst s) \<and>
     image_mset (\<lambda>f. f * PAGE_SIZE_BYTES) (available (fst s)) + snd s
       \<subseteq># image_mset (\<lambda>f. f * PAGE_SIZE_BYTES) stock"

lemma PAGE_SIZE_BYTES_pos [simp]: "0 < PAGE_SIZE_BYTES" "PAGE_SIZE_BYTES \<noteq> 0"
  by (simp_all add: PAGE_SIZE_BYTES_def)

lemma frame_step_tracked:
  assumes "frame_step s s'" "frames_tracked stock s"
  shows "frames_tracked stock s'"
  using assms
proof (induction rule: frame_step.induct)
  case (frame_allocated a f a' used)
  then obtain n where "f = frame_at n" "available a = add_mset n (available a')" "allocator_inv a'"
    using allocate_Some[of a f a'] by (auto simp: frames_tracked_def)
  with frame_allocated show ?case by (simp add: frames_tracked_def frame_at_def)
next
  case (frame_exhausted a a' used)
  with allocate_None[of a a'] show ?case by (simp add: frames_tracked_def)
next
  case (frame_freed base used a recorded a')
  let ?P = "image_mset (\<lambda>f. f * PAGE_SIZE_BYTES)"
  obtain rest where r: "used = add_mset base rest" using frame_freed(1) by (metis multi_member_split)
  have inv: "allocator_inv a" "?P (available a) + used \<subseteq># ?P stock"
    using frame_freed(4) by (auto simp: frames_tracked_def)
  have "base \<in># ?P stock"
    using inv(2) frame_freed(1) by (meson mset_subset_eqD mset_subset_eq_add_right)
  then have b: "base div PAGE_SIZE_BYTES * PAGE_SIZE_BYTES = base" by auto
  from free_4kib_frames[OF inv(1) frame_freed(3,2)] have f: "allocator_inv a'"
    "available a' \<subseteq># add_mset (base div PAGE_SIZE_BYTES) (available a)"
    by (auto split: if_splits)
  from image_mset_subseteq_mono[OF f(2), of "\<lambda>f. f * PAGE_SIZE_BYTES"] b
  have "?P (available a') \<subseteq># add_mset base (?P (available a))" by simp
  then have "?P (available a') + rest \<subseteq># add_mset base (?P (available a)) + rest"
    by (rule subset_mset.add_right_mono)
  also have "\<dots> \<subseteq># ?P stock" using inv(2) r by (simp add: ac_simps)
  finally show ?case using f(1) r by (simp add: frames_tracked_def)
qed

lemma frame_steps_tracked:
  "frame_step\<^sup>*\<^sup>* s s' \<Longrightarrow> frames_tracked stock s \<Longrightarrow> frames_tracked stock s'"
  by (induction rule: rtranclp_induct) (auto intro: frame_step_tracked)

lemma frames_tracked_boot:
  assumes "from_boot_context memory_regions = Inr a0" "frame_step\<^sup>*\<^sup>* (a0, {#}) (a1, used1)"
    "reclaim_boot_services a1 memory_regions = (result, a2)" "frame_step\<^sup>*\<^sup>* (a2, used1) (a, used)"
  shows "frames_tracked (mset (boot_frames Usable memory_regions @
    boot_frames BootServicesReclaimable memory_regions)) (a, used)"
proof -
  let ?P = "image_mset (\<lambda>f. f * PAGE_SIZE_BYTES)"
  let ?U = "mset (boot_frames Usable memory_regions)"
  let ?B = "mset (boot_frames BootServicesReclaimable memory_regions)"
  from from_boot_context_frames[OF assms(1)] have "frames_tracked ?U (a0, {#})"
    by (auto simp: frames_tracked_def intro: image_mset_subseteq_mono)
  from frame_steps_tracked[OF assms(2) this]
  have 1: "allocator_inv a1" "?P (available a1) + used1 \<subseteq># ?P ?U"
    by (auto simp: frames_tracked_def)
  from reclaim_boot_services_frames[OF 1(1) assms(3)]
  have 2: "allocator_inv a2" "?P (available a2) \<subseteq># ?P (available a1 + ?B)"
    by (blast, blast intro: image_mset_subseteq_mono)
  from 2(2) have "?P (available a2) + used1 \<subseteq># (?P (available a1) + used1) + ?P ?B"
    by (simp add: ac_simps subset_mset.add_left_mono)
  also have "\<dots> \<subseteq># ?P ?U + ?P ?B" using 1(2) by (rule subset_mset.add_right_mono)
  finally have "frames_tracked (mset (boot_frames Usable memory_regions @
      boot_frames BootServicesReclaimable memory_regions)) (a2, used1)"
    using 2(1) by (simp add: frames_tracked_def)
  from frame_steps_tracked[OF assms(4) this] show ?thesis .
qed

text \<open>C2. No frame is handed out twice. Take a boot memory map whose usable and boot-services
  frames do not overlap, build the allocator from it, run any history, reclaim the
  boot-services regions, and run any further history in which no free merges with a reclaimed
  region that has already handed out frames. Then no two live allocations share a frame, every
  frame in use is a whole usable or boot-services frame of the map, and the frame the next
  allocation returns is not in use.\<close>

theorem no_frame_allocated_twice:
  assumes "from_boot_context memory_regions = Inr a0"
    and "distinct (boot_frames Usable memory_regions @
           boot_frames BootServicesReclaimable memory_regions)"
    and "frame_step\<^sup>*\<^sup>* (a0, {#}) (a1, used1)"
    and "reclaim_boot_services a1 memory_regions = (result, a2)"
    and "frame_step\<^sup>*\<^sup>* (a2, used1) (a, used)"
    and "allocate_4kib a = (Some f, a')"
  shows "(\<forall>base. count used base \<le> 1) \<and>
    (\<forall>base \<in># used. base mod PAGE_SIZE_BYTES = 0 \<and> base div PAGE_SIZE_BYTES \<in>
       set (boot_frames Usable memory_regions) \<union>
       set (boot_frames BootServicesReclaimable memory_regions)) \<and>
    frame_base f \<notin># used"
proof -
  let ?fs = "boot_frames Usable memory_regions @ boot_frames BootServicesReclaimable memory_regions"
  let ?P = "image_mset (\<lambda>f. f * PAGE_SIZE_BYTES)"
  from frames_tracked_boot[OF assms(1,3-5)] have t: "frames_tracked (mset ?fs) (a, used)" .
  have "frame_step (a, used) (a', add_mset (frame_base f) used)"
    using assms(6) by (rule frame_allocated)
  from frame_step_tracked[OF this t] have sub: "add_mset (frame_base f) used \<subseteq># ?P (mset ?fs)"
    by (auto simp: frames_tracked_def intro: subset_mset.order_trans mset_subset_eq_add_right)
  have "distinct (map (\<lambda>f. f * PAGE_SIZE_BYTES) ?fs)"
    using assms(2) by (subst distinct_map) (auto simp: inj_on_def)
  then have le: "count (?P (mset ?fs)) base \<le> 1" for base
    by (metis count_mset_0_iff distinct_count_atmost_1 le_refl mset_map zero_le)
  have c: "count (add_mset (frame_base f) used) base \<le> 1" for base
    using mset_subset_eq_count[OF sub, of base] le[of base] by linarith
  have "count used base \<le> 1" for base
    using c[of base] by (auto split: if_splits)
  moreover have "frame_base f \<notin># used"
    using c[of "frame_base f"] by (simp add: not_in_iff)
  moreover have "base \<in> (\<lambda>f. f * PAGE_SIZE_BYTES) ` set ?fs" if "base \<in># used" for base
    using mset_subset_eqD[OF sub, of base] that by (metis insertI2 insert_iff set_image_mset
        set_mset_add_mset_insert set_mset_mset)
  ultimately show ?thesis by fastforce
qed

text \<open>A memory map with three usable frames and two boot-services frames.\<close>

definition sample_map :: "boot_memory_region list" where
  "sample_map =
     [\<lparr>br_start = 0x1003, br_end = 0x5000, br_kind = Usable\<rparr>,
      \<lparr>br_start = 0x5000, br_end = 0x8000, br_kind = Reserved\<rparr>,
      \<lparr>br_start = 0x8000, br_end = 0xA000, br_kind = BootServicesReclaimable\<rparr>]"

definition sample_allocator ::
  "nat \<Rightarrow> frame_region_cursor list \<Rightarrow> nat \<Rightarrow> frame_region_cursor list \<Rightarrow> nat \<Rightarrow> early_frame_allocator" where
  "sample_allocator next rest allocated pool freed =
     \<lparr>regions = \<lparr>start_frame = 2, end_frame_exclusive = 5, next_frame = next\<rparr> # rest,
      active_region = 0, allocated_frames = allocated,
      reclaimed_boot_service_frames = (if rest = [] then 0 else 2), reclaimed = pool,
      freed_frames_recorded = freed, dropped_free_frames = 0\<rparr>"

lemmas frame_eval =
  sample_map_def sample_allocator_def from_boot_context_def reclaim_boot_services_def
  push_region_def region_frames_def align_up_def align_down_def wrapping_add_def u64_max_def
  saturating_add_def PAGE_SIZE_BYTES_def MAX_ALLOCATABLE_REGIONS_def MAX_RECLAIMED_REGIONS_def
  allocate_4kib_def take_fresh.simps frame_at_def free_4kib_def scan_free.simps absorb_right_def
  absorb_left_def remove_reclaimed_def merges_consumed_region_def boot_frames_def

theorem no_frame_allocated_twice_witness:
  "count {#0x3000, 0x2000#} (0x2000::nat) \<le> 1 \<and>
   frame_base \<lparr>frame_base = 0x4000, frame_size = Size4KiB\<rparr> \<notin># {#0x3000, 0x2000#}"
proof -
  let ?b = "[\<lparr>start_frame = 8, end_frame_exclusive = 10, next_frame = 8\<rparr>]"
  let ?pool = "\<lambda>n. [\<lparr>start_frame = 2, end_frame_exclusive = 3, next_frame = n\<rparr>]"
  have boot: "from_boot_context sample_map = Inr (sample_allocator 2 [] 0 [] 0)"
    by (simp add: frame_eval)
  have dist: "distinct (boot_frames Usable sample_map @ boot_frames BootServicesReclaimable sample_map)"
    by (simp add: frame_eval upt_rec)
  have "frame_step (sample_allocator 2 [] 0 [] 0, {#}) (sample_allocator 3 [] 1 [] 0, {#0x2000#})"
    using frame_allocated[of "sample_allocator 2 [] 0 [] 0" "frame_at 2" "sample_allocator 3 [] 1 [] 0" "{#}"]
    by (simp add: frame_eval)
  then have h1: "frame_step\<^sup>*\<^sup>* (sample_allocator 2 [] 0 [] 0, {#}) (sample_allocator 3 [] 1 [] 0, {#0x2000#})"
    by blast
  have rec: "reclaim_boot_services (sample_allocator 3 [] 1 [] 0) sample_map =
      (Inr 2, sample_allocator 3 ?b 1 [] 0)"
    by (simp add: frame_eval)
  have s1: "frame_step (sample_allocator 3 ?b 1 [] 0, {#0x2000#})
      (sample_allocator 4 ?b 2 [] 0, {#0x3000, 0x2000#})"
    using frame_allocated[of "sample_allocator 3 ?b 1 [] 0" "frame_at 3"
        "sample_allocator 4 ?b 2 [] 0" "{#0x2000#}"]
    by (simp add: frame_eval)
  have s2: "frame_step (sample_allocator 4 ?b 2 [] 0, {#0x3000, 0x2000#})
      (sample_allocator 4 ?b 2 (?pool 2) 1, {#0x3000#})"
    using frame_freed[of "0x2000" "{#0x3000, 0x2000#}" "sample_allocator 4 ?b 2 [] 0" True
        "sample_allocator 4 ?b 2 (?pool 2) 1"]
    by (simp add: frame_eval)
  have s3: "frame_step (sample_allocator 4 ?b 2 (?pool 2) 1, {#0x3000#})
      (sample_allocator 4 ?b 3 (?pool 3) 1, {#0x3000, 0x2000#})"
    using frame_allocated[of "sample_allocator 4 ?b 2 (?pool 2) 1" "frame_at 2"
        "sample_allocator 4 ?b 3 (?pool 3) 1" "{#0x3000#}"]
    by (simp add: frame_eval add_mset_commute)
  from s1 s2 s3 have h2: "frame_step\<^sup>*\<^sup>* (sample_allocator 3 ?b 1 [] 0, {#0x2000#})
      (sample_allocator 4 ?b 3 (?pool 3) 1, {#0x3000, 0x2000#})"
    by (meson converse_rtranclp_into_rtranclp r_into_rtranclp)
  have alloc: "allocate_4kib (sample_allocator 4 ?b 3 (?pool 3) 1) =
      (Some \<lparr>frame_base = 0x4000, frame_size = Size4KiB\<rparr>, sample_allocator 5 ?b 4 (?pool 3) 1)"
    by (simp add: frame_eval)
  from no_frame_allocated_twice[OF boot dist h1 rec h2 alloc] show ?thesis by blast
qed

section \<open>Headroom\<close>

lemma usable_headroom_available:
  assumes "allocator_inv a"
  shows "usable_headroom_frames a = size (available a)"
proof -
  have "cursors_mset (take (active_region a) (regions a)) = {#}"
    using assms by (auto simp: allocator_inv_def intro: cursors_mset_exhausted)
  then have "cursors_mset (regions a) = cursors_mset (drop (active_region a) (regions a))"
    by (metis add_0 append_take_drop_id cursors_mset_append)
  then show ?thesis
    by (simp add: usable_headroom_frames_def remaining_frames_def reclaimable_frames_def
        available_def flip: cursors_mset_size)
qed

lemma allocator_inv_reachable:
  assumes "from_boot_context memory_regions = Inr a0" "frame_step\<^sup>*\<^sup>* (a0, {#}) (a, used)"
  shows "allocator_inv a"
proof -
  from from_boot_context_frames[OF assms(1)] have "frames_tracked (available a0) (a0, {#})"
    by (simp add: frames_tracked_def)
  from frame_steps_tracked[OF assms(2) this] show ?thesis by (simp add: frames_tracked_def)
qed



section \<open>A merge that hands a frame out twice\<close>

text \<open>Calls of the allocator in sequence, with the base address each one returned or freed.\<close>

datatype frame_call = AllocateFrame | FreeFrame physical_address

fun frame_calls ::
  "early_frame_allocator \<Rightarrow> frame_call list \<Rightarrow> physical_address option list" where
  "frame_calls a [] = []"
| "frame_calls a (AllocateFrame # cs) =
     (case allocate_4kib a of (f, a') \<Rightarrow> map_option frame_base f # frame_calls a' cs)"
| "frame_calls a (FreeFrame base # cs) =
     (case free_4kib a base of (recorded, a') \<Rightarrow> Some base # frame_calls a' cs)"

text \<open>The states of the run below: the cursor of the only region, the number of allocations, the
  reclaimed pool and the number of frees.\<close>

definition merge_run ::
  "nat \<Rightarrow> nat \<Rightarrow> (nat \<times> nat \<times> nat) list \<Rightarrow> nat \<Rightarrow> early_frame_allocator" where
  "merge_run next allocated pool freed =
     \<lparr>regions = [\<lparr>start_frame = 10, end_frame_exclusive = 14, next_frame = next\<rparr>],
      active_region = 0, allocated_frames = allocated, reclaimed_boot_service_frames = 0,
      reclaimed = map (\<lambda>(s, e, n). \<lparr>start_frame = s, end_frame_exclusive = e, next_frame = n\<rparr>) pool,
      freed_frames_recorded = freed, dropped_free_frames = 0\<rparr>"

lemma merge_run_boot:
  "from_boot_context [\<lparr>br_start = 0xA000, br_end = 0xE000, br_kind = Usable\<rparr>] =
   Inr (merge_run 10 0 [] 0)"
  by (simp add: frame_eval merge_run_def)

lemma merge_run_allocate:
  "allocate_4kib (merge_run 10 0 [] 0) = (Some (frame_at 10), merge_run 11 1 [] 0)"
  "allocate_4kib (merge_run 11 1 [] 0) = (Some (frame_at 11), merge_run 12 2 [] 0)"
  "allocate_4kib (merge_run 12 2 [] 0) = (Some (frame_at 12), merge_run 13 3 [] 0)"
  "allocate_4kib (merge_run 13 3 [] 0) = (Some (frame_at 13), merge_run 14 4 [] 0)"
  "allocate_4kib (merge_run 14 4 [(10, 11, 10), (12, 14, 12)] 3) =
     (Some (frame_at 10), merge_run 14 5 [(10, 11, 11), (12, 14, 12)] 3)"
  "allocate_4kib (merge_run 14 5 [(10, 11, 11), (12, 14, 12)] 3) =
     (Some (frame_at 12), merge_run 14 6 [(10, 11, 11), (12, 14, 13)] 3)"
  "allocate_4kib (merge_run 14 6 [(10, 14, 11)] 4) = (Some (frame_at 11), merge_run 14 7 [(10, 14, 12)] 4)"
  "allocate_4kib (merge_run 14 7 [(10, 14, 12)] 4) = (Some (frame_at 12), merge_run 14 8 [(10, 14, 13)] 4)"
  by (simp_all add: frame_eval merge_run_def)

lemma merge_run_free:
  "free_4kib (merge_run 14 4 [] 0) 0xA000 = (True, merge_run 14 4 [(10, 11, 10)] 1)"
  "free_4kib (merge_run 14 4 [(10, 11, 10)] 1) 0xC000 =
     (True, merge_run 14 4 [(10, 11, 10), (12, 13, 12)] 2)"
  "free_4kib (merge_run 14 4 [(10, 11, 10), (12, 13, 12)] 2) 0xD000 =
     (True, merge_run 14 4 [(10, 11, 10), (12, 14, 12)] 3)"
  "free_4kib (merge_run 14 6 [(10, 11, 11), (12, 14, 13)] 3) 0xB000 =
     (True, merge_run 14 6 [(10, 14, 11)] 4)"
  by (simp_all add: frame_eval merge_run_def)

lemma frame_calls_step:
  "allocate_4kib a = (f, a') \<Longrightarrow>
   frame_calls a (AllocateFrame # cs) = map_option frame_base f # frame_calls a' cs"
  "free_4kib a base = (recorded, a') \<Longrightarrow>
   frame_calls a (FreeFrame base # cs) = Some base # frame_calls a' cs"
  by simp_all

lemmas merge_run_calls = frame_calls.simps(1)
  merge_run_allocate[THEN frame_calls_step(1)] merge_run_free[THEN frame_calls_step(2)]


end
