(* ===== verification/Kernel_Heap.thy ===== *)
theory Kernel_Heap
  imports Prelude
begin

unbundle bit_operations_syntax

text \<open>
  The kernel heap (\<open>kernel/core/src/memory/heap.rs\<close>): a first-fit free-list allocator
  over a fixed table of at most 4096 free regions, sorted by address and coalesced on
  free. The table \<open>regions[..len]\<close> is the list of its used entries. Addresses and
  sizes are natural numbers; the two additions of the source that can pass
  \<open>usize::MAX\<close>, the one of \<open>align_up\<close> and the checked one of \<open>allocate\<close>, are written
  with that limit. The null pointer is \<open>None\<close>.
\<close>

section \<open>The free list\<close>

definition MAX_FREE_REGIONS :: nat where "MAX_FREE_REGIONS = 4096"

record heap_usage =
  total_bytes :: nat
  usage_free_bytes :: nat

record heap_layout =
  layout_size :: nat
  layout_align :: nat

record free_region =
  fr_start :: nat
  fr_size :: nat

record free_list_allocator =
  fl_regions :: "free_region list"
  fl_initialized :: bool
  capacity_bytes :: nat
  free_list_bytes :: nat
  dropped_free_bytes :: nat
  dropped_free_events :: nat

definition fr_end :: "free_region \<Rightarrow> nat" where
  "fr_end r = fr_start r + fr_size r"

definition free_list_empty :: free_list_allocator where
  "free_list_empty = \<lparr>fl_regions = [], fl_initialized = False, capacity_bytes = 0,
     free_list_bytes = 0, dropped_free_bytes = 0, dropped_free_events = 0\<rparr>"

definition heap_initialize ::
  "free_list_allocator \<Rightarrow> nat \<Rightarrow> nat \<Rightarrow> (unit + unit) \<times> free_list_allocator" where
  "heap_initialize a start sz =
     (if fl_initialized a then (Inl (), a)
      else (Inr (), a\<lparr>fl_regions := [\<lparr>fr_start = start, fr_size = sz\<rparr>], fl_initialized := True,
                      capacity_bytes := sz, free_list_bytes := sz\<rparr>))"

text \<open>\<open>(value + mask) & !mask\<close> on \<open>usize\<close>.\<close>

definition heap_align_up :: "nat \<Rightarrow> nat \<Rightarrow> nat" where
  "heap_align_up v align =
     (let mask = align - 1
      in unat (and (word_of_nat (wrapping_add usize_max v mask) :: 64 word) (not (word_of_nat mask))))"

definition remove_region :: "free_region list \<Rightarrow> nat \<Rightarrow> free_region list" where
  "remove_region rs index = take index rs @ drop (index + 1) rs"

definition insert_region :: "free_region list \<Rightarrow> nat \<Rightarrow> free_region \<Rightarrow> free_region list" where
  "insert_region rs index r = take index rs @ [r] @ drop index rs"

text \<open>The four ways an allocation takes \<open>[start, end)\<close> out of the region at \<open>index\<close>; splitting it
  in two needs a free table entry.\<close>

definition carve_region ::
  "free_region list \<Rightarrow> nat \<Rightarrow> nat \<Rightarrow> nat \<Rightarrow> free_region list option" where
  "carve_region rs index lo hi =
     (let region = rs ! index;
          prefix_size = lo - fr_start region;
          suffix_size = fr_end region - hi
      in if prefix_size = 0 \<and> suffix_size = 0 then Some (remove_region rs index)
         else if prefix_size = 0 then Some (rs[index := \<lparr>fr_start = hi, fr_size = suffix_size\<rparr>])
         else if suffix_size = 0 then Some (rs[index := region\<lparr>fr_size := prefix_size\<rparr>])
         else if length rs = MAX_FREE_REGIONS then None
         else Some ((insert_region rs (index + 1) \<lparr>fr_start = hi, fr_size = suffix_size\<rparr>)
                      [index := region\<lparr>fr_size := prefix_size\<rparr>]))"

function alloc_scan ::
  "free_region list \<Rightarrow> nat \<Rightarrow> nat \<Rightarrow> nat \<Rightarrow> (nat \<times> free_region list) option" where
  "alloc_scan rs sz align index =
     (if index < length rs then
        let region = rs ! index;
            start = heap_align_up (fr_start region) align
        in case checked_add usize_max start sz of
             None \<Rightarrow> None
           | Some end' \<Rightarrow>
               if end' > fr_end region then alloc_scan rs sz align (index + 1)
               else map_option (\<lambda>rs'. (start, rs')) (carve_region rs index start end')
      else None)"
  by pat_completeness auto
termination by (relation "measure (\<lambda>(rs, sz, align, index). length rs - index)") auto

declare alloc_scan.simps [simp del]

definition heap_allocate ::
  "free_list_allocator \<Rightarrow> heap_layout \<Rightarrow> nat option \<times> free_list_allocator" where
  "heap_allocate a layout =
     (if \<not> fl_initialized a then (None, a)
      else
        let sz = max (layout_size layout) 1
        in case alloc_scan (fl_regions a) sz (layout_align layout) 0 of
             None \<Rightarrow> (None, a)
           | Some (start, rs) \<Rightarrow>
               (Some start, a\<lparr>fl_regions := rs, free_list_bytes := free_list_bytes a - sz\<rparr>))"

definition merge_regions :: "free_region \<Rightarrow> free_region \<Rightarrow> free_region" where
  "merge_regions r s =
     (let merged_start = min (fr_start r) (fr_start s); merged_end = max (fr_end r) (fr_end s)
      in \<lparr>fr_start = merged_start, fr_size = merged_end - merged_start\<rparr>)"

text \<open>The second loop of \<open>insert_and_coalesce\<close>: fold the regions from \<open>index\<close> on into the freed one
  while they touch it.\<close>

function absorb_next ::
  "free_region list \<Rightarrow> nat \<Rightarrow> free_region \<Rightarrow> free_region \<times> free_region list" where
  "absorb_next rs index region =
     (if index < length rs then
        if fr_end region < fr_start (rs ! index) then (region, rs)
        else absorb_next (remove_region rs index) index (merge_regions region (rs ! index))
      else (region, rs))"
  by pat_completeness auto
termination by (relation "measure (\<lambda>(rs, index, region). length rs)") (auto simp: remove_region_def)

declare absorb_next.simps [simp del]

definition insert_and_coalesce :: "free_list_allocator \<Rightarrow> free_region \<Rightarrow> free_list_allocator" where
  "insert_and_coalesce a region =
     (if fr_size region = 0 then a
      else
        let rs = fl_regions a;
            index = length (takeWhile (\<lambda>r. fr_start r < fr_start region) rs);
            touches_left = (index > 0 \<and> fr_end (rs ! (index - 1)) \<ge> fr_start region);
            (region1, rs1, index1) =
              (if touches_left
               then (merge_regions (rs ! (index - 1)) region, remove_region rs (index - 1), index - 1)
               else (region, rs, index));
            (region2, rs2) = absorb_next rs1 index1 region1
        in if length rs2 = MAX_FREE_REGIONS
           then a\<lparr>fl_regions := rs2,
                  dropped_free_bytes := saturating_add u64_max (dropped_free_bytes a) (fr_size region2),
                  dropped_free_events := saturating_add u64_max (dropped_free_events a) 1\<rparr>
           else a\<lparr>fl_regions := insert_region rs2 index1 region2,
                  free_list_bytes := saturating_add u64_max (free_list_bytes a) (fr_size region)\<rparr>)"

definition heap_deallocate ::
  "free_list_allocator \<Rightarrow> nat \<Rightarrow> heap_layout \<Rightarrow> free_list_allocator" where
  "heap_deallocate a start layout =
     (if \<not> fl_initialized a then a
      else case checked_add usize_max start (max (layout_size layout) 1) of
             None \<Rightarrow> a
           | Some end' \<Rightarrow> insert_and_coalesce a \<lparr>fr_start = start, fr_size = end' - start\<rparr>)"

definition heap_usage_of :: "free_list_allocator \<Rightarrow> heap_usage" where
  "heap_usage_of a = \<lparr>total_bytes = capacity_bytes a, usage_free_bytes = free_list_bytes a\<rparr>"

definition usage_if_initialized :: "free_list_allocator \<Rightarrow> heap_usage option" where
  "usage_if_initialized a = (if fl_initialized a then Some (heap_usage_of a) else None)"

definition drop_stats :: "free_list_allocator \<Rightarrow> nat \<times> nat" where
  "drop_stats a = (dropped_free_events a, dropped_free_bytes a)"

section \<open>Sorted, separated free regions\<close>

definition region_set :: "free_region \<Rightarrow> nat set" where
  "region_set r = {fr_start r..<fr_end r}"

definition free_set :: "free_region list \<Rightarrow> nat set" where
  "free_set rs = (\<Union>r \<in> set rs. region_set r)"

text \<open>Regions are nonempty, ascending, and never touch: two neighbours would have been merged.\<close>

definition separated :: "free_region list \<Rightarrow> bool" where
  "separated rs \<longleftrightarrow> sorted_wrt (\<lambda>r s. fr_end r < fr_start s) rs \<and> (\<forall>r \<in> set rs. 0 < fr_size r)"

lemma free_set_simps [simp]:
  "free_set [] = {}" "free_set (r # rs) = region_set r \<union> free_set rs"
  "free_set (xs @ ys) = free_set xs \<union> free_set ys"
  by (auto simp: free_set_def)

lemma separated_Nil [simp]: "separated []"
  by (simp add: separated_def)

lemma separated_Cons [simp]:
  "separated (r # rs) \<longleftrightarrow>
     0 < fr_size r \<and> (\<forall>s \<in> set rs. fr_end r < fr_start s) \<and> separated rs"
  by (auto simp: separated_def)

lemma separated_append [simp]:
  "separated (xs @ ys) \<longleftrightarrow>
     separated xs \<and> separated ys \<and> (\<forall>r \<in> set xs. \<forall>s \<in> set ys. fr_end r < fr_start s)"
  by (auto simp: separated_def sorted_wrt_append)

lemma finite_free_set [simp]: "finite (free_set rs)"
  by (simp add: free_set_def region_set_def)

lemma card_free_set: "separated rs \<Longrightarrow> card (free_set rs) = sum_list (map fr_size rs)"
proof (induction rs)
  case (Cons r rs)
  have "region_set r \<inter> free_set rs = {}"
    using Cons.prems by (force simp: region_set_def free_set_def)
  with Cons show ?case
    by (simp add: card_Un_disjoint region_set_def fr_end_def)
qed simp

text \<open>The free bytes determine the table.\<close>

lemma separated_whole:
  assumes "separated rs" "free_set rs = {lo..<hi}" "lo < hi"
  shows "rs = [\<lparr>fr_start = lo, fr_size = hi - lo\<rparr>]"
proof (cases rs)
  case Nil
  with assms(2,3) show ?thesis by auto
next
  case (Cons r rest)
  have "rest = []"
  proof (rule ccontr)
    assume "rest \<noteq> []"
    then obtain s ss where s: "rest = s # ss" by (cases rest) auto
    have m: "fr_end r \<notin> free_set rs"
      using assms(1) unfolding Cons s by (force simp: region_set_def free_set_def)
    have "fr_start r \<in> free_set rs" "fr_start s \<in> free_set rs" "fr_start r \<le> fr_end r"
      "fr_end r < fr_start s"
      using assms(1) unfolding Cons s by (auto simp: region_set_def fr_end_def)
    with assms(2) m show False by auto
  qed
  with assms Cons have "{fr_start r..<fr_end r} = {lo..<hi}" "fr_start r < fr_end r"
    by (auto simp: region_set_def fr_end_def)
  then have "fr_start r = lo" "fr_end r = hi"
    using assms(3) by (simp_all add: atLeastLessThan_eq_iff)
  with Cons \<open>rest = []\<close> show ?thesis by (cases r) (auto simp: fr_end_def)
qed

section \<open>Alignment\<close>

lemma and_not_mask_word: "and w (not (mask k)) = push_bit k (drop_bit k w)" for w :: "64 word"
  by (rule bit_word_eqI) (auto simp: bit_simps)

lemma heap_align_up_pow2:
  assumes "align = 2 ^ k" "v + align - 1 \<le> usize_max"
  shows "heap_align_up v align = (v + align - 1) div align * align"
proof -
  let ?x = "v + align - 1"
  have lt: "?x < 2 ^ 64" using assms(2) by (simp add: usize_max_def u64_max_def)
  have x: "wrapping_add usize_max v (align - 1) = ?x"
    using lt assms(1) by (simp add: wrapping_add_def usize_max_def u64_max_def)
  have m: "(word_of_nat (align - 1) :: 64 word) = mask k"
    by (simp add: assms(1) mask_eq_exp_minus_1 of_nat_diff)
  have u: "unat (word_of_nat ?x :: 64 word) = ?x"
    using lt by (simp add: unat_of_nat)
  have "?x div align * align < 2 ^ 64"
    using lt div_times_less_eq_dividend[of ?x align] by linarith
  moreover have "heap_align_up v align = take_bit 64 (push_bit k (drop_bit k ?x))"
    unfolding heap_align_up_def Let_def x m and_not_mask_word
    using lt by (simp add: unsigned_push_bit_eq unsigned_drop_bit_eq u take_bit_nat_eq_self
        del: One_nat_def)
  ultimately show ?thesis
    by (simp add: push_bit_eq_mult drop_bit_eq_div assms(1) take_bit_nat_eq_self)
qed


lemma heap_align_up_bounds:
  assumes "align = 2 ^ k" "v + align - 1 \<le> usize_max"
  shows "v \<le> heap_align_up v align" "heap_align_up v align < v + align"
    "align dvd heap_align_up v align"
proof -
  have a: "0 < align" using assms(1) by simp
  note e = heap_align_up_pow2[OF assms]
  show "align dvd heap_align_up v align" by (simp add: e)
  have "(v + align - 1) div align * align = v + align - 1 - (v + align - 1) mod align"
    by (simp add: minus_mod_eq_div_mult)
  moreover have "(v + align - 1) mod align < align" using a by simp
  ultimately show "v \<le> heap_align_up v align" "heap_align_up v align < v + align"
    using a e by linarith+
qed

section \<open>Allocation\<close>

lemma carve_region_separated:
  assumes "separated rs" "index < length rs" "fr_start (rs ! index) \<le> lo" "lo < hi"
    "hi \<le> fr_end (rs ! index)" "carve_region rs index lo hi = Some rs'"
  shows "separated rs' \<and> free_set rs' = free_set rs - {lo..<hi} \<and>
    (length rs \<le> MAX_FREE_REGIONS \<longrightarrow> length rs' \<le> MAX_FREE_REGIONS)"
proof -
  let ?r = "rs ! index" and ?xs = "take index rs" and ?ys = "drop (index + 1) rs"
  have rs: "rs = ?xs @ ?r # ?ys" using assms(2) by (simp add: id_take_nth_drop)
  have len: "length ?xs = index" using assms(2) by simp
  obtain xs r ys where e: "?xs = xs" "?r = r" "?ys = ys" by blast
  have rs_eq: "rs = xs @ r # ys" using rs unfolding e .
  have i: "length xs = index" using len unfolding e .
  have sep: "separated xs" "separated ys" "\<forall>a\<in>set xs. fr_end a < fr_start r"
    "\<forall>b\<in>set ys. fr_end r < fr_start b" "\<forall>a\<in>set xs. \<forall>b\<in>set ys. fr_end a < fr_start b" "0 < fr_size r"
    using assms(1) unfolding rs_eq by auto
  have outside: "free_set xs \<inter> {lo..<hi} = {}" "free_set ys \<inter> {lo..<hi} = {}"
    using sep assms(3-5) unfolding e free_set_def region_set_def by force+
  define pre where "pre = (if lo = fr_start r then [] else [r\<lparr>fr_size := lo - fr_start r\<rparr>])"
  define suf where "suf = (if fr_end r = hi then [] else [\<lparr>fr_start = hi, fr_size = fr_end r - hi\<rparr>])"
  have rs': "rs' = xs @ pre @ suf @ ys"
    using assms(3-6) unfolding carve_region_def Let_def e(2) rs_eq i[symmetric]
    by (auto simp: pre_def suf_def remove_region_def insert_region_def fr_end_def list_update_append
        split: if_splits)
  obtain ps where ps: "ps = pre @ suf" by blast
  have p: "separated ps" "\<And>p. p \<in> set ps \<Longrightarrow> fr_start r \<le> fr_start p \<and> fr_end p \<le> fr_end r"
    "free_set ps = region_set r - {lo..<hi}"
    using assms(3-5) unfolding e ps
    by (auto simp: pre_def suf_def fr_end_def region_set_def split: if_splits)
  have "\<forall>a\<in>set xs. \<forall>b\<in>set ps. fr_end a < fr_start b" "\<forall>a\<in>set ps. \<forall>b\<in>set ys. fr_end a < fr_start b"
    using sep(3,4) p(2) by (meson less_le_trans le_less_trans)+
  then have "separated (xs @ ps @ ys)" using p(1) sep by auto
  moreover have "free_set (xs @ ps @ ys) = free_set rs - {lo..<hi}"
    using outside p(3) unfolding rs_eq by auto
  ultimately have "separated rs'" "free_set rs' = free_set rs - {lo..<hi}"
    by (simp_all only: rs' ps append_assoc)
  moreover have "length rs \<le> MAX_FREE_REGIONS \<longrightarrow> length rs' \<le> MAX_FREE_REGIONS"
    using assms(6) by (auto simp: carve_region_def Let_def remove_region_def insert_region_def
        split: if_splits)
  ultimately show ?thesis by blast
qed

lemma alloc_scan_Some:
  assumes "alloc_scan rs sz align index = Some (start, rs')" "separated rs" "0 < sz" "align = 2 ^ k"
    "\<forall>r \<in> set rs. fr_end r + align - 1 \<le> usize_max"
  shows "separated rs' \<and> {start..<start + sz} \<subseteq> free_set rs \<and>
    free_set rs' = free_set rs - {start..<start + sz} \<and> align dvd start \<and>
    (length rs \<le> MAX_FREE_REGIONS \<longrightarrow> length rs' \<le> MAX_FREE_REGIONS)"
  using assms
proof (induction rs sz align index rule: alloc_scan.induct)
  case (1 rs sz align index)
  from "1.prems"(1) have i: "index < length rs"
    by (subst (asm) alloc_scan.simps) (auto split: if_splits)
  let ?r = "rs ! index"
  let ?s = "heap_align_up (fr_start ?r) align"
  from "1.prems"(1) i obtain e where e: "checked_add usize_max ?s sz = Some e"
    by (subst (asm) alloc_scan.simps) (auto simp: Let_def split: option.splits)
  then have e': "e = ?s + sz" by (simp add: rust_int)
  show ?case
  proof (cases "e > fr_end ?r")
    case True
    then have "alloc_scan rs sz align (index + 1) = Some (start, rs')"
      using "1.prems"(1) i e by (subst (asm) alloc_scan.simps) (simp add: Let_def)
    from "1.IH"[OF i refl refl e True this "1.prems"(2-)] show ?thesis .
  next
    case False
    have c: "carve_region rs index start e = Some rs'" and s: "start = ?s"
      using "1.prems"(1) i e False by (subst (asm) alloc_scan.simps, auto simp: Let_def)+
    have mem: "?r \<in> set rs" using i by simp
    then have "fr_end ?r + align - 1 \<le> usize_max" using "1.prems"(5) by blast
    then have b: "fr_start ?r + align - 1 \<le> usize_max" unfolding fr_end_def by linarith
    note al = heap_align_up_bounds[OF "1.prems"(4) b]
    have l: "fr_start ?r \<le> start" "start < e" "e \<le> fr_end ?r"
      using al(1) "1.prems"(3) False by (auto simp: s e')
    then have "{start..<start + sz} \<subseteq> region_set ?r" by (auto simp: region_set_def e' s)
    also have "\<dots> \<subseteq> free_set rs" using mem by (auto simp: free_set_def)
    finally show ?thesis
      using carve_region_separated[OF "1.prems"(2) i l c] al(3) by (simp add: e' s)
  qed
qed

section \<open>Coalescing\<close>

lemma merge_regions_touching:
  assumes "fr_end r = fr_start s"
  shows "fr_start (merge_regions r s) = fr_start r" "fr_end (merge_regions r s) = fr_end s"
    "region_set (merge_regions r s) = region_set r \<union> region_set s"
  using assms by (auto simp: merge_regions_def Let_def fr_end_def region_set_def)

lemma fr_size_pos: "fr_start r < fr_end r \<longleftrightarrow> 0 < fr_size r"
  by (simp add: fr_end_def)

lemma absorb_next_spec:
  assumes "separated (ls @ rest)" "0 < fr_size region" "\<forall>l \<in> set ls. fr_end l < fr_start region"
    "\<forall>s \<in> set rest. fr_end region \<le> fr_start s"
  shows "\<exists>region' rest'. absorb_next (ls @ rest) (length ls) region = (region', ls @ rest') \<and>
    separated (ls @ region' # rest') \<and>
    region_set region' \<union> free_set rest' = region_set region \<union> free_set rest \<and>
    (length rest' < length rest \<or> rest' = rest \<and> region' = region)"
  using assms
proof (induction rest arbitrary: region)
  case Nil
  then show ?case by (subst absorb_next.simps) auto
next
  case (Cons s rest)
  show ?case
  proof (cases "fr_end region < fr_start s")
    case True
    have "\<forall>t \<in> set rest. fr_end region < fr_start t"
      using Cons.prems(1) True by (fastforce simp: fr_end_def)
    with Cons.prems True show ?thesis
      by (subst absorb_next.simps) auto
  next
    case False
    with Cons.prems(4) have t: "fr_end region = fr_start s" by auto
    note m = merge_regions_touching[OF t]
    let ?m = "merge_regions region s"
    have step: "absorb_next (ls @ s # rest) (length ls) region = absorb_next (ls @ rest) (length ls) ?m"
      using False by (subst absorb_next.simps) (simp add: remove_region_def)
    have s: "0 < fr_size s" "\<forall>t \<in> set rest. fr_end s < fr_start t" "separated (ls @ rest)"
      using Cons.prems(1) by auto
    have "fr_start ?m < fr_end ?m"
      using m s(1) Cons.prems(2) t by (simp add: fr_end_def)
    then have "0 < fr_size ?m" by (simp add: fr_size_pos)
    moreover have "\<forall>l \<in> set ls. fr_end l < fr_start ?m" using Cons.prems(3) m by simp
    moreover have "\<forall>t \<in> set rest. fr_end ?m \<le> fr_start t" using s(2) m by auto
    ultimately obtain region' rest' where
      "absorb_next (ls @ rest) (length ls) ?m = (region', ls @ rest')"
      "separated (ls @ region' # rest')"
      "region_set region' \<union> free_set rest' = region_set ?m \<union> free_set rest"
      "length rest' < length rest \<or> rest' = rest \<and> region' = ?m"
      using Cons.IH[OF s(3)] by blast
    then show ?thesis unfolding step using m(3) by (intro exI[of _ region'] exI[of _ rest']) auto
  qed
qed

lemma separated_disjoint_left:
  assumes "0 < fr_size r" "0 < fr_size s" "region_set r \<inter> region_set s = {}" "fr_start r \<le> fr_start s"
  shows "fr_end r \<le> fr_start s"
proof (rule ccontr)
  assume "\<not> ?thesis"
  with assms(2,4) have "fr_start s \<in> region_set r \<inter> region_set s"
    by (auto simp: region_set_def fr_end_def)
  with assms(3) show False by blast
qed

lemma insert_and_coalesce_spec:
  assumes sep: "separated (fl_regions a)" and pos: "0 < fr_size region"
    and disj: "region_set region \<inter> free_set (fl_regions a) = {}"
    and len: "length (fl_regions a) \<le> MAX_FREE_REGIONS"
  shows "(length (fl_regions a) = MAX_FREE_REGIONS \<and>
      insert_and_coalesce a region =
        a\<lparr>dropped_free_bytes := saturating_add u64_max (dropped_free_bytes a) (fr_size region),
          dropped_free_events := saturating_add u64_max (dropped_free_events a) 1\<rparr>) \<or>
    (\<exists>rs. insert_and_coalesce a region =
        a\<lparr>fl_regions := rs,
          free_list_bytes := saturating_add u64_max (free_list_bytes a) (fr_size region)\<rparr> \<and>
      separated rs \<and> free_set rs = free_set (fl_regions a) \<union> region_set region \<and>
      length rs \<le> MAX_FREE_REGIONS)"
proof -
  define ls where "ls = takeWhile (\<lambda>r. fr_start r < fr_start region) (fl_regions a)"
  define rest where "rest = dropWhile (\<lambda>r. fr_start r < fr_start region) (fl_regions a)"
  have rs: "fl_regions a = ls @ rest" by (simp add: ls_def rest_def)
  have s0: "separated ls" "separated rest" "\<forall>l\<in>set ls. \<forall>s\<in>set rest. fr_end l < fr_start s"
    using sep unfolding rs by auto
  have sz: "\<forall>r \<in> set (ls @ rest). 0 < fr_size r" using sep unfolding rs separated_def by auto
  have dj: "\<forall>r \<in> set (ls @ rest). region_set region \<inter> region_set r = {}"
    using disj unfolding rs free_set_def by auto
  have L: "\<forall>l \<in> set ls. fr_end l \<le> fr_start region"
  proof
    fix l assume l: "l \<in> set ls"
    then have "fr_start l < fr_start region" unfolding ls_def by (rule set_takeWhileD[THEN conjunct2])
    with l sz dj pos show "fr_end l \<le> fr_start region" by (intro separated_disjoint_left) auto
  qed
  have ge: "\<forall>s \<in> set rest. fr_start region \<le> fr_start s"
  proof (cases rest)
    case (Cons t ts)
    then have "fr_start region \<le> fr_start t"
      by (metis hd_dropWhile list.sel(1) list.simps(3) not_less rest_def)
    moreover have "\<forall>s \<in> set ts. fr_start t \<le> fr_start s"
      using s0(2) Cons by (auto simp: fr_end_def dest!: bspec)
    ultimately show ?thesis using Cons by auto
  qed simp
  have R: "\<forall>s \<in> set rest. fr_end region \<le> fr_start s"
    using sz dj pos ge by (auto intro!: separated_disjoint_left)
  define touches where "touches \<longleftrightarrow> length ls > 0 \<and> fr_end ((ls @ rest) ! (length ls - 1)) \<ge> fr_start region"
  define t where "t = (if touches then (merge_regions ((ls @ rest) ! (length ls - 1)) region,
      remove_region (ls @ rest) (length ls - 1), length ls - 1) else (region, ls @ rest, length ls))"
  have "\<exists>bs region1. t = (region1, bs @ rest, length bs) \<and> separated (bs @ rest) \<and>
      0 < fr_size region1 \<and> (\<forall>l \<in> set bs. fr_end l < fr_start region1) \<and>
      fr_end region1 = fr_end region \<and>
      region_set region1 \<union> free_set bs = region_set region \<union> free_set ls \<and>
      (length bs < length ls \<or> bs = ls \<and> region1 = region)"
  proof (cases touches)
    case True
    then obtain bs l where b: "ls = bs @ [l]" unfolding touches_def by (metis append_butlast_last_id length_greater_0_conv)
    then have e: "fr_end l = fr_start region"
      using True L by (auto simp: touches_def nth_append)
    note m = merge_regions_touching[OF e]
    have "t = (merge_regions l region, bs @ rest, length bs)"
      using True by (simp add: t_def b nth_append remove_region_def)
    moreover have "fr_start (merge_regions l region) < fr_end (merge_regions l region)"
      using m(1,2) e pos sz b by (auto simp: fr_end_def)
    then have "0 < fr_size (merge_regions l region)" by (simp add: fr_size_pos)
    ultimately show ?thesis using m s0 b
      by (intro exI[of _ bs] exI[of _ "merge_regions l region"]) auto
  next
    case False
    have "\<forall>l \<in> set ls. fr_end l < fr_start region"
    proof (cases ls rule: rev_cases)
      case (snoc bs l)
      then have "fr_end l < fr_start region" using False by (auto simp: touches_def nth_append)
      moreover have "\<forall>k \<in> set bs. fr_end k < fr_start l" "fr_start l \<le> fr_end l"
        using s0(1) snoc by (auto simp: fr_end_def)
      ultimately show ?thesis unfolding snoc by fastforce
    qed simp
    with False sep pos rs show ?thesis by (auto simp: t_def)
  qed
  then obtain bs region1 where t1: "t = (region1, bs @ rest, length bs)" and b: "separated (bs @ rest)"
      "0 < fr_size region1" "\<forall>l \<in> set bs. fr_end l < fr_start region1" "fr_end region1 = fr_end region"
      "region_set region1 \<union> free_set bs = region_set region \<union> free_set ls"
      "length bs < length ls \<or> bs = ls \<and> region1 = region" by blast
  have "\<forall>s \<in> set rest. fr_end region1 \<le> fr_start s" using R b(4) by simp
  from absorb_next_spec[OF b(1-3) this] obtain region2 rest' where
    n: "absorb_next (bs @ rest) (length bs) region1 = (region2, bs @ rest')"
      "separated (bs @ region2 # rest')"
      "region_set region2 \<union> free_set rest' = region_set region1 \<union> free_set rest"
      "length rest' < length rest \<or> rest' = rest \<and> region2 = region1" by blast
  have tw: "takeWhile (\<lambda>r. fr_start r < fr_start region) (ls @ rest) = ls" using ls_def rs by simp
  have ic: "insert_and_coalesce a region =
      (if length (bs @ rest') = MAX_FREE_REGIONS
       then a\<lparr>fl_regions := bs @ rest',
              dropped_free_bytes := saturating_add u64_max (dropped_free_bytes a) (fr_size region2),
              dropped_free_events := saturating_add u64_max (dropped_free_events a) 1\<rparr>
       else a\<lparr>fl_regions := bs @ region2 # rest',
              free_list_bytes := saturating_add u64_max (free_list_bytes a) (fr_size region)\<rparr>)"
    using pos t1[unfolded t_def touches_def] n(1) tw
    unfolding insert_and_coalesce_def Let_def rs by (simp only: tw) (simp add: insert_region_def)
  show ?thesis
  proof (cases "length (bs @ rest') = MAX_FREE_REGIONS")
    case True
    with len rs b(6) n(4) have "bs = ls" "rest' = rest" "region2 = region" by auto
    with True ic rs show ?thesis by (cases a) auto
  next
    case False
    have "length (bs @ rest') \<le> MAX_FREE_REGIONS" using len rs b(6) n(4) by auto
    with False have "length (bs @ region2 # rest') \<le> MAX_FREE_REGIONS" by simp
    moreover have "free_set (bs @ region2 # rest') = free_set (fl_regions a) \<union> region_set region"
      using n(3) b(5) unfolding rs by auto
    ultimately show ?thesis using ic False n(2) by auto
  qed
qed

section \<open>Histories of the heap\<close>

text \<open>What \<open>Layout\<close> guarantees of an alignment, and that rounding an address of a heap ending at
  \<open>hi\<close> up to it stays in \<open>usize\<close>.\<close>

definition layout_ok :: "nat \<Rightarrow> heap_layout \<Rightarrow> bool" where
  "layout_ok hi layout \<longleftrightarrow>
     (\<exists>k < 64. layout_align layout = 2 ^ k) \<and> hi + layout_align layout - 1 \<le> usize_max"

definition block_set :: "nat \<times> heap_layout \<Rightarrow> nat set" where
  "block_set b = {fst b..<fst b + max (layout_size (snd b)) 1}"

text \<open>The second component holds the blocks handed out and not freed since; a free names a
  live block with the layout it was allocated with.\<close>

inductive heap_step ::
  "nat \<Rightarrow> free_list_allocator \<times> (nat \<times> heap_layout) list
   \<Rightarrow> free_list_allocator \<times> (nat \<times> heap_layout) list \<Rightarrow> bool" for hi where
  heap_allocated: "layout_ok hi layout \<Longrightarrow> heap_allocate a layout = (Some p, a') \<Longrightarrow>
     heap_step hi (a, live) (a', (p, layout) # live)"
| heap_refused: "layout_ok hi layout \<Longrightarrow> heap_allocate a layout = (None, a') \<Longrightarrow>
     heap_step hi (a, live) (a', live)"
| heap_freed: "(p, layout) \<in> set live \<Longrightarrow>
     heap_step hi (a, live) (heap_deallocate a p layout, remove1 (p, layout) live)"

definition blocks_disjoint :: "(nat \<times> heap_layout) list \<Rightarrow> bool" where
  "blocks_disjoint live \<longleftrightarrow> sorted_wrt (\<lambda>b c. block_set b \<inter> block_set c = {}) live"

definition live_bytes :: "(nat \<times> heap_layout) list \<Rightarrow> nat" where
  "live_bytes live = sum_list (map (\<lambda>b. max (layout_size (snd b)) 1) live)"

definition heap_inv :: "nat \<Rightarrow> nat \<Rightarrow> free_list_allocator \<times> (nat \<times> heap_layout) list \<Rightarrow> bool" where
  "heap_inv lo hi s \<longleftrightarrow> (case s of (a, live) \<Rightarrow>
     fl_initialized a \<and> capacity_bytes a = hi - lo \<and> hi \<le> usize_max \<and>
     separated (fl_regions a) \<and> length (fl_regions a) \<le> MAX_FREE_REGIONS \<and>
     free_set (fl_regions a) \<subseteq> {lo..<hi} \<and> blocks_disjoint live \<and>
     (\<forall>b \<in> set live. block_set b \<subseteq> {lo..<hi} \<and> block_set b \<inter> free_set (fl_regions a) = {} \<and>
        layout_align (snd b) dvd fst b) \<and>
     free_list_bytes a = card (free_set (fl_regions a)) \<and>
     free_list_bytes a + live_bytes live + dropped_free_bytes a = hi - lo)"

lemma heap_inv_initial:
  assumes "lo < hi" "hi \<le> usize_max"
  shows "heap_inv lo hi (snd (heap_initialize free_list_empty lo (hi - lo)), [])"
  using assms by (simp add: heap_inv_def heap_initialize_def free_list_empty_def region_set_def
      fr_end_def blocks_disjoint_def live_bytes_def MAX_FREE_REGIONS_def)

lemma region_end_bound:
  assumes "free_set rs \<subseteq> {lo..<hi}" "separated rs" "r \<in> set rs"
  shows "fr_end r \<le> hi"
proof -
  have "fr_end r - 1 \<in> region_set r" using assms(2,3) by (auto simp: region_set_def separated_def fr_end_def)
  with assms(1,3) have "fr_end r - 1 \<in> {lo..<hi}" by (auto simp: free_set_def)
  then show ?thesis by auto
qed

lemma heap_inv_allocated:
  assumes "heap_inv lo hi (a, live)" "layout_ok hi layout" "heap_allocate a layout = (Some p, a')"
  shows "heap_inv lo hi (a', (p, layout) # live)"
proof -
  let ?sz = "max (layout_size layout) 1"
  from assms(1,3) obtain rs where sc: "alloc_scan (fl_regions a) ?sz (layout_align layout) 0 = Some (p, rs)"
    and a': "a' = a\<lparr>fl_regions := rs, free_list_bytes := free_list_bytes a - ?sz\<rparr>"
    by (auto simp: heap_allocate_def Let_def heap_inv_def split: option.splits)
  obtain k where k: "layout_align layout = 2 ^ k" using assms(2) by (auto simp: layout_ok_def)
  have i: "separated (fl_regions a)" "free_set (fl_regions a) \<subseteq> {lo..<hi}"
    using assms(1) by (auto simp: heap_inv_def)
  have "\<forall>r \<in> set (fl_regions a). fr_end r + layout_align layout - 1 \<le> usize_max"
  proof
    fix r assume "r \<in> set (fl_regions a)"
    note e = region_end_bound[OF i(2,1) this]
    have "hi + layout_align layout - 1 \<le> usize_max" using assms(2) by (simp add: layout_ok_def)
    with e show "fr_end r + layout_align layout - 1 \<le> usize_max" by linarith
  qed
  from alloc_scan_Some[OF sc i(1) _ k this] have r: "separated rs"
    "{p..<p + ?sz} \<subseteq> free_set (fl_regions a)" "free_set rs = free_set (fl_regions a) - {p..<p + ?sz}"
    "layout_align layout dvd p" "length (fl_regions a) \<le> MAX_FREE_REGIONS \<longrightarrow> length rs \<le> MAX_FREE_REGIONS"
    by auto
  have "card (free_set rs) = card (free_set (fl_regions a)) - ?sz"
    using r(2) by (simp add: r(3) card_Diff_subset)
  moreover have "?sz \<le> card (free_set (fl_regions a))"
    using card_mono[OF finite_free_set r(2)] by simp
  moreover have "block_set (p, layout) = {p..<p + ?sz}" by (simp add: block_set_def)
  note facts = this calculation
  note inv = assms(1)[unfolded heap_inv_def prod.case]
  have "blocks_disjoint ((p, layout) # live)"
    using inv r(2) facts(1) by (simp add: blocks_disjoint_def) blast
  moreover have "block_set (p, layout) \<subseteq> {lo..<hi}" "block_set (p, layout) \<inter> free_set rs = {}"
    using r(2,3) i(2) facts(1) by blast+
  moreover have "\<forall>b \<in> set live. block_set b \<inter> free_set rs = {}" using inv r(3) by blast
  moreover have "free_set rs \<subseteq> {lo..<hi}" using i(2) r(3) by blast
  moreover have "live_bytes ((p, layout) # live) = ?sz + live_bytes live"
    by (simp add: live_bytes_def)
  ultimately show ?thesis
    using inv r(1,4,5) facts(2,3) unfolding heap_inv_def a' by simp
qed

lemma heap_allocate_None: "heap_allocate a layout = (None, a') \<Longrightarrow> a' = a"
  by (auto simp: heap_allocate_def Let_def split: if_splits option.splits)

lemma live_bytes_remove1:
  "b \<in> set live \<Longrightarrow> live_bytes live = max (layout_size (snd b)) 1 + live_bytes (remove1 b live)"
  by (simp add: live_bytes_def sum_list_map_remove1)

lemma blocks_disjoint_member:
  "blocks_disjoint live \<Longrightarrow> b \<in> set live \<Longrightarrow> c \<in> set (remove1 b live) \<Longrightarrow> block_set b \<inter> block_set c = {}"
  by (induction live) (auto simp: blocks_disjoint_def split: if_splits)

lemma blocks_disjoint_remove1: "blocks_disjoint live \<Longrightarrow> blocks_disjoint (remove1 b live)"
  by (induction live) (auto simp: blocks_disjoint_def dest: notin_set_remove1)

lemma heap_inv_freed:
  assumes "heap_inv lo hi (a, live)" "(p, layout) \<in> set live"
  shows "heap_inv lo hi (heap_deallocate a p layout, remove1 (p, layout) live)"
proof -
  let ?b = "(p, layout)" and ?sz = "max (layout_size layout) 1"
  let ?r = "\<lparr>fr_start = p, fr_size = ?sz\<rparr>" and ?live = "remove1 (p, layout) live"
  note inv = assms(1)[unfolded heap_inv_def prod.case]
  have bs: "block_set ?b = {p..<p + ?sz}" "region_set ?r = {p..<p + ?sz}"
    by (simp_all add: block_set_def region_set_def fr_end_def)
  have b: "{p..<p + ?sz} \<subseteq> {lo..<hi}" "{p..<p + ?sz} \<inter> free_set (fl_regions a) = {}"
    using inv assms(2) bs(1) by blast+
  have "p + ?sz - 1 \<in> {p..<p + ?sz}" by auto
  with b(1) have "p + ?sz \<le> hi" by fastforce
  with inv have "checked_add usize_max p ?sz = Some (p + ?sz)" by (simp add: checked_add_def)
  with inv have d: "heap_deallocate a p layout = insert_and_coalesce a ?r"
    by (simp add: heap_deallocate_def)
  note lb = live_bytes_remove1[OF assms(2), simplified]
  have hi64: "hi \<le> u64_max" using inv by (simp add: usize_max_def)
  have others: "blocks_disjoint ?live" "\<forall>c \<in> set ?live. c \<in> set live"
    "\<forall>c \<in> set ?live. block_set c \<inter> {p..<p + ?sz} = {}"
  proof -
    show "blocks_disjoint ?live" using inv by (blast intro: blocks_disjoint_remove1)
    show "\<forall>c \<in> set ?live. c \<in> set live" using set_remove1_subset[of ?b live] by blast
    show "\<forall>c \<in> set ?live. block_set c \<inter> {p..<p + ?sz} = {}"
      using blocks_disjoint_member[of live ?b] inv assms(2) bs(1) by blast
  qed
  have pos: "0 < fr_size ?r" by simp
  from insert_and_coalesce_spec[OF _ pos, of a] inv b(2) bs(2)
  consider (drop) "heap_deallocate a p layout =
        a\<lparr>dropped_free_bytes := saturating_add u64_max (dropped_free_bytes a) ?sz,
          dropped_free_events := saturating_add u64_max (dropped_free_events a) 1\<rparr>"
    | (kept) rs where "heap_deallocate a p layout =
        a\<lparr>fl_regions := rs, free_list_bytes := saturating_add u64_max (free_list_bytes a) ?sz\<rparr>"
      "separated rs" "free_set rs = free_set (fl_regions a) \<union> {p..<p + ?sz}"
      "length rs \<le> MAX_FREE_REGIONS"
    unfolding d by (auto simp: ac_simps)
  then show ?thesis
  proof cases
    case drop
    have "saturating_add u64_max (dropped_free_bytes a) ?sz = dropped_free_bytes a + ?sz"
      using inv lb hi64 by (intro saturating_add_exact) linarith
    with inv others lb show ?thesis unfolding drop heap_inv_def by auto
  next
    case kept
    have "saturating_add u64_max (free_list_bytes a) ?sz = free_list_bytes a + ?sz"
      using inv lb hi64 by (intro saturating_add_exact) linarith
    moreover have "card (free_set rs) = card (free_set (fl_regions a)) + ?sz"
      using b(2) by (simp add: kept(3) card_Un_disjoint Int_commute)
    moreover have "free_set rs \<subseteq> {lo..<hi}" using kept(3) inv b(1) by blast
    moreover have "\<forall>c \<in> set ?live. block_set c \<inter> free_set rs = {}"
      using others inv unfolding kept(3) by blast
    ultimately show ?thesis
      using inv others lb kept(2,4) unfolding kept(1) heap_inv_def by auto
  qed
qed

lemma heap_inv_step: "heap_step hi s s' \<Longrightarrow> heap_inv lo hi s \<Longrightarrow> heap_inv lo hi s'"
  by (induction rule: heap_step.induct)
    (auto intro: heap_inv_allocated heap_inv_freed dest: heap_allocate_None)

lemma heap_inv_steps: "(heap_step hi)\<^sup>*\<^sup>* s s' \<Longrightarrow> heap_inv lo hi s \<Longrightarrow> heap_inv lo hi s'"
  by (induction rule: rtranclp_induct) (auto intro: heap_inv_step)

lemma blocks_disjoint_nth:
  "blocks_disjoint live \<Longrightarrow> i < j \<Longrightarrow> j < length live \<Longrightarrow> block_set (live ! i) \<inter> block_set (live ! j) = {}"
  using sorted_wrt_nth_less[of "\<lambda>b c. block_set b \<inter> block_set c = {}" live i j]
  by (simp add: blocks_disjoint_def)

text \<open>C3. The kernel heap never hands out overlapping memory. Starting from a heap initialised
  over \<open>[lo, hi)\<close>, after any sequence of allocations with power-of-two alignments and frees of
  live blocks, the live blocks are pairwise disjoint, lie inside the heap, have the alignment
  asked for, and share no byte with a region of the free list.\<close>

theorem heap_blocks_never_overlap:
  assumes "lo < hi" "hi \<le> usize_max"
    and "(heap_step hi)\<^sup>*\<^sup>* (snd (heap_initialize free_list_empty lo (hi - lo)), []) (a, live)"
  shows "(\<forall>j < length live. \<forall>i < j. block_set (live ! i) \<inter> block_set (live ! j) = {}) \<and>
    (\<forall>b \<in> set live. block_set b \<subseteq> {lo..<hi} \<and> layout_align (snd b) dvd fst b \<and>
       block_set b \<inter> free_set (fl_regions a) = {})"
proof -
  from heap_inv_steps[OF assms(3) heap_inv_initial[OF assms(1,2)]] have "heap_inv lo hi (a, live)" .
  then show ?thesis by (auto simp: heap_inv_def dest: blocks_disjoint_nth)
qed


section \<open>First fit\<close>

lemma alloc_scan_None:
  assumes "alloc_scan rs sz align index = None" "index \<le> i" "i < length rs" "length rs < MAX_FREE_REGIONS"
    "\<forall>r \<in> set rs. heap_align_up (fr_start r) align + sz \<le> usize_max"
  shows "fr_end (rs ! i) < heap_align_up (fr_start (rs ! i)) align + sz"
  using assms
proof (induction rs sz align index rule: alloc_scan.induct)
  case (1 rs sz align index)
  have len: "index < length rs" using "1.prems"(2,3) by simp
  let ?r = "rs ! index"
  have add: "checked_add usize_max (heap_align_up (fr_start ?r) align) sz =
      Some (heap_align_up (fr_start ?r) align + sz)"
    using "1.prems"(5) len by (simp add: rust_int)
  have fit: "fr_end ?r < heap_align_up (fr_start ?r) align + sz"
    using "1.prems"(1,4) len add
    by (subst (asm) alloc_scan.simps) (auto simp: Let_def carve_region_def split: if_splits)
  show ?case
  proof (cases "i = index")
    case False
    have "alloc_scan rs sz align (index + 1) = None"
      using "1.prems"(1) len add fit by (subst (asm) alloc_scan.simps) (simp add: Let_def)
    from "1.IH"[OF len refl refl add fit this _ "1.prems"(3-5)] False "1.prems"(2) show ?thesis by simp
  qed (use fit in simp)
qed

lemma heap_align_up_least:
  assumes "align = 2 ^ k" "v + align - 1 \<le> usize_max" "align dvd p" "v \<le> p"
  shows "heap_align_up v align \<le> p"
proof -
  from assms(3) obtain q where q: "p = align * q" by blast
  have a: "0 < align" using assms(1) by simp
  have "(v + align - 1) div align \<le> (align * q + (align - 1)) div align"
    using assms(4) q a by (intro div_le_mono) simp
  also have "\<dots> = q" by (rule div_nat_eqI) (use a in auto)
  finally show ?thesis
    unfolding heap_align_up_pow2[OF assms(1,2)] q by (simp add: mult.commute)
qed

text \<open>A run of free bytes lies inside one region, because regions never touch.\<close>

lemma free_run_in_one_region:
  assumes "separated rs" "{p..<p + sz} \<subseteq> free_set rs" "0 < sz"
  shows "\<exists>r \<in> set rs. fr_start r \<le> p \<and> p + sz \<le> fr_end r"
proof -
  have "p \<in> free_set rs" using assms(2,3) by auto
  then obtain r where r: "r \<in> set rs" "p \<in> region_set r" by (auto simp: free_set_def)
  have "fr_end r \<notin> free_set rs"
  proof
    assume "fr_end r \<in> free_set rs"
    then obtain s where s: "s \<in> set rs" "fr_start s \<le> fr_end r" "fr_end r < fr_end s"
      by (auto simp: free_set_def region_set_def)
    then have "r \<noteq> s" by auto
    with r(1) s(1) obtain i j where "i < length rs" "j < length rs" "rs ! i = r" "rs ! j = s" "i \<noteq> j"
      by (metis in_set_conv_nth)
    then have "fr_end r < fr_start s \<or> fr_end s < fr_start r"
      using assms(1) sorted_wrt_nth_less[of "\<lambda>r s. fr_end r < fr_start s" rs]
      unfolding separated_def by (metis linorder_neqE_nat)
    with s r(2) show False by (auto simp: region_set_def)
  qed
  then have "\<not> fr_end r < p + sz"
    using r(2) subsetD[OF assms(2), of "fr_end r"] by (auto simp: region_set_def)
  with r show ?thesis by (auto simp: region_set_def)
qed

text \<open>First fit misses no room. In every heap reached from its initialisation, while the
  region table is not full, a request is refused only if the free bytes contain no run of
  the requested size at an address of the requested alignment; and a refused request
  changes nothing.\<close>

theorem heap_refuses_only_without_room:
  assumes "lo < hi" "hi + layout_align layout + max (layout_size layout) 1 \<le> usize_max"
    and "(heap_step hi)\<^sup>*\<^sup>* (snd (heap_initialize free_list_empty lo (hi - lo)), []) (a, live)"
    and "layout_ok hi layout" "length (fl_regions a) < MAX_FREE_REGIONS"
    and "heap_allocate a layout = (None, a')"
  shows "a' = a \<and> \<not> (\<exists>p. layout_align layout dvd p \<and>
    {p..<p + max (layout_size layout) 1} \<subseteq> free_set (fl_regions a))"
proof -
  let ?sz = "max (layout_size layout) 1" and ?al = "layout_align layout"
  have "hi \<le> usize_max" using assms(2) by simp
  from heap_inv_steps[OF assms(3) heap_inv_initial[OF assms(1) this]]
  have i: "fl_initialized a" "separated (fl_regions a)" "free_set (fl_regions a) \<subseteq> {lo..<hi}"
    by (auto simp: heap_inv_def)
  obtain k where k: "?al = 2 ^ k" using assms(4) by (auto simp: layout_ok_def)
  have b: "fr_start r + ?al - 1 \<le> usize_max \<and> heap_align_up (fr_start r) ?al + ?sz \<le> usize_max"
    if r: "r \<in> set (fl_regions a)" for r
  proof -
    have s: "fr_start r \<le> hi" using region_end_bound[OF i(3,2) r] by (simp add: fr_end_def)
    then have 1: "fr_start r + ?al - 1 \<le> usize_max" using assms(2) by linarith
    from heap_align_up_bounds(2)[OF k 1] s assms(2) 1 show ?thesis by linarith
  qed
  from assms(6) i(1) have none: "alloc_scan (fl_regions a) ?sz ?al 0 = None"
    by (auto simp: heap_allocate_def Let_def split: option.splits)
  have "False" if p: "?al dvd p" "{p..<p + ?sz} \<subseteq> free_set (fl_regions a)" for p
  proof -
    have "0 < ?sz" by simp
    from free_run_in_one_region[OF i(2) p(2) this] obtain r where
      r: "r \<in> set (fl_regions a)" "fr_start r \<le> p" "p + ?sz \<le> fr_end r" by blast
    then obtain n where n: "n < length (fl_regions a)" "fl_regions a ! n = r"
      by (auto simp: in_set_conv_nth)
    from alloc_scan_None[OF none _ n(1) assms(5)] b n(2)
    have "fr_end r < heap_align_up (fr_start r) ?al + ?sz" by auto
    with heap_align_up_least[OF k _ p(1) r(2)] b[OF r(1)] r(3) show False by auto
  qed
  with heap_allocate_None[OF assms(6)] show ?thesis by blast
qed

section \<open>A sample history\<close>

definition sample_layout :: "nat \<Rightarrow> nat \<Rightarrow> heap_layout" where
  "sample_layout sz align = \<lparr>layout_size = sz, layout_align = align\<rparr>"

definition sample_heap :: "(nat \<times> nat) list \<Rightarrow> nat \<Rightarrow> free_list_allocator" where
  "sample_heap rs n =
     \<lparr>fl_regions = map (\<lambda>(s, k). \<lparr>fr_start = s, fr_size = k\<rparr>) rs, fl_initialized = True,
      capacity_bytes = 256, free_list_bytes = n, dropped_free_bytes = 0, dropped_free_events = 0\<rparr>"

lemma sample_align:
  "heap_align_up 0x1000 8 = 0x1000" "heap_align_up 0x1010 64 = 0x1040" "heap_align_up 0x1000 2 = 0x1000"
  "heap_align_up 0x1058 2 = 0x1058"
  using heap_align_up_pow2[of 8 3 "0x1000"] heap_align_up_pow2[of 64 6 "0x1010"]
    heap_align_up_pow2[of 2 1 "0x1000"] heap_align_up_pow2[of 2 1 "0x1058"]
  by (simp_all add: usize_max_def u64_max_def)

lemmas heap_eval = sample_heap_def sample_layout_def sample_align heap_allocate_def alloc_scan.simps
  checked_add_def usize_max_def u64_max_def carve_region_def remove_region_def insert_region_def fr_end_def
  heap_deallocate_def insert_and_coalesce_def absorb_next.simps MAX_FREE_REGIONS_def
  saturating_add_def merge_regions_def Let_def

lemma layout_okI: "layout_align layout = 2 ^ k \<Longrightarrow> k < 64 \<Longrightarrow> hi + 2 ^ k - 1 \<le> usize_max \<Longrightarrow> layout_ok hi layout"
  by (auto simp: layout_ok_def)

lemma sample_layout_ok:
  "layout_ok 0x1100 (sample_layout 16 8)" "layout_ok 0x1100 (sample_layout 24 64)"
  "layout_ok 0x1100 (sample_layout 512 2)"
  by (rule layout_okI[of _ 3] layout_okI[of _ 6] layout_okI[of _ 1];
      simp add: sample_layout_def usize_max_def u64_max_def)+

lemma sample_heap_history:
  "(heap_step 0x1100)\<^sup>*\<^sup>* (snd (heap_initialize free_list_empty 0x1000 (0x1100 - 0x1000)), [])
     (sample_heap [(0x1000, 0x40), (0x1058, 0xA8)] 232, [(0x1040, sample_layout 24 64)])"
proof -
  have 0: "snd (heap_initialize free_list_empty 0x1000 (0x1100 - 0x1000)) = sample_heap [(0x1000, 256)] 256"
    by (simp add: heap_initialize_def free_list_empty_def sample_heap_def)
  have 1: "heap_step 0x1100 (sample_heap [(0x1000, 256)] 256, [])
      (sample_heap [(0x1010, 240)] 240, [(0x1000, sample_layout 16 8)])"
    by (rule heap_allocated[OF sample_layout_ok(1)]) (simp add: heap_eval)
  have 2: "heap_step 0x1100 (sample_heap [(0x1010, 240)] 240, [(0x1000, sample_layout 16 8)])
      (sample_heap [(0x1010, 0x30), (0x1058, 0xA8)] 216,
       [(0x1040, sample_layout 24 64), (0x1000, sample_layout 16 8)])"
    by (rule heap_allocated[OF sample_layout_ok(2)]) (simp add: heap_eval)
  have d: "heap_deallocate (sample_heap [(0x1010, 0x30), (0x1058, 0xA8)] 216) 0x1000 (sample_layout 16 8) =
      sample_heap [(0x1000, 0x40), (0x1058, 0xA8)] 232"
    by (simp add: heap_eval)
  have 3: "heap_step 0x1100 (sample_heap [(0x1010, 0x30), (0x1058, 0xA8)] 216,
       [(0x1040, sample_layout 24 64), (0x1000, sample_layout 16 8)])
      (sample_heap [(0x1000, 0x40), (0x1058, 0xA8)] 232, [(0x1040, sample_layout 24 64)])"
    using heap_freed[of "0x1000" "sample_layout 16 8"
        "[(0x1040, sample_layout 24 64), (0x1000, sample_layout 16 8)]" "0x1100"
        "sample_heap [(0x1010, 0x30), (0x1058, 0xA8)] 216"]
    by (simp add: d)
  show ?thesis unfolding 0 using 1 2 3
    by (meson converse_rtranclp_into_rtranclp rtranclp.rtrancl_refl)
qed

lemma sample_heap_bounds: "(0x1000::nat) < 0x1100" "0x1100 \<le> usize_max"
  by (simp_all add: usize_max_def u64_max_def)

theorem heap_blocks_never_overlap_witness:
  "block_set (0x1040, sample_layout 24 64) \<subseteq> {0x1000..<0x1100} \<and> (64::nat) dvd 0x1040"
  using heap_blocks_never_overlap[OF sample_heap_bounds sample_heap_history]
  by (simp add: sample_layout_def)


theorem heap_refuses_only_without_room_witness:
  "\<not> (\<exists>p. 2 dvd p \<and> {p..<p + 512} \<subseteq>
     free_set (fl_regions (sample_heap [(0x1000, 0x40), (0x1058, 0xA8)] 232)))"
proof -
  have "heap_allocate (sample_heap [(0x1000, 0x40), (0x1058, 0xA8)] 232) (sample_layout 512 2) =
      (None, sample_heap [(0x1000, 0x40), (0x1058, 0xA8)] 232)"
    by (simp add: heap_eval)
  moreover have "0x1100 + layout_align (sample_layout 512 2) + max (layout_size (sample_layout 512 2)) 1
      \<le> usize_max"
    by (simp add: sample_layout_def usize_max_def u64_max_def)
  moreover have "length (fl_regions (sample_heap [(0x1000, 0x40), (0x1058, 0xA8)] 232)) < MAX_FREE_REGIONS"
    by (simp add: sample_heap_def MAX_FREE_REGIONS_def)
  ultimately show ?thesis
    using heap_refuses_only_without_room[OF sample_heap_bounds(1) _ sample_heap_history sample_layout_ok(3)]
    by (simp add: sample_layout_def)
qed

end
