(* ===== verification/Kernel_Events.thy ===== *)
theory Kernel_Events
  imports Prelude
begin

unbundle bit_operations_syntax

text \<open>
  Traps and the kernel event log (\<open>kernel/core/src/interrupts.rs\<close>, with the record
  layout of \<open>shared/abi/src/core.rs\<close>): the classification of processor exceptions,
  the event record an exception leaves behind, and the ring that keeps the last 64
  records. Event payloads are \<open>64 word\<close> values, sequence numbers are natural numbers
  that saturate at \<open>u64::MAX\<close>. The counters of \<open>InterruptState\<close> are relaxed atomics
  and wrap.
\<close>

section \<open>Traps\<close>

datatype trap_origin = KernelOrigin | UserOrigin

record trap_frame_view =
  instruction_pointer :: u64
  stack_pointer :: u64
  trap_flags :: u64
  code_segment :: u64

definition trap_frame_origin :: "trap_frame_view \<Rightarrow> trap_origin" where
  "trap_frame_origin frame = (if and (code_segment frame) 3 = 3 then UserOrigin else KernelOrigin)"

datatype fault_disposition = Fatal | Retry | TerminateTask

datatype exception_detail =
    Breakpoint
  | InvalidOpcode
  | PageFault u64 u64
  | GeneralProtection u64
  | DoubleFault u64
  | UnknownException u8 "u64 option"

record exception_report =
  er_detail :: exception_detail
  er_frame :: trap_frame_view
  er_disposition :: fault_disposition

fun classify_exception :: "exception_detail \<Rightarrow> trap_origin \<Rightarrow> fault_disposition" where
  "classify_exception Breakpoint origin = Retry"
| "classify_exception (DoubleFault _) origin = Fatal"
| "classify_exception _ KernelOrigin = Fatal"
| "classify_exception _ UserOrigin = TerminateTask"

section \<open>Event records\<close>

datatype kernel_event_kind = Trap | PressureEvent

record kernel_event_record =
  ke_sequence :: nat
  ke_kind :: kernel_event_kind
  ke_reserved :: nat
  ke_tick :: nat
  ke_detail0 :: u64
  ke_detail1 :: u64
  ke_detail2 :: u64
  ke_detail3 :: u64
  ke_detail4 :: u64

text \<open>\<open>disposition as u64\<close>: the discriminants count from zero in declaration order.\<close>

fun disposition_code :: "fault_disposition \<Rightarrow> u64" where
  "disposition_code Fatal = 0"
| "disposition_code Retry = 1"
| "disposition_code TerminateTask = 2"

fun exception_words :: "exception_detail \<Rightarrow> u64 \<times> u64 \<times> u64" where
  "exception_words Breakpoint = (3, 0, 0)"
| "exception_words InvalidOpcode = (6, 0, 0)"
| "exception_words (PageFault fault_address error_code) = (14, fault_address, error_code)"
| "exception_words (GeneralProtection error_code) = (13, 0, error_code)"
| "exception_words (DoubleFault error_code) = (8, 0, error_code)"
| "exception_words (UnknownException vector error_code) =
     (ucast vector, ucast vector, case error_code of None \<Rightarrow> 0 | Some e \<Rightarrow> e)"

definition kernel_event_for_exception ::
  "nat option \<Rightarrow> exception_detail \<Rightarrow> trap_frame_view \<Rightarrow> fault_disposition \<Rightarrow> kernel_event_record" where
  "kernel_event_for_exception now detail frame disposition =
     (case exception_words detail of (detail0, detail3, detail4) \<Rightarrow>
        \<lparr>ke_sequence = 0, ke_kind = Trap, ke_reserved = 0,
         ke_tick = (case now of None \<Rightarrow> 0 | Some instant \<Rightarrow> instant),
         ke_detail0 = detail0,
         ke_detail1 = (case trap_frame_origin frame of KernelOrigin \<Rightarrow> 0 | UserOrigin \<Rightarrow> 1),
         ke_detail2 = instruction_pointer frame,
         ke_detail3 = detail3,
         ke_detail4 =
           or (or (push_bit 32 (and (stack_pointer frame) 0xffffffff))
                  (and (disposition_code disposition) 0xffff))
              (push_bit 16 (and detail4 0xffff))\<rparr>)"

section \<open>The event ring\<close>

definition MAX_KERNEL_EVENTS :: nat where "MAX_KERNEL_EVENTS = 64"

record kernel_event_buffer =
  keb_records :: "kernel_event_record list"
  keb_next_slot :: nat
  keb_count :: nat
  keb_next_sequence :: nat

definition event_buffer_new :: kernel_event_buffer where
  "event_buffer_new =
     \<lparr>keb_records = replicate MAX_KERNEL_EVENTS
        \<lparr>ke_sequence = 0, ke_kind = Trap, ke_reserved = 0, ke_tick = 0, ke_detail0 = 0,
         ke_detail1 = 0, ke_detail2 = 0, ke_detail3 = 0, ke_detail4 = 0\<rparr>,
      keb_next_slot = 0, keb_count = 0, keb_next_sequence = 1\<rparr>"

definition event_push :: "kernel_event_record \<Rightarrow> kernel_event_buffer \<Rightarrow> kernel_event_buffer" where
  "event_push event b =
     (let event' = event\<lparr>ke_sequence := keb_next_sequence b\<rparr>
      in b\<lparr>keb_next_sequence := saturating_add u64_max (keb_next_sequence b) 1,
           keb_records := (keb_records b)[keb_next_slot b := event'],
           keb_next_slot := (keb_next_slot b + 1) mod length (keb_records b),
           keb_count := min (keb_count b + 1) (length (keb_records b))\<rparr>)"

definition event_info :: "kernel_event_buffer \<Rightarrow> nat \<times> nat" where
  "event_info b =
     (if keb_count b = 0 then (0, 0)
      else (saturating_add u64_max (keb_next_sequence b - keb_count b) 0, keb_next_sequence b))"

definition event_query :: "kernel_event_buffer \<Rightarrow> nat \<Rightarrow> kernel_event_record option" where
  "event_query b sequence =
     find (\<lambda>event. ke_sequence event = sequence) (take (keb_count b) (keb_records b))"

section \<open>Interrupt bookkeeping\<close>

record interrupt_state =
  external_interrupts :: nat
  exceptions :: nat
  timer_interrupts :: nat
  syscalls :: nat

definition interrupt_state_new :: interrupt_state where
  "interrupt_state_new =
     \<lparr>external_interrupts = 0, exceptions = 0, timer_interrupts = 0, syscalls = 0\<rparr>"

text \<open>The two statics of the module, \<open>None\<close> before \<open>initialize\<close>.\<close>

record interrupt_statics =
  is_state :: "interrupt_state option"
  is_events :: "kernel_event_buffer option"

definition interrupts_initialize :: "interrupt_statics \<Rightarrow> interrupt_statics" where
  "interrupts_initialize st =
     st\<lparr>is_events := (case is_events st of None \<Rightarrow> Some event_buffer_new | b \<Rightarrow> b),
        is_state := (case is_state st of None \<Rightarrow> Some interrupt_state_new | s \<Rightarrow> s)\<rparr>"

definition note_external_interrupt :: "interrupt_statics \<Rightarrow> interrupt_statics" where
  "note_external_interrupt st =
     st\<lparr>is_state := map_option
          (\<lambda>s. s\<lparr>external_interrupts := wrapping_add u64_max (external_interrupts s) 1\<rparr>) (is_state st)\<rparr>"

definition note_kernel_event :: "kernel_event_record \<Rightarrow> interrupt_statics \<Rightarrow> interrupt_statics" where
  "note_kernel_event event st = st\<lparr>is_events := map_option (event_push event) (is_events st)\<rparr>"

definition handle_exception ::
  "nat option \<Rightarrow> exception_detail \<Rightarrow> trap_frame_view \<Rightarrow> interrupt_statics
   \<Rightarrow> exception_report \<times> interrupt_statics" where
  "handle_exception now detail frame st =
     (let st1 = st\<lparr>is_state := map_option
                    (\<lambda>s. s\<lparr>exceptions := wrapping_add u64_max (exceptions s) 1\<rparr>) (is_state st)\<rparr>;
          disposition = classify_exception detail (trap_frame_origin frame);
          st2 = note_kernel_event (kernel_event_for_exception now detail frame disposition) st1
      in (\<lparr>er_detail = detail, er_frame = frame, er_disposition = disposition\<rparr>, st2))"

definition kernel_event_info :: "interrupt_statics \<Rightarrow> nat \<times> nat" where
  "kernel_event_info st = (case is_events st of None \<Rightarrow> (0, 0) | Some b \<Rightarrow> event_info b)"

definition kernel_event_query :: "interrupt_statics \<Rightarrow> nat \<Rightarrow> kernel_event_record option" where
  "kernel_event_query st sequence = Option.bind (is_events st) (\<lambda>b. event_query b sequence)"

section \<open>The ring keeps the last 64 events\<close>

definition stamped :: "kernel_event_record list \<Rightarrow> nat \<Rightarrow> kernel_event_record" where
  "stamped events i = (events ! i)\<lparr>ke_sequence := i + 1\<rparr>"

definition events_inv :: "kernel_event_record list \<Rightarrow> kernel_event_buffer \<Rightarrow> bool" where
  "events_inv events b \<longleftrightarrow>
     length (keb_records b) = MAX_KERNEL_EVENTS \<and> keb_next_sequence b = length events + 1 \<and>
     keb_count b = min (length events) MAX_KERNEL_EVENTS \<and>
     keb_next_slot b = length events mod MAX_KERNEL_EVENTS \<and>
     (\<forall>i < length events. length events \<le> i + MAX_KERNEL_EVENTS \<longrightarrow>
        keb_records b ! (i mod MAX_KERNEL_EVENTS) = stamped events i)"

lemma MAX_KERNEL_EVENTS_pos [simp]: "0 < MAX_KERNEL_EVENTS" "MAX_KERNEL_EVENTS \<noteq> 0"
  by (simp_all add: MAX_KERNEL_EVENTS_def)

lemma events_inv_new: "events_inv [] event_buffer_new"
  by (simp add: events_inv_def event_buffer_new_def)

text \<open>Two positions of one window of the ring are distinct slots.\<close>

lemma ring_window_inj:
  fixes i j m :: nat
  assumes "i mod m = j mod m" "i < j" "j < i + m"
  shows False
proof -
  have "m dvd j - i" using assms(1,2) by (metis mod_eq_dvd_iff_nat less_imp_le)
  with assms(2,3) show False by (auto dest: dvd_imp_le)
qed

lemma events_inv_push:
  assumes "events_inv events b" "length events + 1 < u64_max"
  shows "events_inv (events @ [event]) (event_push event b)"
proof -
  let ?n = "length events" and ?M = MAX_KERNEL_EVENTS
  note inv = assms(1)[unfolded events_inv_def]
  have "keb_records (event_push event b) ! (i mod ?M) = stamped (events @ [event]) i"
    if i: "i < ?n + 1" "?n + 1 \<le> i + ?M" for i
  proof (cases "i = ?n")
    case True
    with inv show ?thesis by (simp add: event_push_def Let_def stamped_def)
  next
    case False
    with i have "i < ?n" "?n < i + ?M" by auto
    then have "i mod ?M \<noteq> ?n mod ?M" using ring_window_inj by metis
    with inv \<open>i < ?n\<close> i show ?thesis
      by (simp add: event_push_def Let_def stamped_def nth_append)
  qed
  with inv assms(2) show ?thesis
    by (auto simp: events_inv_def event_push_def Let_def saturating_add_def mod_Suc_eq)
qed

lemma events_inv_fold:
  "length events < u64_max \<Longrightarrow> events_inv events (fold event_push events event_buffer_new)"
proof (induction events rule: rev_induct)
  case (snoc event events)
  then show ?case by (simp add: events_inv_push)
qed (simp add: events_inv_new)

lemma ring_window_cover:
  fixes n m j :: nat
  assumes "j < m" "m \<le> n"
  shows "\<exists>i < n. n \<le> i + m \<and> i mod m = j"
proof -
  define i where "i = n - 1 - (n - 1 - j) mod m"
  have m: "(n - 1 - j) mod m < m" "(n - 1 - j) mod m \<le> n - 1 - j" using assms by simp_all
  have "(n - 1 - j) div m * m = (n - 1 - j) - (n - 1 - j) mod m" by (rule minus_mod_eq_div_mult[symmetric])
  then have "i = j + (n - 1 - j) div m * m" using assms m(2) unfolding i_def by linarith
  then have "i mod m = j" using assms(1) by simp
  moreover have "i < n" "n \<le> i + m" using assms m unfolding i_def by linarith+
  ultimately show ?thesis by blast
qed

lemma events_in_ring:
  assumes "events_inv events b"
  shows "set (take (keb_count b) (keb_records b)) =
    {stamped events i |i. i < length events \<and> length events \<le> i + MAX_KERNEL_EVENTS}"
    (is "?L = ?R")
proof
  let ?n = "length events" and ?M = MAX_KERNEL_EVENTS
  note inv = assms[unfolded events_inv_def]
  show "?L \<subseteq> ?R"
  proof
    fix r assume "r \<in> ?L"
    then obtain j where j: "j < keb_count b" "j < ?M" "r = keb_records b ! j"
      using inv by (auto simp: in_set_conv_nth)
    have "\<exists>i < ?n. ?n \<le> i + ?M \<and> i mod ?M = j"
    proof (cases "?n < ?M")
      case True
      with j inv show ?thesis by (intro exI[of _ j]) auto
    next
      case False
      with ring_window_cover[of j ?M ?n] j(2) show ?thesis by simp
    qed
    with inv j(3) show "r \<in> ?R" by auto
  qed
  show "?R \<subseteq> ?L"
  proof
    fix r assume "r \<in> ?R"
    then obtain i where i: "i < ?n" "?n \<le> i + ?M" "r = stamped events i" by auto
    then have r: "r = keb_records b ! (i mod ?M)" using inv by simp
    have "i mod ?M < keb_count b"
      using inv i(1) by (cases "?n < ?M") auto
    with r inv show "r \<in> ?L" by (auto simp: in_set_conv_nth intro!: exI[of _ "i mod ?M"])
  qed
qed

text \<open>C27. The kernel event log is a faithful sliding window. After any sequence of fewer than
  \<open>u64::MAX\<close> events, the reported range starts at the oldest retained sequence number and
  ends one past the newest; a query for a sequence number returns exactly the event pushed
  with that number, stamped with it, when it is among the last 64, and nothing otherwise.\<close>

theorem event_log_is_window:
  assumes "length events < u64_max"
  shows "event_info (fold event_push events event_buffer_new) =
      (if events = [] then (0, 0)
       else (length events + 1 - min (length events) MAX_KERNEL_EVENTS, length events + 1)) \<and>
    event_query (fold event_push events event_buffer_new) s =
      (if 1 \<le> s \<and> s \<le> length events \<and> length events < s + MAX_KERNEL_EVENTS
       then Some ((events ! (s - 1))\<lparr>ke_sequence := s\<rparr>) else None)"
proof -
  let ?b = "fold event_push events event_buffer_new" and ?n = "length events"
  note inv = events_inv_fold[OF assms]
  note i = inv[unfolded events_inv_def]
  let ?xs = "take (keb_count ?b) (keb_records ?b)"
  have info: "event_info ?b = (if events = [] then (0, 0)
       else (?n + 1 - min ?n MAX_KERNEL_EVENTS, ?n + 1))"
    using i assms by (auto simp: event_info_def saturating_add_def min_def split: if_splits)
  have mem: "r \<in> set ?xs \<and> ke_sequence r = s \<longleftrightarrow>
      1 \<le> s \<and> s \<le> ?n \<and> ?n < s + MAX_KERNEL_EVENTS \<and> r = (events ! (s - 1))\<lparr>ke_sequence := s\<rparr>" for r
    unfolding events_in_ring[OF inv] stamped_def by (cases s) auto
  show ?thesis
  proof (cases "event_query ?b s")
    case None
    then have "\<forall>r \<in> set ?xs. ke_sequence r \<noteq> s" by (auto simp: event_query_def find_None_iff)
    with mem None info show ?thesis by (metis (no_types, lifting))
  next
    case (Some r)
    then have "r \<in> set ?xs \<and> ke_sequence r = s"
      by (auto simp: event_query_def find_Some_iff in_set_conv_nth)
    with mem Some info show ?thesis by simp
  qed
qed

definition sample_event :: "nat \<Rightarrow> kernel_event_record" where
  "sample_event tick = \<lparr>ke_sequence = 0, ke_kind = Trap, ke_reserved = 0, ke_tick = tick, ke_detail0 = 3,
     ke_detail1 = 0, ke_detail2 = 0, ke_detail3 = 0, ke_detail4 = 0\<rparr>"

theorem event_log_is_window_witness:
  "event_info (fold event_push [sample_event 7, sample_event 9] event_buffer_new) = (1, 3) \<and>
   event_query (fold event_push [sample_event 7, sample_event 9] event_buffer_new) 2 =
     Some ((sample_event 9)\<lparr>ke_sequence := 2\<rparr>)"
proof -
  have "length [sample_event 7, sample_event 9] < u64_max" by (simp add: u64_max_def)
  from event_log_is_window[OF this, of 2] show ?thesis by (simp add: MAX_KERNEL_EVENTS_def)
qed

section \<open>Exceptions\<close>

definition trap_word :: "u64 \<Rightarrow> fault_disposition \<Rightarrow> u64 \<Rightarrow> u64" where
  "trap_word sp d e = or (or (push_bit 32 (and sp 0xffffffff)) (and (disposition_code d) 0xffff))
     (push_bit 16 (and e 0xffff))"

lemma trap_word_decodes:
  "and (trap_word sp d e) 0xffff = disposition_code d"
  "and (drop_bit 16 (trap_word sp d e)) 0xffff = and e 0xffff"
  "drop_bit 32 (trap_word sp d e) = and sp 0xffffffff"
proof -
  have masks: "(0xffff :: u64) = mask 16" "(0xffffffff :: u64) = mask 32"
    by (simp_all add: mask_eq_exp_minus_1)
  have "disposition_code d = take_bit 2 (disposition_code d)"
    by (cases d) (simp_all add: take_bit_eq_mask mask_eq_exp_minus_1)
  then have d: "n < 2" if "bit (disposition_code d) n" for n
    using that by (metis bit_take_bit_iff)
  show "and (trap_word sp d e) 0xffff = disposition_code d"
    unfolding trap_word_def masks by (rule bit_word_eqI) (auto simp: bit_simps dest: d)
  show "and (drop_bit 16 (trap_word sp d e)) 0xffff = and e 0xffff"
    unfolding trap_word_def masks by (rule bit_word_eqI) (auto simp: bit_simps)
  show "drop_bit 32 (trap_word sp d e) = and sp 0xffffffff"
    unfolding trap_word_def masks by (rule bit_word_eqI) (auto simp: bit_simps)
qed

text \<open>The packed word of a trap record decodes: its low 16 bits are the disposition, the next
  16 the low half of the error code, and its high 32 bits the low half of the stack pointer;
  and the disposition logged for an exception is the one the handler acts on, which is never
  to kill a task for a fault taken in the kernel.\<close>

theorem trap_record_decodes:
  "case handle_exception now detail frame st of (report, st') \<Rightarrow>
     (let event = kernel_event_for_exception now detail frame (er_disposition report)
      in and (ke_detail4 event) 0xffff = disposition_code (er_disposition report) \<and>
         and (drop_bit 16 (ke_detail4 event)) 0xffff = and (snd (snd (exception_words detail))) 0xffff \<and>
         drop_bit 32 (ke_detail4 event) = and (stack_pointer frame) 0xffffffff \<and>
         is_events st' = map_option (event_push event) (is_events st) \<and>
         \<not> (trap_frame_origin frame = KernelOrigin \<and> er_disposition report = TerminateTask))"
proof -
  obtain w0 w3 w4 where w: "exception_words detail = (w0, w3, w4)" by (metis surj_pair)
  let ?d = "classify_exception detail (trap_frame_origin frame)"
  let ?e = "kernel_event_for_exception now detail frame ?d"
  have "ke_detail4 ?e = trap_word (stack_pointer frame) ?d w4"
    by (simp add: kernel_event_for_exception_def w trap_word_def)
  moreover have "\<not> (trap_frame_origin frame = KernelOrigin \<and> ?d = TerminateTask)"
    by (cases detail) auto
  ultimately show ?thesis
    by (simp add: handle_exception_def Let_def note_kernel_event_def w trap_word_decodes)
qed

end
