(* ===== verification/Memory_Manager.thy ===== *)
theory Memory_Manager
  imports Phys_Frames Kernel_Heap Kernel_Events
begin

unbundle bit_operations_syntax

text \<open>
  Memory management above the allocators: the kernel's virtual layout
  (\<open>kernel/core/src/memory/layout.rs\<close>, \<open>types.rs\<close>), the boot-time heap mapping
  (\<open>heap.rs\<close>), memory-pressure tracking (\<open>pressure.rs\<close>), the out-of-memory policy
  (\<open>oom.rs\<close>) and the manager that ties them together (\<open>manager.rs\<close>). The page mapper
  is an architecture trait and a parameter of the functions that use it; the OOM hooks
  and the pressure listeners are the function values the code registers.
\<close>

section \<open>Virtual layout and mapping flags\<close>

datatype memory_use =
    KernelText | KernelData | KernelStack | KernelHeap | KernelObjects
  | UserPrivate | Shared | DeviceMmio

type_synonym virtual_address = nat

record virtual_memory_range =
  vr_start :: virtual_address
  vr_end :: virtual_address
  vr_use_class :: memory_use

definition range_size_bytes :: "virtual_memory_range \<Rightarrow> nat" where
  "range_size_bytes r = vr_end r - vr_start r"

definition page_count_4kib :: "virtual_memory_range \<Rightarrow> nat" where
  "page_count_4kib r = range_size_bytes r div PAGE_SIZE_BYTES"

definition USER_SPACE_START :: virtual_address where "USER_SPACE_START = 0x0000000000001000"
definition USER_SPACE_END :: virtual_address where "USER_SPACE_END = 0x0000800000000000"
definition KERNEL_PHYSICAL_WINDOW_START :: virtual_address where
  "KERNEL_PHYSICAL_WINDOW_START = 0xffff800000000000"
definition KERNEL_PHYSICAL_WINDOW_END :: virtual_address where
  "KERNEL_PHYSICAL_WINDOW_END = 0xffffc00000000000"
definition KERNEL_HEAP_START :: virtual_address where "KERNEL_HEAP_START = 0xffffc10000000000"
definition KERNEL_HEAP_END :: virtual_address where "KERNEL_HEAP_END = 0xffffc10004000000"
definition KERNEL_OBJECTS_START :: virtual_address where "KERNEL_OBJECTS_START = 0xffffc20000000000"
definition KERNEL_OBJECTS_END :: virtual_address where "KERNEL_OBJECTS_END = 0xffffc20100000000"

record kernel_virtual_layout =
  user_range :: virtual_memory_range
  physical_window :: virtual_memory_range
  layout_heap :: virtual_memory_range
  layout_kernel_objects :: virtual_memory_range

definition bootstrap_default :: kernel_virtual_layout where
  "bootstrap_default =
     \<lparr>user_range = \<lparr>vr_start = USER_SPACE_START, vr_end = USER_SPACE_END, vr_use_class = UserPrivate\<rparr>,
      physical_window = \<lparr>vr_start = KERNEL_PHYSICAL_WINDOW_START, vr_end = KERNEL_PHYSICAL_WINDOW_END,
                         vr_use_class = KernelData\<rparr>,
      layout_heap = \<lparr>vr_start = KERNEL_HEAP_START, vr_end = KERNEL_HEAP_END, vr_use_class = KernelHeap\<rparr>,
      layout_kernel_objects = \<lparr>vr_start = KERNEL_OBJECTS_START, vr_end = KERNEL_OBJECTS_END,
                               vr_use_class = KernelObjects\<rparr>\<rparr>"

definition kernel_reserved_start :: "kernel_virtual_layout \<Rightarrow> virtual_address" where
  "kernel_reserved_start l = vr_start (physical_window l)"

definition kernel_reserved_end :: "kernel_virtual_layout \<Rightarrow> virtual_address" where
  "kernel_reserved_end l = vr_end (layout_kernel_objects l)"

definition MAP_WRITABLE :: u8 where "MAP_WRITABLE = push_bit 0 1"
definition MAP_EXECUTABLE :: u8 where "MAP_EXECUTABLE = push_bit 1 1"
definition MAP_USER_ACCESSIBLE :: u8 where "MAP_USER_ACCESSIBLE = push_bit 2 1"
definition MAP_GLOBAL :: u8 where "MAP_GLOBAL = push_bit 3 1"

definition mapping_contains :: "u8 \<Rightarrow> u8 \<Rightarrow> bool" where
  "mapping_contains flags other = (and flags other = other)"

definition mapping_kernel_data :: u8 where
  "mapping_kernel_data = or MAP_WRITABLE MAP_GLOBAL"

section \<open>Mapping the kernel heap at boot\<close>

type_synonym 'm map_page =
  "'m \<Rightarrow> virtual_address \<Rightarrow> frame \<Rightarrow> u8 \<Rightarrow> early_frame_allocator
   \<Rightarrow> (mapping_error + unit) \<times> 'm \<times> early_frame_allocator"

text \<open>The loop over the heap's pages: allocate a frame, map it, advance.\<close>

fun map_heap_pages ::
  "'m map_page \<Rightarrow> nat \<Rightarrow> virtual_address \<Rightarrow> 'm \<Rightarrow> early_frame_allocator
   \<Rightarrow> (initialization_error + unit) \<times> 'm \<times> early_frame_allocator" where
  "map_heap_pages map_page 0 next_page mapper frames = (Inr (), mapper, frames)"
| "map_heap_pages map_page (Suc n) next_page mapper frames =
     (case allocate_4kib frames of
        (None, frames1) \<Rightarrow> (Inl KernelHeapExhausted, mapper, frames1)
      | (Some f, frames1) \<Rightarrow>
          (case map_page mapper next_page f mapping_kernel_data frames1 of
             (Inl e, mapper1, frames2) \<Rightarrow> (Inl (Mapping e), mapper1, frames2)
           | (Inr (), mapper1, frames2) \<Rightarrow>
               map_heap_pages map_page n (next_page + PAGE_SIZE_BYTES) mapper1 frames2))"

definition initialize_kernel_heap ::
  "'m map_page \<Rightarrow> 'm \<Rightarrow> early_frame_allocator \<Rightarrow> kernel_virtual_layout \<Rightarrow> free_list_allocator
   \<Rightarrow> (initialization_error + virtual_memory_range) \<times> 'm \<times> early_frame_allocator \<times> free_list_allocator" where
  "initialize_kernel_heap map_page mapper frames l heap =
     (let heap_range = \<lparr>vr_start = vr_start (layout_heap l), vr_end = vr_end (layout_heap l),
                        vr_use_class = KernelHeap\<rparr>
      in case map_heap_pages map_page (page_count_4kib heap_range) (vr_start heap_range) mapper frames of
           (Inl e, mapper1, frames1) \<Rightarrow> (Inl e, mapper1, frames1, heap)
         | (Inr (), mapper1, frames1) \<Rightarrow>
             (case heap_initialize heap (vr_start heap_range) (range_size_bytes heap_range) of
                (Inl (), heap1) \<Rightarrow> (Inl HeapAlreadyInitialized, mapper1, frames1, heap1)
              | (Inr (), heap1) \<Rightarrow> (Inr heap_range, mapper1, frames1, heap1)))"

section \<open>Memory pressure\<close>

definition TIGHT_HEADROOM_PERMILLE :: nat where "TIGHT_HEADROOM_PERMILLE = 250"
definition CRITICAL_HEADROOM_PERMILLE :: nat where "CRITICAL_HEADROOM_PERMILLE = 100"
definition MAX_RECORDED_TRANSITIONS :: nat where "MAX_RECORDED_TRANSITIONS = 16"

datatype pressure_level = Normal | Tight | Critical

text \<open>\<open>level as u64\<close>, and the derived order of the enum.\<close>

fun pressure_code :: "pressure_level \<Rightarrow> nat" where
  "pressure_code Normal = 0"
| "pressure_code Tight = 1"
| "pressure_code Critical = 2"

record pressure_reading =
  frames_headroom_permille :: nat
  heap_headroom_permille :: nat

definition headroom_permille :: "nat \<Rightarrow> nat \<Rightarrow> nat" where
  "headroom_permille free total' =
     (if total' = 0 then 1000 else saturating_mul u64_max free 1000 div total')"

definition classify :: "pressure_reading \<Rightarrow> pressure_level" where
  "classify reading =
     (let worst = min (frames_headroom_permille reading) (heap_headroom_permille reading)
      in if worst \<le> CRITICAL_HEADROOM_PERMILLE then Critical
         else if worst \<le> TIGHT_HEADROOM_PERMILLE then Tight
         else Normal)"

record pressure_transition =
  pt_from :: pressure_level
  pt_to :: pressure_level
  pt_tick :: nat

text \<open>A listener runs on the kernel's state; the only one the kernel registers writes an event.\<close>

record 's pressure_monitor =
  pm_current :: pressure_level
  pm_listeners :: "(pressure_transition \<Rightarrow> 's \<Rightarrow> 's) list"
  pm_transitions :: "pressure_transition list"

definition pressure_monitor_new :: "'s pressure_monitor" where
  "pressure_monitor_new = \<lparr>pm_current = Normal, pm_listeners = [], pm_transitions = []\<rparr>"

definition emit_kernel_event :: "pressure_transition \<Rightarrow> interrupt_statics \<Rightarrow> interrupt_statics" where
  "emit_kernel_event transition =
     note_kernel_event
       \<lparr>ke_sequence = 0, ke_kind = PressureEvent, ke_reserved = 0, ke_tick = pt_tick transition,
        ke_detail0 = word_of_nat (pressure_code (pt_from transition)),
        ke_detail1 = word_of_nat (pressure_code (pt_to transition)),
        ke_detail2 = 0, ke_detail3 = 0, ke_detail4 = 0\<rparr>"

definition register_listener ::
  "(pressure_transition \<Rightarrow> 's \<Rightarrow> 's) \<Rightarrow> 's pressure_monitor option \<Rightarrow> 's pressure_monitor option" where
  "register_listener listener m =
     map_option (\<lambda>m. m\<lparr>pm_listeners := pm_listeners m @ [listener]\<rparr>) m"

definition pressure_initialize ::
  "interrupt_statics pressure_monitor option \<Rightarrow> interrupt_statics pressure_monitor option" where
  "pressure_initialize m =
     register_listener emit_kernel_event
       (case m of None \<Rightarrow> Some pressure_monitor_new | Some m' \<Rightarrow> Some m')"

definition current_level :: "'s pressure_monitor option \<Rightarrow> pressure_level option" where
  "current_level m = map_option pm_current m"

definition transitions_snapshot :: "'s pressure_monitor option \<Rightarrow> pressure_transition list" where
  "transitions_snapshot m = (case m of None \<Rightarrow> [] | Some m' \<Rightarrow> pm_transitions m')"

definition observe ::
  "pressure_reading \<Rightarrow> nat \<Rightarrow> 's pressure_monitor option \<Rightarrow> 's
   \<Rightarrow> pressure_transition option \<times> 's pressure_monitor option \<times> 's" where
  "observe reading tick mon st =
     (case mon of
        None \<Rightarrow> (None, None, st)
      | Some m \<Rightarrow>
          let level = classify reading; previous = pm_current m
          in if level = previous then (None, Some m, st)
             else
               let transition = \<lparr>pt_from = previous, pt_to = level, pt_tick = tick\<rparr>;
                   st' = fold (\<lambda>listener. listener transition) (pm_listeners m) st;
                   ts = pm_transitions m @ [transition];
                   ts' = (if length ts > MAX_RECORDED_TRANSITIONS
                          then drop (length ts - MAX_RECORDED_TRANSITIONS) ts else ts)
               in (Some transition, Some (m\<lparr>pm_current := level, pm_transitions := ts'\<rparr>), st'))"

section \<open>The out-of-memory policy\<close>

definition OOM_EXIT_CODE :: nat where "OOM_EXIT_CODE = 0x00004F4F4D00"

definition PROTECTED_TASK_NAMES :: "string list" where
  "PROTECTED_TASK_NAMES = [''root-manager'', ''console-service'', ''shell-service'']"

record victim_candidate =
  vc_task :: nat
  vc_name :: "string option"
  footprint_frames :: nat
  reclaimable :: bool

definition is_protected :: "victim_candidate \<Rightarrow> bool" where
  "is_protected candidate \<longleftrightarrow> \<not> reclaimable candidate \<or>
     (case vc_name candidate of None \<Rightarrow> False | Some name \<Rightarrow> name \<in> set PROTECTED_TASK_NAMES)"

text \<open>The comparison of \<open>select_victim\<close>, and \<open>Iterator::max_by\<close>, which keeps the later of two
  elements unless the earlier one is greater.\<close>

definition victim_greater :: "victim_candidate \<Rightarrow> victim_candidate \<Rightarrow> bool" where
  "victim_greater a b \<longleftrightarrow> footprint_frames a > footprint_frames b
     \<or> footprint_frames a = footprint_frames b \<and> vc_task b > vc_task a"

fun max_by :: "('a \<Rightarrow> 'a \<Rightarrow> bool) \<Rightarrow> 'a list \<Rightarrow> 'a option" where
  "max_by gt [] = None"
| "max_by gt (x # xs) = Some (fold (\<lambda>y best. if gt best y then best else y) xs x)"

definition select_victim :: "victim_candidate list \<Rightarrow> victim_candidate option" where
  "select_victim candidates = max_by victim_greater (filter (\<lambda>c. \<not> is_protected c) candidates)"

datatype oom_error = NoRecoveryAvailable | ProtectedSetExhausted

record 's oom_hooks =
  oh_candidates :: "'s \<Rightarrow> victim_candidate list"
  oh_reclaim :: "victim_candidate \<Rightarrow> 's \<Rightarrow> 's"

definition recover_with_retry ::
  "'s oom_hooks option \<Rightarrow> ('s \<Rightarrow> 'a option \<times> 's) \<Rightarrow> 's \<Rightarrow> (oom_error + 'a) \<times> 's" where
  "recover_with_retry hooks allocate st =
     (case hooks of
        None \<Rightarrow> (Inl NoRecoveryAvailable, st)
      | Some h \<Rightarrow>
          (case select_victim (oh_candidates h st) of
             None \<Rightarrow> (Inl ProtectedSetExhausted, st)
           | Some victim \<Rightarrow>
               (case allocate (oh_reclaim h victim st) of
                  (None, st') \<Rightarrow> (Inl ProtectedSetExhausted, st')
                | (Some x, st') \<Rightarrow> (Inr x, st'))))"

section \<open>The memory manager\<close>

record memory_stats =
  ms_total_bytes :: nat
  ms_usable_bytes :: nat
  boot_services_reclaimable_bytes :: nat
  reclaimed_boot_services_bytes :: nat
  acpi_reclaimable_bytes :: nat
  reserved_bytes :: nat
  mapped_heap_bytes :: nat
  remaining_usable_bytes :: nat

text \<open>The accumulating loop of \<open>MemoryStats::from_boot_context\<close>: total, usable, boot-services, ACPI
  and reserved bytes.\<close>

fun count_boot_bytes ::
  "boot_memory_region list \<Rightarrow> nat \<times> nat \<times> nat \<times> nat \<times> nat \<Rightarrow> nat \<times> nat \<times> nat \<times> nat \<times> nat" where
  "count_boot_bytes [] acc = acc"
| "count_boot_bytes (region # rest) (t, u, b, c, r) =
     (let bytes = br_end region - br_start region
      in count_boot_bytes rest
           (case br_kind region of
              Usable \<Rightarrow> (t + bytes, u + bytes, b, c, r)
            | BootServicesReclaimable \<Rightarrow> (t + bytes, u, b + bytes, c, r + bytes)
            | AcpiReclaimable \<Rightarrow> (t + bytes, u, b, c + bytes, r + bytes)
            | _ \<Rightarrow> (t + bytes, u, b, c, r + bytes)))"

definition memory_stats_from_boot ::
  "boot_memory_region list \<Rightarrow> virtual_memory_range \<Rightarrow> early_frame_allocator \<Rightarrow> nat \<Rightarrow> memory_stats" where
  "memory_stats_from_boot memory_regions heap frames reclaimed_bytes =
     (case count_boot_bytes memory_regions (0, 0, 0, 0, 0) of (t, u, b, c, r) \<Rightarrow>
        \<lparr>ms_total_bytes = t, ms_usable_bytes = u, boot_services_reclaimable_bytes = b,
         reclaimed_boot_services_bytes = reclaimed_bytes, acpi_reclaimable_bytes = c,
         reserved_bytes = r, mapped_heap_bytes = range_size_bytes heap,
         remaining_usable_bytes = remaining_frames frames * PAGE_SIZE_BYTES\<rparr>)"

text \<open>The state the manager works on: its own fields, the heap and the monitor statics, and the
  interrupt statics its listener writes to.\<close>

record memory_system =
  sys_frames :: early_frame_allocator
  sys_stats :: memory_stats
  sys_heap :: free_list_allocator
  sys_monitor :: "interrupt_statics pressure_monitor option"
  sys_interrupts :: interrupt_statics

definition pressure_reading_of :: "memory_system \<Rightarrow> pressure_reading" where
  "pressure_reading_of st =
     (let total_frames = ms_usable_bytes (sys_stats st) div PAGE_SIZE_BYTES;
          free_frames = usable_headroom_frames (sys_frames st);
          (heap_total, heap_free) =
            (case usage_if_initialized (sys_heap st) of
               Some usage \<Rightarrow> (total_bytes usage, usage_free_bytes usage)
             | None \<Rightarrow> (0, 0))
      in \<lparr>frames_headroom_permille = headroom_permille free_frames total_frames,
          heap_headroom_permille = headroom_permille heap_free heap_total\<rparr>)"

definition refresh_pressure ::
  "nat option \<Rightarrow> memory_system \<Rightarrow> pressure_transition option \<times> memory_system" where
  "refresh_pressure now st =
     (let tick = (case now of None \<Rightarrow> 0 | Some t \<Rightarrow> t)
      in case observe (pressure_reading_of st) tick (sys_monitor st) (sys_interrupts st) of
           (transition, monitor, interrupts) \<Rightarrow>
             (transition, st\<lparr>sys_monitor := monitor, sys_interrupts := interrupts\<rparr>))"

definition allocate_from_frames :: "memory_system \<Rightarrow> frame option \<times> memory_system" where
  "allocate_from_frames st =
     (case allocate_4kib (sys_frames st) of (f, frames) \<Rightarrow> (f, st\<lparr>sys_frames := frames\<rparr>))"

text \<open>\<open>Inl\<close> is the panic with its reason.\<close>

definition allocate_frame_with_oom_policy ::
  "memory_system oom_hooks option \<Rightarrow> nat option \<Rightarrow> memory_system
   \<Rightarrow> (oom_error + frame) \<times> memory_system" where
  "allocate_frame_with_oom_policy hooks now st =
     (case allocate_from_frames st of
        (Some f, st1) \<Rightarrow> (Inr f, st1)
      | (None, st1) \<Rightarrow>
          recover_with_retry hooks allocate_from_frames (snd (refresh_pressure now st1)))"

definition memory_initialize ::
  "'m map_page \<Rightarrow> 'm \<Rightarrow> boot_memory_region list \<Rightarrow> bool \<Rightarrow> free_list_allocator
   \<Rightarrow> interrupt_statics pressure_monitor option \<Rightarrow> interrupt_statics \<Rightarrow> nat option
   \<Rightarrow> initialization_error + 'm \<times> memory_system" where
  "memory_initialize map_page mapper memory_regions memory_map_available heap monitor interrupts now =
     (if \<not> memory_map_available then Inl MissingMemoryMap
      else case from_boot_context memory_regions of
        Inl e \<Rightarrow> Inl e
      | Inr frames \<Rightarrow>
          (case initialize_kernel_heap map_page mapper frames bootstrap_default heap of
             (Inl e, _) \<Rightarrow> Inl e
           | (Inr heap_range, mapper1, frames1, heap1) \<Rightarrow>
               (case reclaim_boot_services frames1 memory_regions of
                  (Inl e, _) \<Rightarrow> Inl e
                | (Inr reclaimed_frames, frames2) \<Rightarrow>
                    let stats = memory_stats_from_boot memory_regions heap_range frames2
                                  (reclaimed_frames * PAGE_SIZE_BYTES);
                        st = \<lparr>sys_frames = frames2, sys_stats = stats, sys_heap = heap1,
                              sys_monitor = pressure_initialize monitor,
                              sys_interrupts = interrupts\<rparr>
                    in Inr (mapper1, snd (refresh_pressure now st)))))"

section \<open>Pressure transitions\<close>

text \<open>What the monitor should record: the changes of level in a sequence of readings.\<close>

fun level_changes :: "pressure_level \<Rightarrow> (pressure_reading \<times> nat) list \<Rightarrow> pressure_transition list" where
  "level_changes current [] = []"
| "level_changes current ((reading, tick) # rest) =
     (if classify reading = current then level_changes current rest
      else \<lparr>pt_from = current, pt_to = classify reading, pt_tick = tick\<rparr>
           # level_changes (classify reading) rest)"

definition last_level :: "pressure_level \<Rightarrow> (pressure_reading \<times> nat) list \<Rightarrow> pressure_level" where
  "last_level current observations =
     (if observations = [] then current else classify (fst (last observations)))"

definition last_n :: "nat \<Rightarrow> 'a list \<Rightarrow> 'a list" where
  "last_n n xs = drop (length xs - n) xs"

fun observe_all ::
  "(pressure_reading \<times> nat) list \<Rightarrow> 's pressure_monitor option \<Rightarrow> 's \<Rightarrow> 's pressure_monitor option \<times> 's" where
  "observe_all [] mon st = (mon, st)"
| "observe_all ((reading, tick) # rest) mon st =
     (case observe reading tick mon st of (_, mon', st') \<Rightarrow> observe_all rest mon' st')"

definition pressure_event :: "pressure_transition \<Rightarrow> kernel_event_record" where
  "pressure_event t =
     \<lparr>ke_sequence = 0, ke_kind = PressureEvent, ke_reserved = 0, ke_tick = pt_tick t,
      ke_detail0 = word_of_nat (pressure_code (pt_from t)),
      ke_detail1 = word_of_nat (pressure_code (pt_to t)),
      ke_detail2 = 0, ke_detail3 = 0, ke_detail4 = 0\<rparr>"

lemma last_n_snoc: "last_n n (last_n n xs @ [x]) = last_n n (xs @ [x])"
  by (cases "length xs \<le> n") (auto simp: last_n_def Suc_diff_le)

lemma last_n_append: "last_n n (last_n n xs @ ys) = last_n n (xs @ ys)"
proof (induction ys arbitrary: xs)
  case (Cons y ys)
  have "last_n n (last_n n xs @ y # ys) = last_n n (last_n n (last_n n xs @ [y]) @ ys)"
    using Cons.IH[of "last_n n xs @ [y]"] by simp
  also have "\<dots> = last_n n (xs @ y # ys)"
    using Cons.IH[of "xs @ [y]"] by (simp add: last_n_snoc)
  finally show ?case .
qed (auto simp: last_n_def)

lemma observe_all_spec:
  fixes m :: "'s pressure_monitor"
  assumes "observe_all observations (Some m) st = (mon, st')"
    "pm_transitions m = last_n MAX_RECORDED_TRANSITIONS ts"
  shows "\<exists>m'. mon = Some m' \<and>
    pm_transitions m' =
      last_n MAX_RECORDED_TRANSITIONS (ts @ level_changes (pm_current m) observations) \<and>
    pm_current m' = last_level (pm_current m) observations \<and> pm_listeners m' = pm_listeners m \<and>
    st' = fold (\<lambda>t. fold (\<lambda>listener. listener t) (pm_listeners m))
            (level_changes (pm_current m) observations) st"
  using assms
proof (induction observations arbitrary: m st ts)
  case Nil
  then show ?case by (auto simp: last_level_def)
next
  case (Cons o' rest)
  obtain reading tick where o: "o' = (reading, tick)" by (metis surj_pair)
  show ?case
  proof (cases "classify reading = pm_current m")
    case True
    with Cons.prems o have "observe_all rest (Some m) st = (mon, st')" by (simp add: observe_def)
    from Cons.IH[OF this Cons.prems(2)] True o show ?thesis
      by (auto simp: last_level_def)
  next
    case False
    let ?t = "\<lparr>pt_from = pm_current m, pt_to = classify reading, pt_tick = tick\<rparr>"
    let ?ts = "pm_transitions m @ [?t]"
    let ?m = "m\<lparr>pm_current := classify reading, pm_transitions := last_n MAX_RECORDED_TRANSITIONS ?ts\<rparr>"
    have "(if length ?ts > MAX_RECORDED_TRANSITIONS
        then drop (length ?ts - MAX_RECORDED_TRANSITIONS) ?ts else ?ts) = last_n MAX_RECORDED_TRANSITIONS ?ts"
      by (auto simp: last_n_def)
    with Cons.prems(1) False o have
      r: "observe_all rest (Some ?m) (fold (\<lambda>listener. listener ?t) (pm_listeners m) st) = (mon, st')"
      by (simp add: observe_def Let_def)
    have "pm_transitions ?m = last_n MAX_RECORDED_TRANSITIONS (ts @ [?t])"
      by (simp add: Cons.prems(2) last_n_snoc)
    from Cons.IH[OF r this] False o show ?thesis
      by (auto simp: last_level_def)
  qed
qed

text \<open>The pressure monitor records exactly the changes of the classified level. Feed any
  sequence of readings to a freshly initialised monitor: the transitions it keeps are the
  last 16 level changes of the sequence, in order; its current level is the class of the
  last reading; and the kernel event log has received one pressure record for every level
  change, kept in the monitor's ring or not.\<close>

theorem pressure_monitor_records_level_changes:
  "case observe_all observations (pressure_initialize None)
          \<lparr>is_state = s, is_events = Some event_buffer_new\<rparr> of (mon, st) \<Rightarrow>
     transitions_snapshot mon =
       last_n MAX_RECORDED_TRANSITIONS (level_changes Normal observations) \<and>
     current_level mon = Some (last_level Normal observations) \<and>
     is_events st =
       Some (fold event_push (map pressure_event (level_changes Normal observations)) event_buffer_new)"
proof -
  let ?m = "\<lparr>pm_current = Normal, pm_listeners = [emit_kernel_event], pm_transitions = []\<rparr>
    :: interrupt_statics pressure_monitor"
  let ?st = "\<lparr>is_state = s, is_events = Some event_buffer_new\<rparr>"
  have i: "pressure_initialize None = Some ?m"
    by (simp add: pressure_initialize_def register_listener_def pressure_monitor_new_def)
  obtain mon st where r: "observe_all observations (Some ?m) ?st = (mon, st)" by (metis surj_pair)
  have e: "is_events (fold emit_kernel_event ts u) =
      map_option (fold event_push (map pressure_event ts)) (is_events u)" for ts u
    by (induction ts arbitrary: u)
      (auto simp: emit_kernel_event_def note_kernel_event_def pressure_event_def option.map_comp
        o_def option.map_id0 split: option.split)
  from observe_all_spec[OF r, of "[]"] show ?thesis
    by (auto simp: i r transitions_snapshot_def current_level_def last_n_def e)
qed

section \<open>Victim selection\<close>

lemma max_by_fold:
  assumes asym: "\<And>a b. gt a b \<Longrightarrow> \<not> gt b a" and ntrans: "\<And>a b c. \<not> gt b a \<Longrightarrow> \<not> gt c b \<Longrightarrow> \<not> gt c a"
  shows "fold (\<lambda>y best. if gt best y then best else y) xs x \<in> set (x # xs) \<and>
    (\<forall>y \<in> set (x # xs). \<not> gt y (fold (\<lambda>y best. if gt best y then best else y) xs x))"
proof (induction xs arbitrary: x)
  case Nil
  then show ?case using asym by auto
next
  case (Cons y ys)
  show ?case
  proof (cases "gt x y")
    case True
    with Cons.IH[of x] asym ntrans[of x _ y] show ?thesis by auto
  next
    case False
    with Cons.IH[of y] ntrans[of y _ x] show ?thesis by auto
  qed
qed

lemma select_victim_Some:
  assumes "select_victim candidates = Some v"
  shows "v \<in> set candidates \<and> \<not> is_protected v \<and>
    (\<forall>c \<in> set candidates. \<not> is_protected c \<longrightarrow> \<not> victim_greater c v)"
proof -
  obtain x xs where f: "filter (\<lambda>c. \<not> is_protected c) candidates = x # xs"
    and v: "v = fold (\<lambda>y best. if victim_greater best y then best else y) xs x"
    using assms by (cases "filter (\<lambda>c. \<not> is_protected c) candidates") (auto simp: select_victim_def)
  have "v \<in> set (x # xs) \<and> (\<forall>y \<in> set (x # xs). \<not> victim_greater y v)"
    unfolding v by (rule max_by_fold) (auto simp: victim_greater_def)
  then show ?thesis unfolding f[symmetric] by auto
qed

lemma select_victim_None: "select_victim candidates = None \<longleftrightarrow> (\<forall>c \<in> set candidates. is_protected c)"
  by (cases "filter (\<lambda>c. \<not> is_protected c) candidates")
    (auto simp: select_victim_def filter_empty_conv, metis filter_eq_Cons_iff in_set_conv_decomp)

text \<open>C28. Out-of-memory recovery reclaims the right task, once. With recovery hooks installed,
  either every candidate is protected (unreclaimable, or one of the protected services), and
  nothing is touched; or exactly one task is reclaimed, it is an unprotected candidate with
  the largest footprint, and the lowest task id among those, and the allocation is
  retried once on the state it leaves.\<close>

theorem oom_recovery_reclaims_best_victim:
  "list_all is_protected (oh_candidates h st) \<and>
     recover_with_retry (Some h) allocate st = (Inl ProtectedSetExhausted, st) \<or>
   (\<exists>v \<in> set (oh_candidates h st). \<not> is_protected v \<and>
     list_all (\<lambda>c. is_protected c \<or> footprint_frames c < footprint_frames v \<or>
        footprint_frames c = footprint_frames v \<and> vc_task v \<le> vc_task c) (oh_candidates h st) \<and>
     recover_with_retry (Some h) allocate st =
       (case allocate (oh_reclaim h v st) of
          (None, st') \<Rightarrow> (Inl ProtectedSetExhausted, st') | (Some x, st') \<Rightarrow> (Inr x, st')))"
proof (cases "select_victim (oh_candidates h st)")
  case None
  with select_victim_None[of "oh_candidates h st"] show ?thesis
    by (simp add: recover_with_retry_def list_all_iff)
next
  case (Some v)
  from select_victim_Some[OF Some] Some show ?thesis
    by (intro disjI2 bexI[of _ v]) (force simp: recover_with_retry_def victim_greater_def list_all_iff)+
qed

end
