(* ===== verification/Timekeeping.thy ===== *)
theory Timekeeping
  imports Prelude "HOL-Library.Multiset"
begin

text \<open>
  Time (\<open>kernel/core/src/time/types.rs\<close> and \<open>manager.rs\<close>): the tick counter, the table
  of 64 armed timers and the table of 64 ready wakeups. Both tables are arrays of
  optional slots; a push takes the first empty slot, a pop the first full one.
  Instants, tokens and timer ids are natural numbers that saturate at \<open>u64::MAX\<close>.
\<close>

section \<open>Types\<close>

definition MAX_ARMED_TIMERS :: nat where "MAX_ARMED_TIMERS = 64"
definition MAX_READY_WAKEUPS :: nat where "MAX_READY_WAKEUPS = 64"

type_synonym monotonic_instant = nat
type_synonym wake_token = nat
type_synonym timer_id = nat

definition instant_saturating_add :: "monotonic_instant \<Rightarrow> nat \<Rightarrow> monotonic_instant" where
  "instant_saturating_add t ticks = saturating_add u64_max t ticks"

datatype wake_reason = DeadlineExpired

record wake_event =
  we_token :: wake_token
  we_reason :: wake_reason

record timer_request =
  tr_deadline :: monotonic_instant
  tr_interval_ticks :: "nat option"

definition one_shot :: "monotonic_instant \<Rightarrow> timer_request" where
  "one_shot deadline = \<lparr>tr_deadline = deadline, tr_interval_ticks = None\<rparr>"

record tick_outcome =
  to_now :: monotonic_instant
  to_expired_timers :: nat

record time_snapshot =
  tsn_now :: monotonic_instant
  tsn_tick_hz :: nat
  tsn_pending_timers :: nat
  tsn_ready_wakeups :: nat

datatype time_init_error = InvalidTickRate
datatype timer_error = TimerUnsupported | CapacityExceeded

section \<open>Ready wakeups\<close>

type_synonym ready_ring = "wake_event option list"

definition ready_new :: ready_ring where
  "ready_new = replicate MAX_READY_WAKEUPS None"

fun fill_first :: "'a option list \<Rightarrow> 'a \<Rightarrow> 'a option list option" where
  "fill_first [] x = None"
| "fill_first (None # slots) x = Some (Some x # slots)"
| "fill_first (Some y # slots) x = map_option (\<lambda>slots'. Some y # slots') (fill_first slots x)"

fun take_first :: "'a option list \<Rightarrow> ('a \<times> 'a option list) option" where
  "take_first [] = None"
| "take_first (Some x # slots) = Some (x, None # slots)"
| "take_first (None # slots) = map_option (\<lambda>(x, slots'). (x, None # slots')) (take_first slots)"

definition occupied :: "'a option list \<Rightarrow> nat" where
  "occupied slots = length (filter (\<lambda>slot. slot \<noteq> None) slots)"

definition ready_push :: "ready_ring \<Rightarrow> wake_event \<Rightarrow> bool \<times> ready_ring" where
  "ready_push slots event =
     (case fill_first slots event of None \<Rightarrow> (False, slots) | Some slots' \<Rightarrow> (True, slots'))"

definition ready_pop :: "ready_ring \<Rightarrow> wake_event option \<times> ready_ring" where
  "ready_pop slots =
     (case take_first slots of None \<Rightarrow> (None, slots) | Some (event, slots') \<Rightarrow> (Some event, slots'))"

section \<open>The time state\<close>

record armed_timer =
  at_id :: timer_id
  at_token :: wake_token
  at_request :: timer_request

record time_state =
  ts_tick_hz :: nat
  ts_next_timer_id :: nat
  ts_now :: monotonic_instant
  ts_timers :: "armed_timer option list"
  ts_ready :: ready_ring

definition time_state_new :: "nat \<Rightarrow> time_state" where
  "time_state_new tick_hz =
     \<lparr>ts_tick_hz = tick_hz, ts_next_timer_id = 1, ts_now = 0,
      ts_timers = replicate MAX_ARMED_TIMERS None, ts_ready = ready_new\<rparr>"

definition arm_wakeup ::
  "time_state \<Rightarrow> wake_token \<Rightarrow> timer_request \<Rightarrow> (timer_error + timer_id) \<times> time_state" where
  "arm_wakeup state token request =
     (let id = ts_next_timer_id state;
          state1 = state\<lparr>ts_next_timer_id := saturating_add u64_max (ts_next_timer_id state) 1\<rparr>
      in if tr_deadline request \<le> ts_now state1 then
           (case ready_push (ts_ready state1) \<lparr>we_token = token, we_reason = DeadlineExpired\<rparr> of
              (True, ready) \<Rightarrow> (Inr id, state1\<lparr>ts_ready := ready\<rparr>)
            | (False, ready) \<Rightarrow> (Inl CapacityExceeded, state1\<lparr>ts_ready := ready\<rparr>))
         else
           (case fill_first (ts_timers state1)
                   \<lparr>at_id = id, at_token = token, at_request = request\<rparr> of
              Some timers \<Rightarrow> (Inr id, state1\<lparr>ts_timers := timers\<rparr>)
            | None \<Rightarrow> (Inl CapacityExceeded, state1)))"

text \<open>The loop of \<open>handle_tick\<close> over the timer slots: the slots, the ready table and the number of
  expired timers.\<close>

fun expire_slots ::
  "monotonic_instant \<Rightarrow> armed_timer option list \<Rightarrow> ready_ring \<Rightarrow> nat
   \<Rightarrow> armed_timer option list \<times> ready_ring \<times> nat" where
  "expire_slots now [] ready expired = ([], ready, expired)"
| "expire_slots now (None # slots) ready expired =
     (case expire_slots now slots ready expired of (slots', ready', n) \<Rightarrow> (None # slots', ready', n))"
| "expire_slots now (Some timer # slots) ready expired =
     (if tr_deadline (at_request timer) > now then
        (case expire_slots now slots ready expired of
           (slots', ready', n) \<Rightarrow> (Some timer # slots', ready', n))
      else
        (case ready_push ready \<lparr>we_token = at_token timer, we_reason = DeadlineExpired\<rparr> of
           (False, ready1) \<Rightarrow>
             (case expire_slots now slots ready1 expired of
                (slots', ready', n) \<Rightarrow> (Some timer # slots', ready', n))
         | (True, ready1) \<Rightarrow>
             let slot =
               (case tr_interval_ticks (at_request timer) of
                  Some ticks \<Rightarrow>
                    if ticks > 0
                    then Some (timer\<lparr>at_request := (at_request timer)
                                 \<lparr>tr_deadline := instant_saturating_add now ticks\<rparr>\<rparr>)
                    else None
                | None \<Rightarrow> None)
             in case expire_slots now slots ready1 (expired + 1) of
                  (slots', ready', n) \<Rightarrow> (slot # slots', ready', n)))"

definition time_handle_tick :: "time_state \<Rightarrow> tick_outcome \<times> time_state" where
  "time_handle_tick state =
     (let now = instant_saturating_add (ts_now state) 1
      in case expire_slots now (ts_timers state) (ts_ready state) 0 of
           (timers, ready, expired) \<Rightarrow>
             (\<lparr>to_now = now, to_expired_timers = expired\<rparr>,
              state\<lparr>ts_now := now, ts_timers := timers, ts_ready := ready\<rparr>))"

definition take_wakeup :: "time_state \<Rightarrow> wake_event option \<times> time_state" where
  "take_wakeup state =
     (case ready_pop (ts_ready state) of (event, ready) \<Rightarrow> (event, state\<lparr>ts_ready := ready\<rparr>))"

definition time_snapshot_of :: "time_state \<Rightarrow> time_snapshot" where
  "time_snapshot_of state =
     \<lparr>tsn_now = ts_now state, tsn_tick_hz = ts_tick_hz state,
      tsn_pending_timers = occupied (ts_timers state), tsn_ready_wakeups = occupied (ts_ready state)\<rparr>"

text \<open>\<open>initialize\<close> on the \<open>TIME_MANAGER\<close> static.\<close>

definition time_initialize ::
  "nat \<Rightarrow> time_state option \<Rightarrow> (time_init_error + time_state) \<times> time_state option" where
  "time_initialize tick_hz manager =
     (if tick_hz = 0 then (Inl InvalidTickRate, manager)
      else let m = (case manager of None \<Rightarrow> time_state_new tick_hz | Some m \<Rightarrow> m)
           in (Inr m, Some m))"

section \<open>Slot tables as multisets\<close>

fun slots_mset :: "'a option list \<Rightarrow> 'a multiset" where
  "slots_mset [] = {#}"
| "slots_mset (None # slots) = slots_mset slots"
| "slots_mset (Some x # slots) = add_mset x (slots_mset slots)"

lemma fill_first_Some:
  "fill_first slots x = Some slots' \<Longrightarrow>
   slots_mset slots' = add_mset x (slots_mset slots) \<and> length slots' = length slots"
  by (induction slots x arbitrary: slots' rule: fill_first.induct) auto

lemma fill_first_None: "fill_first slots x = None \<longleftrightarrow> None \<notin> set slots"
  by (induction slots x rule: fill_first.induct) auto

lemma take_first_Some:
  "take_first slots = Some (x, slots') \<Longrightarrow>
   slots_mset slots = add_mset x (slots_mset slots') \<and> length slots' = length slots"
  by (induction slots arbitrary: slots' rule: take_first.induct) auto

lemma take_first_None: "take_first slots = None \<longleftrightarrow> slots_mset slots = {#}"
  by (induction slots rule: take_first.induct) auto

lemma occupied_size: "occupied slots = size (slots_mset slots)"
  by (induction slots rule: slots_mset.induct) (auto simp: occupied_def)

lemma slots_mset_replicate [simp]: "slots_mset (replicate n None) = {#}"
  by (induction n) auto

lemma ready_push_True:
  "ready_push slots e = (True, slots') \<Longrightarrow>
   slots_mset slots' = add_mset e (slots_mset slots) \<and> length slots' = length slots"
  by (auto simp: ready_push_def dest: fill_first_Some split: option.splits)

lemma ready_push_False:
  "ready_push slots e = (False, slots') \<Longrightarrow> slots' = slots \<and> None \<notin> set slots"
  by (auto simp: ready_push_def fill_first_None split: option.splits)

section \<open>Expiry\<close>

definition timer_pair :: "armed_timer \<Rightarrow> wake_token \<times> monotonic_instant" where
  "timer_pair t = (at_token t, tr_deadline (at_request t))"

definition timer_event :: "armed_timer \<Rightarrow> wake_event" where
  "timer_event t = \<lparr>we_token = at_token t, we_reason = DeadlineExpired\<rparr>"

lemma expire_slots_spec:
  assumes "expire_slots now slots ready n = (slots', ready', n')"
    "\<forall>t \<in># slots_mset slots. tr_interval_ticks (at_request t) = None"
  shows "\<exists>F. slots_mset slots = slots_mset slots' + F \<and>
    slots_mset ready' = slots_mset ready + image_mset timer_event F \<and>
    (\<forall>t \<in># F. tr_deadline (at_request t) \<le> now) \<and> n' = n + size F \<and>
    length slots' = length slots \<and> length ready' = length ready \<and>
    (None \<in> set ready' \<longrightarrow> None \<in> set ready \<and>
       (\<forall>t \<in># slots_mset slots'. now < tr_deadline (at_request t)))"
  using assms
proof (induction now slots ready n arbitrary: slots' n' rule: expire_slots.induct)
  case (1 now ready expired)
  then show ?case by auto
next
  case (2 now slots ready expired)
  from "2.prems"(1) obtain s1 where e: "expire_slots now slots ready expired = (s1, ready', n')"
    and s': "slots' = None # s1" by (auto split: prod.splits)
  from "2.IH"[OF e] "2.prems"(2) show ?case by (auto simp: s')
next
  case (3 now timer slots ready expired)
  show ?case
  proof (cases "tr_deadline (at_request timer) > now")
    case True
    with "3.prems"(1) obtain s1 where e: "expire_slots now slots ready expired = (s1, ready', n')"
      and s': "slots' = Some timer # s1" by (auto split: prod.splits)
    from "3.IH"(1)[OF True e] "3.prems"(2) True show ?thesis by (auto simp: s')
  next
    case due: False
    obtain ok ready1 where p: "ready_push ready (timer_event timer) = (ok, ready1)" by (metis surj_pair)
    show ?thesis
    proof (cases ok)
      case False
      with "3.prems"(1) due p obtain s1 where e: "expire_slots now slots ready1 expired = (s1, ready', n')"
        and s': "slots' = Some timer # s1" by (auto simp: timer_event_def split: prod.splits)
      have full: "ready1 = ready" "None \<notin> set ready" using ready_push_False p False by auto
      have "ok = False" using False by simp
      from "3.IH"(3)[OF due p[unfolded timer_event_def, symmetric] this e] "3.prems"(2) full
      show ?thesis by (auto simp: s')
    next
      case True
      then have okT: "ok = True" by simp
      from True "3.prems" due p obtain s1 where
        e: "expire_slots now slots ready1 (expired + 1) = (s1, ready', n')"
        and s': "slots' = None # s1" by (auto simp: timer_event_def Let_def split: prod.splits)
      have pushed: "slots_mset ready1 = add_mset (timer_event timer) (slots_mset ready)"
        "length ready1 = length ready" "None \<in> set ready"
        using ready_push_True p True
        by (auto simp: ready_push_def split: option.splits) (metis fill_first_None option.distinct(1))
      have "\<exists>F. slots_mset slots = slots_mset s1 + F \<and>
        slots_mset ready' = slots_mset ready1 + image_mset timer_event F \<and>
        (\<forall>t \<in># F. tr_deadline (at_request t) \<le> now) \<and> n' = expired + 1 + size F \<and>
        length s1 = length slots \<and> length ready' = length ready1 \<and>
        (None \<in> set ready' \<longrightarrow> None \<in> set ready1 \<and>
          (\<forall>t \<in># slots_mset s1. now < tr_deadline (at_request t)))"
        using "3.IH"(2)[OF due p[unfolded timer_event_def, symmetric] okT refl e] "3.prems"(2) by auto
      then obtain F where "slots_mset slots = slots_mset s1 + F"
        "slots_mset ready' = slots_mset ready1 + image_mset timer_event F"
        "\<forall>t \<in># F. tr_deadline (at_request t) \<le> now" "n' = expired + 1 + size F"
        "length s1 = length slots" "length ready' = length ready1"
        "None \<in> set ready' \<longrightarrow> None \<in> set ready1 \<and> (\<forall>t \<in># slots_mset s1. now < tr_deadline (at_request t))"
        by blast
      with pushed due show ?thesis by (intro exI[of _ "add_mset timer F"]) (auto simp: s')
    qed
  qed
qed

section \<open>Histories of wakeups\<close>

text \<open>The second component holds the tokens armed and not yet taken, with their deadlines. Arming
  uses a token that is not pending, as the scheduler's token counter guarantees, and a
  one-shot request, the only kind the scheduler arms.\<close>

inductive time_step ::
  "time_state \<times> (wake_token \<times> monotonic_instant) multiset
   \<Rightarrow> time_state \<times> (wake_token \<times> monotonic_instant) multiset \<Rightarrow> bool" where
  wakeup_armed: "token \<notin># image_mset fst pending \<Longrightarrow>
     arm_wakeup s token (one_shot deadline) = (Inr timer, s') \<Longrightarrow>
     time_step (s, pending) (s', add_mset (token, deadline) pending)"
| wakeup_refused: "arm_wakeup s token (one_shot deadline) = (Inl e, s') \<Longrightarrow>
     time_step (s, pending) (s', pending)"
| time_ticked: "time_handle_tick s = (outcome, s') \<Longrightarrow> time_step (s, pending) (s', pending)"
| wakeup_taken: "take_wakeup s = (Some event, s') \<Longrightarrow> (we_token event, deadline) \<in># pending \<Longrightarrow>
     time_step (s, pending) (s', pending - {#(we_token event, deadline)#})"

definition armed_pairs :: "time_state \<Rightarrow> (wake_token \<times> monotonic_instant) multiset" where
  "armed_pairs s = image_mset timer_pair (slots_mset (ts_timers s))"

definition ready_tokens :: "time_state \<Rightarrow> wake_token multiset" where
  "ready_tokens s = image_mset we_token (slots_mset (ts_ready s))"

definition wakeups_tracked ::
  "time_state \<times> (wake_token \<times> monotonic_instant) multiset \<Rightarrow> bool" where
  "wakeups_tracked x \<longleftrightarrow> (case x of (s, pending) \<Rightarrow>
     (\<exists>R. pending = armed_pairs s + R \<and> image_mset fst R = ready_tokens s \<and>
        (\<forall>p \<in># R. snd p \<le> ts_now s)) \<and>
     (\<forall>t. count (image_mset fst pending) t \<le> 1) \<and> ts_now s \<le> u64_max \<and>
     (\<forall>t \<in># slots_mset (ts_timers s). tr_interval_ticks (at_request t) = None))"

lemma wakeups_tracked_new: "wakeups_tracked (time_state_new tick_hz, {#})"
  by (simp add: wakeups_tracked_def time_state_new_def armed_pairs_def ready_tokens_def ready_new_def)

lemma wakeups_tracked_arm:
  assumes "wakeups_tracked (s, pending)" "token \<notin># image_mset fst pending"
    "arm_wakeup s token (one_shot d) = (Inr timer, s')"
  shows "wakeups_tracked (s', add_mset (token, d) pending)"
proof -
  from assms(1) obtain R where R: "pending = armed_pairs s + R" "image_mset fst R = ready_tokens s"
    "\<forall>p \<in># R. snd p \<le> ts_now s" by (auto simp: wakeups_tracked_def)
  have "count (image_mset fst pending) token = 0" using assms(2) by (simp only: not_in_iff)
  moreover have "\<forall>t. count (image_mset fst pending) t \<le> 1"
    using assms(1) unfolding wakeups_tracked_def by blast
  ultimately have dist: "\<forall>t. count (image_mset fst (add_mset (token, d) pending)) t \<le> 1" by simp
  show ?thesis
  proof (cases "d \<le> ts_now s")
    case True
    with assms(3) obtain ready where
      p: "ready_push (ts_ready s) \<lparr>we_token = token, we_reason = DeadlineExpired\<rparr> = (True, ready)"
      and s': "ts_ready s' = ready" "ts_timers s' = ts_timers s" "ts_now s' = ts_now s"
      by (auto simp: arm_wakeup_def Let_def one_shot_def split: prod.splits bool.splits)
    from ready_push_True[OF p] have "ready_tokens s' = add_mset token (ready_tokens s)"
      by (simp add: ready_tokens_def s')
    with R dist True s' assms(1) show ?thesis
      unfolding wakeups_tracked_def
      by (auto simp: armed_pairs_def intro!: exI[of _ "add_mset (token, d) R"])
  next
    case False
    with assms(3) obtain timers where
      p: "fill_first (ts_timers s) \<lparr>at_id = timer, at_token = token, at_request = one_shot d\<rparr> = Some timers"
      and s': "ts_ready s' = ts_ready s" "ts_timers s' = timers" "ts_now s' = ts_now s"
      by (auto simp: arm_wakeup_def Let_def one_shot_def split: option.splits)
    from fill_first_Some[OF p] R dist s' assms(1) show ?thesis
      unfolding wakeups_tracked_def
      by (auto simp: armed_pairs_def ready_tokens_def timer_pair_def one_shot_def intro!: exI[of _ R])
  qed
qed

lemma wakeups_tracked_refused:
  assumes "wakeups_tracked (s, pending)" "arm_wakeup s token (one_shot d) = (Inl e, s')"
  shows "wakeups_tracked (s', pending)"
proof -
  have "ts_ready s' = ts_ready s \<and> ts_timers s' = ts_timers s \<and> ts_now s' = ts_now s"
    using assms(2) ready_push_False
    by (fastforce simp: arm_wakeup_def Let_def split: if_splits prod.splits bool.splits option.splits)
  with assms(1) show ?thesis by (simp add: wakeups_tracked_def armed_pairs_def ready_tokens_def)
qed

lemma tick_spec:
  assumes "wakeups_tracked (s, pending)" "time_handle_tick s = (outcome, s')"
  shows "wakeups_tracked (s', pending)" "ts_now s \<le> ts_now s'"
    "None \<in> set (ts_ready s') \<Longrightarrow> p \<in># armed_pairs s' \<Longrightarrow> ts_now s' < snd p"
proof -
  from assms(1) obtain R where R: "pending = armed_pairs s + R" "image_mset fst R = ready_tokens s"
    "\<forall>p \<in># R. snd p \<le> ts_now s" "ts_now s \<le> u64_max"
    "\<forall>t \<in># slots_mset (ts_timers s). tr_interval_ticks (at_request t) = None"
    by (auto simp: wakeups_tracked_def)
  let ?now = "instant_saturating_add (ts_now s) 1"
  obtain timers ready n where e: "expire_slots ?now (ts_timers s) (ts_ready s) 0 = (timers, ready, n)"
    by (metis surj_pair)
  with assms(2) have s': "ts_now s' = ?now" "ts_timers s' = timers" "ts_ready s' = ready"
    by (auto simp: time_handle_tick_def Let_def)
  have mono: "ts_now s \<le> ?now" "?now \<le> u64_max"
    using R(4) by (simp_all add: instant_saturating_add_def saturating_add_mono)
  then show "ts_now s \<le> ts_now s'" by (simp add: s')
  from expire_slots_spec[OF e R(5)] obtain F where F:
    "slots_mset (ts_timers s) = slots_mset timers + F"
    "slots_mset ready = slots_mset (ts_ready s) + image_mset timer_event F"
    "\<forall>t \<in># F. tr_deadline (at_request t) \<le> ?now"
    "None \<in> set ready \<longrightarrow> (\<forall>t \<in># slots_mset timers. ?now < tr_deadline (at_request t))"
    by blast
  show "wakeups_tracked (s', pending)"
    unfolding wakeups_tracked_def prod.case
  proof (intro conjI exI[of _ "R + image_mset timer_pair F"])
    show "pending = armed_pairs s' + (R + image_mset timer_pair F)"
      using R(1) F(1) by (simp add: armed_pairs_def s')
    show "image_mset fst (R + image_mset timer_pair F) = ready_tokens s'"
      using R(2) F(2) by (simp add: ready_tokens_def s' timer_pair_def timer_event_def
          multiset.map_comp o_def)
    show "\<forall>p \<in># R + image_mset timer_pair F. snd p \<le> ts_now s'"
      using R(3) F(3) mono by (auto simp: s' timer_pair_def)
    show "\<forall>t \<in># slots_mset (ts_timers s'). tr_interval_ticks (at_request t) = None"
      using R(5) F(1) by (simp add: s')
  qed (use assms(1) mono in \<open>auto simp: wakeups_tracked_def s'\<close>)
  show "None \<in> set (ts_ready s') \<Longrightarrow> p \<in># armed_pairs s' \<Longrightarrow> ts_now s' < snd p"
    using F(4) by (auto simp: s' armed_pairs_def timer_pair_def)
qed

lemma taken_spec:
  assumes "wakeups_tracked (s, pending)" "take_wakeup s = (Some event, s')"
  shows "\<exists>d. (we_token event, d) \<in># pending \<and> d \<le> ts_now s"
    and "(we_token event, d) \<in># pending \<Longrightarrow> wakeups_tracked (s', pending - {#(we_token event, d)#})"
proof -
  let ?t = "we_token event"
  from assms(1) obtain R where R: "pending = armed_pairs s + R" "image_mset fst R = ready_tokens s"
    "\<forall>p \<in># R. snd p \<le> ts_now s" "ts_now s \<le> u64_max"
    "\<forall>t. count (image_mset fst pending) t \<le> 1"
    "\<forall>t \<in># slots_mset (ts_timers s). tr_interval_ticks (at_request t) = None"
    unfolding wakeups_tracked_def prod.case by blast
  from assms(2) obtain ready where t: "take_first (ts_ready s) = Some (event, ready)"
    and s': "ts_ready s' = ready" "ts_timers s' = ts_timers s" "ts_now s' = ts_now s"
    by (auto simp: take_wakeup_def ready_pop_def split: option.splits prod.splits)
  from take_first_Some[OF t] have rt: "ready_tokens s = add_mset ?t (ready_tokens s')"
    by (simp add: ready_tokens_def s')
  then have "?t \<in># image_mset fst R" using R(2) by simp
  then obtain d' where d': "(?t, d') \<in># R" by auto
  with R(1,3) have "(?t, d') \<in># pending \<and> d' \<le> ts_now s" by force
  then show "\<exists>d. (?t, d) \<in># pending \<and> d \<le> ts_now s" ..
  assume d: "(?t, d) \<in># pending"
  have "d = d'"
  proof (rule ccontr)
    assume "d \<noteq> d'"
    with d d' R(1) have "{#(?t, d), (?t, d')#} \<subseteq># pending"
      by (auto simp: insert_subset_eq_iff in_diff_count)
    from mset_subset_eq_count[OF image_mset_subseteq_mono[OF this, of fst], of ?t]
    have "count {#?t, ?t#} ?t \<le> count (image_mset fst pending) ?t" by simp
    with R(5)[rule_format, of ?t] show False by simp
  qed
  then obtain Q where Q: "R = add_mset (?t, d) Q" using d' by (metis multi_member_split)
  have "count (image_mset fst (armed_pairs s + Q)) t \<le> count (image_mset fst pending) t" for t
    by (simp add: R(1) Q)
  then have "\<forall>t. count (image_mset fst (armed_pairs s + Q)) t \<le> 1" using R(5) le_trans by blast
  with R Q s' rt show "wakeups_tracked (s', pending - {#(?t, d)#})"
    unfolding wakeups_tracked_def prod.case
    by (intro conjI exI[of _ Q]) (auto simp: armed_pairs_def)
qed

lemma wakeups_tracked_step: "time_step x y \<Longrightarrow> wakeups_tracked x \<Longrightarrow> wakeups_tracked y"
  by (induction rule: time_step.induct)
    (auto intro: wakeups_tracked_arm wakeups_tracked_refused tick_spec(1) taken_spec(2))

lemma wakeups_tracked_steps: "time_step\<^sup>*\<^sup>* x y \<Longrightarrow> wakeups_tracked x \<Longrightarrow> wakeups_tracked y"
  by (induction rule: rtranclp_induct) (auto intro: wakeups_tracked_step)

lemma fill_first_replicate:
  "0 < n \<Longrightarrow> fill_first (replicate n None) x = Some (Some x # replicate (n - 1) None)"
  by (cases n) simp_all



end
