(* ===== verification/Memory_Object.thy ===== *)
theory Memory_Object
  imports Phys_Frames
begin

text \<open>
  Memory objects (\<open>MemoryObject\<close> in \<open>kernel/core/src/object/objects.rs\<close>): a byte buffer
  that is read-only, writable in the kernel heap, or, once its pages have been asked
  for, backed by physical frames. Physical memory is a function from addresses to
  bytes; the raw pointer copies of the source are updates of it. Indexing past the
  frame list panics in the source and is \<open>None\<close> here.
\<close>

section \<open>The object\<close>

datatype dma_safety = DmaUnsafe | PagePinned | Contiguous

record memory_object_info =
  mo_size_bytes :: nat
  mo_page_count :: nat
  mo_writable :: bool
  mo_dma_safety :: dma_safety

datatype memory_storage =
    ReadOnlyStorage "u8 list"
  | LinearStorage "u8 list"
  | PageBackedStorage "physical_address list"

record memory_object =
  mo_info :: memory_object_info
  mo_storage :: memory_storage

datatype memory_access_error = ReadOnlyError | BusyError | UnsupportedAccess | DmaPolicyViolation

type_synonym phys_memory = "physical_address \<Rightarrow> u8"

definition div_ceil :: "nat \<Rightarrow> nat \<Rightarrow> nat" where
  "div_ceil a b = (if a mod b = 0 then a div b else a div b + 1)"

definition memory_object_new :: "nat \<Rightarrow> bool \<Rightarrow> dma_safety \<Rightarrow> memory_object" where
  "memory_object_new size_bytes writable dma_safety =
     \<lparr>mo_info = \<lparr>mo_size_bytes = size_bytes, mo_page_count = div_ceil size_bytes 4096,
                 mo_writable = writable, mo_dma_safety = dma_safety\<rparr>,
      mo_storage = (if writable then LinearStorage (replicate size_bytes 0)
                    else ReadOnlyStorage (replicate size_bytes 0))\<rparr>"

definition memory_object_from_bytes :: "u8 list \<Rightarrow> memory_object" where
  "memory_object_from_bytes bytes =
     \<lparr>mo_info = \<lparr>mo_size_bytes = length bytes, mo_page_count = div_ceil (length bytes) 4096,
                 mo_writable = False, mo_dma_safety = DmaUnsafe\<rparr>,
      mo_storage = ReadOnlyStorage bytes\<rparr>"

definition write_bytes_at :: "phys_memory \<Rightarrow> physical_address \<Rightarrow> u8 list \<Rightarrow> phys_memory" where
  "write_bytes_at phys base bytes =
     (\<lambda>a. if base \<le> a \<and> a < base + length bytes then bytes ! (a - base) else phys a)"

definition read_bytes_at :: "phys_memory \<Rightarrow> physical_address \<Rightarrow> nat \<Rightarrow> u8 list" where
  "read_bytes_at phys base n = map (\<lambda>i. phys (base + i)) [0..<n]"

text \<open>The copy loops over the frames of a page-backed object.\<close>

function read_pages ::
  "phys_memory \<Rightarrow> physical_address list \<Rightarrow> nat \<Rightarrow> nat \<Rightarrow> nat \<Rightarrow> u8 list \<Rightarrow> (nat \<times> u8 list) option" where
  "read_pages phys frames remaining destination_offset position destination =
     (if remaining > 0 then
        let page_index = position div PAGE_SIZE_BYTES;
            page_offset = position mod PAGE_SIZE_BYTES;
            copy_len = min remaining (PAGE_SIZE_BYTES - page_offset)
        in if page_index < length frames then
             read_pages phys frames (remaining - copy_len) (destination_offset + copy_len)
               (position + copy_len)
               (copy_slice destination destination_offset
                  (read_bytes_at phys (frames ! page_index + page_offset) copy_len))
           else None
      else Some (destination_offset, destination))"
  by pat_completeness auto
termination
  by (relation "measure (\<lambda>(phys, frames, remaining, d, p, dest). remaining)") auto

declare read_pages.simps [simp del]

definition read_page_backed ::
  "phys_memory \<Rightarrow> physical_address list \<Rightarrow> nat \<Rightarrow> nat \<Rightarrow> u8 list \<Rightarrow> (nat \<times> u8 list) option" where
  "read_page_backed phys frames size_bytes offset destination =
     (if offset \<ge> size_bytes then Some (0, destination)
      else read_pages phys frames (min (length destination) (size_bytes - offset)) 0 offset destination)"

function write_pages ::
  "phys_memory \<Rightarrow> physical_address list \<Rightarrow> nat \<Rightarrow> nat \<Rightarrow> nat \<Rightarrow> u8 list \<Rightarrow> (nat \<times> phys_memory) option" where
  "write_pages phys frames remaining source_offset position source =
     (if remaining > 0 then
        let page_index = position div PAGE_SIZE_BYTES;
            page_offset = position mod PAGE_SIZE_BYTES;
            copy_len = min remaining (PAGE_SIZE_BYTES - page_offset)
        in if page_index < length frames then
             write_pages
               (write_bytes_at phys (frames ! page_index + page_offset)
                  (take copy_len (drop source_offset source)))
               frames (remaining - copy_len) (source_offset + copy_len) (position + copy_len) source
           else None
      else Some (source_offset, phys))"
  by pat_completeness auto
termination
  by (relation "measure (\<lambda>(phys, frames, remaining, s, p, src). remaining)") auto

declare write_pages.simps [simp del]

definition write_page_backed ::
  "phys_memory \<Rightarrow> physical_address list \<Rightarrow> nat \<Rightarrow> nat \<Rightarrow> u8 list \<Rightarrow> (nat \<times> phys_memory) option" where
  "write_page_backed phys frames size_bytes offset source =
     (if offset \<ge> size_bytes then Some (0, phys)
      else write_pages phys frames (min (length source) (size_bytes - offset)) 0 offset source)"

text \<open>\<open>read\<close> fills the caller's buffer; \<open>bytes.get(offset..)\<close> fails only past the end.\<close>

definition read_linear :: "u8 list \<Rightarrow> nat \<Rightarrow> u8 list \<Rightarrow> nat \<times> u8 list" where
  "read_linear bytes offset destination =
     (if offset > length bytes then (0, destination)
      else let source = drop offset bytes; len = min (length source) (length destination)
           in (len, copy_prefix destination (take len source)))"

definition memory_read ::
  "memory_object \<Rightarrow> phys_memory \<Rightarrow> nat \<Rightarrow> u8 list \<Rightarrow> (nat \<times> u8 list) option" where
  "memory_read obj phys offset destination =
     (case mo_storage obj of
        ReadOnlyStorage bytes \<Rightarrow> Some (read_linear bytes offset destination)
      | LinearStorage bytes \<Rightarrow> Some (read_linear bytes offset destination)
      | PageBackedStorage frames \<Rightarrow>
          read_page_backed phys frames (mo_size_bytes (mo_info obj)) offset destination)"

definition memory_write ::
  "memory_object \<Rightarrow> phys_memory \<Rightarrow> nat \<Rightarrow> u8 list
   \<Rightarrow> ((memory_access_error + nat) \<times> memory_object \<times> phys_memory) option" where
  "memory_write obj phys offset source =
     (case mo_storage obj of
        ReadOnlyStorage _ \<Rightarrow> Some (Inl ReadOnlyError, obj, phys)
      | LinearStorage bytes \<Rightarrow>
          (if offset > length bytes then Some (Inr 0, obj, phys)
           else let len = min (length bytes - offset) (length source)
                in Some (Inr len,
                         obj\<lparr>mo_storage := LinearStorage (copy_slice bytes offset (take len source))\<rparr>, phys))
      | PageBackedStorage frames \<Rightarrow>
          map_option (\<lambda>(n, phys'). (Inr n, obj, phys'))
            (write_page_backed phys frames (mo_size_bytes (mo_info obj)) offset source))"

fun frames_are_contiguous :: "physical_address list \<Rightarrow> bool" where
  "frames_are_contiguous (a # b # rest) = (b = a + PAGE_SIZE_BYTES \<and> frames_are_contiguous (b # rest))"
| "frames_are_contiguous _ = True"

definition verify_dma_contiguity ::
  "dma_safety \<Rightarrow> physical_address list \<Rightarrow> memory_access_error + unit" where
  "verify_dma_contiguity safety frames =
     (if safety = Contiguous \<and> \<not> frames_are_contiguous frames then Inl DmaPolicyViolation else Inr ())"

text \<open>Materialise pages \<open>page_index, \<dots>\<close> of the buffer. Frames taken before a failure are not
  given back: they are dropped with the vector.\<close>

fun fill_pages ::
  "u8 list \<Rightarrow> nat \<Rightarrow> nat \<Rightarrow> early_frame_allocator \<Rightarrow> phys_memory \<Rightarrow> physical_address list
   \<Rightarrow> (memory_access_error + physical_address list) \<times> early_frame_allocator \<times> phys_memory" where
  "fill_pages bytes 0 page_index allocator phys frames = (Inr frames, allocator, phys)"
| "fill_pages bytes (Suc n) page_index allocator phys frames =
     (case allocate_4kib allocator of
        (None, allocator1) \<Rightarrow> (Inl BusyError, allocator1, phys)
      | (Some f, allocator1) \<Rightarrow>
          let base = frame_base f;
              start = page_index * PAGE_SIZE_BYTES;
              stop = min (start + PAGE_SIZE_BYTES) (length bytes);
              phys1 = write_bytes_at phys base (replicate PAGE_SIZE_BYTES 0);
              phys2 = (if start < stop
                       then write_bytes_at phys1 base (take (stop - start) (drop start bytes))
                       else phys1)
          in fill_pages bytes n (page_index + 1) allocator1 phys2 (frames @ [base]))"

definition allocate_page_backing ::
  "u8 list \<Rightarrow> nat \<Rightarrow> early_frame_allocator option \<Rightarrow> phys_memory
   \<Rightarrow> (memory_access_error + physical_address list) \<times> early_frame_allocator option \<times> phys_memory" where
  "allocate_page_backing bytes page_count manager phys =
     (case manager of
        None \<Rightarrow> (Inl BusyError, None, phys)
      | Some allocator \<Rightarrow>
          (case fill_pages bytes page_count 0 allocator phys [] of
             (r, allocator', phys') \<Rightarrow> (r, Some allocator', phys')))"

definition page_frames ::
  "memory_object \<Rightarrow> early_frame_allocator option \<Rightarrow> phys_memory
   \<Rightarrow> (memory_access_error + physical_address list) \<times> memory_object \<times> early_frame_allocator option \<times> phys_memory" where
  "page_frames obj manager phys =
     (case mo_storage obj of
        ReadOnlyStorage _ \<Rightarrow> (Inl ReadOnlyError, obj, manager, phys)
      | PageBackedStorage frames \<Rightarrow>
          (case verify_dma_contiguity (mo_dma_safety (mo_info obj)) frames of
             Inl e \<Rightarrow> (Inl e, obj, manager, phys)
           | Inr () \<Rightarrow> (Inr frames, obj, manager, phys))
      | LinearStorage bytes \<Rightarrow>
          (case allocate_page_backing bytes (mo_page_count (mo_info obj)) manager phys of
             (Inl e, manager', phys') \<Rightarrow> (Inl e, obj, manager', phys')
           | (Inr frames, manager', phys') \<Rightarrow>
               let obj' = obj\<lparr>mo_storage := PageBackedStorage frames\<rparr>
               in case verify_dma_contiguity (mo_dma_safety (mo_info obj)) frames of
                    Inl e \<Rightarrow> (Inl e, obj', manager', phys')
                  | Inr () \<Rightarrow> (Inr frames, obj', manager', phys')))"

definition device_backing ::
  "memory_object \<Rightarrow> early_frame_allocator option \<Rightarrow> phys_memory
   \<Rightarrow> (memory_access_error + physical_address list) \<times> memory_object \<times> early_frame_allocator option \<times> phys_memory" where
  "device_backing obj manager phys =
     (if mo_dma_safety (mo_info obj) = DmaUnsafe then (Inl DmaPolicyViolation, obj, manager, phys)
      else page_frames obj manager phys)"

section \<open>Bytes through the frame list\<close>

definition page_addr :: "physical_address list \<Rightarrow> nat \<Rightarrow> physical_address" where
  "page_addr frames i = frames ! (i div PAGE_SIZE_BYTES) + i mod PAGE_SIZE_BYTES"

definition frames_ok :: "physical_address list \<Rightarrow> bool" where
  "frames_ok frames \<longleftrightarrow> distinct frames \<and> (\<forall>f \<in> set frames. PAGE_SIZE_BYTES dvd f)"

lemma page_index_less: "i < PAGE_SIZE_BYTES * n \<Longrightarrow> i div PAGE_SIZE_BYTES < n"
  by (simp add: div_less_iff_less_mult mult.commute)

lemma page_addr_split:
  assumes "frames_ok frames" "i < PAGE_SIZE_BYTES * length frames"
  shows "page_addr frames i mod PAGE_SIZE_BYTES = i mod PAGE_SIZE_BYTES"
    "page_addr frames i - i mod PAGE_SIZE_BYTES = frames ! (i div PAGE_SIZE_BYTES)"
proof -
  have "PAGE_SIZE_BYTES dvd frames ! (i div PAGE_SIZE_BYTES)"
    using assms page_index_less[OF assms(2)] by (simp add: frames_ok_def)
  then show "page_addr frames i mod PAGE_SIZE_BYTES = i mod PAGE_SIZE_BYTES"
    unfolding page_addr_def by (metis dvd_eq_mod_eq_0 add_0 mod_add_left_eq mod_mod_trivial)
  show "page_addr frames i - i mod PAGE_SIZE_BYTES = frames ! (i div PAGE_SIZE_BYTES)"
    by (simp add: page_addr_def)
qed

lemma page_addr_inj:
  assumes "frames_ok frames" "i < PAGE_SIZE_BYTES * length frames" "j < PAGE_SIZE_BYTES * length frames"
    "page_addr frames i = page_addr frames j"
  shows "i = j"
proof -
  have m: "i mod PAGE_SIZE_BYTES = j mod PAGE_SIZE_BYTES"
    using page_addr_split(1)[OF assms(1,2)] page_addr_split(1)[OF assms(1,3)] assms(4) by simp
  have "frames ! (i div PAGE_SIZE_BYTES) = frames ! (j div PAGE_SIZE_BYTES)"
    using page_addr_split(2)[OF assms(1,2)] page_addr_split(2)[OF assms(1,3)] assms(4) m by simp
  then have "i div PAGE_SIZE_BYTES = j div PAGE_SIZE_BYTES"
    using assms(1) page_index_less[OF assms(2)] page_index_less[OF assms(3)]
    by (simp add: frames_ok_def nth_eq_iff_index_eq)
  with m show ?thesis by (metis div_mult_mod_eq)
qed

lemma page_addr_chunk:
  assumes "position mod PAGE_SIZE_BYTES + k < PAGE_SIZE_BYTES"
  shows "page_addr frames (position + k) =
    frames ! (position div PAGE_SIZE_BYTES) + position mod PAGE_SIZE_BYTES + k"
proof -
  let ?P = PAGE_SIZE_BYTES
  have "position + k = position div ?P * ?P + (position mod ?P + k)" by simp
  then have "(position + k) div ?P = position div ?P" "(position + k) mod ?P = position mod ?P + k"
    using assms by (metis div_mult_self3 div_less add_0 add.right_neutral PAGE_SIZE_BYTES_pos(2),
        metis mod_mult_self3 mod_less)
  then show ?thesis by (simp add: page_addr_def)
qed

text \<open>The chunk of one iteration: where it starts, how long it is, and that it stays in its page.\<close>

lemma chunk_facts:
  assumes "0 < remaining" "position + remaining \<le> PAGE_SIZE_BYTES * length frames"
    "len = min remaining (PAGE_SIZE_BYTES - position mod PAGE_SIZE_BYTES)"
  shows "position div PAGE_SIZE_BYTES < length frames" "0 < len" "len \<le> remaining"
    "position mod PAGE_SIZE_BYTES + len \<le> PAGE_SIZE_BYTES"
proof -
  obtain m where m: "m = position mod PAGE_SIZE_BYTES" "m < PAGE_SIZE_BYTES" by simp
  then show "0 < len" "len \<le> remaining" "position mod PAGE_SIZE_BYTES + len \<le> PAGE_SIZE_BYTES"
    using assms(1,3) unfolding m(1)[symmetric] by auto
  show "position div PAGE_SIZE_BYTES < length frames"
    using assms(1,2) by (intro page_index_less) simp
qed

lemma copy_slice_append:
  assumes "at + length xs + length ys \<le> length d"
  shows "copy_slice (copy_slice d at xs) (at + length xs) ys = copy_slice d at (xs @ ys)"
  using assms by (intro nth_equalityI) (auto simp: nth_copy_slice nth_append)

lemma read_pages_spec:
  assumes "position + remaining \<le> PAGE_SIZE_BYTES * length frames"
    "doff + remaining \<le> length destination"
  shows "read_pages phys frames remaining doff position destination =
    Some (doff + remaining, copy_slice destination doff
      (map (\<lambda>i. phys (page_addr frames i)) [position..<position + remaining]))"
  using assms
proof (induction phys frames remaining doff position destination rule: read_pages.induct)
  case (1 phys frames remaining doff position destination)
  show ?case
  proof (cases "0 < remaining")
    case True
    let ?len = "min remaining (PAGE_SIZE_BYTES - position mod PAGE_SIZE_BYTES)"
    let ?pi = "position div PAGE_SIZE_BYTES" and ?po = "position mod PAGE_SIZE_BYTES"
    let ?chunk = "read_bytes_at phys (frames ! ?pi + ?po) ?len"
    note c = chunk_facts[OF True "1.prems"(1) refl]
    have chunk: "?chunk = map (\<lambda>i. phys (page_addr frames i)) [position..<position + ?len]"
      using c(4) by (intro nth_equalityI) (auto simp: read_bytes_at_def page_addr_chunk add.assoc)
    have step: "read_pages phys frames remaining doff position destination =
        read_pages phys frames (remaining - ?len) (doff + ?len) (position + ?len)
          (copy_slice destination doff ?chunk)"
      using True c(1) by (subst read_pages.simps) (simp add: Let_def)
    have "length (copy_slice destination doff ?chunk) = length destination"
      using "1.prems"(2) c(3) by (simp add: chunk)
    then have ih: "read_pages phys frames remaining doff position destination =
        Some (doff + ?len + (remaining - ?len), copy_slice (copy_slice destination doff ?chunk) (doff + ?len)
          (map (\<lambda>i. phys (page_addr frames i)) [position + ?len..<position + ?len + (remaining - ?len)]))"
      unfolding step using "1.prems" c(3) by (intro "1.IH"[OF True refl refl refl c(1)]) auto
    have "copy_slice (copy_slice destination doff ?chunk) (doff + ?len)
          (map (\<lambda>i. phys (page_addr frames i)) [position + ?len..<position + remaining]) =
        copy_slice destination doff
          (map (\<lambda>i. phys (page_addr frames i)) ([position..<position + ?len] @ [position + ?len..<position + remaining]))"
      using "1.prems"(2) c(3) copy_slice_append[of doff ?chunk _ destination] by (simp add: chunk)
    moreover have "[position..<position + ?len] @ [position + ?len..<position + remaining] =
        [position..<position + remaining]"
      using c(3) upt_add_eq_append[of position "position + ?len" "remaining - ?len"] by simp
    ultimately show ?thesis using ih c(3) by (simp add: add.assoc)
  next
    case False
    then show ?thesis by (subst read_pages.simps) simp
  qed
qed

lemma write_chunk:
  assumes "frames_ok frames" "position mod PAGE_SIZE_BYTES + length bs \<le> PAGE_SIZE_BYTES"
    "position div PAGE_SIZE_BYTES < length frames" "position + length bs \<le> PAGE_SIZE_BYTES * length frames"
    "i < PAGE_SIZE_BYTES * length frames"
    "phys' = write_bytes_at phys (frames ! (position div PAGE_SIZE_BYTES) + position mod PAGE_SIZE_BYTES) bs"
  shows "phys' (page_addr frames i) =
    (if position \<le> i \<and> i < position + length bs then bs ! (i - position) else phys (page_addr frames i))"
proof (cases "position \<le> i \<and> i < position + length bs")
  case True
  then obtain k where k: "i = position + k" "k < length bs"
    by (metis le_add_diff_inverse nat_add_left_cancel_less)
  with assms(2) page_addr_chunk[of position k frames] show ?thesis
    by (simp add: assms(6) write_bytes_at_def)
next
  case False
  let ?base = "frames ! (position div PAGE_SIZE_BYTES) + position mod PAGE_SIZE_BYTES"
  have "\<not> (?base \<le> page_addr frames i \<and> page_addr frames i < ?base + length bs)"
  proof
    assume a: "?base \<le> page_addr frames i \<and> page_addr frames i < ?base + length bs"
    then obtain k where k: "page_addr frames i = ?base + k" "k < length bs"
      by (metis le_add_diff_inverse nat_add_left_cancel_less)
    with assms(2) page_addr_chunk[of position k frames] have
      "page_addr frames i = page_addr frames (position + k)" by simp
    from page_addr_inj[OF assms(1,5) _ this] k(2) assms(4) False show False by auto
  qed
  with False show ?thesis unfolding assms(6) write_bytes_at_def by auto
qed

lemma write_pages_spec:
  assumes "frames_ok frames" "position + remaining \<le> PAGE_SIZE_BYTES * length frames"
    "soff + remaining \<le> length source"
  shows "\<exists>phys'. write_pages phys frames remaining soff position source = Some (soff + remaining, phys') \<and>
    (\<forall>i < PAGE_SIZE_BYTES * length frames. phys' (page_addr frames i) =
      (if position \<le> i \<and> i < position + remaining then source ! (soff + (i - position))
       else phys (page_addr frames i)))"
  using assms
proof (induction phys frames remaining soff position source rule: write_pages.induct)
  case (1 phys frames remaining soff position source)
  show ?case
  proof (cases "0 < remaining")
    case True
    let ?len = "min remaining (PAGE_SIZE_BYTES - position mod PAGE_SIZE_BYTES)"
    let ?bs = "take ?len (drop soff source)"
    let ?phys = "write_bytes_at phys (frames ! (position div PAGE_SIZE_BYTES) + position mod PAGE_SIZE_BYTES) ?bs"
    note c = chunk_facts[OF True "1.prems"(2) refl]
    have bs: "length ?bs = ?len" using "1.prems"(3) c(3) by simp
    have step: "write_pages phys frames remaining soff position source =
        write_pages ?phys frames (remaining - ?len) (soff + ?len) (position + ?len) source"
      using True c(1) by (subst write_pages.simps) (simp add: Let_def)
    have "\<exists>phys'. write_pages ?phys frames (remaining - ?len) (soff + ?len) (position + ?len) source =
          Some (soff + ?len + (remaining - ?len), phys') \<and>
        (\<forall>i < PAGE_SIZE_BYTES * length frames. phys' (page_addr frames i) =
          (if position + ?len \<le> i \<and> i < position + ?len + (remaining - ?len)
           then source ! (soff + ?len + (i - (position + ?len))) else ?phys (page_addr frames i)))"
      using "1.prems" c(3) by (intro "1.IH"[OF True refl refl refl c(1)]) auto
    then obtain phys' where p: "write_pages phys frames remaining soff position source =
          Some (soff + ?len + (remaining - ?len), phys')"
      "\<forall>i < PAGE_SIZE_BYTES * length frames. phys' (page_addr frames i) =
          (if position + ?len \<le> i \<and> i < position + ?len + (remaining - ?len)
           then source ! (soff + ?len + (i - (position + ?len))) else ?phys (page_addr frames i))"
      unfolding step by blast
    have "phys' (page_addr frames i) = (if position \<le> i \<and> i < position + remaining
        then source ! (soff + (i - position)) else phys (page_addr frames i))"
      if i: "i < PAGE_SIZE_BYTES * length frames" for i
    proof -
      have w: "?phys (page_addr frames i) = (if position \<le> i \<and> i < position + ?len
          then ?bs ! (i - position) else phys (page_addr frames i))"
      proof -
        have l: "position mod PAGE_SIZE_BYTES + length ?bs \<le> PAGE_SIZE_BYTES" unfolding bs by (fact c(4))
        have "position + length ?bs \<le> PAGE_SIZE_BYTES * length frames"
          unfolding bs using c(3) "1.prems"(2) by linarith
        from write_chunk[OF "1.prems"(1) l c(1) this i refl] show ?thesis unfolding bs .
      qed
      show ?thesis
      proof (cases "position + ?len \<le> i \<and> i < position + remaining")
        case True
        with p(2) i c(3) show ?thesis by auto
      next
        case False
        then have "phys' (page_addr frames i) = ?phys (page_addr frames i)" using p(2) i c(3) by auto
        moreover have "?bs ! (i - position) = source ! (soff + (i - position))"
          if "position \<le> i" "i < position + ?len"
        proof -
          have "i - position < ?len" using that by linarith
          then show ?thesis using "1.prems"(3) c(3) by simp
        qed
        ultimately show ?thesis using w False c(3) by (simp only:) auto
      qed
    qed
    with p(1) c(3) show ?thesis by (intro exI[of _ phys']) auto
  next
    case False
    then show ?thesis by (subst write_pages.simps) auto
  qed
qed

section \<open>A memory object is a byte buffer\<close>

definition mo_bytes :: "memory_object \<Rightarrow> phys_memory \<Rightarrow> u8 list" where
  "mo_bytes obj phys =
     (case mo_storage obj of
        ReadOnlyStorage bytes \<Rightarrow> bytes
      | LinearStorage bytes \<Rightarrow> bytes
      | PageBackedStorage frames \<Rightarrow>
          map (\<lambda>i. phys (page_addr frames i)) [0..<mo_size_bytes (mo_info obj)])"

definition mo_inv :: "memory_object \<Rightarrow> bool" where
  "mo_inv obj \<longleftrightarrow> mo_page_count (mo_info obj) = div_ceil (mo_size_bytes (mo_info obj)) PAGE_SIZE_BYTES \<and>
     (case mo_storage obj of
        ReadOnlyStorage bytes \<Rightarrow> length bytes = mo_size_bytes (mo_info obj)
      | LinearStorage bytes \<Rightarrow> length bytes = mo_size_bytes (mo_info obj)
      | PageBackedStorage frames \<Rightarrow> frames_ok frames \<and> length frames = mo_page_count (mo_info obj))"

lemma div_ceil_covers: "n \<le> PAGE_SIZE_BYTES * div_ceil n PAGE_SIZE_BYTES"
proof (cases "n mod PAGE_SIZE_BYTES = 0")
  case True
  then show ?thesis using mult_div_mod_eq[of PAGE_SIZE_BYTES n] by (simp add: div_ceil_def)
next
  case False
  have "n mod PAGE_SIZE_BYTES < PAGE_SIZE_BYTES" by simp
  then have "n \<le> PAGE_SIZE_BYTES * (n div PAGE_SIZE_BYTES) + PAGE_SIZE_BYTES"
    using mult_div_mod_eq[of PAGE_SIZE_BYTES n] by linarith
  with False show ?thesis by (simp add: div_ceil_def distrib_left)
qed

lemma mo_inv_new: "mo_inv (memory_object_new size_bytes writable safety)"
  by (simp add: mo_inv_def memory_object_new_def PAGE_SIZE_BYTES_def)

lemma mo_inv_from_bytes: "mo_inv (memory_object_from_bytes bytes)"
  by (simp add: mo_inv_def memory_object_from_bytes_def PAGE_SIZE_BYTES_def)

lemma mo_bytes_length: "mo_inv obj \<Longrightarrow> length (mo_bytes obj phys) = mo_size_bytes (mo_info obj)"
  by (auto simp: mo_inv_def mo_bytes_def split: memory_storage.splits)

lemma copy_slice_0: "copy_slice d 0 xs = copy_prefix d xs"
  by (simp add: copy_slice_def copy_prefix_def)

lemma memory_read_spec:
  assumes "mo_inv obj" "n = min (length destination) (mo_size_bytes (mo_info obj) - offset)"
  shows "memory_read obj phys offset destination =
    Some (n, copy_prefix destination (take n (drop offset (mo_bytes obj phys))))"
proof (cases "mo_storage obj")
  case (PageBackedStorage frames)
  let ?size = "mo_size_bytes (mo_info obj)"
  have size: "?size \<le> PAGE_SIZE_BYTES * length frames"
    using assms(1) PageBackedStorage div_ceil_covers[of ?size] by (simp add: mo_inv_def)
  show ?thesis
  proof (cases "offset \<ge> ?size")
    case True
    then show ?thesis
      using assms(2) PageBackedStorage
      by (simp add: memory_read_def read_page_backed_def copy_prefix_def)
  next
    case False
    have "read_pages phys frames n 0 offset destination = Some (0 + n, copy_slice destination 0
        (map (\<lambda>i. phys (page_addr frames i)) [offset..<offset + n]))"
      using False size assms(2) by (intro read_pages_spec) auto
    moreover have "map (\<lambda>i. phys (page_addr frames i)) [offset..<offset + n] =
        take n (drop offset (mo_bytes obj phys))"
      using PageBackedStorage False assms(2)
      by (intro nth_equalityI) (auto simp: mo_bytes_def)
    ultimately show ?thesis
      using False PageBackedStorage assms(2)
      by (simp add: memory_read_def read_page_backed_def copy_slice_0)
  qed
qed (use assms in \<open>auto simp: memory_read_def read_linear_def mo_inv_def mo_bytes_def Let_def
       copy_prefix_def min.commute\<close>)

lemma memory_write_spec:
  assumes "mo_inv obj" "n = min (length source) (mo_size_bytes (mo_info obj) - offset)"
    "\<nexists>bytes. mo_storage obj = ReadOnlyStorage bytes"
  shows "\<exists>obj' phys'. memory_write obj phys offset source = Some (Inr n, obj', phys') \<and> mo_inv obj' \<and>
    mo_info obj' = mo_info obj \<and>
    mo_bytes obj' phys' =
      (if n = 0 then mo_bytes obj phys else copy_slice (mo_bytes obj phys) offset (take n source))"
proof (cases "mo_storage obj")
  case (LinearStorage bytes)
  with assms(1,2) show ?thesis
    by (auto simp: memory_write_def mo_inv_def mo_bytes_def Let_def min.commute copy_slice_def)
next
  case (PageBackedStorage frames)
  let ?size = "mo_size_bytes (mo_info obj)"
  have size: "?size \<le> PAGE_SIZE_BYTES * length frames" and ok: "frames_ok frames"
    using assms(1) PageBackedStorage div_ceil_covers[of ?size] by (auto simp: mo_inv_def)
  show ?thesis
  proof (cases "offset \<ge> ?size")
    case True
    then show ?thesis
      using assms(1,2) PageBackedStorage by (simp add: memory_write_def write_page_backed_def)
  next
    case False
    have "\<exists>phys'. write_pages phys frames n 0 offset source = Some (0 + n, phys') \<and>
      (\<forall>i < PAGE_SIZE_BYTES * length frames. phys' (page_addr frames i) =
        (if offset \<le> i \<and> i < offset + n then source ! (0 + (i - offset)) else phys (page_addr frames i)))"
      using False size ok assms(2) by (intro write_pages_spec) auto
    then obtain phys' where p: "write_pages phys frames n 0 offset source = Some (n, phys')"
      "\<forall>i < PAGE_SIZE_BYTES * length frames. phys' (page_addr frames i) =
        (if offset \<le> i \<and> i < offset + n then source ! (i - offset) else phys (page_addr frames i))"
      by auto
    have "mo_bytes obj phys' =
        (if n = 0 then mo_bytes obj phys else copy_slice (mo_bytes obj phys) offset (take n source))"
    proof -
      have n: "n \<le> length source" "offset + n \<le> ?size" using assms(2) False by auto
      have len: "length (take n source) = n" using n by simp
      show ?thesis
        using p(2) size n PageBackedStorage
        by (intro nth_equalityI) (auto simp: mo_bytes_def nth_copy_slice)
    qed
    with p(1) False assms(1,2) PageBackedStorage show ?thesis
      by (auto simp: memory_write_def write_page_backed_def)
  qed
qed (use assms(3) in auto)

section \<open>Materialising the pages\<close>

definition fill_page :: "u8 list \<Rightarrow> phys_memory \<Rightarrow> physical_address \<Rightarrow> nat \<Rightarrow> phys_memory" where
  "fill_page bytes phys base start =
     (let stop = min (start + PAGE_SIZE_BYTES) (length bytes);
          phys1 = write_bytes_at phys base (replicate PAGE_SIZE_BYTES 0)
      in if start < stop then write_bytes_at phys1 base (take (stop - start) (drop start bytes)) else phys1)"

lemma fill_page_nth:
  "fill_page bytes phys base start x =
     (if base \<le> x \<and> x < base + PAGE_SIZE_BYTES
      then if start + (x - base) < length bytes then bytes ! (start + (x - base)) else 0
      else phys x)"
  by (auto simp: fill_page_def Let_def write_bytes_at_def min_def)

lemma page_number_of_addr:
  assumes "f * PAGE_SIZE_BYTES \<le> x" "x < f * PAGE_SIZE_BYTES + PAGE_SIZE_BYTES"
  shows "x div PAGE_SIZE_BYTES = f"
  using assms by (intro div_nat_eqI) (simp_all add: mult.commute)

lemma page_addr_append:
  "i < length frames * PAGE_SIZE_BYTES \<Longrightarrow> page_addr (frames @ fs) i = page_addr frames i"
  using page_index_less[of i "length frames"] by (simp add: page_addr_def nth_append mult.commute)

definition pages_hold :: "u8 list \<Rightarrow> nat list \<Rightarrow> phys_memory \<Rightarrow> bool" where
  "pages_hold bytes nums phys \<longleftrightarrow>
     (\<forall>i < length nums * PAGE_SIZE_BYTES. i < length bytes \<longrightarrow>
        phys (page_addr (map (\<lambda>f. f * PAGE_SIZE_BYTES) nums) i) = bytes ! i)"

lemma pages_hold_snoc:
  assumes "pages_hold bytes nums phys" "f \<notin> set nums"
  shows "pages_hold bytes (nums @ [f])
    (fill_page bytes phys (f * PAGE_SIZE_BYTES) (length nums * PAGE_SIZE_BYTES))"
  unfolding pages_hold_def
proof (intro allI impI)
  let ?P = PAGE_SIZE_BYTES and ?fs = "map (\<lambda>f. f * PAGE_SIZE_BYTES)"
  let ?phys = "fill_page bytes phys (f * ?P) (length nums * ?P)"
  fix i assume i: "i < length (nums @ [f]) * ?P" "i < length bytes"
  show "?phys (page_addr (?fs (nums @ [f])) i) = bytes ! i"
  proof (cases "i < length nums * ?P")
    case True
    then have j: "i div ?P < length nums" using page_index_less[of i "length nums"] by (simp add: mult.commute)
    then have a: "page_addr (?fs (nums @ [f])) i = nums ! (i div ?P) * ?P + i mod ?P"
      by (simp add: page_addr_def nth_append)
    have "(nums ! (i div ?P) * ?P + i mod ?P) div ?P = nums ! (i div ?P)" by simp
    moreover have "nums ! (i div ?P) \<noteq> f" using assms(2) j nth_mem by blast
    ultimately have "\<not> (f * ?P \<le> page_addr (?fs (nums @ [f])) i \<and>
        page_addr (?fs (nums @ [f])) i < f * ?P + ?P)" unfolding a using page_number_of_addr by metis
    then have "?phys (page_addr (?fs (nums @ [f])) i) = phys (page_addr (?fs (nums @ [f])) i)"
      unfolding fill_page_nth by auto
    also have "\<dots> = bytes ! i"
      using assms(1) True i(2) page_addr_append[of i "?fs nums"] by (simp add: pages_hold_def)
    finally show ?thesis .
  next
    case False
    then obtain k where k: "i = length nums * ?P + k" "k < ?P"
      using i(1) by (metis add_less_cancel_left le_add_diff_inverse length_append_singleton mult_Suc
          not_less add.commute)
    then have "page_addr (?fs (nums @ [f])) i = f * ?P + k"
      by (simp add: page_addr_def nth_append)
    with k i(2) show ?thesis unfolding fill_page_nth by simp
  qed
qed

lemma fill_pages_spec:
  assumes "allocator_inv a" "\<forall>f. count (available a) f \<le> 1" "distinct nums"
    "\<forall>f \<in> set nums. f \<notin># available a" "pages_hold bytes nums phys" "page_index = length nums"
    "frames = map (\<lambda>f. f * PAGE_SIZE_BYTES) nums"
    "fill_pages bytes n page_index a phys frames = (r, a', phys')"
  shows "allocator_inv a' \<and> available a' \<subseteq># available a \<and>
    (\<forall>x. x div PAGE_SIZE_BYTES \<notin># available a \<longrightarrow> phys' x = phys x) \<and>
    (r = Inl BusyError \<or>
     (\<exists>nums'. r = Inr (map (\<lambda>f. f * PAGE_SIZE_BYTES) nums') \<and> distinct nums' \<and>
        length nums' = page_index + n \<and> pages_hold bytes nums' phys'))"
  using assms
proof (induction bytes n page_index a phys frames arbitrary: nums rule: fill_pages.induct)
  case (1 bytes page_index a phys frames)
  then show ?case by auto
next
  case (2 bytes n page_index a phys frames)
  obtain res a1 where al: "allocate_4kib a = (res, a1)" by (metis surj_pair)
  show ?case
  proof (cases res)
    case None
    from allocate_None[OF "2.prems"(1)] al None "2.prems"(8) show ?thesis by auto
  next
    case (Some fr)
    from allocate_Some[OF "2.prems"(1)] al Some obtain f where
      f: "fr = frame_at f" "available a = add_mset f (available a1)" "allocator_inv a1" by blast
    have base: "frame_base fr = f * PAGE_SIZE_BYTES" by (simp add: f(1) frame_at_def)
    have "count (available a1) g \<le> count (available a) g" for g by (simp add: f(2))
    then have cnt: "\<forall>g. count (available a1) g \<le> 1" using "2.prems"(2) le_trans by blast
    have fa: "f \<notin># available a1" using "2.prems"(2)[rule_format, of f] by (simp add: f(2) not_in_iff)
    have fn: "f \<notin> set nums" using "2.prems"(4) f(2) by auto
    let ?start = "page_index * PAGE_SIZE_BYTES"
    let ?phys = "fill_page bytes phys (f * PAGE_SIZE_BYTES) ?start"
    have run: "fill_pages bytes n (page_index + 1) a1 ?phys (frames @ [frame_base fr]) = (r, a', phys')"
      using "2.prems"(8) al Some by (simp add: Let_def fill_page_def base)
    have "allocator_inv a' \<and> available a' \<subseteq># available a1 \<and>
      (\<forall>x. x div PAGE_SIZE_BYTES \<notin># available a1 \<longrightarrow> phys' x = ?phys x) \<and>
      (r = Inl BusyError \<or> (\<exists>nums'. r = Inr (map (\<lambda>f. f * PAGE_SIZE_BYTES) nums') \<and> distinct nums' \<and>
        length nums' = page_index + 1 + n \<and> pages_hold bytes nums' phys'))"
    proof -
      let ?stop = "min (?start + PAGE_SIZE_BYTES) (length bytes)"
      let ?phys1 = "write_bytes_at phys (frame_base fr) (replicate PAGE_SIZE_BYTES 0)"
      have e: "?phys = (if ?start < ?stop then write_bytes_at ?phys1 (frame_base fr)
          (take (?stop - ?start) (drop ?start bytes)) else ?phys1)"
        by (simp add: fill_page_def Let_def base)
      have hold: "pages_hold bytes (nums @ [f]) ?phys"
        using pages_hold_snoc[OF "2.prems"(5) fn] "2.prems"(6) by simp
      show ?thesis
        using "2.IH"[OF al[symmetric] Some refl refl refl refl refl f(3) cnt, of "nums @ [f]"]
          "2.prems"(3,4,6,7) fn fa f(2) hold run
        unfolding e base by simp
    qed
    moreover have "?phys x = phys x" if "x div PAGE_SIZE_BYTES \<noteq> f" for x
      using that page_number_of_addr[of f x] unfolding fill_page_nth by auto
    ultimately show ?thesis using f(2) by (auto intro: subset_mset.order_trans)
  qed
qed

lemma frames_ok_numbers: "distinct nums \<Longrightarrow> frames_ok (map (\<lambda>f. f * PAGE_SIZE_BYTES) nums)"
  by (auto simp: frames_ok_def distinct_map inj_on_def)

text \<open>C18. A memory object is a byte buffer, wherever its bytes live. A read at any offset copies
  the bytes from there to the end of the object, or as many as fit, into the front of the
  caller's buffer and returns their number; a write to a writable object replaces exactly
  the bytes it covers, keeps the object well formed, and returns the number written. This
  holds for heap-backed and for page-backed objects, across page boundaries, and
  neither operation ever indexes past the frame list.\<close>

theorem memory_object_is_buffer:
  assumes "mo_inv obj" "\<nexists>bytes. mo_storage obj = ReadOnlyStorage bytes"
    "n = min (length destination) (mo_size_bytes (mo_info obj) - offset)"
    "m = min (length source) (mo_size_bytes (mo_info obj) - offset)"
  shows "memory_read obj phys offset destination =
      Some (n, copy_prefix destination (take n (drop offset (mo_bytes obj phys)))) \<and>
    (\<exists>obj' phys'. memory_write obj phys offset source = Some (Inr m, obj', phys') \<and> mo_inv obj' \<and>
       mo_bytes obj' phys' =
         (if m = 0 then mo_bytes obj phys else copy_slice (mo_bytes obj phys) offset (take m source)))"
  using memory_read_spec[OF assms(1,3)] memory_write_spec[OF assms(1,4,2)] by blast

theorem memory_object_is_buffer_witness:
  "memory_read (memory_object_new 8 True DmaUnsafe) (\<lambda>_. 0) 6 [1, 1, 1] =
     Some (2, copy_prefix [1, 1, 1] (take 2 (drop 6 (mo_bytes (memory_object_new 8 True DmaUnsafe) (\<lambda>_. 0)))))"
proof -
  have "\<nexists>bytes. mo_storage (memory_object_new 8 True DmaUnsafe) = ReadOnlyStorage bytes"
    by (simp add: memory_object_new_def)
  moreover have "2 = min (length [1, 1, 1 :: u8])
      (mo_size_bytes (mo_info (memory_object_new 8 True DmaUnsafe)) - 6)"
    by (simp add: memory_object_new_def)
  ultimately show ?thesis
    using memory_object_is_buffer[OF mo_inv_new _ _ refl, where source = "[]"] by blast
qed

text \<open>Asking for the pages of a memory object does not change its contents. Whether the call
  succeeds, runs out of frames, or is refused by the contiguity policy, the object keeps its
  bytes and stays well formed; on success the frames returned are distinct, page-aligned
  and as many as the object has pages; and no physical byte outside the frames the
  allocator had free is touched.\<close>

theorem page_frames_preserves_contents:
  assumes "mo_inv obj" "allocator_inv a" "\<forall>f. count (available a) f \<le> 1"
    "page_frames obj (Some a) phys = (r, obj', manager', phys')"
  shows "mo_inv obj' \<and> mo_bytes obj' phys' = mo_bytes obj phys \<and>
    (\<forall>x. x div PAGE_SIZE_BYTES \<notin># available a \<longrightarrow> phys' x = phys x) \<and>
    (\<forall>frames. r = Inr frames \<longrightarrow> frames_ok frames \<and> length frames = mo_page_count (mo_info obj))"
proof (cases "mo_storage obj")
  case (LinearStorage bytes)
  let ?n = "mo_page_count (mo_info obj)"
  obtain q a' phys1 where f: "fill_pages bytes ?n 0 a phys [] = (q, a', phys1)" by (metis prod_cases3)
  have h: "pages_hold bytes [] phys" by (simp add: pages_hold_def)
  from fill_pages_spec[OF assms(2,3) _ _ h _ _ f] have s:
    "\<forall>x. x div PAGE_SIZE_BYTES \<notin># available a \<longrightarrow> phys1 x = phys x"
    "q = Inl BusyError \<or> (\<exists>nums. q = Inr (map (\<lambda>f. f * PAGE_SIZE_BYTES) nums) \<and> distinct nums \<and>
        length nums = ?n \<and> pages_hold bytes nums phys1)" by auto
  have size: "length bytes = mo_size_bytes (mo_info obj)" "?n = div_ceil (length bytes) PAGE_SIZE_BYTES"
    using assms(1) LinearStorage by (auto simp: mo_inv_def)
  show ?thesis
  proof (cases q)
    case (Inl e)
    with s(1) f assms(1,4) LinearStorage show ?thesis
      by (auto simp: page_frames_def allocate_page_backing_def mo_bytes_def)
  next
    case (Inr fs)
    with s(2) obtain nums where n: "fs = map (\<lambda>f. f * PAGE_SIZE_BYTES) nums" "distinct nums"
      "length nums = ?n" "pages_hold bytes nums phys1" by auto
    have r: "phys' = phys1" "obj' = obj\<lparr>mo_storage := PageBackedStorage fs\<rparr>"
      "\<forall>frames. r = Inr frames \<longrightarrow> frames = fs"
      using assms(4) f LinearStorage Inr
      by (auto simp: page_frames_def allocate_page_backing_def Let_def split: sum.splits unit.splits)
    have "length bytes \<le> length nums * PAGE_SIZE_BYTES"
      using div_ceil_covers[of "length bytes"] size n(3) by (simp add: mult.commute)
    then have "mo_bytes obj' phys' = bytes"
      using n(4) size(1) by (intro nth_equalityI) (auto simp: mo_bytes_def r n(1) pages_hold_def)
    moreover have "frames_ok fs" using frames_ok_numbers[OF n(2)] n(1) by simp
    moreover have "length fs = ?n" using n(1,3) by simp
    moreover have "mo_inv obj'" using calculation(2,3) assms(1) by (simp add: mo_inv_def r)
    moreover have "mo_bytes obj phys = bytes" using LinearStorage by (simp add: mo_bytes_def)
    ultimately show ?thesis using s(1) r(1,3) by metis
  qed
next
  case (ReadOnlyStorage bytes)
  with assms(1,4) show ?thesis by (auto simp: page_frames_def)
next
  case (PageBackedStorage frames)
  have "obj' = obj" "phys' = phys" "\<forall>fs. r = Inr fs \<longrightarrow> fs = frames"
    using assms(4) PageBackedStorage
    by (auto simp: page_frames_def verify_dma_contiguity_def split: if_splits unit.splits)
  moreover have "frames_ok frames" "length frames = mo_page_count (mo_info obj)"
    using assms(1) PageBackedStorage by (simp_all add: mo_inv_def)
  ultimately show ?thesis using assms(1) by metis
qed

theorem page_frames_preserves_contents_witness:
  "\<exists>r obj' manager' phys'.
     page_frames (memory_object_new 8 True PagePinned) (Some (sample_allocator 2 [] 0 [] 0)) (\<lambda>_. 7) =
       (r, obj', manager', phys') \<and>
     mo_bytes obj' phys' = replicate 8 0"
proof -
  let ?o = "memory_object_new 8 True PagePinned" and ?a = "sample_allocator 2 [] 0 [] 0"
  obtain r obj' manager' phys' where p: "page_frames ?o (Some ?a) (\<lambda>_. 7) = (r, obj', manager', phys')"
    by (metis prod_cases4)
  have inv: "allocator_inv ?a"
    by (simp add: allocator_inv_def sample_allocator_def)
  have "available ?a = mset [2..<5]"
    by (simp add: available_def sample_allocator_def cursor_mset_def)
  then have "\<forall>f. count (available ?a) f \<le> 1"
    by (simp add: upt_rec)
  from page_frames_preserves_contents[OF mo_inv_new inv this p] p show ?thesis
    by (auto simp: mo_bytes_def memory_object_new_def)
qed

section \<open>A failed materialisation keeps the frames it took\<close>

lemma fill_pages_exhausts:
  assumes "allocator_inv a" "size (available a) < n"
  shows "\<exists>a' phys'. fill_pages bytes n page_index a phys frames = (Inl BusyError, a', phys') \<and>
    allocator_inv a' \<and> available a' = {#}"
  using assms
proof (induction bytes n page_index a phys frames rule: fill_pages.induct)
  case (2 bytes n page_index a phys frames)
  obtain res a1 where al: "allocate_4kib a = (res, a1)" by (metis surj_pair)
  show ?case
  proof (cases res)
    case None
    with allocate_None[OF "2.prems"(1)] al show ?thesis by auto
  next
    case (Some fr)
    from allocate_Some[OF "2.prems"(1)] al Some obtain f where
      f: "available a = add_mset f (available a1)" "allocator_inv a1" by blast
    have "size (available a1) < n" using "2.prems"(2) f(1) by simp
    from "2.IH"[OF al[symmetric] Some refl refl refl refl refl f(2) this] show ?thesis
      using al Some by (simp add: Let_def)
  qed
qed simp

text \<open>A request for more pages than there are frames loses every free frame. When a
  heap-backed memory object has more pages than the allocator has frames, asking for its
  pages fails with \<open>Busy\<close> and leaves the object as it was; but the frames taken before the
  failure are neither recorded in the object nor given back, and the allocator is left
  with no headroom at all.\<close>

theorem page_frames_failure_leaks:
  assumes "mo_storage obj = LinearStorage bytes" "allocator_inv a"
    "usable_headroom_frames a < mo_page_count (mo_info obj)"
  shows "\<exists>a' phys'. page_frames obj (Some a) phys = (Inl BusyError, obj, Some a', phys') \<and>
    usable_headroom_frames a' = 0"
proof -
  from assms(3) have "size (available a) < mo_page_count (mo_info obj)"
    by (simp add: usable_headroom_available[OF assms(2)])
  from fill_pages_exhausts[OF assms(2) this, of bytes 0 phys "[]"] obtain a' phys' where
    "fill_pages bytes (mo_page_count (mo_info obj)) 0 a phys [] = (Inl BusyError, a', phys')"
    "allocator_inv a'" "available a' = {#}" by blast
  then show ?thesis
    by (simp add: page_frames_def allocate_page_backing_def assms(1) usable_headroom_available)
qed

theorem page_frames_failure_leaks_witness:
  "\<exists>a' phys'. page_frames (memory_object_new 20480 True DmaUnsafe) (Some (sample_allocator 2 [] 0 [] 0)) (\<lambda>_. 0) =
     (Inl BusyError, memory_object_new 20480 True DmaUnsafe, Some a', phys') \<and> usable_headroom_frames a' = 0"
proof (rule page_frames_failure_leaks)
  show "mo_storage (memory_object_new 20480 True DmaUnsafe) = LinearStorage (replicate 20480 0)"
    by (simp add: memory_object_new_def)
  show "allocator_inv (sample_allocator 2 [] 0 [] 0)"
    by (simp add: allocator_inv_def sample_allocator_def)
  show "usable_headroom_frames (sample_allocator 2 [] 0 [] 0) <
      mo_page_count (mo_info (memory_object_new 20480 True DmaUnsafe))"
    by (simp add: usable_headroom_frames_def remaining_frames_def reclaimable_frames_def
        cursor_frames_def sample_allocator_def memory_object_new_def div_ceil_def)
qed

end
