(* ===== verification/Device_Core.thy ===== *)
theory Device_Core
  imports Prelude
begin

text \<open>
  The registries of device backends: \<open>network/core.rs\<close> (packet interfaces) and
  \<open>input/core.rs\<close> (input sources with their latched wakeups). A backend is a
  trait object of the platform; it is a reference here, and its \<open>poll\<close> and
  \<open>info\<close> are arguments over a device state.
\<close>

type_synonym backend_ref = nat

section \<open>Packet interfaces\<close>

definition MAX_REGISTERED_INTERFACES :: nat where "MAX_REGISTERED_INTERFACES = 8"

record registered_interface =
  ri_object_id :: nat
  ri_backend :: backend_ref

type_synonym network_core = "registered_interface list"

definition network_core_new :: network_core where
  "network_core_new = []"

definition register_interface ::
  "network_core \<Rightarrow> nat \<Rightarrow> backend_ref \<Rightarrow> bool \<times> network_core" where
  "register_interface interfaces object_id backend =
     (if length interfaces \<ge> MAX_REGISTERED_INTERFACES
         \<or> list_ex (\<lambda>entry. ri_object_id entry = object_id) interfaces
      then (False, interfaces)
      else (True, interfaces @ [\<lparr>ri_object_id = object_id, ri_backend = backend\<rparr>]))"

text \<open>\<open>poll_ready\<close> runs \<open>notify_ready\<close> for each interface whose backend reports data.\<close>

fun network_poll_ready ::
  "('d \<Rightarrow> backend_ref \<Rightarrow> bool \<times> 'd) \<Rightarrow> (nat \<Rightarrow> 's \<Rightarrow> 's) \<Rightarrow> network_core \<Rightarrow> 'd \<times> 's \<Rightarrow> 'd \<times> 's" where
  "network_poll_ready poll notify_ready [] (d, s) = (d, s)"
| "network_poll_ready poll notify_ready (interface # interfaces) (d, s) =
     (case poll d (ri_backend interface) of
        (ready, d1) \<Rightarrow>
          network_poll_ready poll notify_ready interfaces
            (d1, if ready then notify_ready (ri_object_id interface) s else s))"

section \<open>Input sources\<close>

definition MAX_REGISTERED_SOURCES :: nat where "MAX_REGISTERED_SOURCES = 8"

record registered_source =
  rs_object_id :: nat
  rs_backend :: backend_ref
  wakeup_pending :: bool

type_synonym input_core = "registered_source list"

definition input_core_new :: input_core where
  "input_core_new = []"

definition register_source ::
  "input_core \<Rightarrow> nat \<Rightarrow> backend_ref \<Rightarrow> bool \<times> input_core" where
  "register_source sources object_id backend =
     (if length sources \<ge> MAX_REGISTERED_SOURCES
         \<or> list_ex (\<lambda>entry. rs_object_id entry = object_id) sources
      then (False, sources)
      else (True, sources @ [\<lparr>rs_object_id = object_id, rs_backend = backend,
                               wakeup_pending = False\<rparr>]))"

text \<open>
  One poll pass. A source is notified when its backend became ready or still
  reports pending events, and its latch is set before the notification.
\<close>

fun input_poll_ready ::
  "('d \<Rightarrow> backend_ref \<Rightarrow> bool \<times> 'd) \<Rightarrow> ('d \<Rightarrow> backend_ref \<Rightarrow> nat) \<Rightarrow> (nat \<Rightarrow> 's \<Rightarrow> 's)
   \<Rightarrow> input_core \<Rightarrow> 'd \<times> 's \<Rightarrow> input_core \<times> 'd \<times> 's" where
  "input_poll_ready poll pending_events notify_ready [] (d, s) = ([], d, s)"
| "input_poll_ready poll pending_events notify_ready (source # sources) (d, s) =
     (case poll d (rs_backend source) of
        (became_ready, d1) \<Rightarrow>
          let pending = pending_events d1 (rs_backend source) > 0;
              ready = became_ready \<or> pending;
              source1 = (if ready then source\<lparr>wakeup_pending := True\<rparr> else source);
              s1 = (if ready then notify_ready (rs_object_id source) s else s)
          in case input_poll_ready poll pending_events notify_ready sources (d1, s1) of
               (sources1, d2, s2) \<Rightarrow> (source1 # sources1, d2, s2))"

text \<open>\<open>swap(false)\<close> on the latch of the first source that satisfies a predicate.\<close>

fun take_latch :: "(registered_source \<Rightarrow> bool) \<Rightarrow> input_core \<Rightarrow> bool \<times> input_core" where
  "take_latch P [] = (False, [])"
| "take_latch P (source # sources) =
     (if P source then (wakeup_pending source, source\<lparr>wakeup_pending := False\<rparr> # sources)
      else case take_latch P sources of (r, sources1) \<Rightarrow> (r, source # sources1))"

definition consume_wakeup :: "input_core \<Rightarrow> backend_ref \<Rightarrow> bool \<times> input_core" where
  "consume_wakeup sources backend = take_latch (\<lambda>source. rs_backend source = backend) sources"

definition swap_wakeup_latch :: "input_core \<Rightarrow> nat \<Rightarrow> bool \<times> input_core" where
  "swap_wakeup_latch sources object_id = take_latch (\<lambda>source. rs_object_id source = object_id) sources"

section \<open>Registrations are unique and bounded\<close>

definition interfaces_inv :: "network_core \<Rightarrow> bool" where
  "interfaces_inv c \<longleftrightarrow> distinct (map ri_object_id c) \<and> length c \<le> MAX_REGISTERED_INTERFACES"

definition sources_inv :: "input_core \<Rightarrow> bool" where
  "sources_inv c \<longleftrightarrow> distinct (map rs_object_id c) \<and> length c \<le> MAX_REGISTERED_SOURCES"

lemma register_interface_inv:
  "interfaces_inv c \<Longrightarrow> interfaces_inv (snd (register_interface c i b))"
  by (auto simp: interfaces_inv_def register_interface_def list_ex_iff)

lemma register_source_inv:
  "sources_inv c \<Longrightarrow> sources_inv (snd (register_source c i b))"
  by (auto simp: sources_inv_def register_source_def list_ex_iff)

lemma take_latch_static [simp]:
  "map rs_object_id (snd (take_latch P c)) = map rs_object_id c"
  by (induction c) (auto split: prod.splits)

lemma input_poll_ready_static [simp]:
  "map rs_object_id (fst (input_poll_ready poll pend notify c (d, s))) = map rs_object_id c"
  by (induction c arbitrary: d s) (auto simp: Let_def split: prod.splits, (metis fst_conv)+)

lemma take_latch_sources_inv [simp]: "sources_inv (snd (take_latch P c)) = sources_inv c"
  by (metis sources_inv_def take_latch_static length_map)

lemma input_poll_sources_inv [simp]:
  "sources_inv (fst (input_poll_ready poll pend notify c (d, s))) = sources_inv c"
  by (metis sources_inv_def input_poll_ready_static length_map)

end
