(* ===== verification/Object_Model.thy ===== *)
theory Object_Model
  imports Capability Channel Pipe Timekeeping Memory_Manager Memory_Object Device_Core
begin

text \<open>
  Kernel objects: the event and timer objects of \<open>object/objects.rs\<close>, the task
  and thread objects of \<open>task/types.rs\<close> and \<open>task/objects.rs\<close>, the object record
  of \<open>object/types.rs\<close>, the registry of \<open>object/registry.rs\<close> and the bootstrap
  model of \<open>object/model.rs\<close>.

  A \<open>KernelObjectRef\<close> is a strong reference to a shared object. Objects live in
  a store indexed by their id; a reference is the id, and an object whose last
  strong reference is gone is absent from the store, so that \<open>Weak::upgrade\<close>
  is a lookup.
\<close>

section \<open>Event and timer objects\<close>

record event_object =
  signaled :: bool
  signal_count :: nat

definition event_new :: "bool \<Rightarrow> event_object" where
  "event_new s = \<lparr>signaled = s, signal_count = 0\<rparr>"

definition event_signal :: "event_object \<Rightarrow> event_object" where
  "event_signal e = e\<lparr>signaled := True, signal_count := saturating_add u64_max (signal_count e) 1\<rparr>"

definition event_reset :: "event_object \<Rightarrow> event_object" where
  "event_reset e = e\<lparr>signaled := False\<rparr>"

record timer_object =
  armed :: bool
  timer_deadline :: "monotonic_instant option"
  periodic_interval_ticks :: "nat option"

definition timer_new :: "monotonic_instant option \<Rightarrow> nat option \<Rightarrow> timer_object" where
  "timer_new deadline periodic =
     \<lparr>armed = (deadline \<noteq> None), timer_deadline = deadline, periodic_interval_ticks = periodic\<rparr>"

definition timer_arm :: "timer_object \<Rightarrow> monotonic_instant \<Rightarrow> nat option \<Rightarrow> timer_object" where
  "timer_arm t deadline periodic =
     t\<lparr>armed := True, timer_deadline := Some deadline, periodic_interval_ticks := periodic\<rparr>"

definition timer_disarm :: "timer_object \<Rightarrow> timer_object" where
  "timer_disarm t = t\<lparr>armed := False, timer_deadline := None, periodic_interval_ticks := None\<rparr>"

section \<open>Tasks and threads\<close>

type_synonym task_id = nat
type_synonym thread_id = nat
type_synonym address_space_id = nat

datatype task_role = BootstrapRoot | SystemService | DriverHost | UserService

datatype task_isolation_class = Unrestricted | Guest

datatype thread_mode = KernelMode | UserMode

datatype execution_state = Constructing | Runnable | Running | Blocked | Suspended | Dying

datatype thread_wake_reason =
    WakeBootstrap | WakeYield | TimerExpired | ChannelMessage | PacketReady | InputReady
  | ObjectReady | WakeExplicit

datatype wait_target =
    ChannelReceive object_id
  | ChannelSend object_id
  | Reply object_id
  | PacketReceive object_id
  | InputReceive object_id
  | TimerWait wake_token monotonic_instant
  | ObjectWait object_id

datatype task_exit_status = TaskRunning | Exited nat | Faulted nat

record scheduling_context =
  quantum_ticks :: nat

definition round_robin_default :: scheduling_context where
  "round_robin_default = \<lparr>quantum_ticks = 1\<rparr>"

record task_descriptor =
  td_address_space :: "address_space_id option"
  td_role :: task_role
  td_isolation :: task_isolation_class
  td_owner_env :: "nat option"

record thread_descriptor =
  thd_mode :: thread_mode
  thd_scheduling_context :: scheduling_context
  thd_entry_instruction_pointer :: "nat option"
  thd_stack_pointer :: "nat option"

record kernel_context =
  ctx_rsp :: nat
  ctx_rbx :: nat
  ctx_rbp :: nat
  ctx_r12 :: nat
  ctx_r13 :: nat
  ctx_r14 :: nat
  ctx_r15 :: nat

record task_object =
  tk_id :: task_id
  tk_space :: capability_space
  tk_role :: task_role
  tk_address_space :: "address_space_id option"
  tk_isolation :: task_isolation_class
  tk_owner_env :: "nat option"
  tk_threads :: "object_id list"
  tk_exit_status :: task_exit_status
  tk_reclaimable :: bool
  tk_charged_frames :: "physical_address list"

definition task_object_new :: "task_id \<Rightarrow> task_descriptor \<Rightarrow> task_object" where
  "task_object_new i descriptor =
     \<lparr>tk_id = i, tk_space = capability_space_new, tk_role = td_role descriptor,
      tk_address_space = td_address_space descriptor, tk_isolation = td_isolation descriptor,
      tk_owner_env = td_owner_env descriptor, tk_threads = [], tk_exit_status = TaskRunning,
      tk_reclaimable = (td_role descriptor \<noteq> BootstrapRoot), tk_charged_frames = []\<rparr>"

definition attach_thread :: "task_object \<Rightarrow> object_id \<Rightarrow> task_object" where
  "attach_thread t thread =
     (if thread \<in> set (tk_threads t) then t else t\<lparr>tk_threads := tk_threads t @ [thread]\<rparr>)"

definition set_exit_status :: "task_object \<Rightarrow> task_exit_status \<Rightarrow> task_object" where
  "set_exit_status t st = t\<lparr>tk_exit_status := st\<rparr>"

definition set_reclaimable :: "task_object \<Rightarrow> bool \<Rightarrow> task_object" where
  "set_reclaimable t r = t\<lparr>tk_reclaimable := r\<rparr>"

definition footprint_frames_of :: "task_object \<Rightarrow> nat" where
  "footprint_frames_of t = length (tk_charged_frames t)"

definition charge_frames :: "task_object \<Rightarrow> physical_address list \<Rightarrow> nat \<times> task_object" where
  "charge_frames t frames =
     (let t1 = t\<lparr>tk_charged_frames := tk_charged_frames t @ frames\<rparr>
      in (length (tk_charged_frames t1), t1))"

definition mark_oom_terminated :: "task_object \<Rightarrow> physical_address list \<times> task_object" where
  "mark_oom_terminated t =
     (tk_charged_frames t,
      t\<lparr>tk_exit_status := Faulted OOM_EXIT_CODE, tk_reclaimable := False, tk_charged_frames := []\<rparr>)"

record thread_object =
  th_id :: thread_id
  th_owner :: task_id
  th_mode :: thread_mode
  th_scheduling_context :: scheduling_context
  th_execution_state :: execution_state
  th_wait_target :: "wait_target option"
  th_last_wake_reason :: "thread_wake_reason option"
  th_entry_instruction_pointer :: "nat option"
  th_stack_pointer :: "nat option"
  th_kernel_context :: "kernel_context option"

definition thread_object_new :: "thread_id \<Rightarrow> task_id \<Rightarrow> thread_descriptor \<Rightarrow> thread_object" where
  "thread_object_new i owner descriptor =
     \<lparr>th_id = i, th_owner = owner, th_mode = thd_mode descriptor,
      th_scheduling_context = thd_scheduling_context descriptor,
      th_execution_state = Constructing, th_wait_target = None, th_last_wake_reason = None,
      th_entry_instruction_pointer = thd_entry_instruction_pointer descriptor,
      th_stack_pointer = thd_stack_pointer descriptor, th_kernel_context = None\<rparr>"

definition transition_to ::
  "thread_object \<Rightarrow> execution_state \<Rightarrow> wait_target option \<Rightarrow> thread_wake_reason option \<Rightarrow> thread_object" where
  "transition_to t st target reason =
     t\<lparr>th_execution_state := st, th_wait_target := target, th_last_wake_reason := reason\<rparr>"

definition set_kernel_context :: "thread_object \<Rightarrow> kernel_context \<Rightarrow> thread_object" where
  "set_kernel_context t context = t\<lparr>th_kernel_context := Some context\<rparr>"

section \<open>Object records\<close>

datatype object_kind =
    KindTask | KindThread | KindChannelEndpoint | KindEvent | KindTimer | KindMemoryObject
  | KindBootstrapCapability | KindPacketInterface | KindDisplayOutput | KindInputSource
  | KindAudioEndpoint | KindBlockDevice | KindPipe

datatype kernel_object =
    Task task_object
  | Thread thread_object
  | ChannelEndpoint channel_endpoint
  | Event event_object
  | Timer timer_object
  | MemoryObject memory_object
  | BootstrapCapability
  | PacketInterface backend_ref
  | DisplayOutput backend_ref
  | InputSource backend_ref
  | AudioEndpoint backend_ref
  | BlockDevice backend_ref
  | PipeObject pipe_state

record object_record =
  or_id :: object_id
  or_kind :: object_kind
  or_body :: kernel_object

text \<open>The kind each constructor of the registry pairs with its body.\<close>

fun kind_of :: "kernel_object \<Rightarrow> object_kind" where
  "kind_of (Task _) = KindTask"
| "kind_of (Thread _) = KindThread"
| "kind_of (ChannelEndpoint _) = KindChannelEndpoint"
| "kind_of (Event _) = KindEvent"
| "kind_of (Timer _) = KindTimer"
| "kind_of (MemoryObject _) = KindMemoryObject"
| "kind_of BootstrapCapability = KindBootstrapCapability"
| "kind_of (PacketInterface _) = KindPacketInterface"
| "kind_of (DisplayOutput _) = KindDisplayOutput"
| "kind_of (InputSource _) = KindInputSource"
| "kind_of (AudioEndpoint _) = KindAudioEndpoint"
| "kind_of (BlockDevice _) = KindBlockDevice"
| "kind_of (PipeObject _) = KindPipe"

type_synonym object_store = "object_id \<Rightarrow> object_record option"

fun as_task :: "kernel_object \<Rightarrow> task_object option" where
  "as_task (Task t) = Some t"
| "as_task _ = None"

fun as_thread :: "kernel_object \<Rightarrow> thread_object option" where
  "as_thread (Thread t) = Some t"
| "as_thread _ = None"

fun as_channel_endpoint :: "kernel_object \<Rightarrow> channel_endpoint option" where
  "as_channel_endpoint (ChannelEndpoint c) = Some c"
| "as_channel_endpoint _ = None"

fun as_event :: "kernel_object \<Rightarrow> event_object option" where
  "as_event (Event e) = Some e"
| "as_event _ = None"

fun as_timer :: "kernel_object \<Rightarrow> timer_object option" where
  "as_timer (Timer t) = Some t"
| "as_timer _ = None"

fun as_memory_object :: "kernel_object \<Rightarrow> memory_object option" where
  "as_memory_object (MemoryObject m) = Some m"
| "as_memory_object _ = None"

fun as_pipe :: "kernel_object \<Rightarrow> pipe_state option" where
  "as_pipe (PipeObject p) = Some p"
| "as_pipe _ = None"

fun as_packet_interface :: "kernel_object \<Rightarrow> backend_ref option" where
  "as_packet_interface (PacketInterface b) = Some b"
| "as_packet_interface _ = None"

fun as_input_source :: "kernel_object \<Rightarrow> backend_ref option" where
  "as_input_source (InputSource b) = Some b"
| "as_input_source _ = None"

text \<open>Reading and updating the body of an object through a reference.\<close>

definition body_at :: "object_store \<Rightarrow> object_id \<Rightarrow> kernel_object option" where
  "body_at st i = map_option or_body (st i)"

definition set_body :: "object_store \<Rightarrow> object_id \<Rightarrow> kernel_object \<Rightarrow> object_store" where
  "set_body st i b = (case st i of None \<Rightarrow> st | Some r \<Rightarrow> st(i \<mapsto> r\<lparr>or_body := b\<rparr>))"

definition task_at :: "object_store \<Rightarrow> object_id \<Rightarrow> task_object option" where
  "task_at st i = Option.bind (body_at st i) as_task"

definition thread_at :: "object_store \<Rightarrow> object_id \<Rightarrow> thread_object option" where
  "thread_at st i = Option.bind (body_at st i) as_thread"

definition channel_at :: "object_store \<Rightarrow> object_id \<Rightarrow> channel_endpoint option" where
  "channel_at st i = Option.bind (body_at st i) as_channel_endpoint"

section \<open>The registry\<close>

definition GC_CREATE_INTERVAL :: nat where "GC_CREATE_INTERVAL = 64"

text \<open>
  The registry together with the store of live objects and the device
  registries its constructors write to. \<open>live\<close> maps an id to the weak
  reference registered under it.
\<close>

record object_registry =
  next_id :: nat
  live :: "(object_id, object_id) btree_map"
  creates_since_gc :: nat
  store :: object_store
  network :: network_core
  inputs :: input_core

definition registry_new :: object_registry where
  "registry_new = \<lparr>next_id = 1, live = [], creates_since_gc = 0, store = (\<lambda>_. None),
                   network = network_core_new, inputs = input_core_new\<rparr>"

definition allocate_id :: "object_registry \<Rightarrow> object_kind \<Rightarrow> object_id \<times> object_registry" where
  "allocate_id g kind = (next_id g, g\<lparr>next_id := saturating_add u64_max (next_id g) 1\<rparr>)"

definition collect_dead_objects :: "object_registry \<Rightarrow> object_registry" where
  "collect_dead_objects g =
     g\<lparr>live := bt_retain (\<lambda>weak. weak) (\<lambda>_ weak. store g weak \<noteq> None) (live g), creates_since_gc := 0\<rparr>"

definition register :: "object_registry \<Rightarrow> object_record \<Rightarrow> object_id \<times> object_registry" where
  "register g object =
     (let g1 = g\<lparr>store := (store g)(or_id object \<mapsto> object),
                creates_since_gc := saturating_add usize_max (creates_since_gc g) 1\<rparr>;
          g2 = (if creates_since_gc g1 \<ge> GC_CREATE_INTERVAL then collect_dead_objects g1 else g1)
      in (or_id object, g2\<lparr>live := bt_insert (or_id object) (or_id object) (live g2)\<rparr>))"

definition create_object ::
  "object_registry \<Rightarrow> object_kind \<Rightarrow> kernel_object \<Rightarrow> object_id \<times> object_registry" where
  "create_object g kind b =
     (case allocate_id g kind of
        (i, g1) \<Rightarrow> register g1 \<lparr>or_id = i, or_kind = kind, or_body = b\<rparr>)"

definition create_task :: "object_registry \<Rightarrow> task_descriptor \<Rightarrow> object_id \<times> object_registry" where
  "create_task g descriptor =
     (case allocate_id g KindTask of
        (i, g1) \<Rightarrow> register g1 \<lparr>or_id = i, or_kind = KindTask,
                                or_body = Task (task_object_new i descriptor)\<rparr>)"

definition create_bootstrap_root_task :: "object_registry \<Rightarrow> object_id \<times> object_registry" where
  "create_bootstrap_root_task g =
     create_task g \<lparr>td_address_space = None, td_role = BootstrapRoot,
                    td_isolation = Unrestricted, td_owner_env = None\<rparr>"

text \<open>\<open>None\<close> is the panic on an owner that is not a task.\<close>

definition create_thread ::
  "object_registry \<Rightarrow> object_id \<Rightarrow> thread_descriptor \<Rightarrow> (object_id \<times> object_registry) option" where
  "create_thread g owner_task descriptor =
     (case task_at (store g) owner_task of
        None \<Rightarrow> None
      | Some owner \<Rightarrow>
          (case allocate_id g KindThread of
             (i, g1) \<Rightarrow>
               (case register g1 \<lparr>or_id = i, or_kind = KindThread,
                       or_body = Thread (thread_object_new i (tk_id owner) descriptor)\<rparr> of
                  (thread, g2) \<Rightarrow>
                    (case task_at (store g2) owner_task of
                       None \<Rightarrow> None
                     | Some t \<Rightarrow>
                         Some (thread, g2\<lparr>store := set_body (store g2) owner_task
                                                     (Task (attach_thread t i))\<rparr>)))))"

definition connect_endpoint :: "object_store \<Rightarrow> object_id \<Rightarrow> object_id \<Rightarrow> object_store option" where
  "connect_endpoint st i peer_id =
     map_option (\<lambda>c. set_body st i (ChannelEndpoint (connect c peer_id))) (channel_at st i)"

definition create_channel_pair ::
  "object_registry \<Rightarrow> ((object_id \<times> object_id) \<times> object_registry) option" where
  "create_channel_pair g =
     (case create_object g KindChannelEndpoint (ChannelEndpoint channel_endpoint_new) of
        (i, g1) \<Rightarrow>
          (case create_object g1 KindChannelEndpoint (ChannelEndpoint channel_endpoint_new) of
             (j, g2) \<Rightarrow>
               (case connect_endpoint (store g2) i j of
                  None \<Rightarrow> None
                | Some st1 \<Rightarrow>
                    (case connect_endpoint st1 j i of
                       None \<Rightarrow> None
                     | Some st2 \<Rightarrow> Some ((i, j), g2\<lparr>store := st2\<rparr>)))))"

definition create_event :: "object_registry \<Rightarrow> bool \<Rightarrow> object_id \<times> object_registry" where
  "create_event g s = create_object g KindEvent (Event (event_new s))"

definition create_timer ::
  "object_registry \<Rightarrow> monotonic_instant option \<Rightarrow> nat option \<Rightarrow> object_id \<times> object_registry" where
  "create_timer g deadline periodic = create_object g KindTimer (Timer (timer_new deadline periodic))"

definition create_memory_object ::
  "object_registry \<Rightarrow> nat \<Rightarrow> bool \<Rightarrow> dma_safety \<Rightarrow> object_id \<times> object_registry" where
  "create_memory_object g size_bytes writable dma =
     create_object g KindMemoryObject (MemoryObject (memory_object_new size_bytes writable dma))"

definition create_memory_object_from_bytes ::
  "object_registry \<Rightarrow> u8 list \<Rightarrow> object_id \<times> object_registry" where
  "create_memory_object_from_bytes g bytes =
     create_object g KindMemoryObject (MemoryObject (memory_object_from_bytes bytes))"

definition create_pipe :: "object_registry \<Rightarrow> object_id \<times> object_registry" where
  "create_pipe g = create_object g KindPipe (PipeObject pipe_new)"

definition create_bootstrap_capability :: "object_registry \<Rightarrow> object_id \<times> object_registry" where
  "create_bootstrap_capability g = create_object g KindBootstrapCapability BootstrapCapability"

definition create_packet_interface ::
  "object_registry \<Rightarrow> backend_ref \<Rightarrow> object_id \<times> object_registry" where
  "create_packet_interface g backend =
     (case create_object g KindPacketInterface (PacketInterface backend) of
        (i, g1) \<Rightarrow> (i, g1\<lparr>network := snd (register_interface (network g1) i backend)\<rparr>))"

definition create_display_output ::
  "object_registry \<Rightarrow> backend_ref \<Rightarrow> object_id \<times> object_registry" where
  "create_display_output g backend = create_object g KindDisplayOutput (DisplayOutput backend)"

definition create_input_source ::
  "object_registry \<Rightarrow> backend_ref \<Rightarrow> object_id \<times> object_registry" where
  "create_input_source g backend =
     (case create_object g KindInputSource (InputSource backend) of
        (i, g1) \<Rightarrow> (i, g1\<lparr>inputs := snd (register_source (inputs g1) i backend)\<rparr>))"

definition create_audio_endpoint ::
  "object_registry \<Rightarrow> backend_ref \<Rightarrow> object_id \<times> object_registry" where
  "create_audio_endpoint g backend = create_object g KindAudioEndpoint (AudioEndpoint backend)"

definition create_block_device ::
  "object_registry \<Rightarrow> backend_ref \<Rightarrow> object_id \<times> object_registry" where
  "create_block_device g backend = create_object g KindBlockDevice (BlockDevice backend)"

definition lookup :: "object_registry \<Rightarrow> object_id \<Rightarrow> object_id option" where
  "lookup g i =
     (case bt_get (live g) i of
        None \<Rightarrow> None
      | Some weak \<Rightarrow> if store g weak \<noteq> None then Some weak else None)"

definition collect_garbage :: "object_registry \<Rightarrow> object_registry" where
  "collect_garbage g = collect_dead_objects g"

definition registry_snapshot :: "object_registry \<Rightarrow> nat \<times> nat" where
  "registry_snapshot g = (next_id g, length (live g))"

text \<open>The last strong reference to an object is dropped.\<close>

definition drop_last_ref :: "object_registry \<Rightarrow> object_id \<Rightarrow> object_registry" where
  "drop_last_ref g i = g\<lparr>store := (store g)(i := None)\<rparr>"

section \<open>The bootstrap model\<close>

record kernel_object_model =
  km_registry :: object_registry
  km_bootstrap_task :: object_id
  km_bootstrap_capability :: object_id

definition kernel_object_model_new :: "kernel_object_model option" where
  "kernel_object_model_new =
     (case create_bootstrap_root_task registry_new of
        (bootstrap_task, g1) \<Rightarrow>
          (case create_bootstrap_capability g1 of
             (bootstrap_capability, g2) \<Rightarrow>
               (case task_at (store g2) bootstrap_task of
                  None \<Rightarrow> None
                | Some t \<Rightarrow>
                    (case install (tk_space t) bootstrap_task task_rights (Some 0) of
                       (Inl _, _) \<Rightarrow> None
                     | (Inr _, space) \<Rightarrow>
                         Some \<lparr>km_registry =
                                 g2\<lparr>store := set_body (store g2) bootstrap_task
                                               (Task (t\<lparr>tk_space := space\<rparr>))\<rparr>,
                               km_bootstrap_task = bootstrap_task,
                               km_bootstrap_capability = bootstrap_capability\<rparr>))))"


section \<open>Registry invariant\<close>

lemma set_body_apply:
  "set_body st i b j = (if j = i then map_option (or_body_update (\<lambda>_. b)) (st i) else st j)"
  by (auto simp: set_body_def split: option.splits)

lemma body_at_set_body [simp]:
  "body_at (set_body st i b) j =
     (if j = i \<and> st i \<noteq> None then Some b else body_at st j)"
  by (auto simp: body_at_def set_body_apply)

lemma dom_set_body [simp]: "dom (set_body st i b) = dom st"
  by (auto simp: set_body_apply dom_def)

lemma set_body_None_iff [simp]: "set_body st i b j = None \<longleftrightarrow> st j = None"
  by (auto simp: set_body_apply)

lemma task_at_SomeD: "task_at st i = Some t \<Longrightarrow> \<exists>r. st i = Some r \<and> or_body r = Task t"
  by (auto simp: task_at_def body_at_def split: bind_splits elim: as_task.elims)

lemma thread_at_SomeD: "thread_at st i = Some t \<Longrightarrow> \<exists>r. st i = Some r \<and> or_body r = Thread t"
  by (auto simp: thread_at_def body_at_def split: bind_splits elim: as_thread.elims)

lemma channel_at_SomeD:
  "channel_at st i = Some c \<Longrightarrow> \<exists>r. st i = Some r \<and> or_body r = ChannelEndpoint c"
  by (auto simp: channel_at_def body_at_def split: bind_splits elim: as_channel_endpoint.elims)

lemma thread_at_set_body [simp]:
  "thread_at (set_body st i b) j = (if j = i \<and> st i \<noteq> None then as_thread b else thread_at st j)"
  by (cases "st i") (auto simp: thread_at_def)

lemma task_at_set_body [simp]:
  "task_at (set_body st i b) j = (if j = i \<and> st i \<noteq> None then as_task b else task_at st j)"
  by (cases "st i") (auto simp: task_at_def)

lemma channel_at_set_body [simp]:
  "channel_at (set_body st i b) j =
     (if j = i \<and> st i \<noteq> None then as_channel_endpoint b else channel_at st j)"
  by (cases "st i") (auto simp: channel_at_def)

definition record_ok :: "object_id \<Rightarrow> object_record \<Rightarrow> bool" where
  "record_ok i r \<longleftrightarrow> or_id r = i \<and> or_kind r = kind_of (or_body r)"

definition store_ok :: "object_store \<Rightarrow> bool" where
  "store_ok st \<longleftrightarrow> (\<forall>i r. st i = Some r \<longrightarrow> record_ok i r)"

definition registry_inv :: "object_registry \<Rightarrow> bool" where
  "registry_inv g \<longleftrightarrow>
     bt_inv (live g) \<and> (\<forall>i w. bt_get (live g) i = Some w \<longrightarrow> w = i) \<and>
     dom (store g) \<subseteq> bt_keys (live g) \<and> (\<forall>i\<in>bt_keys (live g). i < next_id g) \<and>
     store_ok (store g)"

lemma registry_new_inv: "registry_inv registry_new"
  by (simp add: registry_inv_def registry_new_def store_ok_def)

lemma store_ok_upd: "store_ok st \<Longrightarrow> record_ok i r \<Longrightarrow> store_ok (st(i \<mapsto> r))"
  by (simp add: store_ok_def)

lemma store_ok_drop: "store_ok st \<Longrightarrow> store_ok (st(i := None))"
  by (simp add: store_ok_def)

lemma store_ok_set_body:
  "store_ok st \<Longrightarrow> (\<And>r. st i = Some r \<Longrightarrow> kind_of b = kind_of (or_body r)) \<Longrightarrow> store_ok (set_body st i b)"
  by (auto simp: store_ok_def set_body_apply record_ok_def split: if_splits)

lemma collect_dead_objects_sel [simp]:
  "store (collect_dead_objects g) = store g" "next_id (collect_dead_objects g) = next_id g"
  "network (collect_dead_objects g) = network g" "inputs (collect_dead_objects g) = inputs g"
  by (simp_all add: collect_dead_objects_def)

lemma collect_dead_objects_inv:
  assumes "registry_inv g"
  shows "registry_inv (collect_dead_objects g)"
    and "bt_keys (live (collect_dead_objects g)) = dom (store g)"
proof -
  from assms have inv: "bt_inv (live g)" and same: "\<And>i w. bt_get (live g) i = Some w \<Longrightarrow> w = i"
    and dom: "dom (store g) \<subseteq> bt_keys (live g)"
    and less: "\<And>i. i \<in> bt_keys (live g) \<Longrightarrow> i < next_id g" and ok: "store_ok (store g)"
    unfolding registry_inv_def by blast+
  have get: "bt_get (live (collect_dead_objects g)) i =
      (if store g i \<noteq> None then Some i else None)" for i
    using dom same
    by (cases "bt_get (live g) i")
       (auto simp: collect_dead_objects_def bt_get_retain[OF inv] bt_keys_dom)
  show keys: "bt_keys (live (collect_dead_objects g)) = dom (store g)"
    by (auto simp: bt_keys_dom get split: if_splits)
  show "registry_inv (collect_dead_objects g)"
    unfolding registry_inv_def keys
  proof (intro conjI allI impI ballI)
    show "bt_inv (live (collect_dead_objects g))"
      using inv by (simp add: collect_dead_objects_def)
    show "w = i" if "bt_get (live (collect_dead_objects g)) i = Some w" for i w
      using that by (simp add: get split: if_splits)
  qed (use ok dom less in auto)
qed

lemma create_object_sel:
  assumes "next_id g < u64_max"
  shows "fst (create_object g k b) = next_id g"
    and "next_id (snd (create_object g k b)) = next_id g + 1"
    and "store (snd (create_object g k b)) =
           (store g)(next_id g \<mapsto> \<lparr>or_id = next_id g, or_kind = k, or_body = b\<rparr>)"
  using assms by (simp_all add: create_object_def allocate_id_def register_def Let_def saturating_add_exact)

lemma create_object_inv:
  assumes inv: "registry_inv g" and space: "next_id g < u64_max" and kind: "kind_of b = k"
  shows "registry_inv (snd (create_object g k b))"
proof -
  define r where "r = \<lparr>or_id = next_id g, or_kind = k, or_body = b\<rparr>"
  define g1 where "g1 = g\<lparr>next_id := next_id g + 1, store := (store g)(next_id g \<mapsto> r),
                       creates_since_gc := saturating_add usize_max (creates_since_gc g) 1,
                       live := bt_insert (next_id g) (next_id g) (live g)\<rparr>"
  from inv have parts: "bt_inv (live g)" "\<And>i w. bt_get (live g) i = Some w \<Longrightarrow> w = i"
    "dom (store g) \<subseteq> bt_keys (live g)" "\<And>i. i \<in> bt_keys (live g) \<Longrightarrow> i < next_id g"
    "store_ok (store g)"
    unfolding registry_inv_def by blast+
  have ok: "store_ok ((store g)(next_id g \<mapsto> r))"
    using parts(5) kind by (intro store_ok_upd) (auto simp: r_def record_ok_def)
  have inv1: "registry_inv g1"
    unfolding registry_inv_def g1_def using parts ok
    by (auto split: if_splits intro: less_SucI)
  \<comment> \<open>collecting before the insertion of the new entry or after it is the same\<close>
  define g0 where "g0 = g1\<lparr>live := live g\<rparr>"
  have gc: "bt_insert (next_id g) (next_id g) (live (collect_dead_objects g0)) =
            live (collect_dead_objects g1)"
  proof (rule bt_ext)
    show "bt_inv (bt_insert (next_id g) (next_id g) (live (collect_dead_objects g0)))"
      using parts(1) by (simp add: collect_dead_objects_def g0_def)
    show "bt_inv (live (collect_dead_objects g1))"
      using collect_dead_objects_inv(1)[OF inv1] by (simp add: registry_inv_def)
    have invs: "bt_inv (live g)" "bt_inv (bt_insert (next_id g) (next_id g) (live g))"
      using parts(1) by simp_all
    show "bt_get (bt_insert (next_id g) (next_id g) (live (collect_dead_objects g0))) =
          bt_get (live (collect_dead_objects g1))"
    proof
      fix i
      show "bt_get (bt_insert (next_id g) (next_id g) (live (collect_dead_objects g0))) i =
            bt_get (live (collect_dead_objects g1)) i"
        by (simp add: collect_dead_objects_def g0_def g1_def bt_get_retain[OF invs(1)]
            bt_get_retain[OF invs(2)])
    qed
  qed
  have "snd (create_object g k b) =
     (if saturating_add usize_max (creates_since_gc g) 1 \<ge> GC_CREATE_INTERVAL
      then collect_dead_objects g1 else g1)"
  proof (cases "saturating_add usize_max (creates_since_gc g) 1 \<ge> GC_CREATE_INTERVAL")
    case True
    have "snd (create_object g k b) =
       (collect_dead_objects g0)\<lparr>live := bt_insert (next_id g) (next_id g) (live (collect_dead_objects g0))\<rparr>"
      using True space
      by (simp add: create_object_def allocate_id_def register_def Let_def saturating_add_exact
          g0_def g1_def r_def)
    also have "\<dots> = collect_dead_objects g1"
      unfolding gc by (simp add: collect_dead_objects_def g0_def)
    finally show ?thesis using True by simp
  next
    case False
    then show ?thesis
      using space
      by (simp add: create_object_def allocate_id_def register_def Let_def saturating_add_exact
          g1_def r_def)
  qed
  then show ?thesis
    using inv1 collect_dead_objects_inv(1)[OF inv1] by simp
qed


lemma create_task_object:
  "create_task g d = create_object g KindTask (Task (task_object_new (next_id g) d))"
  by (simp add: create_task_def create_object_def allocate_id_def)

lemma registry_inv_store:
  assumes "registry_inv g" "dom st \<subseteq> dom (store g)" "store_ok st"
  shows "registry_inv (g\<lparr>store := st\<rparr>)"
  using assms unfolding registry_inv_def by (simp, blast)

lemma registry_inv_devices [simp]:
  "registry_inv (g\<lparr>network := n\<rparr>) = registry_inv g" "registry_inv (g\<lparr>inputs := m\<rparr>) = registry_inv g"
  by (simp_all add: registry_inv_def)

lemma registry_inv_store_ok: "registry_inv g \<Longrightarrow> store_ok (store g)"
  by (simp add: registry_inv_def)

lemma create_thread_object:
  assumes "next_id g < u64_max" "registry_inv g" "task_at (store g) owner = Some t"
  shows "create_thread g owner d =
    (let g2 = snd (create_object g KindThread (Thread (thread_object_new (next_id g) (tk_id t) d)))
     in Some (next_id g, g2\<lparr>store := set_body (store g2) owner (Task (attach_thread t (next_id g)))\<rparr>))"
proof -
  define b where "b = Thread (thread_object_new (next_id g) (tk_id t) d)"
  obtain r where r: "store g owner = Some r" using assms(3) task_at_SomeD by blast
  then have ne: "owner \<noteq> next_id g"
    using assms(2) unfolding registry_inv_def by (metis domI less_irrefl subsetD)
  have "task_at (store (snd (create_object g KindThread b))) owner = Some t"
    using assms ne by (simp add: create_object_sel task_at_def body_at_def)
  moreover have "fst (create_object g KindThread b) = next_id g"
    using assms by (simp add: create_object_sel)
  moreover have "register (snd (allocate_id g KindThread)) \<lparr>or_id = next_id g, or_kind = KindThread, or_body = b\<rparr>
      = create_object g KindThread b"
    by (simp add: create_object_def allocate_id_def)
  ultimately show ?thesis
    using assms(3)
    by (auto simp: create_thread_def allocate_id_def b_def[symmetric] Let_def split: prod.splits)
qed

lemma create_thread_inv:
  assumes "registry_inv g" "next_id g < u64_max" "create_thread g owner d = Some (i, g')"
  shows "registry_inv g'" "i = next_id g" "next_id g' = next_id g + 1"
proof -
  from assms(3) obtain t where t: "task_at (store g) owner = Some t"
    by (auto simp: create_thread_def split: option.splits)
  define b where "b = Thread (thread_object_new (next_id g) (tk_id t) d)"
  define g2 where "g2 = snd (create_object g KindThread b)"
  have eqs: "i = next_id g" "g' = g2\<lparr>store := set_body (store g2) owner (Task (attach_thread t (next_id g)))\<rparr>"
    using assms(3) unfolding create_thread_object[OF assms(2,1) t] b_def[symmetric] g2_def
    by (auto simp: Let_def)
  have inv2: "registry_inv g2"
    unfolding g2_def by (rule create_object_inv[OF assms(1,2)]) (simp add: b_def)
  have task2: "task_at (store g2) owner = Some t"
  proof -
    have "owner \<noteq> next_id g"
      using t assms(1) task_at_SomeD[OF t] unfolding registry_inv_def
      by (metis domI less_irrefl subsetD)
    then show ?thesis
      using assms(2) t by (simp add: g2_def create_object_sel task_at_def body_at_def)
  qed
  have "store_ok (set_body (store g2) owner (Task (attach_thread t (next_id g))))"
    using task_at_SomeD[OF task2] registry_inv_store_ok[OF inv2]
    by (intro store_ok_set_body) auto
  then show "registry_inv g'"
    unfolding eqs by (intro registry_inv_store[OF inv2]) simp_all
  show "i = next_id g" by (rule eqs)
  show "next_id g' = next_id g + 1"
    using assms(2) by (simp add: eqs g2_def create_object_sel)
qed

lemma create_channel_pair_object:
  assumes "next_id g + 1 < u64_max"
  shows "create_channel_pair g =
    (let g1 = snd (create_object g KindChannelEndpoint (ChannelEndpoint channel_endpoint_new));
         g2 = snd (create_object g1 KindChannelEndpoint (ChannelEndpoint channel_endpoint_new));
         i = next_id g; j = next_id g + 1;
         st1 = set_body (store g2) i (ChannelEndpoint (connect channel_endpoint_new j));
         st2 = set_body st1 j (ChannelEndpoint (connect channel_endpoint_new i))
     in Some ((i, j), g2\<lparr>store := st2\<rparr>))"
proof -
  define c where "c = ChannelEndpoint channel_endpoint_new"
  define g1 where "g1 = snd (create_object g KindChannelEndpoint c)"
  define g2 where "g2 = snd (create_object g1 KindChannelEndpoint c)"
  from assms have n1: "next_id g1 = next_id g + 1" and n1': "next_id g1 < u64_max"
    by (simp_all add: g1_def create_object_sel)
  have p1: "create_object g KindChannelEndpoint c = (next_id g, g1)"
    using assms by (simp add: g1_def prod_eq_iff create_object_sel)
  have p2: "create_object g1 KindChannelEndpoint c = (next_id g + 1, g2)"
    using n1 n1' by (simp add: g2_def prod_eq_iff create_object_sel)
  have "store g2 (next_id g) = Some \<lparr>or_id = next_id g, or_kind = KindChannelEndpoint, or_body = c\<rparr>"
    "store g2 (next_id g + 1) = Some \<lparr>or_id = next_id g + 1, or_kind = KindChannelEndpoint, or_body = c\<rparr>"
    using assms n1 n1' by (simp_all add: g2_def g1_def create_object_sel)
  then have "channel_at (store g2) (next_id g) = Some channel_endpoint_new"
    "channel_at (store g2) (next_id g + 1) = Some channel_endpoint_new"
    by (simp_all add: channel_at_def body_at_def c_def)
  then show ?thesis
    by (simp add: create_channel_pair_def c_def[symmetric] p1 p2 Let_def connect_endpoint_def
        g1_def[symmetric] g2_def[symmetric])
qed

lemma create_channel_pair_inv:
  assumes "registry_inv g" "next_id g + 1 < u64_max" "create_channel_pair g = Some (ij, g')"
  shows "registry_inv g'" "ij = (next_id g, next_id g + 1)" "next_id g' = next_id g + 2"
proof -
  define c where "c = ChannelEndpoint channel_endpoint_new"
  define g1 where "g1 = snd (create_object g KindChannelEndpoint c)"
  define g2 where "g2 = snd (create_object g1 KindChannelEndpoint c)"
  from assms have n1: "next_id g1 = next_id g + 1" and n1': "next_id g1 < u64_max"
    by (simp_all add: g1_def create_object_sel)
  have inv2: "registry_inv g2"
    unfolding g2_def using assms n1'
    by (intro create_object_inv) (simp_all add: g1_def create_object_inv c_def)
  have st: "store g2 (next_id g) = Some \<lparr>or_id = next_id g, or_kind = KindChannelEndpoint, or_body = c\<rparr>"
    "store g2 (next_id g + 1) = Some \<lparr>or_id = next_id g + 1, or_kind = KindChannelEndpoint, or_body = c\<rparr>"
    using assms n1 n1' by (simp_all add: g2_def g1_def create_object_sel)
  from assms(3) have eqs: "ij = (next_id g, next_id g + 1)"
    "g' = g2\<lparr>store := set_body (set_body (store g2) (next_id g)
             (ChannelEndpoint (connect channel_endpoint_new (next_id g + 1)))) (next_id g + 1)
             (ChannelEndpoint (connect channel_endpoint_new (next_id g)))\<rparr>"
    unfolding create_channel_pair_object[OF assms(2)] c_def[symmetric]
    by (auto simp: Let_def g1_def[symmetric] g2_def[symmetric])
  show "registry_inv g'" unfolding eqs
    using st registry_inv_store_ok[OF inv2]
    by (intro registry_inv_store[OF inv2] store_ok_set_body) (auto simp: set_body_apply c_def)
  show "ij = (next_id g, next_id g + 1)" by (rule eqs)
  show "next_id g' = next_id g + 2"
    using n1 n1' by (simp add: eqs g2_def create_object_sel)
qed

section \<open>Histories of the registry\<close>

text \<open>
  A history of the registry: objects are created, their bodies change without
  changing their kind, their last references are dropped, garbage is collected.
  The second component lists the ids handed out, newest first. A creation needs
  ids left below the largest \<open>u64\<close>.
\<close>

inductive registry_step ::
  "object_registry \<times> object_id list \<Rightarrow> object_registry \<times> object_id list \<Rightarrow> bool" where
  step_task: "next_id g < u64_max \<Longrightarrow> create_task g d = (i, g') \<Longrightarrow>
     registry_step (g, ids) (g', i # ids)"
| step_thread: "next_id g < u64_max \<Longrightarrow> create_thread g owner td = Some (i, g') \<Longrightarrow>
     registry_step (g, ids) (g', i # ids)"
| step_channel: "next_id g + 1 < u64_max \<Longrightarrow> create_channel_pair g = Some ((i, j), g') \<Longrightarrow>
     registry_step (g, ids) (g', j # i # ids)"
| step_event: "next_id g < u64_max \<Longrightarrow> create_event g s = (i, g') \<Longrightarrow>
     registry_step (g, ids) (g', i # ids)"
| step_timer: "next_id g < u64_max \<Longrightarrow> create_timer g dl p = (i, g') \<Longrightarrow>
     registry_step (g, ids) (g', i # ids)"
| step_memory: "next_id g < u64_max \<Longrightarrow> create_memory_object g n w dma = (i, g') \<Longrightarrow>
     registry_step (g, ids) (g', i # ids)"
| step_memory_bytes: "next_id g < u64_max \<Longrightarrow> create_memory_object_from_bytes g bs = (i, g') \<Longrightarrow>
     registry_step (g, ids) (g', i # ids)"
| step_pipe: "next_id g < u64_max \<Longrightarrow> create_pipe g = (i, g') \<Longrightarrow>
     registry_step (g, ids) (g', i # ids)"
| step_bootstrap: "next_id g < u64_max \<Longrightarrow> create_bootstrap_capability g = (i, g') \<Longrightarrow>
     registry_step (g, ids) (g', i # ids)"
| step_packet: "next_id g < u64_max \<Longrightarrow> create_packet_interface g b = (i, g') \<Longrightarrow>
     registry_step (g, ids) (g', i # ids)"
| step_display: "next_id g < u64_max \<Longrightarrow> create_display_output g b = (i, g') \<Longrightarrow>
     registry_step (g, ids) (g', i # ids)"
| step_input: "next_id g < u64_max \<Longrightarrow> create_input_source g b = (i, g') \<Longrightarrow>
     registry_step (g, ids) (g', i # ids)"
| step_audio: "next_id g < u64_max \<Longrightarrow> create_audio_endpoint g b = (i, g') \<Longrightarrow>
     registry_step (g, ids) (g', i # ids)"
| step_block: "next_id g < u64_max \<Longrightarrow> create_block_device g b = (i, g') \<Longrightarrow>
     registry_step (g, ids) (g', i # ids)"
| step_mutate: "store g i = Some r \<Longrightarrow> kind_of b = or_kind r \<Longrightarrow>
     registry_step (g, ids) (g\<lparr>store := set_body (store g) i b\<rparr>, ids)"
| step_drop: "registry_step (g, ids) (drop_last_ref g i, ids)"
| step_collect: "registry_step (g, ids) (collect_garbage g, ids)"

definition issued_ok :: "object_registry \<times> object_id list \<Rightarrow> bool" where
  "issued_ok s \<longleftrightarrow> registry_inv (fst s) \<and> distinct (snd s) \<and> (\<forall>i\<in>set (snd s). i < next_id (fst s))"

lemma issued_ok_cons:
  assumes "issued_ok (g, ids)" "i = next_id g" "next_id g' = next_id g + 1" "registry_inv g'"
  shows "issued_ok (g', i # ids)"
  using assms by (force simp: issued_ok_def)

lemma issued_ok_object:
  assumes "issued_ok (g, ids)" "next_id g < u64_max" "create_object g k b = (i, g')" "kind_of b = k"
  shows "issued_ok (g', i # ids)"
  using assms create_object_sel[OF assms(2), of k b] create_object_inv[of g b k]
  by (intro issued_ok_cons) (auto simp: issued_ok_def)

lemma issued_ok_devices:
  assumes "issued_ok (g, ids)"
  shows "issued_ok (g\<lparr>network := n\<rparr>, ids)" "issued_ok (g\<lparr>inputs := m\<rparr>, ids)"
  using assms by (simp_all add: issued_ok_def)

lemma registry_step_ok:
  assumes "registry_step s s'" "issued_ok s"
  shows "issued_ok s'"
  using assms
proof (induction rule: registry_step.induct)
  case (step_task g d i g' ids)
  then show ?case
    using issued_ok_object unfolding create_task_object by (metis kind_of.simps(1))
next
  case (step_thread g owner td i g' ids)
  then have "registry_inv g" by (simp add: issued_ok_def)
  then show ?case
    using step_thread create_thread_inv[of g owner td i g'] by (intro issued_ok_cons) auto
next
  case (step_channel g i j g' ids)
  then have "registry_inv g" by (simp add: issued_ok_def)
  then show ?case
    using step_channel create_channel_pair_inv[of g "(i, j)" g'] by (force simp: issued_ok_def)
next
  case (step_packet g b i g' ids)
  then obtain g1 where "create_object g KindPacketInterface (PacketInterface b) = (i, g1)"
    "g' = g1\<lparr>network := snd (register_interface (network g1) i b)\<rparr>"
    by (auto simp: create_packet_interface_def split: prod.splits)
  then show ?case
    using issued_ok_devices(1)[OF issued_ok_object] step_packet by simp
next
  case (step_input g b i g' ids)
  then obtain g1 where "create_object g KindInputSource (InputSource b) = (i, g1)"
    "g' = g1\<lparr>inputs := snd (register_source (inputs g1) i b)\<rparr>"
    by (auto simp: create_input_source_def split: prod.splits)
  then show ?case
    using issued_ok_devices(2)[OF issued_ok_object] step_input by simp
next
  case (step_mutate g i r b ids)
  then have "store_ok (set_body (store g) i b)"
    by (intro store_ok_set_body) (auto simp: issued_ok_def registry_inv_def store_ok_def record_ok_def)
  then have "registry_inv (g\<lparr>store := set_body (store g) i b\<rparr>)"
    using step_mutate by (intro registry_inv_store) (simp_all add: issued_ok_def)
  with step_mutate show ?case
    by (simp add: issued_ok_def)
next
  case (step_drop g ids i)
  then have "registry_inv (drop_last_ref g i)"
    unfolding drop_last_ref_def
    by (intro registry_inv_store) (auto simp: issued_ok_def registry_inv_def intro: store_ok_drop)
  with step_drop show ?case
    by (simp add: issued_ok_def drop_last_ref_def)
next
  case (step_collect g ids)
  then show ?case
    by (simp add: issued_ok_def collect_garbage_def collect_dead_objects_inv)
qed (auto simp: create_event_def create_timer_def create_memory_object_def
      create_memory_object_from_bytes_def create_pipe_def create_bootstrap_capability_def
      create_display_output_def create_audio_endpoint_def create_block_device_def
      intro: issued_ok_object)

lemma registry_steps_ok:
  "registry_step\<^sup>*\<^sup>* (registry_new, []) s \<Longrightarrow> issued_ok s"
proof (induction rule: rtranclp_induct)
  case base
  show ?case by (simp add: issued_ok_def registry_new_inv)
next
  case (step s s')
  then show ?case by (blast intro: registry_step_ok)
qed

lemma lookup_exact:
  assumes "registry_inv g"
  shows "lookup g i = (if store g i \<noteq> None then Some i else None)"
proof -
  have "store g i \<noteq> None \<Longrightarrow> bt_get (live g) i = Some i"
    using assms unfolding registry_inv_def bt_keys_dom by blast
  moreover have "bt_get (live g) i = Some w \<Longrightarrow> w = i" for w
    using assms unfolding registry_inv_def by blast
  ultimately show ?thesis
    by (cases "bt_get (live g) i"; cases "store g i") (auto simp: lookup_def)
qed

text \<open>C22. In every history of the object registry that leaves ids to hand out, no id is handed
  out twice; a lookup finds an object exactly as long as a strong reference to it exists; the
  object found has that id and a header kind that matches its body; and a garbage collection
  leaves exactly the live objects tracked.\<close>

theorem registry_tracks_live_objects:
  assumes "registry_step\<^sup>*\<^sup>* (registry_new, []) (g, ids)"
  shows "distinct ids \<and>
    lookup g i = (if store g i = None then None else Some i) \<and>
    (\<forall>r. store g i = Some r \<longrightarrow> or_id r = i \<and> or_kind r = kind_of (or_body r)) \<and>
    bt_keys (live (collect_garbage g)) = dom (store g)"
proof -
  from registry_steps_ok[OF assms] have inv: "registry_inv g" and "distinct ids"
    by (simp_all add: issued_ok_def)
  moreover have "or_id r = i \<and> or_kind r = kind_of (or_body r)" if "store g i = Some r" for r
    using registry_inv_store_ok[OF inv] that by (auto simp: store_ok_def record_ok_def)
  ultimately show ?thesis
    using lookup_exact[OF inv] collect_dead_objects_inv(2)[OF inv]
    by (simp add: collect_garbage_def)
qed

theorem registry_tracks_live_objects_witness:
  "let g = drop_last_ref (snd (create_pipe (snd (create_event registry_new True)))) 1
   in lookup g 1 = None \<and> lookup g 2 = Some 2 \<and> bt_keys (live (collect_garbage g)) = {2}"
proof -
  define g1 where "g1 = snd (create_event registry_new True)"
  define g2 where "g2 = snd (create_pipe g1)"
  have space: "next_id registry_new < u64_max" "next_id g1 < u64_max"
    by (simp_all add: registry_new_def g1_def create_event_def create_object_sel u64_max_def)
  define ids where "ids = [fst (create_pipe g1), fst (create_event registry_new True)]"
  have "registry_step (registry_new, []) (g1, [fst (create_event registry_new True)])"
    by (rule step_event) (simp_all add: space g1_def)
  moreover have "registry_step (g1, [fst (create_event registry_new True)]) (g2, ids)"
    unfolding ids_def by (rule step_pipe) (simp_all add: space g2_def)
  moreover have "registry_step (g2, ids) (drop_last_ref g2 1, ids)"
    by (rule step_drop)
  ultimately have run: "registry_step\<^sup>*\<^sup>* (registry_new, []) (drop_last_ref g2 1, ids)"
    by (meson converse_rtranclp_into_rtranclp rtranclp.rtrancl_refl)
  have st: "store (drop_last_ref g2 1) = [2 \<mapsto> \<lparr>or_id = 2, or_kind = KindPipe, or_body = PipeObject pipe_new\<rparr>]"
    using space unfolding g2_def create_pipe_def drop_last_ref_def
    by (simp add: create_object_sel)
       (simp add: g1_def create_event_def create_object_sel registry_new_def u64_max_def fun_eq_iff)
  show ?thesis
    using registry_tracks_live_objects[OF run, of 1] registry_tracks_live_objects[OF run, of 2]
    unfolding st by (simp add: g1_def[symmetric] g2_def[symmetric])
qed

end
