(* ===== verification/Scheduler.thy ===== *)
theory Scheduler
  imports Object_Model "HOL-Library.Monad_Syntax"
begin

text \<open>
  The thread scheduler, \<open>task/scheduler.rs\<close>: per-CPU run queues, wait queues,
  work stealing and push balancing. The state record holds the fields of
  \<open>SchedulerState\<close> and, after them, the shared objects the operations reach
  through statics and references: the store of the thread objects, the time
  manager and the input registry. Every operation runs under the state lock
  and is one atomic transformer; its \<open>cpu\<close> argument is \<open>current_cpu_index()\<close>.

  The outer \<open>option\<close> of an operation is the panic of an \<open>expect\<close>: \<open>None\<close>.
\<close>

definition RUNNABLE_QUEUE_CPUS :: nat where "RUNNABLE_QUEUE_CPUS = 8"
definition STEAL_BATCH_MAX :: nat where "STEAL_BATCH_MAX = 2"
definition STEAL_MIN_IDLE_TICKS :: nat where "STEAL_MIN_IDLE_TICKS = 3"
definition BALANCE_PERIOD_TICKS :: nat where "BALANCE_PERIOD_TICKS = 64"
definition BALANCE_OVERCOMMIT_RATIO :: nat where "BALANCE_OVERCOMMIT_RATIO = 2"
definition STEAL_STATS_PERIOD_TICKS :: nat where "STEAL_STATS_PERIOD_TICKS = 512"

definition register_balancing_cpu_count :: "nat \<Rightarrow> nat" where
  "register_balancing_cpu_count n = max 1 (min n RUNNABLE_QUEUE_CPUS)"

text \<open>The hook's answer, when a hook is registered.\<close>

definition current_cpu_index :: "nat option \<Rightarrow> nat" where
  "current_cpu_index hook = (case hook of None \<Rightarrow> 0 | Some i \<Rightarrow> i mod RUNNABLE_QUEUE_CPUS)"

datatype schedule_trigger =
    TriggerBootstrap | TriggerYield | TriggerBlocked | TimeWake | IpcWake | NetworkWake
  | InputWake | ObjectWake | TriggerExplicit

record schedule_decision =
  sd_trigger :: schedule_trigger
  sd_previous :: "thread_id option"
  sd_next :: "thread_id option"
  sd_runnable_threads :: nat
  sd_blocked_threads :: nat

datatype scheduler_error =
    InvalidThread | ThreadAlreadyRegistered | TimeUnavailable | WakeTokenExhausted
  | TimerFailure timer_error

record scheduler_state =
  current :: "thread_id option"
  runnable_queues :: "thread_id list list"
  queued_idle_ticks :: "(thread_id, nat) btree_map"
  stolen_per_cpu :: "nat list"
  steal_attempts :: nat
  rebalance_moves :: nat
  tick_counter :: nat
  steal_scan_cursor :: "nat list"
  threads :: "(thread_id, object_id) btree_map"
  waiting_timers :: "(wake_token, thread_id) btree_map"
  waiting_receivers :: "(object_id, thread_id list) btree_map"
  waiting_packets :: "(object_id, thread_id list) btree_map"
  waiting_inputs :: "(object_id, thread_id list) btree_map"
  waiting_objects :: "(object_id, thread_id list) btree_map"
  next_wake_token :: nat
  context_switches :: nat
  ticks_remaining :: nat
  preemption_pending :: bool
  objects :: object_store
  clock :: "time_state option"
  input_sources :: "input_core option"

record steal_stats_line =
  sl_tick :: nat
  sl_steal_attempts :: nat
  sl_stolen_threads_total :: nat
  sl_stolen_per_cpu :: "nat list"
  sl_rebalance_moves :: nat
  sl_queue_depths :: "nat list"

record scheduler_snapshot =
  ss_current :: "thread_id option"
  ss_tracked_threads :: nat
  ss_runnable_threads :: nat
  ss_blocked_threads :: nat
  ss_timer_waits :: nat
  ss_channel_receive_waits :: nat
  ss_packet_receive_waits :: nat
  ss_input_receive_waits :: nat
  ss_object_waits :: nat
  ss_context_switches :: nat
  ss_preemption_pending :: bool
  ss_stolen_threads_total :: nat
  ss_rebalance_moves_total :: nat

type_synonym 'a sched_result = "((scheduler_error + 'a) \<times> scheduler_state) option"

section \<open>Threads and decisions\<close>

definition thread_ref_id :: "object_store \<Rightarrow> object_id \<Rightarrow> thread_id option" where
  "thread_ref_id objs thread = map_option th_id (thread_at objs thread)"

definition lookup_thread :: "scheduler_state \<Rightarrow> thread_id \<Rightarrow> scheduler_error + object_id" where
  "lookup_thread st t =
     (case bt_get (threads st) t of
        None \<Rightarrow> Inl InvalidThread
      | Some r \<Rightarrow> if thread_at (objects st) r = None then Inl InvalidThread else Inr r)"

definition lookup_thread_record :: "scheduler_state \<Rightarrow> thread_id \<Rightarrow> scheduler_error + object_id" where
  "lookup_thread_record st t =
     (case bt_get (threads st) t of None \<Rightarrow> Inl InvalidThread | Some r \<Rightarrow> Inr r)"

text \<open>\<open>record.object.thread().expect(\<dots>).transition_to(\<dots>)\<close>\<close>

definition transition ::
  "object_id \<Rightarrow> execution_state \<Rightarrow> wait_target option \<Rightarrow> thread_wake_reason option
   \<Rightarrow> scheduler_state \<Rightarrow> scheduler_state option" where
  "transition r es target reason st =
     (case thread_at (objects st) r of
        None \<Rightarrow> None
      | Some th \<Rightarrow>
          Some (st\<lparr>objects := set_body (objects st) r (Thread (transition_to th es target reason))\<rparr>))"

definition is_blocked :: "scheduler_state \<Rightarrow> object_id \<Rightarrow> bool" where
  "is_blocked st r =
     (case thread_at (objects st) r of None \<Rightarrow> False | Some th \<Rightarrow> th_execution_state th = Blocked)"

definition runnable_len :: "scheduler_state \<Rightarrow> nat" where
  "runnable_len st = sum_list (map length (runnable_queues st))"

definition waiters_len :: "(object_id, thread_id list) btree_map \<Rightarrow> nat" where
  "waiters_len m = sum_list (map length (bt_values m))"

definition blocked_thread_count :: "scheduler_state \<Rightarrow> nat" where
  "blocked_thread_count st =
     length (waiting_timers st) + waiters_len (waiting_receivers st) + waiters_len (waiting_packets st)
     + waiters_len (waiting_inputs st) + waiters_len (waiting_objects st)"

definition decision ::
  "scheduler_state \<Rightarrow> schedule_trigger \<Rightarrow> thread_id option \<Rightarrow> thread_id option \<Rightarrow> schedule_decision" where
  "decision st trigger previous nxt =
     \<lparr>sd_trigger = trigger, sd_previous = previous, sd_next = nxt,
      sd_runnable_threads = runnable_len st, sd_blocked_threads = blocked_thread_count st\<rparr>"

fun trigger_to_wake_reason :: "schedule_trigger \<Rightarrow> thread_wake_reason" where
  "trigger_to_wake_reason TriggerBootstrap = WakeBootstrap"
| "trigger_to_wake_reason TriggerYield = WakeYield"
| "trigger_to_wake_reason TriggerBlocked = WakeExplicit"
| "trigger_to_wake_reason TimeWake = TimerExpired"
| "trigger_to_wake_reason IpcWake = ChannelMessage"
| "trigger_to_wake_reason NetworkWake = PacketReady"
| "trigger_to_wake_reason InputWake = InputReady"
| "trigger_to_wake_reason ObjectWake = ObjectReady"
| "trigger_to_wake_reason TriggerExplicit = WakeExplicit"

section \<open>Run queues\<close>

definition push_runnable_on_current_cpu :: "nat \<Rightarrow> thread_id \<Rightarrow> scheduler_state \<Rightarrow> scheduler_state" where
  "push_runnable_on_current_cpu cpu t st =
     st\<lparr>runnable_queues := (runnable_queues st)[cpu := runnable_queues st ! cpu @ [t]],
        queued_idle_ticks := bt_insert t 0 (queued_idle_ticks st)\<rparr>"

definition runnable_contains :: "scheduler_state \<Rightarrow> thread_id \<Rightarrow> bool" where
  "runnable_contains st t = list_ex (\<lambda>q. t \<in> set q) (runnable_queues st)"

definition push_runnable_if_absent :: "nat \<Rightarrow> thread_id \<Rightarrow> scheduler_state \<Rightarrow> scheduler_state" where
  "push_runnable_if_absent cpu t st =
     (if runnable_contains st t then st else push_runnable_on_current_cpu cpu t st)"

fun pop_first :: "'a list list \<Rightarrow> ('a \<times> 'a list list) option" where
  "pop_first [] = None"
| "pop_first ((x # q) # qs) = Some (x, q # qs)"
| "pop_first ([] # qs) = map_option (\<lambda>(x, qs'). (x, [] # qs')) (pop_first qs)"

definition pop_runnable_next :: "nat \<Rightarrow> scheduler_state \<Rightarrow> thread_id option \<times> scheduler_state" where
  "pop_runnable_next cpu st =
     (case runnable_queues st ! cpu of
        t # q \<Rightarrow>
          (Some t, st\<lparr>runnable_queues := (runnable_queues st)[cpu := q],
                      queued_idle_ticks := bt_remove t (queued_idle_ticks st)\<rparr>)
      | [] \<Rightarrow>
          (case pop_first (runnable_queues st) of
             None \<Rightarrow> (None, st)
           | Some (t, qs) \<Rightarrow>
               (Some t, st\<lparr>runnable_queues := qs,
                           queued_idle_ticks := bt_remove t (queued_idle_ticks st),
                           stolen_per_cpu := (stolen_per_cpu st)
                             [cpu := saturating_add u64_max (stolen_per_cpu st ! cpu) 1]\<rparr>)))"

definition runnable_front :: "nat \<Rightarrow> scheduler_state \<Rightarrow> thread_id option" where
  "runnable_front cpu st =
     (case runnable_queues st ! cpu of
        t # _ \<Rightarrow> Some t
      | [] \<Rightarrow> map_option fst (pop_first (runnable_queues st)))"

definition remove_runnable :: "thread_id \<Rightarrow> scheduler_state \<Rightarrow> scheduler_state" where
  "remove_runnable t st =
     st\<lparr>runnable_queues := map (filter (\<lambda>u. u \<noteq> t)) (runnable_queues st),
        queued_idle_ticks := bt_remove t (queued_idle_ticks st)\<rparr>"

section \<open>Wait queues\<close>

definition push_waiter ::
  "object_id \<Rightarrow> thread_id \<Rightarrow> (object_id, thread_id list) btree_map \<Rightarrow> (object_id, thread_id list) btree_map" where
  "push_waiter k t m = bt_insert k ((case bt_get m k of None \<Rightarrow> [] | Some q \<Rightarrow> q) @ [t]) m"

definition drop_waiter ::
  "thread_id \<Rightarrow> (object_id, thread_id list) btree_map \<Rightarrow> (object_id, thread_id list) btree_map" where
  "drop_waiter t m = bt_retain (filter (\<lambda>u. u \<noteq> t)) (\<lambda>_ q. q \<noteq> []) m"

definition remove_from_wait_queues :: "thread_id \<Rightarrow> scheduler_state \<Rightarrow> scheduler_state" where
  "remove_from_wait_queues t st =
     st\<lparr>waiting_timers := bt_retain (\<lambda>w. w) (\<lambda>_ w. w \<noteq> t) (waiting_timers st),
        waiting_receivers := drop_waiter t (waiting_receivers st),
        waiting_packets := drop_waiter t (waiting_packets st),
        waiting_inputs := drop_waiter t (waiting_inputs st),
        waiting_objects := drop_waiter t (waiting_objects st)\<rparr>"

section \<open>Choosing the next thread\<close>

definition schedule_next_locked ::
  "nat \<Rightarrow> schedule_trigger \<Rightarrow> thread_id option \<Rightarrow> scheduler_state
   \<Rightarrow> (scheduler_error + schedule_decision) \<times> scheduler_state" where
  "schedule_next_locked cpu trigger previous st =
     (case pop_runnable_next cpu st of
        (None, st1) \<Rightarrow> (Inr (decision st1 trigger previous None), st1)
      | (Some t, st1) \<Rightarrow>
          (case lookup_thread st1 t of
             Inl e \<Rightarrow> (Inl e, st1)
           | Inr r \<Rightarrow>
               (case transition r Running None (Some (trigger_to_wake_reason trigger)) st1 of
                  None \<Rightarrow> (Inl InvalidThread, st1)
                | Some st2 \<Rightarrow>
                    let st3 = st2\<lparr>current := Some t, ticks_remaining := 1, preemption_pending := False,
                                  context_switches :=
                                    (if previous \<noteq> Some t
                                     then saturating_add u64_max (context_switches st2) 1
                                     else context_switches st2)\<rparr>
                    in (Inr (decision st3 trigger previous (Some t)), st3))))"

text \<open>\<open>schedule_next_locked\<close> when there is no current thread, else the decision to go on.\<close>

definition wake_decision ::
  "nat \<Rightarrow> schedule_trigger \<Rightarrow> thread_id option \<Rightarrow> scheduler_state
   \<Rightarrow> schedule_decision option \<times> scheduler_state" where
  "wake_decision cpu trigger previous st =
     (if previous = None then
        (case schedule_next_locked cpu trigger previous st of
           (Inl _, st1) \<Rightarrow> (None, st1)
         | (Inr d, st1) \<Rightarrow> (Some d, st1))
      else (Some (decision st trigger previous (current st)), st))"

section \<open>Operations\<close>

definition scheduler_new ::
  "object_store \<Rightarrow> time_state option \<Rightarrow> input_core option \<Rightarrow> object_id \<Rightarrow> scheduler_state option" where
  "scheduler_new objs clk ins bootstrap_thread =
     (case thread_at objs bootstrap_thread of
        None \<Rightarrow> None
      | Some th \<Rightarrow>
          transition bootstrap_thread Running None (Some WakeBootstrap)
            \<lparr>current = Some (th_id th), runnable_queues = replicate RUNNABLE_QUEUE_CPUS [],
             queued_idle_ticks = [], stolen_per_cpu = replicate RUNNABLE_QUEUE_CPUS 0,
             steal_attempts = 0, rebalance_moves = 0, tick_counter = 0,
             steal_scan_cursor = replicate RUNNABLE_QUEUE_CPUS 0,
             threads = bt_insert (th_id th) bootstrap_thread [], waiting_timers = [],
             waiting_receivers = [], waiting_packets = [], waiting_inputs = [], waiting_objects = [],
             next_wake_token = 1, context_switches = 0, ticks_remaining = 1,
             preemption_pending = False, objects = objs, clock = clk, input_sources = ins\<rparr>)"

definition scheduler_snapshot_of :: "scheduler_state \<Rightarrow> scheduler_snapshot" where
  "scheduler_snapshot_of st =
     \<lparr>ss_current = current st, ss_tracked_threads = length (threads st),
      ss_runnable_threads = runnable_len st, ss_blocked_threads = blocked_thread_count st,
      ss_timer_waits = length (waiting_timers st),
      ss_channel_receive_waits = waiters_len (waiting_receivers st),
      ss_packet_receive_waits = waiters_len (waiting_packets st),
      ss_input_receive_waits = waiters_len (waiting_inputs st),
      ss_object_waits = waiters_len (waiting_objects st),
      ss_context_switches = context_switches st, ss_preemption_pending = preemption_pending st,
      ss_stolen_threads_total = sum_list (stolen_per_cpu st),
      ss_rebalance_moves_total = rebalance_moves st\<rparr>"

definition register_thread :: "object_id \<Rightarrow> scheduler_state \<Rightarrow> thread_id sched_result" where
  "register_thread thread st =
     do { t \<leftarrow> thread_ref_id (objects st) thread;
          if bt_contains (threads st) t then Some (Inl ThreadAlreadyRegistered, st)
          else do { st1 \<leftarrow> transition thread Suspended None None st;
                    Some (Inr t, st1\<lparr>threads := bt_insert t thread (threads st1)\<rparr>) } }"

definition make_runnable ::
  "nat \<Rightarrow> thread_id \<Rightarrow> thread_wake_reason \<Rightarrow> scheduler_state \<Rightarrow> schedule_decision sched_result" where
  "make_runnable cpu t wake_reason st =
     (let previous = current st
      in case lookup_thread_record st t of
           Inl e \<Rightarrow> Some (Inl e, st)
         | Inr r \<Rightarrow>
             if previous = Some t then
               do { st1 \<leftarrow> transition r Running None (Some wake_reason) st;
                    Some (Inr (decision st1 TriggerExplicit previous previous), st1) }
             else
               do { st1 \<leftarrow> transition r Runnable None (Some wake_reason)
                             (push_runnable_if_absent cpu t (remove_from_wait_queues t st));
                    Some (if previous = None then schedule_next_locked cpu TriggerExplicit previous st1
                          else (Inr (decision st1 TriggerExplicit previous previous), st1)) })"

text \<open>The current thread goes back to the end of its CPU's queue.\<close>

definition requeue_current :: "nat \<Rightarrow> scheduler_state \<Rightarrow> (scheduler_error + unit) \<times> scheduler_state" where
  "requeue_current cpu st =
     (case current st of
        None \<Rightarrow> (Inr (), st)
      | Some t \<Rightarrow>
          (case lookup_thread st t of
             Inl e \<Rightarrow> (Inl e, st)
           | Inr r \<Rightarrow>
               (case transition r Runnable None (Some WakeYield) st of
                  None \<Rightarrow> (Inl InvalidThread, st)
                | Some st1 \<Rightarrow> (Inr (), (push_runnable_on_current_cpu cpu t st1)\<lparr>current := None\<rparr>))))"

definition yield_current ::
  "nat \<Rightarrow> scheduler_state \<Rightarrow> (scheduler_error + schedule_decision) \<times> scheduler_state" where
  "yield_current cpu st =
     (case requeue_current cpu st of
        (Inl e, st1) \<Rightarrow> (Inl e, st1)
      | (Inr _, st1) \<Rightarrow> schedule_next_locked cpu TriggerYield (current st) st1)"

definition preempt_current_if_needed ::
  "nat \<Rightarrow> scheduler_state \<Rightarrow> (scheduler_error + schedule_decision) \<times> scheduler_state" where
  "preempt_current_if_needed cpu st =
     (if \<not> preemption_pending st
      then (Inr (decision st TriggerExplicit (current st) (current st)), st)
      else case requeue_current cpu st of
             (Inl e, st1) \<Rightarrow> (Inl e, st1)
           | (Inr _, st1) \<Rightarrow>
               schedule_next_locked cpu TriggerYield (current st) (st1\<lparr>preemption_pending := False\<rparr>))"

text \<open>
  The common body of the blocking operations: the current thread becomes
  \<open>Blocked\<close> with its wait target, leaves the CPU and is recorded as a waiter.
\<close>

definition block_current ::
  "nat \<Rightarrow> thread_id \<Rightarrow> wait_target \<Rightarrow> (scheduler_state \<Rightarrow> scheduler_state) \<Rightarrow> scheduler_state
   \<Rightarrow> (scheduler_error + schedule_decision) \<times> scheduler_state" where
  "block_current cpu t target enrol st =
     (case lookup_thread st t of
        Inl e \<Rightarrow> (Inl e, st)
      | Inr r \<Rightarrow>
          (case transition r Blocked (Some target) None st of
             None \<Rightarrow> (Inl InvalidThread, st)
           | Some st1 \<Rightarrow>
               schedule_next_locked cpu TriggerBlocked (Some t) (enrol (st1\<lparr>current := None\<rparr>))))"

definition block_current_on_receive ::
  "nat \<Rightarrow> object_id \<Rightarrow> scheduler_state \<Rightarrow> (scheduler_error + schedule_decision) \<times> scheduler_state" where
  "block_current_on_receive cpu endpoint st =
     (case current st of
        None \<Rightarrow> (Inr (decision st TriggerBlocked None None), st)
      | Some t \<Rightarrow>
          block_current cpu t (ChannelReceive endpoint)
            (\<lambda>s. s\<lparr>waiting_receivers := push_waiter endpoint t (waiting_receivers s)\<rparr>) st)"

text \<open>Allocating a wake token and arming it with the time manager.\<close>

definition arm_token ::
  "time_state \<Rightarrow> monotonic_instant \<Rightarrow> scheduler_state \<Rightarrow> (scheduler_error + wake_token) \<times> scheduler_state" where
  "arm_token manager deadline st =
     (let token = next_wake_token st
      in case checked_add u64_max token 1 of
           None \<Rightarrow> (Inl WakeTokenExhausted, st)
         | Some n \<Rightarrow>
             (case arm_wakeup manager token (one_shot deadline) of
                (Inl e, m) \<Rightarrow> (Inl (TimerFailure e), st\<lparr>next_wake_token := n, clock := Some m\<rparr>)
              | (Inr _, m) \<Rightarrow> (Inr token, st\<lparr>next_wake_token := n, clock := Some m\<rparr>)))"

definition block_current_on_receive_until ::
  "nat \<Rightarrow> object_id \<Rightarrow> nat \<Rightarrow> scheduler_state \<Rightarrow> (scheduler_error + schedule_decision) \<times> scheduler_state" where
  "block_current_on_receive_until cpu endpoint deadline_ticks st =
     (if deadline_ticks = 0 then block_current_on_receive cpu endpoint st
      else case current st of
        None \<Rightarrow> (Inr (decision st TriggerBlocked None None), st)
      | Some t \<Rightarrow>
          (case clock st of
             None \<Rightarrow> (Inl TimeUnavailable, st)
           | Some manager \<Rightarrow>
               (case arm_token manager (saturating_add u64_max (ts_now manager) deadline_ticks) st of
                  (Inl e, st1) \<Rightarrow> (Inl e, st1)
                | (Inr token, st1) \<Rightarrow>
                    block_current cpu t (ChannelReceive endpoint)
                      (\<lambda>s. s\<lparr>waiting_timers := bt_insert token t (waiting_timers s),
                             waiting_receivers := push_waiter endpoint t (waiting_receivers s)\<rparr>) st1)))"

definition block_current_on_packet_receive ::
  "nat \<Rightarrow> object_id \<Rightarrow> scheduler_state \<Rightarrow> (scheduler_error + schedule_decision) \<times> scheduler_state" where
  "block_current_on_packet_receive cpu interface st =
     (case current st of
        None \<Rightarrow> (Inr (decision st TriggerBlocked None None), st)
      | Some t \<Rightarrow>
          block_current cpu t (PacketReceive interface)
            (\<lambda>s. s\<lparr>waiting_packets := push_waiter interface t (waiting_packets s)\<rparr>) st)"

text \<open>
  The latch of the source is consumed before the state lock is taken; the rest
  runs under the lock.
\<close>

definition take_raced_wakeup :: "object_id \<Rightarrow> scheduler_state \<Rightarrow> bool \<times> scheduler_state" where
  "take_raced_wakeup source st =
     (case input_sources st of
        None \<Rightarrow> (False, st)
      | Some core \<Rightarrow>
          (case swap_wakeup_latch core source of
             (raced, core1) \<Rightarrow> (raced, st\<lparr>input_sources := Some core1\<rparr>)))"

definition block_on_input_locked ::
  "nat \<Rightarrow> object_id \<Rightarrow> bool \<Rightarrow> scheduler_state \<Rightarrow> (scheduler_error + schedule_decision) \<times> scheduler_state" where
  "block_on_input_locked cpu source raced_wakeup st =
     (case current st of
        None \<Rightarrow> (Inr (decision st TriggerBlocked None None), st)
      | Some t \<Rightarrow>
          if raced_wakeup then
            (case lookup_thread st t of
               Inl e \<Rightarrow> (Inl e, st)
             | Inr r \<Rightarrow>
                 (case transition r Runnable None (Some InputReady) st of
                    None \<Rightarrow> (Inl InvalidThread, st)
                  | Some st1 \<Rightarrow>
                      schedule_next_locked cpu InputWake (Some t) (push_runnable_if_absent cpu t st1)))
          else
            block_current cpu t (InputReceive source)
              (\<lambda>s. s\<lparr>waiting_inputs := push_waiter source t (waiting_inputs s)\<rparr>) st)"

definition block_current_on_input_receive ::
  "nat \<Rightarrow> object_id \<Rightarrow> scheduler_state \<Rightarrow> (scheduler_error + schedule_decision) \<times> scheduler_state" where
  "block_current_on_input_receive cpu source st =
     (case take_raced_wakeup source st of (raced, st1) \<Rightarrow> block_on_input_locked cpu source raced st1)"

definition block_current_on_object ::
  "nat \<Rightarrow> object_id \<Rightarrow> scheduler_state \<Rightarrow> (scheduler_error + schedule_decision) \<times> scheduler_state" where
  "block_current_on_object cpu object st =
     (case current st of
        None \<Rightarrow> (Inr (decision st TriggerBlocked None None), st)
      | Some t \<Rightarrow>
          block_current cpu t (ObjectWait object)
            (\<lambda>s. s\<lparr>waiting_objects := push_waiter object t (waiting_objects s)\<rparr>) st)"

definition block_current_until ::
  "nat \<Rightarrow> monotonic_instant \<Rightarrow> scheduler_state
   \<Rightarrow> (scheduler_error + wake_token \<times> schedule_decision) \<times> scheduler_state" where
  "block_current_until cpu deadline st =
     (case clock st of
        None \<Rightarrow> (Inl TimeUnavailable, st)
      | Some manager \<Rightarrow>
          (case current st of
             None \<Rightarrow> (Inr (0, decision st TriggerBlocked None None), st)
           | Some t \<Rightarrow>
               (case arm_token manager deadline st of
                  (Inl e, st1) \<Rightarrow> (Inl e, st1)
                | (Inr token, st1) \<Rightarrow>
                    (case block_current cpu t (TimerWait token deadline)
                            (\<lambda>s. s\<lparr>waiting_timers := bt_insert token t (waiting_timers s)\<rparr>) st1 of
                       (Inl e, st2) \<Rightarrow> (Inl e, st2)
                     | (Inr d, st2) \<Rightarrow> (Inr (token, d), st2)))))"

definition terminate_current ::
  "nat \<Rightarrow> scheduler_state \<Rightarrow> (scheduler_error + schedule_decision) \<times> scheduler_state" where
  "terminate_current cpu st =
     (case current st of
        None \<Rightarrow> (Inr (decision st TriggerExplicit None None), st)
      | Some t \<Rightarrow>
          (case lookup_thread st t of
             Inl e \<Rightarrow> (Inl e, st)
           | Inr r \<Rightarrow>
               (case transition r Dying None (Some WakeExplicit) st of
                  None \<Rightarrow> (Inl InvalidThread, st)
                | Some st1 \<Rightarrow>
                    let st2 = remove_runnable t (remove_from_wait_queues t st1)
                    in schedule_next_locked cpu TriggerExplicit (Some t)
                         (st2\<lparr>current := None, threads := bt_remove t (threads st2)\<rparr>))))"

text \<open>Queue a woken thread and mark it runnable.\<close>

definition wake_thread ::
  "nat \<Rightarrow> thread_id \<Rightarrow> object_id \<Rightarrow> thread_wake_reason \<Rightarrow> scheduler_state \<Rightarrow> scheduler_state option" where
  "wake_thread cpu t r reason st =
     transition r Runnable None (Some reason) (push_runnable_if_absent cpu t st)"

definition handle_time_wakeup ::
  "nat \<Rightarrow> wake_event \<Rightarrow> scheduler_state \<Rightarrow> (schedule_decision option \<times> scheduler_state) option" where
  "handle_time_wakeup cpu event st =
     (case bt_get (waiting_timers st) (we_token event) of
        None \<Rightarrow> Some (None, st)
      | Some t \<Rightarrow>
          let st1 = st\<lparr>waiting_timers := bt_remove (we_token event) (waiting_timers st)\<rparr>
          in case lookup_thread_record st1 t of
               Inl _ \<Rightarrow> Some (None, st1)
             | Inr r \<Rightarrow>
                 if \<not> is_blocked st1 r then Some (None, st1)
                 else do { st2 \<leftarrow> wake_thread cpu t r TimerExpired st1;
                           Some (wake_decision cpu TimeWake (current st) st2) })"

fun wake_waiters :: "nat \<Rightarrow> thread_id list \<Rightarrow> scheduler_state \<Rightarrow> (bool \<times> scheduler_state) option" where
  "wake_waiters cpu [] st = Some (True, st)"
| "wake_waiters cpu (t # ts) st =
     (case lookup_thread_record st t of
        Inl _ \<Rightarrow> Some (False, st)
      | Inr r \<Rightarrow> do { st1 \<leftarrow> wake_thread cpu t r ObjectReady st; wake_waiters cpu ts st1 })"

text \<open>\<open>(None, _)\<close>: a waiter is not registered; \<open>(Some woke, _)\<close> otherwise.\<close>

definition wake_object_waiters_locked ::
  "nat \<Rightarrow> object_id \<Rightarrow> scheduler_state \<Rightarrow> (bool option \<times> scheduler_state) option" where
  "wake_object_waiters_locked cpu object st =
     (case bt_get (waiting_objects st) object of
        None \<Rightarrow> Some (Some False, st)
      | Some waiters \<Rightarrow>
          do { (complete, st1) \<leftarrow>
                 wake_waiters cpu waiters (st\<lparr>waiting_objects := bt_remove object (waiting_objects st)\<rparr>);
               Some (if complete then Some True else None, st1) })"

text \<open>The end of the notifications: wake the object waiters, then decide.\<close>

definition finish_notify ::
  "nat \<Rightarrow> object_id \<Rightarrow> bool \<Rightarrow> schedule_trigger \<Rightarrow> thread_id option \<Rightarrow> scheduler_state
   \<Rightarrow> (schedule_decision option \<times> scheduler_state) option" where
  "finish_notify cpu object woke trigger previous st =
     do { (woke_object, st1) \<leftarrow> wake_object_waiters_locked cpu object st;
          Some (case woke_object of
                  None \<Rightarrow> (None, st1)
                | Some w \<Rightarrow> if \<not> woke \<and> \<not> w then (None, st1) else wake_decision cpu trigger previous st1) }"

fun wake_first_receiver ::
  "nat \<Rightarrow> thread_id list \<Rightarrow> scheduler_state \<Rightarrow> (bool \<times> thread_id list \<times> scheduler_state) option" where
  "wake_first_receiver cpu [] st = Some (False, [], st)"
| "wake_first_receiver cpu (t # q) st =
     (case lookup_thread_record st t of
        Inl _ \<Rightarrow> wake_first_receiver cpu q st
      | Inr r \<Rightarrow>
          if \<not> is_blocked st r then wake_first_receiver cpu q st
          else do { st1 \<leftarrow> wake_thread cpu t r ChannelMessage st; Some (True, q, st1) })"

definition notify_channel_ready ::
  "nat \<Rightarrow> object_id \<Rightarrow> scheduler_state \<Rightarrow> (schedule_decision option \<times> scheduler_state) option" where
  "notify_channel_ready cpu endpoint st =
     do { (woke_receiver, q, st1) \<leftarrow>
            wake_first_receiver cpu
              (case bt_get (waiting_receivers st) endpoint of None \<Rightarrow> [] | Some q \<Rightarrow> q)
              (st\<lparr>waiting_receivers := bt_remove endpoint (waiting_receivers st)\<rparr>);
          finish_notify cpu endpoint woke_receiver IpcWake (current st)
            (if q = [] then st1
             else st1\<lparr>waiting_receivers := bt_insert endpoint q (waiting_receivers st1)\<rparr>) }"

text \<open>
  \<open>notify_packet_ready\<close> and \<open>notify_input_ready\<close>: the first waiter leaves its
  queue in place; an emptied queue is removed after the thread was woken. An
  unregistered waiter ends the operation at once.
\<close>

definition notify_packet_ready ::
  "nat \<Rightarrow> object_id \<Rightarrow> scheduler_state \<Rightarrow> (schedule_decision option \<times> scheduler_state) option" where
  "notify_packet_ready cpu interface st =
     (case bt_get (waiting_packets st) interface of
        Some (t # q) \<Rightarrow>
          let st1 = st\<lparr>waiting_packets := bt_insert interface q (waiting_packets st)\<rparr>
          in (case lookup_thread_record st1 t of
                Inl _ \<Rightarrow> Some (None, st1)
              | Inr r \<Rightarrow>
                  do { st2 \<leftarrow> wake_thread cpu t r PacketReady st1;
                       finish_notify cpu interface True NetworkWake (current st)
                         (if q = [] then st2\<lparr>waiting_packets := bt_remove interface (waiting_packets st2)\<rparr>
                          else st2) })
      | _ \<Rightarrow> finish_notify cpu interface False NetworkWake (current st) st)"

definition notify_input_ready ::
  "nat \<Rightarrow> object_id \<Rightarrow> scheduler_state \<Rightarrow> (schedule_decision option \<times> scheduler_state) option" where
  "notify_input_ready cpu source st =
     (case bt_get (waiting_inputs st) source of
        Some (t # q) \<Rightarrow>
          let st1 = st\<lparr>waiting_inputs := bt_insert source q (waiting_inputs st)\<rparr>
          in (case lookup_thread_record st1 t of
                Inl _ \<Rightarrow> Some (None, st1)
              | Inr r \<Rightarrow>
                  do { st2 \<leftarrow> wake_thread cpu t r InputReady st1;
                       finish_notify cpu source True InputWake (current st)
                         (if q = [] then st2\<lparr>waiting_inputs := bt_remove source (waiting_inputs st2)\<rparr>
                          else st2) })
      | _ \<Rightarrow> finish_notify cpu source False InputWake (current st) st)"

definition notify_object_ready ::
  "nat \<Rightarrow> object_id \<Rightarrow> scheduler_state \<Rightarrow> (schedule_decision option \<times> scheduler_state) option" where
  "notify_object_ready cpu object st =
     (case bt_get (waiting_objects st) object of
        None \<Rightarrow> Some (None, st)
      | Some waiters \<Rightarrow>
          do { (complete, st1) \<leftarrow>
                 wake_waiters cpu waiters (st\<lparr>waiting_objects := bt_remove object (waiting_objects st)\<rparr>);
               Some (if complete then wake_decision cpu ObjectWake (current st) st1 else (None, st1)) })"

section \<open>Stealing and balancing\<close>

definition thread_stealable :: "thread_id \<Rightarrow> bool" where
  "thread_stealable t = True"

definition idle_of :: "(thread_id, nat) btree_map \<Rightarrow> thread_id \<Rightarrow> nat" where
  "idle_of idle t = (case bt_get idle t of None \<Rightarrow> 0 | Some n \<Rightarrow> n)"

text \<open>The inner loop: candidates of one victim queue, while fewer than the batch are chosen.\<close>

fun steal_scan_queue ::
  "(thread_id, nat) btree_map \<Rightarrow> nat \<Rightarrow> thread_id list \<Rightarrow> (nat \<times> thread_id) list \<Rightarrow> (nat \<times> thread_id) list" where
  "steal_scan_queue idle victim [] cands = cands"
| "steal_scan_queue idle victim (t # ts) cands =
     (if length cands \<ge> STEAL_BATCH_MAX then cands
      else steal_scan_queue idle victim ts
             (if idle_of idle t \<ge> STEAL_MIN_IDLE_TICKS \<and> thread_stealable t
              then cands @ [(victim, t)] else cands))"

text \<open>The outer loop over the offsets.\<close>

fun steal_scan ::
  "scheduler_state \<Rightarrow> nat \<Rightarrow> nat \<Rightarrow> nat list \<Rightarrow> (nat \<times> thread_id) list \<Rightarrow> (nat \<times> thread_id) list" where
  "steal_scan st cpu start [] cands = cands"
| "steal_scan st cpu start (offset # offsets) cands =
     (if length cands \<ge> STEAL_BATCH_MAX then cands
      else let victim = (start + offset) mod RUNNABLE_QUEUE_CPUS
           in if victim = cpu then steal_scan st cpu start offsets cands
              else steal_scan st cpu start offsets
                     (steal_scan_queue (queued_idle_ticks st) victim (runnable_queues st ! victim) cands))"

text \<open>Move one queued thread from a queue to the end of another, with a fresh idle clock.\<close>

definition move_queued :: "nat \<Rightarrow> nat \<Rightarrow> thread_id \<Rightarrow> scheduler_state \<Rightarrow> scheduler_state" where
  "move_queued source target t st =
     (let qs = (runnable_queues st)[source := remove1 t (runnable_queues st ! source)]
      in st\<lparr>runnable_queues := qs[target := qs ! target @ [t]],
            queued_idle_ticks := bt_insert t 0 (queued_idle_ticks st)\<rparr>)"

fun take_stolen ::
  "nat \<Rightarrow> (nat \<times> thread_id) list \<Rightarrow> nat \<Rightarrow> scheduler_state \<Rightarrow> nat \<times> scheduler_state" where
  "take_stolen cpu [] stolen st = (stolen, st)"
| "take_stolen cpu ((source, t) # cands) stolen st =
     (if t \<in> set (runnable_queues st ! source) then
        let st1 = move_queued source cpu t st
        in take_stolen cpu cands (stolen + 1)
             (st1\<lparr>stolen_per_cpu := (stolen_per_cpu st1)
                    [cpu := saturating_add u64_max (stolen_per_cpu st1 ! cpu) 1]\<rparr>)
      else take_stolen cpu cands stolen st)"

definition steal_idle_runnables_locked :: "nat \<Rightarrow> scheduler_state \<Rightarrow> nat \<times> scheduler_state" where
  "steal_idle_runnables_locked cpu st =
     (let st1 = st\<lparr>steal_attempts := saturating_add u64_max (steal_attempts st) 1\<rparr>;
          start = steal_scan_cursor st1 ! cpu;
          cands = steal_scan st1 cpu start [1..<RUNNABLE_QUEUE_CPUS + 1] [];
          st2 = st1\<lparr>steal_scan_cursor := (steal_scan_cursor st1)
                      [cpu := (start + 1) mod RUNNABLE_QUEUE_CPUS]\<rparr>
      in take_stolen cpu cands 0 st2)"

definition steal_idle_runnables :: "nat \<Rightarrow> scheduler_state \<Rightarrow> nat \<times> scheduler_state" where
  "steal_idle_runnables cpu st = steal_idle_runnables_locked cpu st"

text \<open>One step of the loop that looks for the busiest and the emptiest slot.\<close>

definition plan_step :: "nat list \<Rightarrow> nat \<times> nat \<Rightarrow> nat \<Rightarrow> nat \<times> nat" where
  "plan_step depths be slot =
     (if depths ! slot > depths ! fst be then slot else fst be,
      if depths ! slot < depths ! snd be then slot else snd be)"

definition rebalance_plan :: "nat list \<Rightarrow> (nat \<times> nat \<times> nat) option" where
  "rebalance_plan depths =
     (let total_depth = sum_list depths
      in if total_depth < 2 then None
         else let average = total_depth div RUNNABLE_QUEUE_CPUS;
                  limit = BALANCE_OVERCOMMIT_RATIO * max average 1;
                  (busiest, emptiest) = foldl (plan_step depths) (0, 0) [0..<RUNNABLE_QUEUE_CPUS]
              in if busiest = emptiest \<or> depths ! busiest \<le> limit then None
                 else Some (busiest, emptiest, min (depths ! busiest - limit) (depths ! busiest)))"

text \<open>\<open>sort_by\<close> with the comparison of the ranking: a stable insertion sort.\<close>

definition ranks_before :: "nat \<times> nat \<times> thread_id \<Rightarrow> nat \<times> nat \<times> thread_id \<Rightarrow> bool" where
  "ranks_before a b \<longleftrightarrow> fst a > fst b \<or> fst a = fst b \<and> fst (snd a) \<ge> fst (snd b)"

fun insert_ranked ::
  "nat \<times> nat \<times> thread_id \<Rightarrow> (nat \<times> nat \<times> thread_id) list \<Rightarrow> (nat \<times> nat \<times> thread_id) list" where
  "insert_ranked a [] = [a]"
| "insert_ranked a (b # bs) = (if ranks_before a b then a # b # bs else b # insert_ranked a bs)"

definition select_rebalance_candidates ::
  "thread_id list \<Rightarrow> (thread_id, nat) btree_map \<Rightarrow> nat \<Rightarrow> thread_id list" where
  "select_rebalance_candidates queue idle_ticks n =
     (let ranked = map (\<lambda>(position, t). (idle_of idle_ticks t, usize_max - position, t))
                     (zip [0..<length queue] queue)
      in map (snd \<circ> snd) (take n (foldr insert_ranked ranked [])))"

fun take_moved ::
  "nat \<Rightarrow> nat \<Rightarrow> thread_id list \<Rightarrow> nat \<Rightarrow> scheduler_state \<Rightarrow> nat \<times> scheduler_state" where
  "take_moved busiest emptiest [] moved st = (moved, st)"
| "take_moved busiest emptiest (t # cands) moved st =
     (if t \<in> set (runnable_queues st ! busiest) then
        let st1 = move_queued busiest emptiest t st
        in take_moved busiest emptiest cands (moved + 1)
             (st1\<lparr>rebalance_moves := saturating_add u64_max (rebalance_moves st1) 1\<rparr>)
      else take_moved busiest emptiest cands moved st)"

definition push_balance_locked :: "scheduler_state \<Rightarrow> nat \<times> scheduler_state" where
  "push_balance_locked st =
     (case rebalance_plan (map length (runnable_queues st)) of
        None \<Rightarrow> (0, st)
      | Some (busiest, emptiest, moves) \<Rightarrow>
          take_moved busiest emptiest
            (select_rebalance_candidates (runnable_queues st ! busiest) (queued_idle_ticks st) moves) 0 st)"

definition build_stats_line :: "scheduler_state \<Rightarrow> steal_stats_line" where
  "build_stats_line st =
     \<lparr>sl_tick = tick_counter st, sl_steal_attempts = steal_attempts st,
      sl_stolen_threads_total = sum_list (stolen_per_cpu st), sl_stolen_per_cpu = stolen_per_cpu st,
      sl_rebalance_moves = rebalance_moves st, sl_queue_depths = map length (runnable_queues st)\<rparr>"

section \<open>The tick\<close>

text \<open>The result is the statistics line given to the emitter, if one is due.\<close>

definition sched_handle_tick ::
  "nat \<Rightarrow> nat \<Rightarrow> bool \<Rightarrow> scheduler_state \<Rightarrow> steal_stats_line option \<times> scheduler_state" where
  "sched_handle_tick balancing_cpus cpu emitter st =
     (if current st = None then (None, st)
      else
        let st1 = st\<lparr>ticks_remaining := ticks_remaining st - 1\<rparr>;
            st2 = (if ticks_remaining st1 = 0 \<and> runnable_len st1 > 0
                   then st1\<lparr>preemption_pending := True\<rparr> else st1);
            tick = wrapping_add u32_max (tick_counter st2) 1;
            st3 = st2\<lparr>tick_counter := tick,
                      queued_idle_ticks :=
                        bt_map_values (\<lambda>idle. saturating_add u32_max idle 1) (queued_idle_ticks st2)\<rparr>
        in if balancing_cpus > 1 then
             let st4 = (if tick mod BALANCE_PERIOD_TICKS = 0
                        then snd (push_balance_locked (snd (steal_idle_runnables_locked cpu st3)))
                        else st3)
             in (if tick mod STEAL_STATS_PERIOD_TICKS = 0 \<and> emitter
                 then Some (build_stats_line st4) else None, st4)
           else (None, st3))"

definition consume_preemption :: "scheduler_state \<Rightarrow> bool \<times> scheduler_state" where
  "consume_preemption st =
     (if preemption_pending st then (True, st\<lparr>preemption_pending := False\<rparr>) else (False, st))"

definition tracked_thread_owners :: "scheduler_state \<Rightarrow> task_id list" where
  "tracked_thread_owners st =
     remdups_adj (sort (List.map_filter (\<lambda>r. map_option th_owner (thread_at (objects st) r))
                          (bt_values (threads st))))"

definition kernel_context_switch_info ::
  "nat \<Rightarrow> scheduler_state \<Rightarrow> (thread_id \<times> kernel_context option \<times> kernel_context option) option" where
  "kernel_context_switch_info cpu st =
     do { previous \<leftarrow> current st;
          nxt \<leftarrow> runnable_front cpu st;
          if previous = nxt then None
          else let context = (\<lambda>t. do { r \<leftarrow> bt_get (threads st) t;
                                       th \<leftarrow> thread_at (objects st) r;
                                       th_kernel_context th })
               in Some (previous, context previous, context nxt) }"

end
