(* ===== verification/Ipc_Kernel.thy ===== *)
theory Ipc_Kernel
  imports Scheduler
begin

text \<open>
  Message passing (\<open>kernel/core/src/ipc/kernel.rs\<close>): sending to the peer of an endpoint with the
  rollback of moved handles, receiving with the installation of the transferred capabilities, and
  the wakeup of a blocked receiver through the scheduler.
\<close>

section \<open>Sending\<close>

definition is_moved :: "prepared_transfer \<Rightarrow> bool" where
  "is_moved t = (moved_source t \<noteq> None)"

definition keep_moved :: "prepared_transfer option \<Rightarrow> prepared_transfer option" where
  "keep_moved slot = (case slot of None \<Rightarrow> None | Some t \<Rightarrow> if is_moved t then Some t else None)"

definition moved_transfers :: "outgoing_message \<Rightarrow> prepared_transfer option list" where
  "moved_transfers message =
     (let slots = replicate (MAX_MESSAGE_CAPABILITIES + 1) None;
          filled = map keep_moved (take (om_capability_count message) (om_capabilities message))
      in (take (length slots) filled @ drop (length filled) slots)
           [MAX_MESSAGE_CAPABILITIES := keep_moved (om_reply_endpoint message)])"

fun flatten_options :: "'a option list \<Rightarrow> 'a list" where
  "flatten_options [] = []"
| "flatten_options (None # xs) = flatten_options xs"
| "flatten_options (Some x # xs) = x # flatten_options xs"

definition rollback_all :: "prepared_transfer list \<Rightarrow> capability_space \<Rightarrow> capability_space" where
  "rollback_all ts s = fold (\<lambda>t s. snd (rollback_moved s t)) ts s"

definition envelope_of :: "outgoing_message \<Rightarrow> message_envelope" where
  "envelope_of message =
     \<lparr>me_tag = om_tag message, me_word_count = om_word_count message, me_words = om_words message,
      me_capability_count = om_capability_count message, me_capabilities = om_capabilities message,
      me_reply_endpoint = om_reply_endpoint message,
      me_shared_memory_hint = om_shared_memory_hint message\<rparr>"

text \<open>\<open>crate::task::notify_channel_ready\<close>: nothing happens before the task system is up.\<close>

definition task_notify_channel_ready ::
  "bool \<Rightarrow> nat \<Rightarrow> object_id \<Rightarrow> scheduler_state \<Rightarrow> (schedule_decision option \<times> scheduler_state) option" where
  "task_notify_channel_ready system_up cpu endpoint st =
     (if system_up then notify_channel_ready cpu endpoint st else Some (None, st))"

definition set_queue :: "message_envelope message_queue \<Rightarrow> object_id \<Rightarrow> scheduler_state \<Rightarrow> scheduler_state" where
  "set_queue q i st =
     (case channel_at (objects st) i of
        None \<Rightarrow> st
      | Some c \<Rightarrow> st\<lparr>objects := set_body (objects st) i (ChannelEndpoint (c\<lparr>ep_queue := q\<rparr>))\<rparr>)"

definition upgrade :: "scheduler_state \<Rightarrow> object_id option \<Rightarrow> object_id option" where
  "upgrade st weak =
     (case weak of None \<Rightarrow> None | Some i \<Rightarrow> if objects st i \<noteq> None then Some i else None)"

definition enqueue ::
  "bool \<Rightarrow> nat \<Rightarrow> capability_space \<Rightarrow> capability_handle \<Rightarrow> outgoing_message \<Rightarrow> scheduler_state
   \<Rightarrow> ((ipc_error + message_receipt) \<times> scheduler_state) option" where
  "enqueue system_up cpu sender_space endpoint_handle message st =
     (case resolve sender_space endpoint_handle SEND of
        Inl e \<Rightarrow> Some (Inl (CapabilityFailure e), st)
      | Inr endpoint \<Rightarrow>
        (case channel_at (objects st) (cv_object endpoint) of
           None \<Rightarrow> Some (Inl ObjectKindMismatch, st)
         | Some channel \<Rightarrow>
           (case upgrade st (ep_peer channel) of
              None \<Rightarrow> Some (Inl EndpointClosed, st)
            | Some peer \<Rightarrow>
              (case channel_at (objects st) peer of
                 None \<Rightarrow> Some (Inl ObjectKindMismatch, st)
               | Some peer_channel \<Rightarrow>
                   if (case om_reply_endpoint message of
                         None \<Rightarrow> False
                       | Some reply \<Rightarrow> channel_at (objects st) (pt_object reply) = None)
                   then Some (Inl InvalidReplyEndpoint, st)
                   else if mq_len (ep_queue peer_channel) \<ge> MAX_QUEUED_MESSAGES_PER_ENDPOINT
                   then Some (Inl (QueueFull (mq_len (ep_queue peer_channel))
                                     MAX_QUEUED_MESSAGES_PER_ENDPOINT), st)
                   else
                     (case push_back (ep_queue peer_channel) (envelope_of message) of
                        (Inl _, q) \<Rightarrow>
                          Some (Inl (QueueFull MAX_QUEUED_MESSAGES_PER_ENDPOINT
                                       MAX_QUEUED_MESSAGES_PER_ENDPOINT), set_queue q peer st)
                      | (Inr _, q) \<Rightarrow>
                          map_option (\<lambda>(_, st').
                              (Inr \<lparr>mr_peer = peer, mr_descriptor = message_descriptor message\<rparr>, st'))
                            (task_notify_channel_ready system_up cpu peer (set_queue q peer st)))))))"

definition send ::
  "bool \<Rightarrow> nat \<Rightarrow> capability_space \<Rightarrow> capability_handle \<Rightarrow> outgoing_message \<Rightarrow> scheduler_state
   \<Rightarrow> ((ipc_error + message_receipt) \<times> capability_space \<times> scheduler_state) option" where
  "send system_up cpu sender_space endpoint_handle message st =
     (let moved = moved_transfers message
      in case enqueue system_up cpu sender_space endpoint_handle message st of
           None \<Rightarrow> None
         | Some (Inr receipt, st') \<Rightarrow> Some (Inr receipt, sender_space, st')
         | Some (Inl e, st') \<Rightarrow> Some (Inl e, rollback_all (flatten_options moved) sender_space, st'))"

section \<open>Receiving\<close>

fun accept_all ::
  "prepared_transfer list \<Rightarrow> capability_handle list \<Rightarrow> nat \<Rightarrow> capability_space
   \<Rightarrow> capability_error option \<times> capability_handle list \<times> nat \<times> capability_space" where
  "accept_all [] handles n s = (None, handles, n, s)"
| "accept_all (t # ts) handles n s =
     (case accept_transfer s t of
        (Inl e, s') \<Rightarrow> (Some e, handles, n, s')
      | (Inr handle, s') \<Rightarrow> accept_all ts (handles[n := handle]) (n + 1) s')"

definition close_all :: "capability_handle list \<Rightarrow> capability_space \<Rightarrow> capability_space" where
  "close_all handles s = fold (\<lambda>h s. snd (close_handle s h)) handles s"

definition install_transferred_capabilities ::
  "capability_space \<Rightarrow> message_envelope
   \<Rightarrow> (ipc_error + (capability_handle list \<times> nat \<times> capability_handle option)) \<times> capability_space" where
  "install_transferred_capabilities receiver_space message =
     (case accept_all (flatten_options (take (me_capability_count message) (me_capabilities message)))
             (replicate MAX_MESSAGE_CAPABILITIES 0) 0 receiver_space of
        (Some e, handles, n, s) \<Rightarrow> (Inl (CapabilityFailure e), close_all (take n handles) s)
      | (None, handles, n, s) \<Rightarrow>
          (case me_reply_endpoint message of
             None \<Rightarrow> (Inr (handles, n, None), s)
           | Some transfer \<Rightarrow>
               (case accept_transfer s transfer of
                  (Inr handle, s') \<Rightarrow> (Inr (handles, n, Some handle), s')
                | (Inl e, s') \<Rightarrow> (Inl (CapabilityFailure e), close_all (take n handles) s'))))"

text \<open>\<open>receive\<close> takes the lock of the endpoint twice: \<open>receive_take\<close> pops the message,
  \<open>receive_finish\<close> installs the capabilities and puts the message back when that fails.\<close>

definition receive_take ::
  "capability_space \<Rightarrow> capability_handle \<Rightarrow> scheduler_state
   \<Rightarrow> (ipc_error + (object_id \<times> message_envelope)) \<times> scheduler_state" where
  "receive_take receiver_space endpoint_handle st =
     (case resolve receiver_space endpoint_handle RECEIVE of
        Inl e \<Rightarrow> (Inl (CapabilityFailure e), st)
      | Inr endpoint \<Rightarrow>
        (case channel_at (objects st) (cv_object endpoint) of
           None \<Rightarrow> (Inl ObjectKindMismatch, st)
         | Some channel \<Rightarrow>
           (case pop_front (ep_queue channel) of
              (None, q) \<Rightarrow> (Inl QueueEmpty, set_queue q (cv_object endpoint) st)
            | (Some message, q) \<Rightarrow>
                (Inr (cv_object endpoint, message), set_queue q (cv_object endpoint) st))))"

definition receive_finish ::
  "capability_space \<Rightarrow> object_id \<Rightarrow> message_envelope \<Rightarrow> scheduler_state
   \<Rightarrow> (ipc_error + received_message) \<times> capability_space \<times> scheduler_state" where
  "receive_finish receiver_space endpoint message st =
     (case install_transferred_capabilities receiver_space message of
        (Inr (handles, n, reply), s) \<Rightarrow>
          (Inr \<lparr>rm_tag = me_tag message, rm_word_count = me_word_count message,
                rm_words = me_words message, rm_transferred_capability_count = n,
                rm_transferred_capabilities = handles, rm_reply_endpoint = reply,
                rm_shared_memory_hint = me_shared_memory_hint message\<rparr>, s, st)
      | (Inl e, s) \<Rightarrow>
          (Inl e, s,
           (case channel_at (objects st) endpoint of
              None \<Rightarrow> st
            | Some channel \<Rightarrow> set_queue (snd (push_front (ep_queue channel) message)) endpoint st)))"

definition receive ::
  "capability_space \<Rightarrow> capability_handle \<Rightarrow> scheduler_state
   \<Rightarrow> (ipc_error + received_message) \<times> capability_space \<times> scheduler_state" where
  "receive receiver_space endpoint_handle st =
     (case receive_take receiver_space endpoint_handle st of
        (Inl e, st1) \<Rightarrow> (Inl e, receiver_space, st1)
      | (Inr (endpoint, message), st1) \<Rightarrow> receive_finish receiver_space endpoint message st1)"

definition endpoint_object_id ::
  "capability_space \<Rightarrow> capability_handle \<Rightarrow> capability_rights \<Rightarrow> scheduler_state
   \<Rightarrow> ipc_error + object_id" where
  "endpoint_object_id s endpoint_handle required st =
     (case resolve s endpoint_handle required of
        Inl e \<Rightarrow> Inl (CapabilityFailure e)
      | Inr endpoint \<Rightarrow>
          if channel_at (objects st) (cv_object endpoint) = None then Inl ObjectKindMismatch
          else Inr (cv_object endpoint))"

section \<open>Reading the queue of an endpoint\<close>

definition queued_at :: "scheduler_state \<Rightarrow> object_id \<Rightarrow> message_envelope list" where
  "queued_at st i = (case channel_at (objects st) i of None \<Rightarrow> [] | Some c \<Rightarrow> mq_contents (ep_queue c))"

definition queues_ok :: "scheduler_state \<Rightarrow> bool" where
  "queues_ok st \<longleftrightarrow> (\<forall>i c. channel_at (objects st) i = Some c \<longrightarrow> mq_inv (ep_queue c))"

end
