(* ===== verification/Scheduler_Inv.thy ===== *)
theory Scheduler_Inv
  imports Scheduler "HOL-Library.Multiset"
begin

text \<open>
  Where the scheduler keeps a thread: on the CPU, in a run queue or in a wait
  queue. The invariant of this theory comes in two strengths. The base part
  holds in every history: whatever the scheduler refers to is a registered
  thread object. The strict part adds that a thread is in one place at a time,
  with the execution state that belongs to that place.
\<close>

section \<open>Maps and queues as multisets\<close>

lemma mset_bt_split:
  assumes "bt_inv m" "bt_get m k = Some v"
  shows "mset m = add_mset (k, v) (mset (bt_remove k m))"
  using assms
proof (induction m)
  case (Cons e m)
  obtain a b where e: "e = (a, b)" by (cases e)
  from Cons.prems have inv: "bt_inv m" and fresh: "a \<notin> bt_keys m"
    by (auto simp: bt_inv_def bt_keys_def e)
  from fresh have rem: "bt_remove a m = m"
    by (auto simp: bt_remove_def bt_keys_def intro!: filter_True)
  show ?case
  proof (cases "k = a")
    case True
    then show ?thesis using Cons.prems rem by (simp add: e bt_get_def bt_remove_def)
  next
    case False
    then show ?thesis using Cons.IH[OF inv] Cons.prems by (simp add: e bt_get_def bt_remove_def)
  qed
qed simp

lemma mset_bt_insert:
  assumes "bt_inv m"
  shows "mset (bt_insert k v m) = add_mset (k, v) (mset (bt_remove k m))"
proof -
  have "bt_remove k (bt_insert k v m) = bt_remove k m"
    using assms by (intro bt_ext) auto
  then show ?thesis
    using mset_bt_split[of "bt_insert k v m" k v] assms by simp
qed

lemma bt_remove_absent: "bt_get m k = None \<Longrightarrow> bt_remove k m = m"
  by (auto simp: bt_get_None_iff bt_remove_def bt_keys_def intro!: filter_True)

definition wq :: "(object_id, thread_id list) btree_map \<Rightarrow> thread_id multiset" where
  "wq m = mset (concat (bt_values m))"

definition timer_waiters :: "(wake_token, thread_id) btree_map \<Rightarrow> thread_id multiset" where
  "timer_waiters m = mset (bt_values m)"

lemma wq_sum: "wq m = (\<Sum>e\<in>#mset m. mset (snd e))"
  by (induction m) (auto simp: wq_def bt_values_def)

lemma timer_waiters_image: "timer_waiters m = image_mset snd (mset m)"
  by (simp add: timer_waiters_def bt_values_def)

lemma wq_Nil [simp]: "wq [] = {#}"
  by (simp add: wq_def bt_values_def)

lemma timer_waiters_Nil [simp]: "timer_waiters [] = {#}"
  by (simp add: timer_waiters_def bt_values_def)

lemma wq_split: "bt_inv m \<Longrightarrow> bt_get m k = Some q \<Longrightarrow> wq m = mset q + wq (bt_remove k m)"
  by (simp add: wq_sum mset_bt_split)

lemma wq_insert: "bt_inv m \<Longrightarrow> wq (bt_insert k q m) = mset q + wq (bt_remove k m)"
  by (simp add: wq_sum mset_bt_insert)

lemma wq_push_waiter: "bt_inv m \<Longrightarrow> wq (push_waiter k t m) = add_mset t (wq m)"
  by (cases "bt_get m k") (auto simp: push_waiter_def wq_insert wq_split bt_remove_absent)

lemma wq_drop_waiter: "wq (drop_waiter t m) = filter_mset (\<lambda>u. u \<noteq> t) (wq m)"
  by (induction m)
     (auto simp: drop_waiter_def bt_retain_def bt_map_values_def wq_def bt_values_def
       simp flip: mset_filter)

lemma timer_waiters_split:
  "bt_inv m \<Longrightarrow> bt_get m k = Some t \<Longrightarrow> timer_waiters m = add_mset t (timer_waiters (bt_remove k m))"
  by (simp add: timer_waiters_image mset_bt_split)

lemma timer_waiters_insert:
  "bt_inv m \<Longrightarrow> timer_waiters (bt_insert k t m) = add_mset t (timer_waiters (bt_remove k m))"
  by (simp add: timer_waiters_image mset_bt_insert)

lemma timer_waiters_retain:
  "timer_waiters (bt_retain (\<lambda>w. w) (\<lambda>_ w. w \<noteq> t) m) = filter_mset (\<lambda>u. u \<noteq> t) (timer_waiters m)"
  by (induction m)
     (auto simp: bt_retain_def bt_map_values_def timer_waiters_def bt_values_def)

lemma bt_inv_push_waiter [simp]: "bt_inv m \<Longrightarrow> bt_inv (push_waiter k t m)"
  by (simp add: push_waiter_def)

lemma bt_inv_drop_waiter [simp]: "bt_inv m \<Longrightarrow> bt_inv (drop_waiter t m)"
  by (simp add: drop_waiter_def)

lemma distinct_if_count:
  assumes "\<And>t. count (mset q) t \<le> 1"
  shows "distinct q"
proof -
  have "count (mset q) t = (if t \<in> set q then 1 else 0)" for t
    using assms[of t] by (simp add: le_Suc_eq count_mset_0_iff)
  then show ?thesis by (simp add: distinct_count_atmost_1)
qed

lemma mset_concat_update:
  "i < length qs \<Longrightarrow> mset (concat (qs[i := q])) + mset (qs ! i) = mset (concat qs) + mset q"
proof (induction qs arbitrary: i)
  case (Cons a qs)
  then show ?case by (cases i) (auto simp: ac_simps)
qed simp

lemma mset_concat_snoc:
  "i < length qs \<Longrightarrow> mset (concat (qs[i := qs ! i @ [t]])) = add_mset t (mset (concat qs))"
  using mset_concat_update[of i qs "qs ! i @ [t]"] by simp

lemma mset_concat_tail:
  "i < length qs \<Longrightarrow> qs ! i = t # q \<Longrightarrow> mset (concat qs) = add_mset t (mset (concat (qs[i := q])))"
  using mset_concat_update[of i qs q] by simp

lemma mset_concat_filter:
  "mset (concat (map (filter P) qs)) = filter_mset P (mset (concat qs))"
  by (induction qs) (auto simp flip: mset_filter)

lemma pop_first_Some:
  "pop_first qs = Some (t, qs') \<Longrightarrow>
   mset (concat qs) = add_mset t (mset (concat qs')) \<and> length qs' = length qs"
  by (induction qs arbitrary: qs' rule: pop_first.induct) auto

lemma pop_first_None: "pop_first qs = None \<Longrightarrow> concat qs = []"
  by (induction qs rule: pop_first.induct) auto

section \<open>Places\<close>

definition queued :: "scheduler_state \<Rightarrow> thread_id multiset" where
  "queued st = mset (concat (runnable_queues st))"

definition waiting :: "scheduler_state \<Rightarrow> thread_id multiset" where
  "waiting st = timer_waiters (waiting_timers st) + wq (waiting_receivers st) + wq (waiting_packets st)
     + wq (waiting_inputs st) + wq (waiting_objects st)"

definition on_cpu :: "scheduler_state \<Rightarrow> thread_id multiset" where
  "on_cpu st = (case current st of None \<Rightarrow> {#} | Some t \<Rightarrow> {#t#})"

definition placed :: "scheduler_state \<Rightarrow> thread_id multiset" where
  "placed st = on_cpu st + queued st + waiting st"

definition exec :: "scheduler_state \<Rightarrow> thread_id \<Rightarrow> execution_state option" where
  "exec st t = map_option th_execution_state (thread_at (objects st) t)"

definition shape :: "scheduler_state \<Rightarrow> bool" where
  "shape st \<longleftrightarrow>
     length (runnable_queues st) = RUNNABLE_QUEUE_CPUS \<and>
     length (stolen_per_cpu st) = RUNNABLE_QUEUE_CPUS \<and>
     length (steal_scan_cursor st) = RUNNABLE_QUEUE_CPUS \<and>
     bt_inv (queued_idle_ticks st) \<and> bt_inv (threads st) \<and> bt_inv (waiting_timers st) \<and>
     bt_inv (waiting_receivers st) \<and> bt_inv (waiting_packets st) \<and> bt_inv (waiting_inputs st) \<and>
     bt_inv (waiting_objects st)"

definition threads_ok :: "scheduler_state \<Rightarrow> bool" where
  "threads_ok st \<longleftrightarrow>
     (\<forall>i th. thread_at (objects st) i = Some th \<longrightarrow> th_id th = i) \<and>
     (\<forall>t r. bt_get (threads st) t = Some r \<longrightarrow> r = t \<and> thread_at (objects st) t \<noteq> None)"

definition base_inv :: "scheduler_state \<Rightarrow> bool" where
  "base_inv st \<longleftrightarrow>
     shape st \<and> threads_ok st \<and> set_mset (placed st) \<subseteq> bt_keys (threads st) \<and>
     bt_keys (queued_idle_ticks st) \<subseteq> set_mset (queued st) \<and>
     (\<forall>k\<in>bt_keys (waiting_timers st). k < next_wake_token st)"

definition strict_inv :: "scheduler_state \<Rightarrow> bool" where
  "strict_inv st \<longleftrightarrow>
     (\<forall>t. count (placed st) t \<le> 1) \<and>
     (\<forall>t. current st = Some t \<longrightarrow> exec st t = Some Running) \<and>
     (\<forall>t. t \<in># queued st \<longrightarrow> exec st t = Some Runnable) \<and>
     (\<forall>t. t \<in># waiting st \<longrightarrow> exec st t = Some Blocked) \<and>
     bt_keys (queued_idle_ticks st) = set_mset (queued st)"

definition sched_inv :: "bool \<Rightarrow> scheduler_state \<Rightarrow> bool" where
  "sched_inv strict st \<longleftrightarrow> base_inv st \<and> (strict \<longrightarrow> strict_inv st)"

lemma sched_invI: "base_inv st \<Longrightarrow> (s \<Longrightarrow> strict_inv st) \<Longrightarrow> sched_inv s st"
  by (simp add: sched_inv_def)

lemma sched_invD:
  assumes "sched_inv s st"
  shows "base_inv st" "shape st" "threads_ok st" "s \<Longrightarrow> strict_inv st"
    "set_mset (placed st) \<subseteq> bt_keys (threads st)"
  using assms by (auto simp: sched_inv_def base_inv_def)

named_theorems places

text \<open>The fields a transition of an execution state leaves alone.\<close>

lemma transition_Some:
  "transition r es w y st = Some st' \<longleftrightarrow>
     (\<exists>th. thread_at (objects st) r = Some th \<and>
           st' = st\<lparr>objects := set_body (objects st) r (Thread (transition_to th es w y))\<rparr>)"
  by (auto simp: transition_def split: option.splits)

lemma transition_places [places]:
  assumes "transition r es w y st = Some st'"
  shows "current st' = current st" "queued st' = queued st" "waiting st' = waiting st"
    "on_cpu st' = on_cpu st" "placed st' = placed st" "threads st' = threads st" "shape st' = shape st"
    "queued_idle_ticks st' = queued_idle_ticks st" "waiting_timers st' = waiting_timers st"
    "next_wake_token st' = next_wake_token st" "runnable_queues st' = runnable_queues st"
    "waiting_receivers st' = waiting_receivers st" "waiting_packets st' = waiting_packets st"
    "waiting_inputs st' = waiting_inputs st" "waiting_objects st' = waiting_objects st"
    "clock st' = clock st" "input_sources st' = input_sources st"
  using assms
  by (auto simp: transition_Some queued_def waiting_def on_cpu_def placed_def shape_def)

lemma transition_exec:
  assumes "transition r es w y st = Some st'"
  shows "exec st' t = (if t = r then Some es else exec st t)"
proof -
  from assms obtain th where th: "thread_at (objects st) r = Some th"
    and st': "st' = st\<lparr>objects := set_body (objects st) r (Thread (transition_to th es w y))\<rparr>"
    by (auto simp: transition_Some)
  from thread_at_SomeD[OF th] have "objects st r \<noteq> None" by auto
  then show ?thesis by (auto simp: exec_def st' transition_to_def)
qed

lemma transition_threads_ok:
  assumes "transition r es w y st = Some st'" "threads_ok st"
  shows "threads_ok st'"
proof -
  from assms obtain th where th: "thread_at (objects st) r = Some th"
    and st': "st' = st\<lparr>objects := set_body (objects st) r (Thread (transition_to th es w y))\<rparr>"
    by (auto simp: transition_Some)
  from thread_at_SomeD[OF th] have "objects st r \<noteq> None" by auto
  with assms(2) th show ?thesis
    by (fastforce simp: threads_ok_def st' transition_to_def)
qed

lemma transition_exists: "threads_ok st \<Longrightarrow> t \<in> bt_keys (threads st) \<Longrightarrow>
    \<exists>st'. transition t es w y st = Some st'"
  by (fastforce simp: threads_ok_def transition_def bt_keys_dom)

lemma lookup_thread_ok: "threads_ok st \<Longrightarrow> t \<in> bt_keys (threads st) \<Longrightarrow> lookup_thread st t = Inr t"
  by (fastforce simp: threads_ok_def lookup_thread_def bt_keys_dom)

lemma lookup_thread_record_ok:
  "threads_ok st \<Longrightarrow> t \<in> bt_keys (threads st) \<Longrightarrow> lookup_thread_record st t = Inr t"
  by (fastforce simp: threads_ok_def lookup_thread_record_def bt_keys_dom)

lemma lookup_thread_record_Inr:
  "threads_ok st \<Longrightarrow> lookup_thread_record st t = Inr r \<Longrightarrow> r = t \<and> t \<in> bt_keys (threads st)"
  by (auto simp: threads_ok_def lookup_thread_record_def bt_keys_dom split: option.splits)

lemma is_blocked_exec: "is_blocked st t \<longleftrightarrow> exec st t = Some Blocked"
  by (auto simp: is_blocked_def exec_def split: option.splits)


section \<open>Primitive moves\<close>

lemma count_placed:
  "count (placed st) t = count (on_cpu st) t + count (queued st) t + count (waiting st) t"
  by (simp add: placed_def)

lemma in_placed: "t \<in># placed st \<longleftrightarrow> current st = Some t \<or> t \<in># queued st \<or> t \<in># waiting st"
  by (auto simp: placed_def on_cpu_def split: option.splits)

lemma count_on_cpu: "count (on_cpu st) t = (if current st = Some t then 1 else 0)"
  by (auto simp: on_cpu_def split: option.splits)

text \<open>A thread that is in no place may change its execution state.\<close>

lemma inv_transition_free:
  assumes inv: "sched_inv s st" and tr: "transition t es w y st = Some st'"
    and free: "s \<Longrightarrow> t \<notin># placed st"
  shows "sched_inv s st'"
proof (rule sched_invI)
  show "base_inv st'"
    using inv transition_places[OF tr] transition_threads_ok[OF tr]
    by (simp add: sched_inv_def base_inv_def)
  show "strict_inv st'" if s
  proof -
    from inv that have strict: "strict_inv st" by (simp add: sched_inv_def)
    show ?thesis
      using strict free[OF that] transition_places[OF tr]
      by (auto simp: strict_inv_def transition_exec[OF tr] in_placed)
  qed
qed

text \<open>The current thread changes its execution state and leaves the CPU.\<close>

lemma inv_suspend_current:
  assumes inv: "sched_inv s st" and cur: "current st = Some t"
    and tr: "transition t es w y st = Some st1"
  shows "sched_inv s (st1\<lparr>current := None\<rparr>)"
    and "s \<Longrightarrow> t \<notin># placed (st1\<lparr>current := None\<rparr>)"
    and "exec (st1\<lparr>current := None\<rparr>) t = Some es"
proof -
  let ?st = "st1\<lparr>current := None\<rparr>"
  note tp = transition_places[OF tr]
  have q: "queued ?st = queued st" "waiting ?st = waiting st" "on_cpu ?st = {#}"
    using tp by (simp_all add: queued_def waiting_def on_cpu_def)
  have pl: "placed st = add_mset t (placed ?st)"
    using cur by (simp add: placed_def q) (simp add: on_cpu_def)
  have ex: "exec ?st u = (if u = t then Some es else exec st u)" for u
    using transition_exec[OF tr, of u] by (simp add: exec_def)
  show "exec ?st t = Some es" by (simp add: ex)
  show free: "t \<notin># placed ?st" if s
  proof -
    from inv that have "count (placed st) t \<le> 1"
      by (simp add: sched_inv_def strict_inv_def)
    with pl show ?thesis by (simp add: not_in_iff)
  qed
  show "sched_inv s ?st"
  proof (rule sched_invI)
    show "base_inv ?st"
      using inv tp q pl transition_threads_ok[OF tr]
      by (auto simp: sched_inv_def base_inv_def shape_def threads_ok_def)
    show "strict_inv ?st" if s
    proof -
      from inv that have strict: "strict_inv st" by (simp add: sched_inv_def)
      from strict have "count (placed ?st) u \<le> 1" for u
        by (metis (no_types) pl strict_inv_def count_add_mset le_SucI le_trans le_refl Suc_le_mono)
      moreover have "u \<noteq> t" if "u \<in># queued st \<or> u \<in># waiting st" for u
        using free[OF \<open>s\<close>] that by (auto simp: in_placed q)
      ultimately show ?thesis
        using strict tp by (auto simp: strict_inv_def ex q)
    qed
  qed
qed

text \<open>Adding a free blocked thread to the waiting ones, and forgetting waiting ones.\<close>

definition same_core :: "scheduler_state \<Rightarrow> scheduler_state \<Rightarrow> bool" where
  "same_core st st' \<longleftrightarrow>
     current st' = current st \<and> queued st' = queued st \<and> threads st' = threads st \<and>
     objects st' = objects st \<and> queued_idle_ticks st' = queued_idle_ticks st \<and>
     next_wake_token st' = next_wake_token st"

lemma same_core_exec: "same_core st st' \<Longrightarrow> exec st' t = exec st t"
  by (simp add: same_core_def exec_def)

lemma same_core_on_cpu: "same_core st st' \<Longrightarrow> on_cpu st' = on_cpu st"
  by (simp add: same_core_def on_cpu_def)

lemma inv_add_waiting:
  assumes inv: "sched_inv s st" and core: "same_core st st'" and shape: "shape st'"
    and w: "waiting st' = M + waiting st" and reg: "set_mset M \<subseteq> bt_keys (threads st)"
    and once: "\<And>t. s \<Longrightarrow> count M t \<le> 1"
    and free: "\<And>t. s \<Longrightarrow> t \<in># M \<Longrightarrow> t \<notin># placed st \<and> exec st t = Some Blocked"
    and tokens: "\<forall>k\<in>bt_keys (waiting_timers st'). k < next_wake_token st"
  shows "sched_inv s st'"
proof (rule sched_invI)
  have pl: "placed st' = M + placed st"
    using core by (simp add: placed_def w same_core_def same_core_on_cpu[OF core])
  show "base_inv st'"
    using inv core shape reg pl tokens
    by (simp add: sched_inv_def base_inv_def same_core_def threads_ok_def)
  show "strict_inv st'" if s
  proof -
    from inv that have strict: "strict_inv st" by (simp add: sched_inv_def)
    have "count (placed st') u \<le> 1" for u
      using strict once[OF that, of u] free[OF that, of u]
      by (cases "u \<in># M") (auto simp: pl strict_inv_def not_in_iff)
    moreover have "exec st' u = Some Blocked" if "u \<in># waiting st'" for u
      using that strict free[OF \<open>s\<close>, of u] by (auto simp: strict_inv_def same_core_exec[OF core] w)
    ultimately show ?thesis
      using strict core unfolding strict_inv_def same_core_exec[OF core]
      unfolding same_core_def by simp
  qed
qed

lemma inv_sub_waiting:
  assumes inv: "sched_inv s st" and core: "same_core st st'" and shape: "shape st'"
    and w: "waiting st' \<subseteq># waiting st"
    and tokens: "bt_keys (waiting_timers st') \<subseteq> bt_keys (waiting_timers st)"
  shows "sched_inv s st'"
proof (rule sched_invI)
  have pl: "placed st' \<subseteq># placed st"
    using core w by (simp add: placed_def same_core_def same_core_on_cpu[OF core])
  show "base_inv st'"
    using inv core shape set_mset_mono[OF pl] tokens
    by (auto simp: sched_inv_def base_inv_def same_core_def threads_ok_def)
  show "strict_inv st'" if s
  proof -
    from inv that have strict: "strict_inv st" by (simp add: sched_inv_def)
    have "count (placed st') u \<le> 1" for u
      using strict mset_subset_eq_count[OF pl, of u] unfolding strict_inv_def
      by (meson le_trans)
    moreover have "exec st' u = Some Blocked" if "u \<in># waiting st'" for u
      using mset_subset_eqD[OF w that] strict by (simp add: strict_inv_def same_core_exec[OF core])
    ultimately show ?thesis
      using strict core unfolding strict_inv_def same_core_exec[OF core]
      unfolding same_core_def by simp
  qed
qed

text \<open>Queueing a free runnable thread.\<close>

lemma push_runnable_places [places]:
  assumes "cpu < RUNNABLE_QUEUE_CPUS" "shape st"
  shows "queued (push_runnable_on_current_cpu cpu t st) = add_mset t (queued st)"
    and "waiting (push_runnable_on_current_cpu cpu t st) = waiting st"
    and "on_cpu (push_runnable_on_current_cpu cpu t st) = on_cpu st"
    and "placed (push_runnable_on_current_cpu cpu t st) = add_mset t (placed st)"
    and "exec (push_runnable_on_current_cpu cpu t st) = exec st"
    and "shape (push_runnable_on_current_cpu cpu t st)"
  using assms
  by (auto simp: push_runnable_on_current_cpu_def queued_def waiting_def on_cpu_def placed_def
      shape_def mset_concat_snoc exec_def[abs_def])

lemma push_runnable_fields [simp]:
  "current (push_runnable_on_current_cpu cpu t st) = current st"
  "threads (push_runnable_on_current_cpu cpu t st) = threads st"
  "objects (push_runnable_on_current_cpu cpu t st) = objects st"
  "waiting_timers (push_runnable_on_current_cpu cpu t st) = waiting_timers st"
  "next_wake_token (push_runnable_on_current_cpu cpu t st) = next_wake_token st"
  "bt_keys (queued_idle_ticks (push_runnable_on_current_cpu cpu t st)) =
     insert t (bt_keys (queued_idle_ticks st))"
  by (simp_all add: push_runnable_on_current_cpu_def)

lemma inv_push_runnable:
  assumes inv: "sched_inv s st" and cpu: "cpu < RUNNABLE_QUEUE_CPUS"
    and reg: "t \<in> bt_keys (threads st)" and free: "s \<Longrightarrow> t \<notin># placed st"
    and runnable: "s \<Longrightarrow> exec st t = Some Runnable"
  shows "sched_inv s (push_runnable_on_current_cpu cpu t st)"
proof (rule sched_invI)
  note pp = push_runnable_places[OF cpu sched_invD(2)[OF inv]]
  show "base_inv (push_runnable_on_current_cpu cpu t st)"
    using inv reg by (auto simp: sched_inv_def base_inv_def pp threads_ok_def)
  show "strict_inv (push_runnable_on_current_cpu cpu t st)" if s
  proof -
    from inv that have strict: "strict_inv st" by (simp add: sched_inv_def)
    then have "count (placed (push_runnable_on_current_cpu cpu t st)) u \<le> 1" for u
      using free[OF that] by (auto simp: pp strict_inv_def not_in_iff)
    with strict runnable[OF that] show ?thesis
      by (auto simp: strict_inv_def pp)
  qed
qed


section \<open>Waking a thread\<close>

lemma runnable_contains_queued: "runnable_contains st t \<longleftrightarrow> t \<in># queued st"
  by (auto simp: runnable_contains_def queued_def list_ex_iff)

lemma transition_push_commute:
  "transition r es w y (push_runnable_on_current_cpu cpu t st) =
     map_option (push_runnable_on_current_cpu cpu t) (transition r es w y st)"
  by (auto simp: transition_def push_runnable_on_current_cpu_def split: option.splits)

lemma push_if_absent_fields [simp]:
  "current (push_runnable_if_absent cpu t st) = current st"
  "threads (push_runnable_if_absent cpu t st) = threads st"
  "objects (push_runnable_if_absent cpu t st) = objects st"
  "waiting_timers (push_runnable_if_absent cpu t st) = waiting_timers st"
  "next_wake_token (push_runnable_if_absent cpu t st) = next_wake_token st"
  "waiting (push_runnable_if_absent cpu t st) = waiting st"
  by (simp_all add: push_runnable_if_absent_def push_runnable_on_current_cpu_def waiting_def)

lemma wake_thread_fields:
  assumes "wake_thread cpu t r y st = Some st'"
  shows "current st' = current st" "threads st' = threads st" "waiting st' = waiting st"
    "waiting_timers st' = waiting_timers st" "next_wake_token st' = next_wake_token st"
    "waiting_receivers st' = waiting_receivers st" "waiting_packets st' = waiting_packets st"
    "waiting_inputs st' = waiting_inputs st" "waiting_objects st' = waiting_objects st"
  using assms
  by (auto simp: wake_thread_def transition_Some push_runnable_if_absent_def waiting_def
      push_runnable_on_current_cpu_def split: if_splits)

lemma inv_wake_thread:
  assumes inv: "sched_inv s st" and cpu: "cpu < RUNNABLE_QUEUE_CPUS"
    and reg: "t \<in> bt_keys (threads st)" and free: "s \<Longrightarrow> t \<notin># placed st"
  shows "\<exists>st'. wake_thread cpu t t y st = Some st' \<and> sched_inv s st' \<and> t \<in># queued st' \<and>
           exec st' t = Some Runnable"
proof -
  obtain st1 where tr: "transition t Runnable None (Some y) st = Some st1"
    using transition_exists sched_invD(3)[OF inv] reg by blast
  from inv_transition_free[OF inv tr free] have inv1: "sched_inv s st1" by blast
  note tp = transition_places[OF tr]
  have ex1: "exec st1 t = Some Runnable" by (simp add: transition_exec[OF tr])
  show ?thesis
  proof (cases "t \<in># queued st")
    case True
    then show ?thesis
      using tr inv1 tp ex1
      by (simp add: wake_thread_def push_runnable_if_absent_def runnable_contains_queued)
  next
    case False
    have "sched_inv s (push_runnable_on_current_cpu cpu t st1)"
      using inv1 cpu reg free ex1 tp by (intro inv_push_runnable) auto
    moreover have "wake_thread cpu t t y st = Some (push_runnable_on_current_cpu cpu t st1)"
      using False tr
      by (simp add: wake_thread_def push_runnable_if_absent_def runnable_contains_queued
          transition_push_commute)
    ultimately show ?thesis
      using push_runnable_places(1,5)[OF cpu sched_invD(2)[OF inv1]] ex1 by simp
  qed
qed

section \<open>Choosing the next thread\<close>

lemma pop_runnable_next_None:
  "shape st \<Longrightarrow> pop_runnable_next cpu st = (None, st1) \<Longrightarrow> st1 = st \<and> queued st = {#}"
  by (auto simp: pop_runnable_next_def queued_def split: list.splits option.splits
      dest: pop_first_None)

lemma pop_runnable_next_Some:
  assumes "shape st" "cpu < RUNNABLE_QUEUE_CPUS" "pop_runnable_next cpu st = (Some t, st1)"
  shows "queued st = add_mset t (queued st1)" "waiting st1 = waiting st" "current st1 = current st"
    "threads st1 = threads st" "objects st1 = objects st" "shape st1"
    "waiting_timers st1 = waiting_timers st" "next_wake_token st1 = next_wake_token st"
    "bt_keys (queued_idle_ticks st1) = bt_keys (queued_idle_ticks st) - {t}"
proof -
  have "queued st = add_mset t (queued st1) \<and> waiting st1 = waiting st \<and> current st1 = current st \<and>
    threads st1 = threads st \<and> objects st1 = objects st \<and> shape st1 \<and>
    waiting_timers st1 = waiting_timers st \<and> next_wake_token st1 = next_wake_token st \<and>
    bt_keys (queued_idle_ticks st1) = bt_keys (queued_idle_ticks st) - {t}"
  proof (cases "runnable_queues st ! cpu")
    case Nil
    with assms(3) obtain qs where qs: "pop_first (runnable_queues st) = Some (t, qs)"
      and st1: "st1 = st\<lparr>runnable_queues := qs,
                         queued_idle_ticks := bt_remove t (queued_idle_ticks st),
                         stolen_per_cpu := (stolen_per_cpu st)
                           [cpu := saturating_add u64_max (stolen_per_cpu st ! cpu) 1]\<rparr>"
      by (auto simp: pop_runnable_next_def split: option.splits)
    from pop_first_Some[OF qs] assms(1) show ?thesis
      by (simp add: st1 queued_def waiting_def shape_def)
  next
    case (Cons u q)
    with assms(3) have st1: "st1 = st\<lparr>runnable_queues := (runnable_queues st)[cpu := q],
                                     queued_idle_ticks := bt_remove t (queued_idle_ticks st)\<rparr>"
      and u: "u = t"
      by (auto simp: pop_runnable_next_def)
    have "mset (concat (runnable_queues st)) = add_mset t (mset (concat ((runnable_queues st)[cpu := q])))"
      using Cons u assms(1,2) by (intro mset_concat_tail) (auto simp: shape_def)
    with assms(1) show ?thesis
      by (simp add: st1 queued_def waiting_def shape_def)
  qed
  then show "queued st = add_mset t (queued st1)" "waiting st1 = waiting st" "current st1 = current st"
    "threads st1 = threads st" "objects st1 = objects st" "shape st1"
    "waiting_timers st1 = waiting_timers st" "next_wake_token st1 = next_wake_token st"
    "bt_keys (queued_idle_ticks st1) = bt_keys (queued_idle_ticks st) - {t}"
    by simp_all
qed

lemma inv_pop:
  assumes inv: "sched_inv s st" and cpu: "cpu < RUNNABLE_QUEUE_CPUS"
    and pop: "pop_runnable_next cpu st = (Some t, st1)"
  shows "sched_inv s st1" "t \<in> bt_keys (threads st)" "s \<Longrightarrow> t \<notin># placed st1"
proof -
  note pp = pop_runnable_next_Some[OF sched_invD(2)[OF inv] cpu pop]
  have pl: "placed st = add_mset t (placed st1)"
    using pp by (simp add: placed_def on_cpu_def)
  have ex: "exec st1 u = exec st u" for u using pp by (simp add: exec_def)
  show reg: "t \<in> bt_keys (threads st)"
    using sched_invD(5)[OF inv] pl by auto
  show free: "t \<notin># placed st1" if s
  proof -
    from inv that have "count (placed st) t \<le> 1" by (simp add: sched_inv_def strict_inv_def)
    with pl show ?thesis by (simp add: not_in_iff)
  qed
  show "sched_inv s st1"
  proof (rule sched_invI)
    show "base_inv st1"
      using inv pp pl by (auto simp: sched_inv_def base_inv_def threads_ok_def)
    show "strict_inv st1" if s
    proof -
      from inv that have strict: "strict_inv st" by (simp add: sched_inv_def)
      have "count (placed st1) u \<le> 1" for u
        using strict unfolding strict_inv_def pl by (metis count_add_mset le_Suc_eq le_trans nat_le_linear not_less_eq_eq)
      moreover have "bt_keys (queued_idle_ticks st1) = set_mset (queued st1)"
        using strict free[OF that] pp by (auto simp: strict_inv_def in_placed)
      ultimately show ?thesis
        using strict pp by (simp add: strict_inv_def ex)
    qed
  qed
qed

lemma inv_enter_cpu:
  assumes inv: "sched_inv s st" and reg: "t \<in> bt_keys (threads st)"
    and free: "s \<Longrightarrow> t \<notin># placed st \<and> current st = None \<and> exec st t = Some Running"
  shows "sched_inv s (st\<lparr>current := Some t, ticks_remaining := n, preemption_pending := p,
                         context_switches := c\<rparr>)" (is "sched_inv s ?st")
proof (rule sched_invI)
  have q: "queued ?st = queued st" "waiting ?st = waiting st" "on_cpu ?st = {#t#}" "exec ?st = exec st"
    by (auto simp: queued_def waiting_def on_cpu_def exec_def)
  have sub: "set_mset (placed ?st) \<subseteq> insert t (set_mset (placed st))"
    by (auto simp: placed_def q)
  show "base_inv ?st"
    using inv reg sub by (auto simp: sched_inv_def base_inv_def shape_def threads_ok_def q)
  show "strict_inv ?st" if s
  proof -
    from inv that have strict: "strict_inv st" by (simp add: sched_inv_def)
    have "placed ?st = add_mset t (placed st)"
      using free[OF that] by (simp add: placed_def q) (simp add: on_cpu_def)
    then have "count (placed ?st) u \<le> 1" for u
      using strict free[OF that] by (auto simp: strict_inv_def not_in_iff)
    with strict free[OF that] show ?thesis
      by (simp add: strict_inv_def q)
  qed
qed

lemma schedule_next_ok:
  assumes inv: "sched_inv s st" and cpu: "cpu < RUNNABLE_QUEUE_CPUS"
    and idle: "s \<Longrightarrow> current st = None"
  shows "\<exists>d st'. schedule_next_locked cpu trigger previous st = (Inr d, st') \<and> sched_inv s st' \<and>
           sd_next d = (if queued st = {#} then None else current st') \<and>
           threads st' = threads st \<and> waiting st' = waiting st \<and>
           (queued st \<noteq> {#} \<longrightarrow> placed st' + on_cpu st = placed st) \<and>
           (queued st = {#} \<longrightarrow> st' = st)"
proof (cases "pop_runnable_next cpu st")
  case (Pair nxt st1)
  show ?thesis
  proof (cases nxt)
    case None
    with Pair pop_runnable_next_None[OF sched_invD(2)[OF inv]] have "st1 = st" "queued st = {#}"
      by auto
    with Pair None inv show ?thesis
      by (simp add: schedule_next_locked_def decision_def)
  next
    case (Some t)
    note pop = Pair[unfolded Some]
    note pp = pop_runnable_next_Some[OF sched_invD(2)[OF inv] cpu pop]
    note ip = inv_pop[OF inv cpu pop]
    have reg1: "t \<in> bt_keys (threads st1)" using ip pp by simp
    obtain st2 where tr: "transition t Running None (Some (trigger_to_wake_reason trigger)) st1 = Some st2"
      using transition_exists sched_invD(3)[OF ip(1)] reg1 by blast
    note tp = transition_places[OF tr]
    define st3 where "st3 = st2\<lparr>current := Some t, ticks_remaining := 1, preemption_pending := False,
                                context_switches :=
                                  (if previous \<noteq> Some t
                                   then saturating_add u64_max (context_switches st2) 1
                                   else context_switches st2)\<rparr>"
    have inv2: "sched_inv s st2"
      using inv_transition_free[OF ip(1) tr] ip(3) by blast
    have inv3: "sched_inv s st3"
      unfolding st3_def using inv2 reg1 tp ip(3) idle pp transition_exec[OF tr, of t]
      by (intro inv_enter_cpu) auto
    have eq: "schedule_next_locked cpu trigger previous st =
        (Inr (decision st3 trigger previous (Some t)), st3)"
      using pop lookup_thread_ok[OF sched_invD(3)[OF ip(1)] reg1] tr
      by (simp add: schedule_next_locked_def st3_def Let_def)
    have pl: "placed st3 + on_cpu st = placed st"
      using pp tp by (simp add: placed_def on_cpu_def st3_def queued_def waiting_def)
    from pp have ne: "queued st \<noteq> {#}" by auto
    have "waiting st3 = waiting st" using pp tp by (simp add: st3_def waiting_def)
    moreover have "threads st3 = threads st" using pp tp by (simp add: st3_def)
    moreover have "current st3 = Some t" by (simp add: st3_def)
    ultimately show ?thesis
      using eq inv3 pl ne by (simp add: decision_def)
  qed
qed

lemma wake_decision_ok:
  assumes inv: "sched_inv s st" and cpu: "cpu < RUNNABLE_QUEUE_CPUS"
    and prev: "previous = None \<Longrightarrow> s \<Longrightarrow> current st = None"
  shows "sched_inv s (snd (wake_decision cpu trigger previous st))"
proof (cases "previous = None")
  case True
  with schedule_next_ok[OF inv cpu, of trigger previous] prev obtain d st' where
    "schedule_next_locked cpu trigger previous st = (Inr d, st')" "sched_inv s st'"
    by blast
  with True show ?thesis by (simp add: wake_decision_def)
next
  case False
  with inv show ?thesis by (auto simp: wake_decision_def)
qed


section \<open>The operations keep the invariant\<close>

lemma inv_irrelevant:
  assumes "sched_inv s st" "same_core st st'" "shape st'" "waiting_timers st' = waiting_timers st"
    "waiting st' = waiting st"
  shows "sched_inv s st'"
  using assms by (intro inv_sub_waiting[of s st st']) auto

lemma inv_requeue:
  assumes inv: "sched_inv s st" and cpu: "cpu < RUNNABLE_QUEUE_CPUS"
  shows "\<exists>st1. requeue_current cpu st = (Inr (), st1) \<and> sched_inv s st1 \<and> current st1 = None \<and>
           placed st1 = placed st"
proof (cases "current st")
  case None
  with inv show ?thesis by (simp add: requeue_current_def)
next
  case (Some t)
  then have reg: "t \<in> bt_keys (threads st)"
    using sched_invD(5)[OF inv] by (auto simp: in_placed)
  obtain st1 where tr: "transition t Runnable None (Some WakeYield) st = Some st1"
    using transition_exists sched_invD(3)[OF inv] reg by blast
  note sc = inv_suspend_current[OF inv Some tr]
  have comm: "(push_runnable_on_current_cpu cpu t st1)\<lparr>current := None\<rparr> =
      push_runnable_on_current_cpu cpu t (st1\<lparr>current := None\<rparr>)"
    by (simp add: push_runnable_on_current_cpu_def)
  have "sched_inv s (push_runnable_on_current_cpu cpu t (st1\<lparr>current := None\<rparr>))"
    using sc cpu reg transition_places[OF tr] by (intro inv_push_runnable) auto
  moreover have "placed (push_runnable_on_current_cpu cpu t (st1\<lparr>current := None\<rparr>)) = placed st"
    using push_runnable_places(4)[OF cpu sched_invD(2)[OF sc(1)], of t] Some transition_places[OF tr]
    by (simp add: placed_def on_cpu_def queued_def waiting_def)
  ultimately show ?thesis
    using Some lookup_thread_ok[OF sched_invD(3)[OF inv] reg] tr
    by (simp add: requeue_current_def comm)
qed

lemma yield_current_ok:
  assumes "sched_inv s st" "cpu < RUNNABLE_QUEUE_CPUS"
  shows "\<exists>d st'. yield_current cpu st = (Inr d, st') \<and> sched_inv s st'"
proof -
  obtain st1 where "requeue_current cpu st = (Inr (), st1)" "sched_inv s st1" "current st1 = None"
    using inv_requeue[OF assms] by blast
  then show ?thesis
    using schedule_next_ok[of s st1 cpu TriggerYield "current st"] assms(2)
    by (fastforce simp: yield_current_def)
qed

lemma preempt_current_ok:
  assumes "sched_inv s st" "cpu < RUNNABLE_QUEUE_CPUS"
  shows "\<exists>d st'. preempt_current_if_needed cpu st = (Inr d, st') \<and> sched_inv s st'"
proof -
  obtain st1 where st1: "requeue_current cpu st = (Inr (), st1)" "sched_inv s st1" "current st1 = None"
    using inv_requeue[OF assms] by blast
  have "sched_inv s (st1\<lparr>preemption_pending := False\<rparr>)"
    using sched_invD(2)[OF st1(2)]
    by (intro inv_irrelevant[OF st1(2)]) (auto simp: same_core_def queued_def waiting_def shape_def)
  from schedule_next_ok[OF this assms(2), of TriggerYield "current st"] st1(3)
  obtain d st2 where "schedule_next_locked cpu TriggerYield (current st)
      (st1\<lparr>preemption_pending := False\<rparr>) = (Inr d, st2)" "sched_inv s st2"
    by auto
  with st1(1) assms(1) show ?thesis
    by (cases "preemption_pending st") (auto simp: preempt_current_if_needed_def)
qed

text \<open>Every blocking operation, given that its enrolment adds the thread to the waiting ones.\<close>

lemma block_current_ok:
  assumes inv: "sched_inv s st" and cpu: "cpu < RUNNABLE_QUEUE_CPUS" and cur: "current st = Some t"
    and enrol: "\<And>u. shape u \<Longrightarrow> same_core u (enrol u) \<and> shape (enrol u) \<and>
        (waiting_timers u = waiting_timers st \<longrightarrow>
           waiting (enrol u) = M + waiting u \<and>
           bt_keys (waiting_timers (enrol u)) \<subseteq> bt_keys (waiting_timers st) \<union> T)"
    and M: "set_mset M \<subseteq> {t}" "s \<Longrightarrow> count M t \<le> 1"
    and T: "\<forall>k\<in>T. k < next_wake_token st"
  shows "\<exists>d st'. block_current cpu t target enrol st = (Inr d, st') \<and> sched_inv s st'"
proof -
  have reg: "t \<in> bt_keys (threads st)"
    using sched_invD(5)[OF inv] cur by (auto simp: in_placed)
  obtain st1 where tr: "transition t Blocked (Some target) None st = Some st1"
    using transition_exists sched_invD(3)[OF inv] reg by blast
  note sc = inv_suspend_current[OF inv cur tr]
  let ?u = "st1\<lparr>current := None\<rparr>"
  note tp = transition_places[OF tr]
  have e: "same_core ?u (enrol ?u)" "shape (enrol ?u)" "waiting (enrol ?u) = M + waiting ?u"
    "bt_keys (waiting_timers (enrol ?u)) \<subseteq> bt_keys (waiting_timers st) \<union> T"
    using enrol[OF sched_invD(2)[OF sc(1)]] tp by simp_all
  have tok: "\<forall>k\<in>bt_keys (waiting_timers (enrol ?u)). k < next_wake_token ?u"
  proof -
    from inv have "\<forall>k\<in>bt_keys (waiting_timers st). k < next_wake_token st"
      by (simp add: sched_inv_def base_inv_def)
    with e(4) T tp show ?thesis by auto
  qed
  have inv2: "sched_inv s (enrol ?u)"
  proof (rule inv_add_waiting[OF sc(1) e(1,2,3)])
    show "set_mset M \<subseteq> bt_keys (threads ?u)" using M(1) reg tp by auto
    show "count M x \<le> 1" if s for x
      using M(1) M(2)[OF that] by (metis count_eq_zero_iff singletonD subsetD zero_le_one)
    show "x \<notin># placed ?u \<and> exec ?u x = Some Blocked" if s "x \<in># M" for x
      using sc(2)[OF that(1)] sc(3) that(2) M(1) by auto
  qed (rule tok)
  have "current (enrol ?u) = None" using e(1) by (simp add: same_core_def)
  with schedule_next_ok[OF inv2 cpu, of TriggerBlocked "Some t"] obtain d st2 where
    "schedule_next_locked cpu TriggerBlocked (Some t) (enrol ?u) = (Inr d, st2)" "sched_inv s st2"
    by auto
  then show ?thesis
    using tr lookup_thread_ok[OF sched_invD(3)[OF inv] reg] by (simp add: block_current_def)
qed

lemma block_on_receive_ok:
  assumes "sched_inv s st" "cpu < RUNNABLE_QUEUE_CPUS"
  shows "\<exists>d st'. block_current_on_receive cpu e st = (Inr d, st') \<and> sched_inv s st'"
proof (cases "current st")
  case (Some t)
  show ?thesis
    unfolding block_current_on_receive_def Some option.case
    by (rule block_current_ok[OF assms Some, where M = "{#t#}" and T = "{}"])
       (auto simp: same_core_def queued_def waiting_def shape_def wq_push_waiter)
qed (use assms in \<open>simp add: block_current_on_receive_def\<close>)

lemma block_on_packet_ok:
  assumes "sched_inv s st" "cpu < RUNNABLE_QUEUE_CPUS"
  shows "\<exists>d st'. block_current_on_packet_receive cpu e st = (Inr d, st') \<and> sched_inv s st'"
proof (cases "current st")
  case (Some t)
  show ?thesis
    unfolding block_current_on_packet_receive_def Some option.case
    by (rule block_current_ok[OF assms Some, where M = "{#t#}" and T = "{}"])
       (auto simp: same_core_def queued_def waiting_def shape_def wq_push_waiter)
qed (use assms in \<open>simp add: block_current_on_packet_receive_def\<close>)

lemma block_on_object_ok:
  assumes "sched_inv s st" "cpu < RUNNABLE_QUEUE_CPUS"
  shows "\<exists>d st'. block_current_on_object cpu e st = (Inr d, st') \<and> sched_inv s st'"
proof (cases "current st")
  case (Some t)
  show ?thesis
    unfolding block_current_on_object_def Some option.case
    by (rule block_current_ok[OF assms Some, where M = "{#t#}" and T = "{}"])
       (auto simp: same_core_def queued_def waiting_def shape_def wq_push_waiter)
qed (use assms in \<open>simp add: block_current_on_object_def\<close>)

lemma arm_token_ok:
  assumes inv: "sched_inv s st" and arm: "arm_token m deadline st = (res, st1)"
  shows "sched_inv s st1" "current st1 = current st" "waiting_timers st1 = waiting_timers st"
    "\<And>token. res = Inr token \<Longrightarrow> token = next_wake_token st \<and> next_wake_token st1 = token + 1"
    "\<And>e. res = Inl e \<Longrightarrow> e = WakeTokenExhausted \<or> (\<exists>x. e = TimerFailure x)"
proof -
  have st1: "\<exists>n m'. st1 = st\<lparr>next_wake_token := n, clock := m'\<rparr> \<and> n \<ge> next_wake_token st"
    using arm
    by (auto simp: arm_token_def Let_def checked_add_def split: if_splits prod.splits sum.splits)
       (metis le_add1 scheduler_state.surjective scheduler_state.update_convs(15,20) order_refl)+
  then obtain n m' where st1': "st1 = st\<lparr>next_wake_token := n, clock := m'\<rparr>" "n \<ge> next_wake_token st"
    by blast
  show "sched_inv s st1"
    using inv st1'(2) order_less_le_trans unfolding st1'(1)
    by (fastforce simp: sched_inv_def base_inv_def strict_inv_def shape_def threads_ok_def placed_def
        on_cpu_def queued_def waiting_def exec_def)
  show "current st1 = current st" "waiting_timers st1 = waiting_timers st"
    by (simp_all add: st1')
  show "\<And>token. res = Inr token \<Longrightarrow> token = next_wake_token st \<and> next_wake_token st1 = token + 1"
    "\<And>e. res = Inl e \<Longrightarrow> e = WakeTokenExhausted \<or> (\<exists>x. e = TimerFailure x)"
    using arm
    by (auto simp: arm_token_def Let_def checked_add_def split: if_splits prod.splits sum.splits)
qed


lemma tokens_fresh:
  assumes "sched_inv s st" "k \<ge> next_wake_token st"
  shows "bt_remove k (waiting_timers st) = waiting_timers st"
proof -
  from assms have "k \<notin> bt_keys (waiting_timers st)"
    by (auto simp: sched_inv_def base_inv_def)
  then show ?thesis by (simp add: bt_remove_absent bt_get_None_iff)
qed

lemma block_on_receive_until_ok:
  assumes inv: "sched_inv s st" and cpu: "cpu < RUNNABLE_QUEUE_CPUS" and dl: "s \<Longrightarrow> n = 0"
  shows "\<exists>res st'. block_current_on_receive_until cpu e n st = (res, st') \<and> sched_inv s st' \<and>
           res \<noteq> Inl InvalidThread"
proof (cases "n = 0 \<or> current st = None \<or> clock st = None")
  case True
  then show ?thesis
    using block_on_receive_ok[OF inv cpu, of e] inv
    by (auto simp: block_current_on_receive_until_def split: option.splits)
next
  case False
  then obtain t m where cur: "current st = Some t" and clk: "clock st = Some m" and n: "n \<noteq> 0"
    by auto
  define deadline where "deadline = saturating_add u64_max (ts_now m) n"
  obtain res st1 where arm: "arm_token m deadline st = (res, st1)" by (cases "arm_token m deadline st")
  note ao = arm_token_ok[OF inv arm]
  show ?thesis
  proof (cases res)
    case (Inl x)
    with ao(1,5) show ?thesis
      using cur clk n arm by (auto simp: block_current_on_receive_until_def deadline_def)
  next
    case (Inr token)
    from n dl have ns: "\<not> s" by auto
    have fresh: "bt_remove token (waiting_timers st1) = waiting_timers st1"
      using tokens_fresh[OF inv, of token] ao(3) ao(4)[OF Inr] by simp
    have "\<exists>d st'. block_current cpu t (ChannelReceive e)
        (\<lambda>u. u\<lparr>waiting_timers := bt_insert token t (waiting_timers u),
               waiting_receivers := push_waiter e t (waiting_receivers u)\<rparr>) st1 = (Inr d, st') \<and> sched_inv s st'"
      by (rule block_current_ok[OF ao(1) cpu, where T = "{token}" and M = "{#t, t#}"])
         (use ns cur ao(2) ao(4)[OF Inr] fresh in
           \<open>auto simp: same_core_def queued_def waiting_def shape_def wq_push_waiter timer_waiters_insert\<close>)
    then show ?thesis
      using cur clk n arm Inr by (auto simp: block_current_on_receive_until_def deadline_def)
  qed
qed

lemma block_current_until_ok:
  assumes inv: "sched_inv s st" and cpu: "cpu < RUNNABLE_QUEUE_CPUS"
  shows "\<exists>res st'. block_current_until cpu deadline st = (res, st') \<and> sched_inv s st' \<and>
           res \<noteq> Inl InvalidThread"
proof (cases "current st = None \<or> clock st = None")
  case True
  then show ?thesis
    using inv by (auto simp: block_current_until_def split: option.splits)
next
  case False
  then obtain t m where cur: "current st = Some t" and clk: "clock st = Some m"
    by auto
  obtain res st1 where arm: "arm_token m deadline st = (res, st1)" by (cases "arm_token m deadline st")
  note ao = arm_token_ok[OF inv arm]
  show ?thesis
  proof (cases res)
    case (Inl x)
    with ao(1,5) show ?thesis
      using cur clk arm by (auto simp: block_current_until_def)
  next
    case (Inr token)
    have fresh: "bt_remove token (waiting_timers st1) = waiting_timers st1"
      using tokens_fresh[OF inv, of token] ao(3) ao(4)[OF Inr] by simp
    have "\<exists>d st'. block_current cpu t (TimerWait token deadline)
        (\<lambda>u. u\<lparr>waiting_timers := bt_insert token t (waiting_timers u)\<rparr>) st1 = (Inr d, st') \<and> sched_inv s st'"
      by (rule block_current_ok[OF ao(1) cpu, where T = "{token}" and M = "{#t#}"])
         (use cur ao(2) ao(4)[OF Inr] fresh in
           \<open>auto simp: same_core_def queued_def waiting_def shape_def timer_waiters_insert\<close>)
    then show ?thesis
      using cur clk arm Inr by (auto simp: block_current_until_def)
  qed
qed

text \<open>\<open>schedule_next_locked\<close> overwrites the current thread when it finds another.\<close>

lemma schedule_next_forgets_current:
  assumes "shape st" "queued st \<noteq> {#}" "threads_ok st" "set_mset (queued st) \<subseteq> bt_keys (threads st)"
    "cpu < RUNNABLE_QUEUE_CPUS"
  shows "schedule_next_locked cpu trigger previous (st\<lparr>current := c\<rparr>) =
         schedule_next_locked cpu trigger previous st"
proof -
  obtain nxt st1 where pop: "pop_runnable_next cpu st = (nxt, st1)" by (cases "pop_runnable_next cpu st")
  with assms pop_runnable_next_None obtain t where nxt: "nxt = Some t" by (cases nxt) blast+
  have popc: "pop_runnable_next cpu (st\<lparr>current := c\<rparr>) = (nxt, st1\<lparr>current := c\<rparr>)"
    using pop by (auto simp: pop_runnable_next_def split: list.splits option.splits)
  note pp = pop_runnable_next_Some[OF assms(1,5) pop[unfolded nxt]]
  have "threads_ok st1" "t \<in> bt_keys (threads st1)"
    using pp assms by (auto simp: threads_ok_def)
  then have "lookup_thread st1 t = Inr t" "lookup_thread (st1\<lparr>current := c\<rparr>) t = Inr t"
    using lookup_thread_ok[of "st1\<lparr>current := c\<rparr>" t] by (simp_all add: lookup_thread_ok threads_ok_def)
  moreover obtain st2 where "transition t Running None (Some (trigger_to_wake_reason trigger)) st1 = Some st2"
    using transition_exists \<open>threads_ok st1\<close> \<open>t \<in> bt_keys (threads st1)\<close> by blast
  moreover from this have "transition t Running None (Some (trigger_to_wake_reason trigger)) (st1\<lparr>current := c\<rparr>) =
      Some (st2\<lparr>current := c\<rparr>)"
    by (auto simp: transition_def split: option.splits)
  ultimately show ?thesis
    unfolding schedule_next_locked_def pop popc nxt by (simp add: Let_def)
qed


lemma inv_take_raced:
  assumes "sched_inv s st"
  shows "sched_inv s (snd (take_raced_wakeup e st))"
  using sched_invD(2)[OF assms]
  by (auto simp: take_raced_wakeup_def same_core_def queued_def waiting_def shape_def assms
      split: option.splits prod.splits intro!: inv_irrelevant[OF assms])

lemma block_on_input_locked_ok:
  assumes inv: "sched_inv s st" and cpu: "cpu < RUNNABLE_QUEUE_CPUS"
  shows "\<exists>d st'. block_on_input_locked cpu e raced st = (Inr d, st') \<and> sched_inv s st'"
proof (cases "current st")
  case None
  with inv show ?thesis by (simp add: block_on_input_locked_def)
next
  case (Some t)
  have reg: "t \<in> bt_keys (threads st)"
    using sched_invD(5)[OF inv] Some by (auto simp: in_placed)
  show ?thesis
  proof (cases raced)
    case False
    then show ?thesis
      unfolding block_on_input_locked_def Some option.case if_False
      by (simp only: if_False) (rule block_current_ok[OF inv cpu Some, where M = "{#t#}" and T = "{}"],
         auto simp: same_core_def queued_def waiting_def shape_def wq_push_waiter)
  next
    case True
    obtain st1 where tr: "transition t Runnable None (Some InputReady) st = Some st1"
      using transition_exists sched_invD(3)[OF inv] reg by blast
    note sc = inv_suspend_current[OF inv Some tr]
    let ?u = "st1\<lparr>current := None\<rparr>"
    note tp = transition_places[OF tr]
    let ?v = "push_runnable_if_absent cpu t ?u"
    have inv2: "sched_inv s ?v"
    proof (cases "t \<in># queued ?u")
      case True
      then show ?thesis using sc by (simp add: push_runnable_if_absent_def runnable_contains_queued)
    next
      case False
      then show ?thesis
        using inv_push_runnable[OF sc(1) cpu, of t] reg tp sc
        by (simp add: push_runnable_if_absent_def runnable_contains_queued)
    qed
    have q2: "queued ?v \<noteq> {#}"
      using push_runnable_places(1)[OF cpu sched_invD(2)[OF sc(1)], of t]
      by (auto simp: push_runnable_if_absent_def runnable_contains_queued)
    have comm: "push_runnable_if_absent cpu t st1 = ?v\<lparr>current := Some t\<rparr>"
      using tp Some
      by (simp add: push_runnable_if_absent_def runnable_contains_def push_runnable_on_current_cpu_def)
    obtain d st2 where next2: "schedule_next_locked cpu InputWake (Some t) ?v = (Inr d, st2)" "sched_inv s st2"
      using schedule_next_ok[OF inv2 cpu, of InputWake "Some t"] by auto
    have "schedule_next_locked cpu InputWake (Some t) (push_runnable_if_absent cpu t st1) = (Inr d, st2)"
      unfolding comm using next2 q2 sched_invD(2,3,5)[OF inv2] cpu
      by (subst schedule_next_forgets_current) (auto simp: in_placed)
    then show ?thesis
      using True Some tr next2(2) lookup_thread_ok[OF sched_invD(3)[OF inv] reg]
      by (simp add: block_on_input_locked_def)
  qed
qed

lemma block_on_input_ok:
  assumes "sched_inv s st" "cpu < RUNNABLE_QUEUE_CPUS"
  shows "\<exists>d st'. block_current_on_input_receive cpu e st = (Inr d, st') \<and> sched_inv s st'"
  using block_on_input_locked_ok[OF inv_take_raced[OF assms(1), of e] assms(2), of e]
  by (auto simp: block_current_on_input_receive_def split: prod.splits)

text \<open>Removing a thread from all queues.\<close>

lemma remove_from_wait_queues_places [places]:
  "waiting (remove_from_wait_queues t st) = filter_mset (\<lambda>u. u \<noteq> t) (waiting st)"
  "queued (remove_from_wait_queues t st) = queued st"
  "current (remove_from_wait_queues t st) = current st"
  "threads (remove_from_wait_queues t st) = threads st"
  "objects (remove_from_wait_queues t st) = objects st"
  "queued_idle_ticks (remove_from_wait_queues t st) = queued_idle_ticks st"
  "next_wake_token (remove_from_wait_queues t st) = next_wake_token st"
  "exec (remove_from_wait_queues t st) = exec st"
  by (auto simp: remove_from_wait_queues_def waiting_def queued_def exec_def wq_drop_waiter
      timer_waiters_retain)

lemma bt_keys_retain: "bt_keys (bt_retain f p m) \<subseteq> bt_keys m"
  by (force simp: bt_keys_def bt_retain_def bt_map_values_def)

lemma inv_remove_from_wait_queues:
  assumes inv: "sched_inv s st"
  shows "sched_inv s (remove_from_wait_queues t st)"
proof (rule inv_sub_waiting[OF inv])
  show "same_core st (remove_from_wait_queues t st)"
    by (simp add: same_core_def remove_from_wait_queues_places)
  show "shape (remove_from_wait_queues t st)"
    using sched_invD(2)[OF inv] by (simp add: shape_def remove_from_wait_queues_def)
  show "waiting (remove_from_wait_queues t st) \<subseteq># waiting st"
    by (simp add: remove_from_wait_queues_places multiset_filter_subset)
  show "bt_keys (waiting_timers (remove_from_wait_queues t st)) \<subseteq> bt_keys (waiting_timers st)"
    by (simp add: remove_from_wait_queues_def bt_keys_retain)
qed

lemma terminate_current_ok:
  assumes inv: "sched_inv s st" and cpu: "cpu < RUNNABLE_QUEUE_CPUS"
  shows "\<exists>d st'. terminate_current cpu st = (Inr d, st') \<and> sched_inv s st'"
proof (cases "current st")
  case None
  with inv show ?thesis by (simp add: terminate_current_def)
next
  case (Some t)
  have reg: "t \<in> bt_keys (threads st)"
    using sched_invD(5)[OF inv] Some by (auto simp: in_placed)
  obtain st1 where tr: "transition t Dying None (Some WakeExplicit) st = Some st1"
    using transition_exists sched_invD(3)[OF inv] reg by blast
  note sc = inv_suspend_current[OF inv Some tr]
  let ?u = "remove_from_wait_queues t (st1\<lparr>current := None\<rparr>)"
  let ?v = "(remove_runnable t ?u)\<lparr>threads := bt_remove t (threads ?u)\<rparr>"
  have invu: "sched_inv s ?u" by (rule inv_remove_from_wait_queues[OF sc(1)])
  have curu: "current ?u = None" by (simp add: remove_from_wait_queues_places)
  have q: "queued ?v = filter_mset (\<lambda>u. u \<noteq> t) (queued ?u)" "waiting ?v = waiting ?u"
    "on_cpu ?v = {#}" "exec ?v = exec ?u" "threads ?v = bt_remove t (threads ?u)"
    using curu
    by (simp_all add: queued_def waiting_def on_cpu_def exec_def[abs_def] remove_runnable_def mset_concat_filter)
  have f: "objects ?v = objects ?u" "waiting_timers ?v = waiting_timers ?u"
    "next_wake_token ?v = next_wake_token ?u"
    "bt_keys (queued_idle_ticks ?v) = bt_keys (queued_idle_ticks ?u) - {t}"
    by (simp_all add: remove_runnable_def)
  have wu: "t \<notin># waiting ?u" by (simp add: remove_from_wait_queues_places)
  have sub: "placed ?v \<subseteq># placed ?u"
    using curu by (simp add: placed_def q multiset_filter_subset) (simp add: on_cpu_def multiset_filter_subset)
  have inv2: "sched_inv s ?v"
  proof (rule sched_invI)
    have "base_inv ?u" using invu by (simp add: sched_inv_def)
    moreover have "shape ?v" using sched_invD(2)[OF invu] by (simp add: shape_def remove_runnable_def)
    moreover have "set_mset (placed ?v) \<subseteq> set_mset (placed ?u) - {t}"
      using set_mset_mono[OF sub] wu by (auto simp: placed_def q)
    ultimately show "base_inv ?v"
      unfolding base_inv_def threads_ok_def f q by auto
    show "strict_inv ?v" if s
    proof -
      from invu that have strict: "strict_inv ?u" by (simp add: sched_inv_def)
      have "count (placed ?v) x \<le> 1" for x
        using strict mset_subset_eq_count[OF sub, of x] unfolding strict_inv_def by (meson le_trans)
      moreover have "current ?v = None" using curu by (simp add: remove_runnable_def)
      moreover have "bt_keys (queued_idle_ticks ?v) = bt_keys (queued_idle_ticks ?u) - {t}"
        by (simp add: remove_runnable_def)
      ultimately show ?thesis
        using strict unfolding strict_inv_def q by auto
    qed
  qed
  have eq: "(remove_runnable t (remove_from_wait_queues t st1))
      \<lparr>current := None, threads := bt_remove t (threads (remove_runnable t (remove_from_wait_queues t st1)))\<rparr> = ?v"
    by (simp add: remove_runnable_def remove_from_wait_queues_def)
  have "current ?v = None" using curu by (simp add: remove_runnable_def)
  then obtain d st2 where "schedule_next_locked cpu TriggerExplicit (Some t) ?v = (Inr d, st2)" "sched_inv s st2"
    using schedule_next_ok[OF inv2 cpu, of TriggerExplicit "Some t"] by auto
  then show ?thesis
    using Some tr lookup_thread_ok[OF sched_invD(3)[OF inv] reg]
    by (simp add: terminate_current_def Let_def eq)
qed


lemma register_thread_ok:
  assumes inv: "sched_inv s st" and th: "thread_at (objects st) r \<noteq> None"
  shows "\<exists>res st'. register_thread r st = Some (res, st') \<and> sched_inv s st' \<and> res \<noteq> Inl InvalidThread"
proof -
  from th obtain x where x: "thread_at (objects st) r = Some x" by blast
  with sched_invD(3)[OF inv] have id: "th_id x = r" by (simp add: threads_ok_def)
  show ?thesis
  proof (cases "bt_contains (threads st) r")
    case True
    with x id inv show ?thesis by (simp add: register_thread_def thread_ref_id_def)
  next
    case False
    then have unreg: "r \<notin> bt_keys (threads st)" by (simp add: bt_contains_iff)
    then have free: "r \<notin># placed st" using sched_invD(5)[OF inv] by auto
    obtain st1 where tr: "transition r Suspended None None st = Some st1"
      using x by (auto simp: transition_def)
    have inv1: "sched_inv s st1" using inv_transition_free[OF inv tr] free by blast
    note tp = transition_places[OF tr]
    let ?v = "st1\<lparr>threads := bt_insert r r (threads st1)\<rparr>"
    have pl: "placed ?v = placed st1" "queued ?v = queued st1" "waiting ?v = waiting st1" "exec ?v = exec st1"
      by (simp_all add: placed_def queued_def waiting_def on_cpu_def exec_def[abs_def])
    have thr: "thread_at (objects st1) r \<noteq> None"
      using x tr thread_at_SomeD[OF x] by (auto simp: transition_Some)
    have "sched_inv s ?v"
    proof (rule sched_invI)
      show "base_inv ?v"
        using inv1 thr unfolding sched_inv_def base_inv_def pl
        by (auto simp: shape_def threads_ok_def)
      show "strict_inv ?v" if s
        using inv1 that by (simp add: sched_inv_def strict_inv_def pl)
    qed
    with False x id tr show ?thesis
      by (simp add: register_thread_def thread_ref_id_def)
  qed
qed

text \<open>Marking a thread with the state its place already requires changes nothing.\<close>

lemma inv_transition_same:
  assumes inv: "sched_inv s st" and tr: "transition t es w y st = Some st'"
    and same: "s \<Longrightarrow> exec st t = Some es"
  shows "sched_inv s st'"
proof (rule sched_invI)
  show "base_inv st'"
    using inv transition_places[OF tr] transition_threads_ok[OF tr]
    by (simp add: sched_inv_def base_inv_def)
  show "strict_inv st'" if s
  proof -
    have "exec st' u = exec st u" for u
      using same[OF that] by (simp add: transition_exec[OF tr])
    with inv that transition_places[OF tr] show ?thesis
      by (simp add: sched_inv_def strict_inv_def)
  qed
qed

lemma make_runnable_ok:
  assumes inv: "sched_inv s st" and cpu: "cpu < RUNNABLE_QUEUE_CPUS"
  shows "\<exists>res st'. make_runnable cpu t y st = Some (res, st') \<and> sched_inv s st' \<and>
           (res = Inl InvalidThread \<longleftrightarrow> t \<notin> bt_keys (threads st))"
proof (cases "t \<in> bt_keys (threads st)")
  case False
  then have "bt_get (threads st) t = None" by (simp add: bt_get_None_iff)
  with False show ?thesis
    using inv by (simp add: make_runnable_def lookup_thread_record_def Let_def)
next
  case True
  note lk = lookup_thread_record_ok[OF sched_invD(3)[OF inv] True]
  show ?thesis
  proof (cases "current st = Some t")
    case cur: True
    obtain st1 where tr: "transition t Running None (Some y) st = Some st1"
      using transition_exists sched_invD(3)[OF inv] True by blast
    have "sched_inv s st1"
    proof (rule inv_transition_same[OF inv tr])
      show "exec st t = Some Running" if s
        using inv that cur by (simp add: sched_inv_def strict_inv_def)
    qed
    with lk cur tr True show ?thesis by (simp add: make_runnable_def Let_def)
  next
    case ncur: False
    let ?u = "remove_from_wait_queues t st"
    have invu: "sched_inv s ?u" by (rule inv_remove_from_wait_queues[OF inv])
    have regu: "t \<in> bt_keys (threads ?u)" using True by (simp add: remove_from_wait_queues_places)
    have "\<exists>st1. wake_thread cpu t t y ?u = Some st1 \<and> sched_inv s st1"
    proof (cases "t \<in># queued ?u")
      case True
      obtain st1 where tr: "transition t Runnable None (Some y) ?u = Some st1"
        using transition_exists sched_invD(3)[OF invu] regu by blast
      have "sched_inv s st1"
      proof (rule inv_transition_same[OF invu tr])
        show "exec ?u t = Some Runnable" if s
          using invu that True by (simp add: sched_inv_def strict_inv_def)
      qed
      with True tr show ?thesis
        by (simp add: wake_thread_def push_runnable_if_absent_def runnable_contains_queued)
    next
      case False
      then have "t \<notin># placed ?u" using ncur by (simp add: in_placed remove_from_wait_queues_places)
      then show ?thesis using inv_wake_thread[OF invu cpu regu, of y] by blast
    qed
    then obtain st1 where w: "wake_thread cpu t t y ?u = Some st1" and inv1: "sched_inv s st1" by blast
    have cur1: "current st1 = current st"
      using wake_thread_fields[OF w] by (simp add: remove_from_wait_queues_places)
    show ?thesis
    proof (cases "current st = None")
      case True
      then obtain d st2 where "schedule_next_locked cpu TriggerExplicit None st1 = (Inr d, st2)" "sched_inv s st2"
        using schedule_next_ok[OF inv1 cpu, of TriggerExplicit None] cur1 by auto
      with True w lk regu show ?thesis
        by (simp add: make_runnable_def Let_def wake_thread_def remove_from_wait_queues_places)
    next
      case False
      with w lk regu inv1 ncur show ?thesis
        by (auto simp: make_runnable_def Let_def wake_thread_def remove_from_wait_queues_places)
    qed
  qed
qed

lemma handle_time_wakeup_ok:
  assumes inv: "sched_inv s st" and cpu: "cpu < RUNNABLE_QUEUE_CPUS"
  shows "\<exists>res st'. handle_time_wakeup cpu ev st = Some (res, st') \<and> sched_inv s st'"
proof (cases "bt_get (waiting_timers st) (we_token ev)")
  case None
  with inv show ?thesis by (simp add: handle_time_wakeup_def)
next
  case (Some t)
  let ?u = "st\<lparr>waiting_timers := bt_remove (we_token ev) (waiting_timers st)\<rparr>"
  have w: "waiting st = add_mset t (waiting ?u)"
    using sched_invD(2)[OF inv] timer_waiters_split[OF _ Some]
    by (simp add: waiting_def shape_def)
  have invu: "sched_inv s ?u"
    using sched_invD(2)[OF inv] w
    by (intro inv_sub_waiting[OF inv]) (auto simp: same_core_def queued_def shape_def)
  have reg: "t \<in> bt_keys (threads st)"
    using sched_invD(5)[OF inv] w by (auto simp: in_placed)
  have regu: "t \<in> bt_keys (threads ?u)" using reg by simp
  have free: "t \<notin># placed ?u" if s
  proof -
    from inv that have "count (placed st) t \<le> 1" by (simp add: sched_inv_def strict_inv_def)
    moreover have "placed st = add_mset t (placed ?u)"
      using w by (simp add: placed_def on_cpu_def queued_def)
    ultimately show ?thesis by (simp add: not_in_iff)
  qed
  have lk: "lookup_thread_record ?u t = Inr t"
    by (rule lookup_thread_record_ok[OF sched_invD(3)[OF invu] regu])
  obtain st2 where wk: "wake_thread cpu t t TimerExpired ?u = Some st2" and inv2: "sched_inv s st2"
    using inv_wake_thread[OF invu cpu regu free] by blast
  have "sched_inv s (snd (wake_decision cpu TimeWake (current st) st2))"
    using wake_thread_fields[OF wk] by (intro wake_decision_ok[OF inv2 cpu]) simp
  then show ?thesis
    using Some lk wk invu
    by (cases "wake_decision cpu TimeWake (current st) st2") (auto simp: handle_time_wakeup_def Let_def)
qed

section \<open>Notifications\<close>

lemma wake_waiters_ok:
  assumes "sched_inv s st" "cpu < RUNNABLE_QUEUE_CPUS" "set ts \<subseteq> bt_keys (threads st)"
    "s \<Longrightarrow> distinct ts \<and> (\<forall>t\<in>set ts. t \<notin># placed st)"
  shows "\<exists>st'. wake_waiters cpu ts st = Some (True, st') \<and> sched_inv s st' \<and> current st' = current st"
  using assms
proof (induction ts arbitrary: st)
  case (Cons t ts)
  from Cons.prems have reg: "t \<in> bt_keys (threads st)" by simp
  have free: "s \<Longrightarrow> t \<notin># placed st" using Cons.prems(4) by simp
  obtain st1 where wk: "wake_thread cpu t t ObjectReady st = Some st1" and inv1: "sched_inv s st1"
    using inv_wake_thread[OF Cons.prems(1,2) reg free] by blast
  note f = wake_thread_fields[OF wk]
  have "u \<notin># placed st1" if s "u \<in> set ts" for u
  proof -
    have "u \<noteq> t" using Cons.prems(4) that by auto
    have "u \<notin># placed st" using Cons.prems(4) that by simp
    then have "u \<notin># queued st1"
      using wk \<open>u \<noteq> t\<close> push_runnable_places(1)[OF Cons.prems(2) sched_invD(2)[OF Cons.prems(1)], of t]
      by (auto simp: wake_thread_def in_placed push_runnable_if_absent_def dest!: transition_places(2)
          split: if_splits)
    with \<open>u \<notin># placed st\<close> f show ?thesis by (simp add: in_placed)
  qed
  then have "\<exists>st'. wake_waiters cpu ts st1 = Some (True, st') \<and> sched_inv s st' \<and> current st' = current st1"
    using Cons.prems f by (intro Cons.IH[OF inv1 Cons.prems(2)]) auto
  then show ?case
    using lookup_thread_record_ok[OF sched_invD(3)[OF Cons.prems(1)] reg] wk f by auto
qed simp

text \<open>Taking the waiters of an object out of their queue.\<close>

lemma inv_detach_object:
  assumes inv: "sched_inv s st" and get: "bt_get (waiting_objects st) e = Some q"
  defines "u \<equiv> st\<lparr>waiting_objects := bt_remove e (waiting_objects st)\<rparr>"
  shows "sched_inv s u" "set q \<subseteq> bt_keys (threads u)"
    "s \<Longrightarrow> distinct q \<and> (\<forall>t\<in>set q. t \<notin># placed u)"
proof -
  have w: "waiting st = mset q + waiting u"
    using sched_invD(2)[OF inv] wq_split[OF _ get] by (simp add: waiting_def shape_def u_def ac_simps)
  show "sched_inv s u"
    using sched_invD(2)[OF inv] w
    by (intro inv_sub_waiting[OF inv]) (auto simp: u_def same_core_def queued_def shape_def)
  have pl: "placed st = mset q + placed u"
    using w by (simp add: placed_def on_cpu_def queued_def u_def ac_simps)
  show "set q \<subseteq> bt_keys (threads u)"
    using sched_invD(5)[OF inv] pl by (auto simp: u_def)
  show "distinct q \<and> (\<forall>t\<in>set q. t \<notin># placed u)" if s
  proof -
    from inv that have "count (placed st) t \<le> 1" for t by (simp add: sched_inv_def strict_inv_def)
    then have c: "count (mset q) t + count (placed u) t \<le> 1" for t by (simp add: pl)
    have "distinct q"
      by (rule distinct_if_count) (use c in \<open>meson add_leD1\<close>)
    moreover have "t \<notin># placed u" if "t \<in> set q" for t
    proof -
      from that have "count (mset q) t \<ge> 1" by (simp add: Suc_leI)
      with c[of t] have "count (placed u) t = 0" by linarith
      then show ?thesis by (simp add: not_in_iff)
    qed
    ultimately show ?thesis by blast
  qed
qed


lemma finish_notify_ok:
  assumes inv: "sched_inv s st" and cpu: "cpu < RUNNABLE_QUEUE_CPUS" and prev: "previous = current st"
  shows "\<exists>res st'. finish_notify cpu e woke trigger previous st = Some (res, st') \<and> sched_inv s st'"
proof (cases "bt_get (waiting_objects st) e")
  case None
  have "sched_inv s (snd (wake_decision cpu trigger previous st))"
    using prev by (intro wake_decision_ok[OF inv cpu]) simp
  with None inv show ?thesis
    by (cases "wake_decision cpu trigger previous st")
       (auto simp: finish_notify_def wake_object_waiters_locked_def)
next
  case (Some q)
  let ?u = "st\<lparr>waiting_objects := bt_remove e (waiting_objects st)\<rparr>"
  note d = inv_detach_object[OF inv Some]
  from wake_waiters_ok[OF d(1) cpu d(2) d(3)] obtain st1 where
    w: "wake_waiters cpu q ?u = Some (True, st1)" "sched_inv s st1" "current st1 = current ?u"
    by blast
  have "sched_inv s (snd (wake_decision cpu trigger previous st1))"
    using prev w(3) by (intro wake_decision_ok[OF w(2) cpu]) simp
  with Some w show ?thesis
    by (cases "wake_decision cpu trigger previous st1")
       (auto simp: finish_notify_def wake_object_waiters_locked_def)
qed

lemma notify_object_ready_ok:
  assumes inv: "sched_inv s st" and cpu: "cpu < RUNNABLE_QUEUE_CPUS"
  shows "\<exists>res st'. notify_object_ready cpu e st = Some (res, st') \<and> sched_inv s st'"
proof (cases "bt_get (waiting_objects st) e")
  case None
  with inv show ?thesis by (simp add: notify_object_ready_def)
next
  case (Some q)
  let ?u = "st\<lparr>waiting_objects := bt_remove e (waiting_objects st)\<rparr>"
  note d = inv_detach_object[OF inv Some]
  from wake_waiters_ok[OF d(1) cpu d(2) d(3)] obtain st1 where
    w: "wake_waiters cpu q ?u = Some (True, st1)" "sched_inv s st1" "current st1 = current ?u"
    by blast
  have "sched_inv s (snd (wake_decision cpu ObjectWake (current st) st1))"
    using w(3) by (intro wake_decision_ok[OF w(2) cpu]) simp
  with Some w show ?thesis
    by (cases "wake_decision cpu ObjectWake (current st) st1") (auto simp: notify_object_ready_def)
qed

text \<open>Waking the first waiter of a packet or input queue.\<close>

lemma first_waiter_ok:
  assumes inv: "sched_inv s st" and cpu: "cpu < RUNNABLE_QUEUE_CPUS"
    and core: "same_core st u" and shape: "shape u" and timers: "waiting_timers u = waiting_timers st"
    and w: "waiting st = add_mset t (waiting u)"
  shows "lookup_thread_record u t = Inr t"
    and "\<exists>st2. wake_thread cpu t t y u = Some st2 \<and> sched_inv s st2 \<and> current st2 = current st"
proof -
  have invu: "sched_inv s u"
    using shape timers w by (intro inv_sub_waiting[OF inv core]) auto
  have reg: "t \<in> bt_keys (threads u)"
    using sched_invD(5)[OF inv] w core by (auto simp: in_placed same_core_def)
  show "lookup_thread_record u t = Inr t"
    by (rule lookup_thread_record_ok[OF sched_invD(3)[OF invu] reg])
  have "t \<notin># placed u" if s
  proof -
    from inv that have "count (placed st) t \<le> 1" by (simp add: sched_inv_def strict_inv_def)
    moreover have "placed st = add_mset t (placed u)"
      using w core same_core_on_cpu[OF core] by (simp add: placed_def same_core_def)
    ultimately show ?thesis by (simp add: not_in_iff)
  qed
  then obtain st2 where wk: "wake_thread cpu t t y u = Some st2" "sched_inv s st2"
    using inv_wake_thread[OF invu cpu reg] by blast
  moreover have "current st2 = current st"
    using wake_thread_fields(1)[OF wk(1)] core by (simp add: same_core_def)
  ultimately show "\<exists>st2. wake_thread cpu t t y u = Some st2 \<and> sched_inv s st2 \<and> current st2 = current st"
    by blast
qed

lemma notify_packet_ready_ok:
  assumes inv: "sched_inv s st" and cpu: "cpu < RUNNABLE_QUEUE_CPUS"
  shows "\<exists>res st'. notify_packet_ready cpu e st = Some (res, st') \<and> sched_inv s st'"
proof (cases "\<exists>t q. bt_get (waiting_packets st) e = Some (t # q)")
  case False
  then show ?thesis
    using finish_notify_ok[OF inv cpu refl, of e False NetworkWake]
    by (auto simp: notify_packet_ready_def split: option.splits list.splits)
next
  case True
  then obtain t q where get: "bt_get (waiting_packets st) e = Some (t # q)" by blast
  let ?u = "st\<lparr>waiting_packets := bt_insert e q (waiting_packets st)\<rparr>"
  have w: "waiting st = add_mset t (waiting ?u)"
    using sched_invD(2)[OF inv] wq_split[OF _ get] by (simp add: waiting_def shape_def wq_insert)
  have u: "same_core st ?u" "shape ?u" "waiting_timers ?u = waiting_timers st"
    using sched_invD(2)[OF inv] by (auto simp: same_core_def queued_def shape_def)
  note fw = first_waiter_ok[OF inv cpu u w]
  from fw(2)[of PacketReady] obtain st2 where wk: "wake_thread cpu t t PacketReady ?u = Some st2"
    and inv2: "sched_inv s st2" and cur2: "current st2 = current st" by blast
  let ?v = "if q = [] then st2\<lparr>waiting_packets := bt_remove e (waiting_packets st2)\<rparr> else st2"
  have inv3: "sched_inv s ?v"
  proof (cases "q = []")
    case True
    have "waiting_packets st2 = bt_insert e [] (waiting_packets st)"
      using wake_thread_fields[OF wk] True by simp
    then have "wq (bt_remove e (waiting_packets st2)) = wq (waiting_packets st2)"
      using sched_invD(2)[OF inv2] wq_split[of "waiting_packets st2" e "[]"] by (simp add: shape_def)
    then show ?thesis
      using True inv2 sched_invD(2)[OF inv2]
      by (auto intro!: inv_irrelevant[OF inv2] simp: same_core_def queued_def waiting_def shape_def)
  qed (use inv2 in simp)
  have "current ?v = current st" using cur2 by simp
  from finish_notify_ok[OF inv3 cpu this[symmetric], of e True NetworkWake] show ?thesis
    using get fw(1) wk by (simp add: notify_packet_ready_def Let_def)
qed

lemma notify_input_ready_ok:
  assumes inv: "sched_inv s st" and cpu: "cpu < RUNNABLE_QUEUE_CPUS"
  shows "\<exists>res st'. notify_input_ready cpu e st = Some (res, st') \<and> sched_inv s st'"
proof (cases "\<exists>t q. bt_get (waiting_inputs st) e = Some (t # q)")
  case False
  then show ?thesis
    using finish_notify_ok[OF inv cpu refl, of e False InputWake]
    by (auto simp: notify_input_ready_def split: option.splits list.splits)
next
  case True
  then obtain t q where get: "bt_get (waiting_inputs st) e = Some (t # q)" by blast
  let ?u = "st\<lparr>waiting_inputs := bt_insert e q (waiting_inputs st)\<rparr>"
  have w: "waiting st = add_mset t (waiting ?u)"
    using sched_invD(2)[OF inv] wq_split[OF _ get] by (simp add: waiting_def shape_def wq_insert)
  have u: "same_core st ?u" "shape ?u" "waiting_timers ?u = waiting_timers st"
    using sched_invD(2)[OF inv] by (auto simp: same_core_def queued_def shape_def)
  note fw = first_waiter_ok[OF inv cpu u w]
  from fw(2)[of InputReady] obtain st2 where wk: "wake_thread cpu t t InputReady ?u = Some st2"
    and inv2: "sched_inv s st2" and cur2: "current st2 = current st" by blast
  let ?v = "if q = [] then st2\<lparr>waiting_inputs := bt_remove e (waiting_inputs st2)\<rparr> else st2"
  have inv3: "sched_inv s ?v"
  proof (cases "q = []")
    case True
    have "waiting_inputs st2 = bt_insert e [] (waiting_inputs st)"
      using wake_thread_fields[OF wk] True by simp
    then have "wq (bt_remove e (waiting_inputs st2)) = wq (waiting_inputs st2)"
      using sched_invD(2)[OF inv2] wq_split[of "waiting_inputs st2" e "[]"] by (simp add: shape_def)
    then show ?thesis
      using True inv2 sched_invD(2)[OF inv2]
      by (auto intro!: inv_irrelevant[OF inv2] simp: same_core_def queued_def waiting_def shape_def)
  qed (use inv2 in simp)
  have "current ?v = current st" using cur2 by simp
  from finish_notify_ok[OF inv3 cpu this[symmetric], of e True InputWake] show ?thesis
    using get fw(1) wk by (simp add: notify_input_ready_def Let_def)
qed

text \<open>Waking the first receiver that is blocked. In the strict case that is the first one.\<close>

lemma wake_first_receiver_ok:
  assumes "sched_inv s st" "cpu < RUNNABLE_QUEUE_CPUS" "set q \<subseteq> bt_keys (threads st)"
    "s \<Longrightarrow> \<forall>t\<in>set q. t \<notin># placed st \<and> exec st t = Some Blocked"
  shows "\<exists>b q' st'. wake_first_receiver cpu q st = Some (b, q', st') \<and> sched_inv s st' \<and>
     current st' = current st \<and> threads st' = threads st \<and> waiting st' = waiting st \<and>
     waiting_receivers st' = waiting_receivers st \<and> waiting_timers st' = waiting_timers st \<and>
     mset q' \<subseteq># mset q \<and> (q \<noteq> [] \<and> s \<longrightarrow> b \<and> q' = tl q) \<and>
     (\<forall>u. u \<noteq> hd q \<longrightarrow> s \<longrightarrow> u \<notin># placed st \<longrightarrow> u \<notin># placed st' \<and> exec st' u = exec st u)"
  using assms
proof (induction q)
  case (Cons t q)
  from Cons.prems have reg: "t \<in> bt_keys (threads st)" by simp
  note lk = lookup_thread_record_ok[OF sched_invD(3)[OF Cons.prems(1)] reg]
  show ?case
  proof (cases "is_blocked st t")
    case True
    have free: "s \<Longrightarrow> t \<notin># placed st" using Cons.prems(4) by simp
    obtain st1 where wk: "wake_thread cpu t t ChannelMessage st = Some st1" and inv1: "sched_inv s st1"
      using inv_wake_thread[OF Cons.prems(1,2) reg free] by blast
    note f = wake_thread_fields[OF wk]
    have other: "u \<notin># placed st1 \<and> exec st1 u = exec st u" if "u \<noteq> t" "u \<notin># placed st" for u
    proof -
      obtain st0 where st0: "st0 = push_runnable_if_absent cpu t st"
        "transition t Runnable None (Some ChannelMessage) st0 = Some st1"
        using wk by (simp add: wake_thread_def)
      have "u \<notin># queued st0"
        using that push_runnable_places(1)[OF Cons.prems(2) sched_invD(2)[OF Cons.prems(1)], of t]
        by (auto simp: st0(1) in_placed push_runnable_if_absent_def)
      moreover have "exec st0 u = exec st u" by (simp add: st0(1) exec_def)
      ultimately show ?thesis
        using that f transition_places(2)[OF st0(2)] transition_exec[OF st0(2), of u]
        by (simp add: in_placed)
    qed
    show ?thesis
      using True lk wk inv1 f other by auto
  next
    case False
    then have "\<not> s" using Cons.prems(4) by (auto simp: is_blocked_exec)
    with Cons.IH[OF Cons.prems(1,2)] Cons.prems(3) obtain b q' st' where
      IH: "wake_first_receiver cpu q st = Some (b, q', st')" "sched_inv s st'"
        "current st' = current st" "threads st' = threads st" "waiting st' = waiting st"
        "waiting_receivers st' = waiting_receivers st" "waiting_timers st' = waiting_timers st"
        "mset q' \<subseteq># mset q"
      by auto
    have "mset q' \<subseteq># mset (t # q)"
      by (rule subset_mset.trans[OF IH(8)]) simp
    with IH lk False \<open>\<not> s\<close> show ?thesis by simp
  qed
qed (auto intro: exI[of _ False])

lemma notify_receivers_ok:
  fixes e :: object_id and st :: scheduler_state
  assumes inv: "sched_inv s st" and cpu: "cpu < RUNNABLE_QUEUE_CPUS"
  defines "q \<equiv> (case bt_get (waiting_receivers st) e of None \<Rightarrow> [] | Some q \<Rightarrow> q)"
    and "u \<equiv> st\<lparr>waiting_receivers := bt_remove e (waiting_receivers st)\<rparr>"
  shows "\<exists>b q' st1 v. wake_first_receiver cpu q u = Some (b, q', st1) \<and>
    v = (if q' = [] then st1 else st1\<lparr>waiting_receivers := bt_insert e q' (waiting_receivers st1)\<rparr>) \<and>
    sched_inv s u \<and> sched_inv s v \<and> current v = current st \<and> (q \<noteq> [] \<and> s \<longrightarrow> b)"
proof -
  let ?u = "st\<lparr>waiting_receivers := bt_remove e (waiting_receivers st)\<rparr>"
  have w: "waiting st = mset q + waiting ?u"
    using sched_invD(2)[OF inv]
    by (cases "bt_get (waiting_receivers st) e")
       (auto simp: q_def waiting_def shape_def bt_remove_absent wq_split ac_simps)
  have pl: "placed st = mset q + placed ?u"
    using w by (simp add: placed_def on_cpu_def queued_def ac_simps)
  have invu: "sched_inv s ?u"
    using sched_invD(2)[OF inv] w
    by (intro inv_sub_waiting[OF inv]) (auto simp: same_core_def queued_def shape_def)
  have reg: "set q \<subseteq> bt_keys (threads ?u)"
    using sched_invD(5)[OF inv] pl by auto
  have cnt: "count (mset q) t + count (placed ?u) t \<le> 1" if s for t
    using inv that by (simp add: sched_inv_def strict_inv_def flip: count_union pl)
  have free: "\<forall>t\<in>set q. t \<notin># placed ?u \<and> exec ?u t = Some Blocked" if s
  proof
    fix t assume t: "t \<in> set q"
    then have "count (mset q) t \<ge> 1" by (simp add: Suc_leI)
    with cnt[OF that, of t] have "count (placed ?u) t = 0" by linarith
    moreover have "exec st t = Some Blocked"
      using inv that t w by (simp add: sched_inv_def strict_inv_def)
    ultimately show "t \<notin># placed ?u \<and> exec ?u t = Some Blocked"
      by (simp add: not_in_iff exec_def)
  qed
  obtain b q' st1 where wf: "wake_first_receiver cpu q ?u = Some (b, q', st1)" and inv1: "sched_inv s st1"
    and f: "current st1 = current ?u" "threads st1 = threads ?u" "waiting st1 = waiting ?u"
      "waiting_receivers st1 = waiting_receivers ?u" "waiting_timers st1 = waiting_timers ?u"
    and q': "mset q' \<subseteq># mset q" "q \<noteq> [] \<and> s \<longrightarrow> b \<and> q' = tl q"
    and other: "\<forall>u. u \<noteq> hd q \<longrightarrow> s \<longrightarrow> u \<notin># placed ?u \<longrightarrow> u \<notin># placed st1 \<and> exec st1 u = exec ?u u"
    using wake_first_receiver_ok[OF invu cpu reg free] by blast
  let ?v = "if q' = [] then st1 else st1\<lparr>waiting_receivers := bt_insert e q' (waiting_receivers st1)\<rparr>"
  have inv2: "sched_inv s ?v"
  proof (cases "q' = []")
    case False
    let ?x = "st1\<lparr>waiting_receivers := bt_insert e q' (waiting_receivers st1)\<rparr>"
    have "bt_remove e (waiting_receivers st1) = waiting_receivers st1"
      using f(4) by (intro bt_remove_absent) simp
    then have wx: "waiting ?x = mset q' + waiting st1"
      using sched_invD(2)[OF inv1] by (simp add: waiting_def shape_def wq_insert ac_simps)
    have "sched_inv s ?x"
    proof (rule inv_add_waiting[OF inv1 _ _ wx])
      show "same_core st1 ?x" by (simp add: same_core_def queued_def)
      show "shape ?x" using sched_invD(2)[OF inv1] by (simp add: shape_def)
      show "set_mset (mset q') \<subseteq> bt_keys (threads st1)"
        using reg f(2) set_mset_mono[OF q'(1)] by auto
      show "count (mset q') t \<le> 1" if s for t
        using mset_subset_eq_count[OF q'(1), of t] cnt[OF that, of t] by linarith
      show "t \<notin># placed st1 \<and> exec st1 t = Some Blocked" if s "t \<in># mset q'" for t
      proof -
        have ne: "q \<noteq> []" using q'(1) False by auto
        with q'(2) that have tl: "t \<in> set (tl q)" by simp
        have "distinct q"
          by (rule distinct_if_count) (use cnt[OF that(1)] in \<open>meson add_leD1\<close>)
        then have "t \<noteq> hd q" using ne tl by (cases q) auto
        moreover have "t \<in> set q" using tl by (meson list.set_sel(2) ne)
        ultimately show ?thesis
          using other free[OF that(1)] that(1) by auto
      qed
      show "\<forall>k\<in>bt_keys (waiting_timers ?x). k < next_wake_token st1"
        using inv1 by (simp add: sched_inv_def base_inv_def)
    qed
    with False show ?thesis by simp
  qed (use inv1 in simp)
  have "current ?v = current st" using f by simp
  with wf inv2 invu q'(2) show ?thesis by (auto simp: u_def)
qed

lemma notify_channel_ready_ok:
  assumes inv: "sched_inv s st" and cpu: "cpu < RUNNABLE_QUEUE_CPUS"
  shows "\<exists>res st'. notify_channel_ready cpu e st = Some (res, st') \<and> sched_inv s st'"
proof -
  from notify_receivers_ok[OF inv cpu, of e] obtain b q' st1 v where
    w: "wake_first_receiver cpu (case bt_get (waiting_receivers st) e of None \<Rightarrow> [] | Some q \<Rightarrow> q)
        (st\<lparr>waiting_receivers := bt_remove e (waiting_receivers st)\<rparr>) = Some (b, q', st1)"
      "v = (if q' = [] then st1 else st1\<lparr>waiting_receivers := bt_insert e q' (waiting_receivers st1)\<rparr>)"
      "sched_inv s v" "current v = current st"
    by blast
  from finish_notify_ok[OF w(3) cpu w(4)[symmetric], of e b IpcWake] show ?thesis
    using w(1,2) by (simp add: notify_channel_ready_def)
qed


section \<open>Ticks\<close>

lemma move_queued_places:
  assumes "shape st" "source < RUNNABLE_QUEUE_CPUS" "target < RUNNABLE_QUEUE_CPUS"
    "t \<in> set (runnable_queues st ! source)"
  shows "queued (move_queued source target t st) = queued st" "shape (move_queued source target t st)"
    "bt_keys (queued_idle_ticks (move_queued source target t st)) = insert t (bt_keys (queued_idle_ticks st))"
proof -
  define qs where "qs = (runnable_queues st)[source := remove1 t (runnable_queues st ! source)]"
  have len: "length (runnable_queues st) = RUNNABLE_QUEUE_CPUS" using assms(1) by (simp add: shape_def)
  have "mset (concat qs) + mset (runnable_queues st ! source) =
      mset (concat (runnable_queues st)) + mset (remove1 t (runnable_queues st ! source))"
    unfolding qs_def using assms(2) len by (intro mset_concat_update) simp
  moreover have "mset (runnable_queues st ! source) = add_mset t (mset (remove1 t (runnable_queues st ! source)))"
    using assms(4) by simp
  ultimately have "add_mset t (mset (concat qs)) = mset (concat (runnable_queues st))"
    by (metis add_mset_add_single add_right_cancel union_mset_add_mset_left union_mset_add_mset_right)
  then show "queued (move_queued source target t st) = queued st"
    using assms(3) len mset_concat_snoc[of target qs t]
    by (simp add: queued_def move_queued_def Let_def qs_def)
  show "shape (move_queued source target t st)"
    using assms(1) by (simp add: move_queued_def Let_def shape_def)
  show "bt_keys (queued_idle_ticks (move_queued source target t st)) = insert t (bt_keys (queued_idle_ticks st))"
    by (simp add: move_queued_def Let_def)
qed

text \<open>Changes of the run queues that keep the queued threads, and of the idle clocks that stay
  clocks of queued threads.\<close>

lemma inv_rearrange:
  assumes inv: "sched_inv s st" and shape: "shape st'" and q: "queued st' = queued st"
    and idle: "bt_keys (queued_idle_ticks st) \<subseteq> bt_keys (queued_idle_ticks st')"
      "bt_keys (queued_idle_ticks st') \<subseteq> set_mset (queued st)"
    and same: "current st' = current st" "threads st' = threads st" "objects st' = objects st"
      "waiting st' = waiting st" "waiting_timers st' = waiting_timers st"
      "next_wake_token st' = next_wake_token st"
  shows "sched_inv s st'"
proof (rule sched_invI)
  have pl: "placed st' = placed st" "exec st' = exec st"
    using q same by (simp_all add: placed_def on_cpu_def exec_def[abs_def])
  show "base_inv st'"
    using inv shape q idle same pl by (simp add: sched_inv_def base_inv_def threads_ok_def)
  show "strict_inv st'" if s
    using inv that q idle same pl unfolding sched_inv_def strict_inv_def by auto
qed

lemma take_stolen_fields:
  "current (snd (take_stolen cpu cs n st)) = current st"
  "threads (snd (take_stolen cpu cs n st)) = threads st"
  "objects (snd (take_stolen cpu cs n st)) = objects st"
  "waiting (snd (take_stolen cpu cs n st)) = waiting st"
  "waiting_timers (snd (take_stolen cpu cs n st)) = waiting_timers st"
  "next_wake_token (snd (take_stolen cpu cs n st)) = next_wake_token st"
  by (induction cpu cs n st rule: take_stolen.induct) (auto simp: Let_def move_queued_def waiting_def)

lemma take_moved_fields:
  "current (snd (take_moved b e cs n st)) = current st"
  "threads (snd (take_moved b e cs n st)) = threads st"
  "objects (snd (take_moved b e cs n st)) = objects st"
  "waiting (snd (take_moved b e cs n st)) = waiting st"
  "waiting_timers (snd (take_moved b e cs n st)) = waiting_timers st"
  "next_wake_token (snd (take_moved b e cs n st)) = next_wake_token st"
  by (induction b e cs n st rule: take_moved.induct) (auto simp: Let_def move_queued_def waiting_def)

definition idle_ok :: "scheduler_state \<Rightarrow> scheduler_state \<Rightarrow> bool" where
  "idle_ok st st' \<longleftrightarrow>
     shape st' \<and> queued st' = queued st \<and>
     bt_keys (queued_idle_ticks st) \<subseteq> bt_keys (queued_idle_ticks st') \<and>
     bt_keys (queued_idle_ticks st') \<subseteq> set_mset (queued st)"

lemma idle_ok_move:
  assumes "shape st" "source < RUNNABLE_QUEUE_CPUS" "target < RUNNABLE_QUEUE_CPUS"
    "t \<in> set (runnable_queues st ! source)" "bt_keys (queued_idle_ticks st) \<subseteq> set_mset (queued st)"
  shows "idle_ok st (move_queued source target t st)"
proof -
  have "runnable_queues st ! source \<in> set (runnable_queues st)"
    using assms(1,2) by (simp add: shape_def)
  then have "t \<in># queued st" using assms(4) by (auto simp: queued_def)
  then show ?thesis
    using move_queued_places[OF assms(1-4)] assms(5) by (auto simp: idle_ok_def)
qed

lemma idle_ok_trans: "idle_ok a b \<Longrightarrow> idle_ok b c \<Longrightarrow> idle_ok a c"
  by (auto simp: idle_ok_def)

lemma idle_ok_refl: "shape st \<Longrightarrow> bt_keys (queued_idle_ticks st) \<subseteq> set_mset (queued st) \<Longrightarrow> idle_ok st st"
  by (simp add: idle_ok_def)

lemma idle_ok_counters [simp]:
  "idle_ok a (b\<lparr>stolen_per_cpu := (stolen_per_cpu b)[i := v]\<rparr>) = idle_ok a b"
  "idle_ok a (b\<lparr>rebalance_moves := n\<rparr>) = idle_ok a b"
  by (simp_all add: idle_ok_def shape_def queued_def)

lemma take_stolen_idle_ok:
  assumes "shape st" "cpu < RUNNABLE_QUEUE_CPUS" "list_all (\<lambda>c. fst c < RUNNABLE_QUEUE_CPUS) cs"
    "bt_keys (queued_idle_ticks st) \<subseteq> set_mset (queued st)"
  shows "idle_ok st (snd (take_stolen cpu cs n st))"
  using assms
proof (induction cpu cs n st rule: take_stolen.induct)
  case (2 cpu source t cs n st)
  show ?case
  proof (cases "t \<in> set (runnable_queues st ! source)")
    case True
    define st1 where "st1 = move_queued source cpu t st"
    define st2 where "st2 = st1\<lparr>stolen_per_cpu := (stolen_per_cpu st1)
                    [cpu := saturating_add u64_max (stolen_per_cpu st1 ! cpu) 1]\<rparr>"
    have ok: "idle_ok st st2"
      using idle_ok_move[of st source cpu t] 2(3-6) True by (simp add: st1_def st2_def)
    then have "idle_ok st2 (snd (take_stolen cpu cs (n + 1) st2))"
      using 2(1)[OF True st1_def, folded st2_def] 2(4,5) by (auto simp: idle_ok_def)
    from idle_ok_trans[OF ok this] True show ?thesis
      unfolding st1_def st2_def by (simp add: Let_def)
  next
    case False
    with 2 show ?thesis by simp
  qed
qed (simp add: idle_ok_refl)

lemma take_moved_idle_ok:
  assumes "shape st" "b < RUNNABLE_QUEUE_CPUS" "e < RUNNABLE_QUEUE_CPUS"
    "bt_keys (queued_idle_ticks st) \<subseteq> set_mset (queued st)"
  shows "idle_ok st (snd (take_moved b e cs n st))"
  using assms
proof (induction b e cs n st rule: take_moved.induct)
  case (2 b e t cs n st)
  show ?case
  proof (cases "t \<in> set (runnable_queues st ! b)")
    case True
    define st1 where "st1 = move_queued b e t st"
    define st2 where "st2 = st1\<lparr>rebalance_moves := saturating_add u64_max (rebalance_moves st1) 1\<rparr>"
    have ok: "idle_ok st st2"
      using idle_ok_move[of st b e t] 2(3-6) True by (simp add: st1_def st2_def)
    then have "idle_ok st2 (snd (take_moved b e cs (n + 1) st2))"
      using 2(1)[OF True st1_def, folded st2_def] 2(4,5) by (auto simp: idle_ok_def)
    from idle_ok_trans[OF ok this] True show ?thesis
      unfolding st1_def st2_def by (simp add: Let_def)
  next
    case False
    with 2 show ?thesis by simp
  qed
qed (simp add: idle_ok_refl)

lemma steal_scan_queue_victims:
  "list_all (\<lambda>c. fst c < n) cs \<Longrightarrow> v < n \<Longrightarrow> list_all (\<lambda>c. fst c < n) (steal_scan_queue idle v ts cs)"
  by (induction idle v ts cs rule: steal_scan_queue.induct) auto

lemma RUNNABLE_QUEUE_CPUS_pos [simp]: "0 < RUNNABLE_QUEUE_CPUS" "RUNNABLE_QUEUE_CPUS \<noteq> 0"
  by (simp_all add: RUNNABLE_QUEUE_CPUS_def)

lemma steal_scan_victims:
  "list_all (\<lambda>c. fst c < RUNNABLE_QUEUE_CPUS) cs \<Longrightarrow>
   list_all (\<lambda>c. fst c < RUNNABLE_QUEUE_CPUS) (steal_scan st cpu start offs cs)"
  by (induction st cpu start offs cs rule: steal_scan.induct) (auto simp: Let_def steal_scan_queue_victims)

lemma inv_idle_ok:
  assumes inv: "sched_inv s st" and ok: "idle_ok st st'"
    and same: "current st' = current st" "threads st' = threads st" "objects st' = objects st"
      "waiting st' = waiting st" "waiting_timers st' = waiting_timers st"
      "next_wake_token st' = next_wake_token st"
  shows "sched_inv s st'"
  using ok by (intro inv_rearrange[OF inv _ _ _ _ same]) (auto simp: idle_ok_def)

lemma sched_inv_idle: "sched_inv s st \<Longrightarrow> bt_keys (queued_idle_ticks st) \<subseteq> set_mset (queued st)"
  by (simp add: sched_inv_def base_inv_def)

lemma inv_steal_idle:
  assumes inv: "sched_inv s st" and cpu: "cpu < RUNNABLE_QUEUE_CPUS"
  shows "sched_inv s (snd (steal_idle_runnables_locked cpu st))"
proof -
  define st1 where "st1 = st\<lparr>steal_attempts := saturating_add u64_max (steal_attempts st) 1\<rparr>"
  define start where "start = steal_scan_cursor st1 ! cpu"
  define cs where "cs = steal_scan st1 cpu start [1..<RUNNABLE_QUEUE_CPUS + 1] []"
  define st2 where "st2 = st1\<lparr>steal_scan_cursor := (steal_scan_cursor st1)
                      [cpu := (start + 1) mod RUNNABLE_QUEUE_CPUS]\<rparr>"
  have inv2: "sched_inv s st2"
    using sched_invD(2)[OF inv]
    by (intro inv_irrelevant[OF inv])
       (auto simp: st1_def st2_def same_core_def queued_def waiting_def shape_def)
  have vs: "list_all (\<lambda>c. fst c < RUNNABLE_QUEUE_CPUS) cs"
    unfolding cs_def by (rule steal_scan_victims) simp
  have "sched_inv s (snd (take_stolen cpu cs 0 st2))"
    by (rule inv_idle_ok[OF inv2 take_stolen_idle_ok[OF sched_invD(2)[OF inv2] cpu vs sched_inv_idle[OF inv2]]])
       (simp_all add: take_stolen_fields)
  then show ?thesis
    by (simp add: steal_idle_runnables_locked_def Let_def st1_def start_def cs_def st2_def)
qed

lemma plan_foldl_bound:
  assumes "fst be < n" "snd be < n" "set is \<subseteq> {..<n}"
  shows "fst (foldl (plan_step d) be is) < n \<and> snd (foldl (plan_step d) be is) < n"
  using assms by (induction "is" arbitrary: be) (auto simp: plan_step_def)

lemma rebalance_plan_bounds:
  assumes "rebalance_plan d = Some (b, e, m)"
  shows "b < RUNNABLE_QUEUE_CPUS" "e < RUNNABLE_QUEUE_CPUS" "b \<noteq> e"
    "m = d ! b - BALANCE_OVERCOMMIT_RATIO * max (sum_list d div RUNNABLE_QUEUE_CPUS) 1" "0 < m"
  using assms plan_foldl_bound[of "(0, 0)" RUNNABLE_QUEUE_CPUS "[0..<RUNNABLE_QUEUE_CPUS]" d]
  by (auto simp: rebalance_plan_def Let_def lessThan_atLeast0 split: prod.splits if_splits)

lemma inv_push_balance:
  assumes inv: "sched_inv s st"
  shows "sched_inv s (snd (push_balance_locked st))"
proof (cases "rebalance_plan (map length (runnable_queues st))")
  case None
  with inv show ?thesis by (simp add: push_balance_locked_def)
next
  case (Some p)
  obtain b e m where p: "p = (b, e, m)" by (cases p)
  note bd = rebalance_plan_bounds[OF Some[unfolded p]]
  have "sched_inv s (snd (take_moved b e cs 0 st))" for cs
    by (rule inv_idle_ok[OF inv take_moved_idle_ok[OF sched_invD(2)[OF inv] bd(1,2) sched_inv_idle[OF inv]]])
       (simp_all add: take_moved_fields)
  then show ?thesis by (simp add: push_balance_locked_def Some p)
qed

lemma inv_handle_tick:
  assumes inv: "sched_inv s st" and cpu: "cpu < RUNNABLE_QUEUE_CPUS"
  shows "sched_inv s (snd (sched_handle_tick n cpu em st))"
proof -
  have aged: "sched_inv s (st\<lparr>ticks_remaining := a, preemption_pending := b, tick_counter := c,
      queued_idle_ticks := bt_map_values f (queued_idle_ticks st)\<rparr>)" for a b c f
    using sched_invD(2)[OF inv] sched_inv_idle[OF inv]
    by (intro inv_rearrange[OF inv]) (auto simp: queued_def waiting_def shape_def)
  have aged': "sched_inv s (st\<lparr>ticks_remaining := a, tick_counter := c,
      queued_idle_ticks := bt_map_values f (queued_idle_ticks st)\<rparr>)" for a c f
    using sched_invD(2)[OF inv] sched_inv_idle[OF inv]
    by (intro inv_rearrange[OF inv]) (auto simp: queued_def waiting_def shape_def)
  show ?thesis
    using inv aged aged' inv_push_balance[OF inv_steal_idle[OF aged cpu]]
      inv_push_balance[OF inv_steal_idle[OF aged' cpu]]
    by (simp add: sched_handle_tick_def Let_def)
qed

lemma inv_consume_preemption:
  assumes inv: "sched_inv s st"
  shows "sched_inv s (snd (consume_preemption st))"
  using sched_invD(2)[OF inv] inv
  by (auto simp: consume_preemption_def same_core_def queued_def waiting_def shape_def
      intro!: inv_irrelevant[OF inv])

end
