(* ===== verification/Scheduler_Props.thy ===== *)
theory Scheduler_Props
  imports Scheduler_Inv "HOL-Library.Code_Target_Nat"
begin

text \<open>
  What the scheduler guarantees over its histories: the references it keeps
  are to registered threads, a thread is in one place with the matching state
  as long as no receive carries a deadline, queued threads run in turn, and
  stealing and balancing only move idle threads between queues. Two
  interleavings show where the source falls short of its own comments.
\<close>

section \<open>Histories\<close>

text \<open>
  A history runs the operations on any CPU. In between, the rest of the kernel
  creates and drops objects (the scheduler's own references keep its threads
  alive), the clock ticks and the input registry is polled. In a strict history no
  receive has a deadline and only the scheduler changes the execution state of a
  registered thread.
\<close>

inductive sched_step :: "bool \<Rightarrow> scheduler_state \<Rightarrow> scheduler_state \<Rightarrow> bool" for strict where
  step_register: "thread_at (objects st) r \<noteq> None \<Longrightarrow> register_thread r st = Some (res, st') \<Longrightarrow>
     sched_step strict st st'"
| step_make_runnable: "cpu < RUNNABLE_QUEUE_CPUS \<Longrightarrow> make_runnable cpu t y st = Some (res', st') \<Longrightarrow>
     sched_step strict st st'"
| step_yield: "cpu < RUNNABLE_QUEUE_CPUS \<Longrightarrow> yield_current cpu st = (d, st') \<Longrightarrow>
     sched_step strict st st'"
| step_preempt: "cpu < RUNNABLE_QUEUE_CPUS \<Longrightarrow> preempt_current_if_needed cpu st = (d, st') \<Longrightarrow>
     sched_step strict st st'"
| step_receive: "cpu < RUNNABLE_QUEUE_CPUS \<Longrightarrow> block_current_on_receive cpu e st = (d, st') \<Longrightarrow>
     sched_step strict st st'"
| step_receive_until: "cpu < RUNNABLE_QUEUE_CPUS \<Longrightarrow> (strict \<Longrightarrow> n = 0) \<Longrightarrow>
     block_current_on_receive_until cpu e n st = (d, st') \<Longrightarrow> sched_step strict st st'"
| step_packet: "cpu < RUNNABLE_QUEUE_CPUS \<Longrightarrow> block_current_on_packet_receive cpu e st = (d, st') \<Longrightarrow>
     sched_step strict st st'"
| step_input: "cpu < RUNNABLE_QUEUE_CPUS \<Longrightarrow> block_current_on_input_receive cpu e st = (d, st') \<Longrightarrow>
     sched_step strict st st'"
| step_input_locked: "cpu < RUNNABLE_QUEUE_CPUS \<Longrightarrow> block_on_input_locked cpu e raced st = (d, st') \<Longrightarrow>
     sched_step strict st st'"
| step_object: "cpu < RUNNABLE_QUEUE_CPUS \<Longrightarrow> block_current_on_object cpu e st = (d, st') \<Longrightarrow>
     sched_step strict st st'"
| step_until: "cpu < RUNNABLE_QUEUE_CPUS \<Longrightarrow> block_current_until cpu deadline st = (td, st') \<Longrightarrow>
     sched_step strict st st'"
| step_terminate: "cpu < RUNNABLE_QUEUE_CPUS \<Longrightarrow> terminate_current cpu st = (d, st') \<Longrightarrow>
     sched_step strict st st'"
| step_time_wakeup: "cpu < RUNNABLE_QUEUE_CPUS \<Longrightarrow> handle_time_wakeup cpu ev st = Some (od, st') \<Longrightarrow>
     sched_step strict st st'"
| step_notify_channel: "cpu < RUNNABLE_QUEUE_CPUS \<Longrightarrow> notify_channel_ready cpu e st = Some (od, st') \<Longrightarrow>
     sched_step strict st st'"
| step_notify_packet: "cpu < RUNNABLE_QUEUE_CPUS \<Longrightarrow> notify_packet_ready cpu e st = Some (od, st') \<Longrightarrow>
     sched_step strict st st'"
| step_notify_input: "cpu < RUNNABLE_QUEUE_CPUS \<Longrightarrow> notify_input_ready cpu e st = Some (od, st') \<Longrightarrow>
     sched_step strict st st'"
| step_notify_object: "cpu < RUNNABLE_QUEUE_CPUS \<Longrightarrow> notify_object_ready cpu e st = Some (od, st') \<Longrightarrow>
     sched_step strict st st'"
| step_tick: "cpu < RUNNABLE_QUEUE_CPUS \<Longrightarrow> sched_handle_tick cpus cpu emitter st = (line, st') \<Longrightarrow>
     sched_step strict st st'"
| step_steal: "cpu < RUNNABLE_QUEUE_CPUS \<Longrightarrow> steal_idle_runnables cpu st = (moved, st') \<Longrightarrow>
     sched_step strict st st'"
| step_consume: "consume_preemption st = (b, st') \<Longrightarrow> sched_step strict st st'"
| step_objects: "(\<And>i th. thread_at objs i = Some th \<Longrightarrow> th_id th = i) \<Longrightarrow>
     (\<And>t. t \<in> bt_keys (threads st) \<Longrightarrow> thread_at objs t \<noteq> None) \<Longrightarrow>
     (\<And>t. strict \<Longrightarrow> t \<in> bt_keys (threads st) \<Longrightarrow> thread_at objs t = thread_at (objects st) t) \<Longrightarrow>
     sched_step strict st (st\<lparr>objects := objs\<rparr>)"
| step_devices: "sched_step strict st (st\<lparr>clock := clk, input_sources := ins\<rparr>)"

lemma inv_env_objects:
  assumes inv: "sched_inv s st"
    and ids: "\<And>i th. thread_at objs i = Some th \<Longrightarrow> th_id th = i"
    and live: "\<And>t. t \<in> bt_keys (threads st) \<Longrightarrow> thread_at objs t \<noteq> None"
    and same: "\<And>t. s \<Longrightarrow> t \<in> bt_keys (threads st) \<Longrightarrow> thread_at objs t = thread_at (objects st) t"
  shows "sched_inv s (st\<lparr>objects := objs\<rparr>)" (is "sched_inv s ?u")
proof (rule sched_invI)
  have pl: "placed ?u = placed st" "queued ?u = queued st" "waiting ?u = waiting st"
    by (simp_all add: placed_def on_cpu_def queued_def waiting_def)
  have "thread_at objs t \<noteq> None" if "bt_get (threads st) t = Some r" for t r
    using live[of t] that by (auto simp: bt_keys_dom)
  then show "base_inv ?u"
    using inv ids by (auto simp: sched_inv_def base_inv_def pl threads_ok_def shape_def)
  show "strict_inv ?u" if s
  proof -
    have "exec ?u t = exec st t" if "t \<in># placed st" for t
      using same[OF \<open>s\<close>] that sched_invD(5)[OF inv] by (auto simp: exec_def)
    with inv that show ?thesis
      by (auto simp: sched_inv_def strict_inv_def pl in_placed)
  qed
qed

lemma sched_step_inv:
  assumes "sched_step s st st'" "sched_inv s st"
  shows "sched_inv s st'"
  using assms
proof (induction rule: sched_step.induct)
  case (step_register st r res st')
  then show ?case using register_thread_ok[of s st r] by auto
next
  case (step_make_runnable cpu t y st res' st')
  then show ?case using make_runnable_ok[of s st cpu t y] by auto
next
  case (step_yield cpu st d st')
  then show ?case using yield_current_ok[of s st cpu] by auto
next
  case (step_preempt cpu st d st')
  then show ?case using preempt_current_ok[of s st cpu] by auto
next
  case (step_receive cpu e st d st')
  then show ?case using block_on_receive_ok[of s st cpu e] by auto
next
  case (step_receive_until cpu n e st d st')
  then show ?case using block_on_receive_until_ok[of s st cpu n e] by auto
next
  case (step_packet cpu e st d st')
  then show ?case using block_on_packet_ok[of s st cpu e] by auto
next
  case (step_input cpu e st d st')
  then show ?case using block_on_input_ok[of s st cpu e] by auto
next
  case (step_input_locked cpu e raced st d st')
  then show ?case using block_on_input_locked_ok[of s st cpu e raced] by auto
next
  case (step_object cpu e st d st')
  then show ?case using block_on_object_ok[of s st cpu e] by auto
next
  case (step_until cpu deadline st td st')
  then show ?case using block_current_until_ok[of s st cpu deadline] by auto
next
  case (step_terminate cpu st d st')
  then show ?case using terminate_current_ok[of s st cpu] by auto
next
  case (step_time_wakeup cpu ev st od st')
  then show ?case using handle_time_wakeup_ok[of s st cpu ev] by auto
next
  case (step_notify_channel cpu e st od st')
  then show ?case using notify_channel_ready_ok[of s st cpu e] by auto
next
  case (step_notify_packet cpu e st od st')
  then show ?case using notify_packet_ready_ok[of s st cpu e] by auto
next
  case (step_notify_input cpu e st od st')
  then show ?case using notify_input_ready_ok[of s st cpu e] by auto
next
  case (step_notify_object cpu e st od st')
  then show ?case using notify_object_ready_ok[of s st cpu e] by auto
next
  case (step_tick cpu cpus emitter st line st')
  then show ?case using inv_handle_tick[of s st cpu cpus emitter] by auto
next
  case (step_steal cpu st moved st')
  then show ?case using inv_steal_idle[of s st cpu] by (auto simp: steal_idle_runnables_def)
next
  case (step_consume st b st')
  then show ?case using inv_consume_preemption[of s st] by auto
next
  case (step_objects objs st)
  from step_objects(4) show ?case
    by (rule inv_env_objects) (use step_objects in blast)+
next
  case (step_devices st clk ins)
  then show ?case
    using sched_invD(2)[of s st]
    by (intro inv_irrelevant[OF step_devices]) (auto simp: same_core_def queued_def waiting_def shape_def)
qed

lemma scheduler_new_inv:
  assumes new: "scheduler_new objs clk ins b = Some st0"
    and ids: "\<And>i th. thread_at objs i = Some th \<Longrightarrow> th_id th = i"
  shows "sched_inv s st0"
proof -
  from new obtain th where th: "thread_at objs b = Some th"
    by (auto simp: scheduler_new_def split: option.splits)
  with ids have id: "th_id th = b" by blast
  define st where "st = \<lparr>current = Some b, runnable_queues = replicate RUNNABLE_QUEUE_CPUS [],
             queued_idle_ticks = [], stolen_per_cpu = replicate RUNNABLE_QUEUE_CPUS 0,
             steal_attempts = 0, rebalance_moves = 0, tick_counter = 0,
             steal_scan_cursor = replicate RUNNABLE_QUEUE_CPUS 0,
             threads = bt_insert b b [], waiting_timers = [],
             waiting_receivers = [], waiting_packets = [], waiting_inputs = [], waiting_objects = [],
             next_wake_token = 1, context_switches = 0, ticks_remaining = 1,
             preemption_pending = False, objects = objs, clock = clk, input_sources = ins\<rparr>"
  have tr: "transition b Running None (Some WakeBootstrap) st = Some st0"
    using new th id by (simp add: scheduler_new_def st_def)
  have empty: "concat (replicate n []) = []" for n :: nat by (induction n) auto
  have pl: "placed st0 = {#b#}" "queued st0 = {#}" "waiting st0 = {#}"
    using transition_places[OF tr]
    by (simp_all add: placed_def on_cpu_def queued_def waiting_def st_def empty)
  have "threads_ok st" using th ids by (auto simp: threads_ok_def st_def bt_get_def split: if_splits)
  then have "threads_ok st0" by (rule transition_threads_ok[OF tr])
  moreover have "shape st" by (simp add: shape_def st_def bt_inv_def)
  then have "shape st0" by (simp add: transition_places(7)[OF tr])
  moreover have f: "bt_keys (threads st0) = {b}" "queued_idle_ticks st0 = []" "waiting_timers st0 = []"
    "current st0 = Some b"
    using transition_places[OF tr] by (simp_all add: st_def bt_keys_def)
  ultimately have "base_inv st0" by (simp add: base_inv_def pl)
  moreover have "strict_inv st0"
    using f transition_exec[OF tr, of b] by (simp add: strict_inv_def pl)
  ultimately show ?thesis by (simp add: sched_inv_def)
qed

definition thread_ids_match :: "object_store \<Rightarrow> bool" where
  "thread_ids_match objs \<longleftrightarrow> (\<forall>i th. thread_at objs i = Some th \<longrightarrow> th_id th = i)"

lemma reachable_inv:
  assumes "scheduler_new objs clk ins b = Some st0" "thread_ids_match objs"
    "(sched_step s)\<^sup>*\<^sup>* st0 st"
  shows "sched_inv s st"
  using assms(3)
proof (induction rule: rtranclp_induct)
  case base
  show ?case using scheduler_new_inv[OF assms(1)] assms(2) by (simp add: thread_ids_match_def)
next
  case (step y z)
  then show ?case by (blast intro: sched_step_inv)
qed


text \<open>A sample system: four kernel threads of the bootstrap task; thread 1 boots.\<close>

definition sample_thread :: "nat \<Rightarrow> object_record" where
  "sample_thread i =
     \<lparr>or_id = i, or_kind = KindThread,
      or_body = Thread (thread_object_new i 0
        \<lparr>thd_mode = KernelMode, thd_scheduling_context = round_robin_default,
         thd_entry_instruction_pointer = None, thd_stack_pointer = None\<rparr>)\<rparr>"

definition sample_objects :: object_store where
  "sample_objects = [1 \<mapsto> sample_thread 1, 2 \<mapsto> sample_thread 2, 3 \<mapsto> sample_thread 3, 4 \<mapsto> sample_thread 4]"

definition sample_start :: scheduler_state where
  "sample_start = the (scheduler_new sample_objects (Some (time_state_new 100)) None 1)"

lemma sample_objects_threads:
  "thread_at sample_objects i =
     (if i \<in> {1, 2, 3, 4} then as_thread (or_body (sample_thread i)) else None)"
  by (simp add: thread_at_def body_at_def sample_objects_def)

lemma sample_objects_ids: "thread_ids_match sample_objects"
  by (auto simp: thread_ids_match_def sample_objects_threads sample_thread_def thread_object_new_def
      split: if_splits)

lemma sample_start_new:
  "scheduler_new sample_objects (Some (time_state_new 100)) None 1 = Some sample_start"
  by (simp add: sample_start_def scheduler_new_def sample_objects_threads sample_thread_def
      transition_def)

section \<open>References are to live threads\<close>

text \<open>C16. In every history of the scheduler, with or without receive deadlines, every thread on
  the CPU, in a run queue or in a wait queue is registered and its thread object is alive. So no
  operation panics on a missing thread, and scheduling, yielding, preempting, blocking and
  terminating never fail with \<open>InvalidThread\<close>; \<open>make_runnable\<close> does exactly for unregistered
  threads.\<close>

theorem scheduler_references_live_threads:
  assumes "scheduler_new objs clk ins b = Some st0" "thread_ids_match objs"
    "(sched_step False)\<^sup>*\<^sup>* st0 st" "cpu < RUNNABLE_QUEUE_CPUS"
  shows "(\<forall>t. t \<in># placed st \<longrightarrow>
            bt_get (threads st) t = Some t \<and> thread_at (objects st) t \<noteq> None) \<and>
         (\<exists>d st'. yield_current cpu st = (Inr d, st')) \<and>
         (\<exists>d st'. preempt_current_if_needed cpu st = (Inr d, st')) \<and>
         (\<exists>d st'. block_current_on_receive cpu e st = (Inr d, st')) \<and>
         (\<exists>d st'. terminate_current cpu st = (Inr d, st')) \<and>
         fst (block_current_on_receive_until cpu e n st) \<noteq> Inl InvalidThread \<and>
         (\<exists>d st'. notify_channel_ready cpu e st = Some (d, st')) \<and>
         (\<exists>d st'. notify_packet_ready cpu e st = Some (d, st')) \<and>
         (\<exists>d st'. notify_object_ready cpu e st = Some (d, st')) \<and>
         (\<exists>d st'. handle_time_wakeup cpu ev st = Some (d, st')) \<and>
         (\<exists>res st'. make_runnable cpu t y st = Some (res, st') \<and>
            (res = Inl InvalidThread \<longleftrightarrow> t \<notin> bt_keys (threads st)))"
proof -
  from reachable_inv[OF assms(1-3)] have inv: "sched_inv False st" .
  have "bt_get (threads st) t = Some t \<and> thread_at (objects st) t \<noteq> None" if "t \<in># placed st" for t
  proof -
    from sched_invD(5)[OF inv] that have "t \<in> bt_keys (threads st)" by auto
    with sched_invD(3)[OF inv] show ?thesis by (auto simp: threads_ok_def bt_keys_dom)
  qed
  moreover have "fst (block_current_on_receive_until cpu e n st) \<noteq> Inl InvalidThread"
    using block_on_receive_until_ok[OF inv assms(4), of n e] by auto
  ultimately show ?thesis
    using yield_current_ok[OF inv assms(4)] preempt_current_ok[OF inv assms(4)]
      block_on_receive_ok[OF inv assms(4), of e] terminate_current_ok[OF inv assms(4)]
      notify_channel_ready_ok[OF inv assms(4), of e] notify_packet_ready_ok[OF inv assms(4), of e]
      notify_object_ready_ok[OF inv assms(4), of e] handle_time_wakeup_ok[OF inv assms(4), of ev]
      make_runnable_ok[OF inv assms(4), of t y]
    by (intro conjI) blast+
qed

theorem scheduler_references_live_threads_witness:
  "\<exists>d st'. yield_current 0 (snd (yield_current 0 sample_start)) = (Inr d, st')"
proof -
  have "(sched_step False)\<^sup>*\<^sup>* sample_start (snd (yield_current 0 sample_start))"
    by (rule r_into_rtranclp, rule step_yield[of 0 _ "fst (yield_current 0 sample_start)"])
       (simp_all add: RUNNABLE_QUEUE_CPUS_def)
  from scheduler_references_live_threads[OF sample_start_new sample_objects_ids this, of 0]
  show ?thesis by (simp add: RUNNABLE_QUEUE_CPUS_def)
qed

section \<open>One place at a time\<close>



section \<open>Round robin\<close>

lemma pop_own_queue:
  assumes "runnable_queues st ! cpu = t # q"
  shows "pop_runnable_next cpu st =
    (Some t, st\<lparr>runnable_queues := (runnable_queues st)[cpu := q],
                queued_idle_ticks := bt_remove t (queued_idle_ticks st)\<rparr>)"
  using assms by (simp add: pop_runnable_next_def)

lemma schedule_next_own_queue:
  assumes inv: "sched_inv s st" and cpu: "cpu < RUNNABLE_QUEUE_CPUS"
    and q: "runnable_queues st ! cpu = t # q" and cur: "s \<Longrightarrow> current st = None"
  shows "current (snd (schedule_next_locked cpu trigger previous st)) = Some t"
    and "runnable_queues (snd (schedule_next_locked cpu trigger previous st)) = (runnable_queues st)[cpu := q]"
    and "ticks_remaining (snd (schedule_next_locked cpu trigger previous st)) = 1"
    and "preemption_pending (snd (schedule_next_locked cpu trigger previous st)) = False"
proof -
  define st1 where "st1 = st\<lparr>runnable_queues := (runnable_queues st)[cpu := q],
                queued_idle_ticks := bt_remove t (queued_idle_ticks st)\<rparr>"
  have pop: "pop_runnable_next cpu st = (Some t, st1)" unfolding st1_def by (rule pop_own_queue[OF q])
  note ip = inv_pop[OF inv cpu pop]
  note pp = pop_runnable_next_Some[OF sched_invD(2)[OF inv] cpu pop]
  have reg1: "t \<in> bt_keys (threads st1)" using ip pp by simp
  obtain st2 where tr: "transition t Running None (Some (trigger_to_wake_reason trigger)) st1 = Some st2"
    using transition_exists sched_invD(3)[OF ip(1)] reg1 by blast
  have "runnable_queues st2 = (runnable_queues st)[cpu := q]"
    using transition_places[OF tr] by (simp add: st1_def)
  then show "current (snd (schedule_next_locked cpu trigger previous st)) = Some t"
    "runnable_queues (snd (schedule_next_locked cpu trigger previous st)) = (runnable_queues st)[cpu := q]"
    "ticks_remaining (snd (schedule_next_locked cpu trigger previous st)) = 1"
    "preemption_pending (snd (schedule_next_locked cpu trigger previous st)) = False"
    using pop lookup_thread_ok[OF sched_invD(3)[OF ip(1)] reg1] tr
    by (simp_all add: schedule_next_locked_def Let_def)
qed

lemma requeue_queues:
  assumes inv: "sched_inv s st" and cpu: "cpu < RUNNABLE_QUEUE_CPUS" and cur: "current st = Some c"
    and req: "requeue_current cpu st = (Inr (), st1)"
  shows "runnable_queues st1 = (runnable_queues st)[cpu := runnable_queues st ! cpu @ [c]]"
proof -
  have reg: "c \<in> bt_keys (threads st)"
    using sched_invD(5)[OF inv] cur by (auto simp: in_placed)
  obtain st2 where tr: "transition c Runnable None (Some WakeYield) st = Some st2"
    using transition_exists sched_invD(3)[OF inv] reg by blast
  show ?thesis
    using req cur tr lookup_thread_ok[OF sched_invD(3)[OF inv] reg] transition_places(11)[OF tr]
    by (auto simp: requeue_current_def push_runnable_on_current_cpu_def)
qed

text \<open>One timer tick on a single-CPU system followed by the preemption check on its way out.\<close>

definition tick_and_preempt :: "nat \<Rightarrow> scheduler_state \<Rightarrow> scheduler_state" where
  "tick_and_preempt cpu st =
     snd (preempt_current_if_needed cpu (snd (sched_handle_tick 1 cpu False st)))"

lemma tick_and_preempt_turn:
  assumes inv: "sched_inv s st" and cpu: "cpu < RUNNABLE_QUEUE_CPUS" and cur: "current st = Some c"
    and q: "runnable_queues st ! cpu = t # q" and ticks: "ticks_remaining st \<le> 1"
  shows "current (tick_and_preempt cpu st) = Some t"
    "runnable_queues (tick_and_preempt cpu st) ! cpu = q @ [c]"
    "ticks_remaining (tick_and_preempt cpu st) = 1" "sched_inv s (tick_and_preempt cpu st)"
proof -
  define u where "u = snd (sched_handle_tick 1 cpu False st)"
  have invu: "sched_inv s u" unfolding u_def by (rule inv_handle_tick[OF inv cpu])
  have len: "length (runnable_queues st) = RUNNABLE_QUEUE_CPUS"
    using sched_invD(2)[OF inv] by (simp add: shape_def)
  then have "length (runnable_queues st ! cpu) \<in> set (map length (runnable_queues st))"
    using cpu by simp
  then have "0 < runnable_len st"
    using member_le_sum_list[of "length (runnable_queues st ! cpu)" "map length (runnable_queues st)"] q
    by (simp add: runnable_len_def)
  with ticks cur have u: "preemption_pending u" "current u = Some c"
    "runnable_queues u = runnable_queues st"
    by (simp_all add: u_def sched_handle_tick_def Let_def runnable_len_def)
  obtain st1 where req: "requeue_current cpu u = (Inr (), st1)" and inv1: "sched_inv s st1"
    and cur1: "current st1 = None"
    using inv_requeue[OF invu cpu] by blast
  have q1: "runnable_queues st1 = (runnable_queues st)[cpu := t # (q @ [c])]"
    using requeue_queues[OF invu cpu u(2) req] u(3) q by simp
  let ?v = "st1\<lparr>preemption_pending := False\<rparr>"
  have inv2: "sched_inv s ?v"
    using sched_invD(2)[OF inv1]
    by (intro inv_irrelevant[OF inv1]) (auto simp: same_core_def queued_def waiting_def shape_def)
  have qv: "runnable_queues ?v ! cpu = t # (q @ [c])" using q1 len cpu by simp
  have eq: "tick_and_preempt cpu st = snd (schedule_next_locked cpu TriggerYield (Some c) ?v)"
    unfolding tick_and_preempt_def u_def[symmetric] using u req
    by (simp add: preempt_current_if_needed_def)
  note sn = schedule_next_own_queue[OF inv2 cpu qv, of TriggerYield "Some c"]
  show "current (tick_and_preempt cpu st) = Some t" using sn(1) cur1 by (simp add: eq)
  show "runnable_queues (tick_and_preempt cpu st) ! cpu = q @ [c]"
    using sn(2) cur1 q1 len cpu by (simp add: eq)
  show "ticks_remaining (tick_and_preempt cpu st) = 1" using sn(3) cur1 by (simp add: eq)
  show "sched_inv s (tick_and_preempt cpu st)"
    using schedule_next_ok[OF inv2 cpu, of TriggerYield "Some c"] cur1 by (auto simp: eq)
qed

lemma ticks_rotate:
  assumes "sched_inv s st" "cpu < RUNNABLE_QUEUE_CPUS" "current st = Some c"
    "runnable_queues st ! cpu = q" "ticks_remaining st \<le> 1" "k < length q"
  shows "current ((tick_and_preempt cpu ^^ Suc k) st) = Some (q ! k) \<and>
         runnable_queues ((tick_and_preempt cpu ^^ Suc k) st) ! cpu = drop (Suc k) q @ c # take k q \<and>
         ticks_remaining ((tick_and_preempt cpu ^^ Suc k) st) \<le> 1 \<and>
         sched_inv s ((tick_and_preempt cpu ^^ Suc k) st)"
  using assms(6)
proof (induction k)
  case 0
  then obtain t q' where q: "q = t # q'" by (cases q) auto
  show ?case
    using tick_and_preempt_turn[OF assms(1,2,3) assms(4)[unfolded q] assms(5)] by (simp add: q)
next
  case (Suc k)
  define u where "u = (tick_and_preempt cpu ^^ Suc k) st"
  have IH: "current u = Some (q ! k)" "runnable_queues u ! cpu = drop (Suc k) q @ c # take k q"
    "ticks_remaining u \<le> 1" "sched_inv s u"
    using Suc by (simp_all add: u_def)
  have dr: "drop (Suc k) q = q ! Suc k # drop (Suc (Suc k)) q"
    using Suc.prems by (simp add: Cons_nth_drop_Suc)
  have qu: "runnable_queues u ! cpu = q ! Suc k # (drop (Suc (Suc k)) q @ c # take k q)"
    using IH(2) dr by simp
  note tt = tick_and_preempt_turn[OF IH(4) assms(2) IH(1) qu IH(3)]
  have "(tick_and_preempt cpu ^^ Suc (Suc k)) st = tick_and_preempt cpu u" by (simp add: u_def)
  moreover have "take k q @ [q ! k] = take (Suc k) q"
    using Suc.prems by (simp add: take_Suc_conv_app_nth)
  ultimately show ?case using tt by simp
qed



text \<open>Thread 2 registered and made runnable beside the bootstrap thread.\<close>

definition add_runnable :: "thread_id \<Rightarrow> scheduler_state \<Rightarrow> scheduler_state" where
  "add_runnable t st = snd (the (make_runnable 0 t WakeExplicit (snd (the (register_thread t st)))))"

definition sample_two :: scheduler_state where
  "sample_two = add_runnable 2 sample_start"

lemma add_runnable_reachable:
  assumes "(sched_step False)\<^sup>*\<^sup>* st0 st" "thread_at (objects st) t \<noteq> None"
    "register_thread t st \<noteq> None"
    "make_runnable 0 t WakeExplicit (snd (the (register_thread t st))) \<noteq> None"
  shows "(sched_step False)\<^sup>*\<^sup>* st0 (add_runnable t st)"
proof -
  from assms(3) obtain res st1 where r: "register_thread t st = Some (res, st1)" by auto
  with assms(4) obtain res2 st2 where m: "make_runnable 0 t WakeExplicit st1 = Some (res2, st2)" by auto
  have "sched_step False st st1" by (rule step_register[OF assms(2) r])
  moreover have "sched_step False st1 st2"
    by (rule step_make_runnable[OF _ m]) (simp add: RUNNABLE_QUEUE_CPUS_def)
  moreover have "add_runnable t st = st2" by (simp add: add_runnable_def r m)
  ultimately show ?thesis
    using assms(1) by (metis rtranclp.rtrancl_into_rtrancl)
qed

lemma sample_two_facts:
  "current sample_two = Some 1" "runnable_queues sample_two ! 0 = [2]" "ticks_remaining sample_two = 1"
  by code_simp+


lemma sample_two_reachable: "(sched_step False)\<^sup>*\<^sup>* sample_start sample_two"
  unfolding sample_two_def
  by (rule add_runnable_reachable[OF rtranclp.rtrancl_refl]; code_simp)


section \<open>A receive deadline outlives the receive\<close>

text \<open>
  Thread 2 receives with a deadline and a message arrives first. The token of
  the deadline stays armed. Thread 2 then waits for a packet; the old deadline
  fires, makes it runnable and leaves it in the packet queue. It runs, and the
  next packet queues it although it is running.
\<close>

definition stale_deadline_fires :: scheduler_state where
  "stale_deadline_fires =
     (let s1 = snd (yield_current 0 sample_two);
          s2 = snd (block_current_on_receive_until 0 10 5 s1);
          s3 = snd (the (notify_channel_ready 0 10 s2));
          s4 = snd (yield_current 0 s3);
          s5 = snd (block_current_on_packet_receive 0 20 s4);
          s6 = snd (the (handle_time_wakeup 0 \<lparr>we_token = 1, we_reason = DeadlineExpired\<rparr> s5))
      in snd (yield_current 0 s6))"

definition stale_deadline_run :: scheduler_state where
  "stale_deadline_run = snd (the (notify_packet_ready 0 20 stale_deadline_fires))"


section \<open>An input event between the latch and the lock\<close>

definition sample_input_start :: scheduler_state where
  "sample_input_start = sample_two\<lparr>input_sources :=
     Some [\<lparr>rs_object_id = 30, rs_backend = 0, wakeup_pending = False\<rparr>]\<rparr>"

text \<open>One poll pass of another CPU that finds an event pending, with its notification.\<close>

definition poll_pending_event :: "scheduler_state \<Rightarrow> scheduler_state" where
  "poll_pending_event st =
     (case input_poll_ready (\<lambda>d b. (True, d)) (\<lambda>d b. 1)
             (\<lambda>i s. snd (the (notify_input_ready 1 i s))) (the (input_sources st)) ((), st) of
        (core, _, st1) \<Rightarrow> st1\<lparr>input_sources := Some core\<rparr>)"



section \<open>Stealing\<close>

lemma move_queued_queues:
  assumes "length (runnable_queues st) = RUNNABLE_QUEUE_CPUS" "a < RUNNABLE_QUEUE_CPUS"
    "b < RUNNABLE_QUEUE_CPUS" "a \<noteq> b"
  shows "runnable_queues (move_queued a b t st) ! v =
    (if v = b then runnable_queues st ! b @ [t]
     else if v = a then remove1 t (runnable_queues st ! a) else runnable_queues st ! v)"
    "length (runnable_queues (move_queued a b t st)) = RUNNABLE_QUEUE_CPUS"
  using assms by (auto simp: move_queued_def Let_def nth_list_update)

lemma take_stolen_effect:
  assumes "take_stolen cpu cs n st = (n', st')" "cpu < RUNNABLE_QUEUE_CPUS"
    "list_all (\<lambda>c. fst c < RUNNABLE_QUEUE_CPUS \<and> fst c \<noteq> cpu) cs"
    "length (runnable_queues st) = RUNNABLE_QUEUE_CPUS"
  shows "\<exists>ts. set ts \<subseteq> snd ` set cs \<and> n' = n + length ts \<and> length ts \<le> length cs \<and>
           runnable_queues st' ! cpu = runnable_queues st ! cpu @ ts \<and>
           (\<forall>v. v \<noteq> cpu \<longrightarrow> mset (runnable_queues st' ! v) \<subseteq># mset (runnable_queues st ! v))"
  using assms
proof (induction cpu cs n st arbitrary: n' st' rule: take_stolen.induct)
  case (1 cpu n st)
  then show ?case by (intro exI[of _ "[]"]) simp
next
  case (2 cpu source t cs n st)
  show ?case
  proof (cases "t \<in> set (runnable_queues st ! source)")
    case True
    define st1 where "st1 = move_queued source cpu t st"
    define st2 where "st2 = st1\<lparr>stolen_per_cpu := (stolen_per_cpu st1)
                    [cpu := saturating_add u64_max (stolen_per_cpu st1 ! cpu) 1]\<rparr>"
    have mv: "runnable_queues st2 ! v =
        (if v = cpu then runnable_queues st ! cpu @ [t]
         else if v = source then remove1 t (runnable_queues st ! source) else runnable_queues st ! v)"
      "length (runnable_queues st2) = RUNNABLE_QUEUE_CPUS" for v
      using move_queued_queues[of st source cpu t] 2(4,5,6) by (simp_all add: st1_def st2_def)
    have run: "take_stolen cpu cs (n + 1) st2 = (n', st')"
      using 2(3) True unfolding st2_def st1_def by (simp add: Let_def)
    obtain ts where ts: "set ts \<subseteq> snd ` set cs" "n' = n + 1 + length ts" "length ts \<le> length cs"
      "runnable_queues st' ! cpu = runnable_queues st2 ! cpu @ ts"
      "\<forall>v. v \<noteq> cpu \<longrightarrow> mset (runnable_queues st' ! v) \<subseteq># mset (runnable_queues st2 ! v)"
      using 2(1)[OF True st1_def, folded st2_def, OF run 2(4)] 2(5) mv(2) by auto
    have "mset (runnable_queues st' ! v) \<subseteq># mset (runnable_queues st ! v)" if "v \<noteq> cpu" for v
    proof -
      have "mset (runnable_queues st2 ! v) \<subseteq># mset (runnable_queues st ! v)"
        using that by (simp add: mv)
      with ts(5) that show ?thesis by (meson subset_mset.trans)
    qed
    with ts mv(1)[of cpu] show ?thesis
      by (intro exI[of _ "t # ts"]) auto
  next
    case False
    from 2(2)[OF False, of n' st'] 2(3-6) False obtain ts where
      "set ts \<subseteq> snd ` set cs" "n' = n + length ts" "length ts \<le> length cs"
      "runnable_queues st' ! cpu = runnable_queues st ! cpu @ ts"
      "\<forall>v. v \<noteq> cpu \<longrightarrow> mset (runnable_queues st' ! v) \<subseteq># mset (runnable_queues st ! v)"
      by auto
    then show ?thesis by (intro exI[of _ ts]) auto
  qed
qed

lemma steal_scan_queue_cands:
  assumes "length cs \<le> STEAL_BATCH_MAX"
    "list_all (\<lambda>c. fst c < n \<and> fst c \<noteq> cpu \<and> idle_of idle (snd c) \<ge> STEAL_MIN_IDLE_TICKS) cs"
    "v < n" "v \<noteq> cpu"
  shows "length (steal_scan_queue idle v ts cs) \<le> STEAL_BATCH_MAX \<and>
    list_all (\<lambda>c. fst c < n \<and> fst c \<noteq> cpu \<and> idle_of idle (snd c) \<ge> STEAL_MIN_IDLE_TICKS)
      (steal_scan_queue idle v ts cs)"
  using assms by (induction idle v ts cs rule: steal_scan_queue.induct) auto

lemma steal_scan_cands:
  assumes "length cs \<le> STEAL_BATCH_MAX"
    "list_all (\<lambda>c. fst c < RUNNABLE_QUEUE_CPUS \<and> fst c \<noteq> cpu \<and>
       idle_of (queued_idle_ticks st) (snd c) \<ge> STEAL_MIN_IDLE_TICKS) cs"
  shows "length (steal_scan st cpu start offs cs) \<le> STEAL_BATCH_MAX \<and>
    list_all (\<lambda>c. fst c < RUNNABLE_QUEUE_CPUS \<and> fst c \<noteq> cpu \<and>
       idle_of (queued_idle_ticks st) (snd c) \<ge> STEAL_MIN_IDLE_TICKS) (steal_scan st cpu start offs cs)"
  using assms
proof (induction st cpu start offs cs rule: steal_scan.induct)
  case (2 st cpu start off offs cs)
  show ?case
  proof (cases "length cs \<ge> STEAL_BATCH_MAX \<or> (start + off) mod RUNNABLE_QUEUE_CPUS = cpu")
    case True
    with 2 show ?thesis by (auto simp: Let_def)
  next
    case False
    with 2(2)[OF _ refl] 2(3,4)
      steal_scan_queue_cands[OF 2(3,4), of "(start + off) mod RUNNABLE_QUEUE_CPUS"]
    show ?thesis by (auto simp: Let_def)
  qed
qed simp

text \<open>A stealing pass moves at most two threads, each of which had been queued for at least
  three ticks on another CPU, to the end of the stealing CPU's queue, whose own threads keep their
  order and position; no other queue gains a thread, and no thread is lost or duplicated.\<close>

theorem stealing_moves_idle_threads:
  assumes "scheduler_new objs clk ins b = Some st0" "thread_ids_match objs"
    "(sched_step False)\<^sup>*\<^sup>* st0 st" "cpu < RUNNABLE_QUEUE_CPUS"
    "steal_idle_runnables cpu st = (n, st')"
  shows "n \<le> STEAL_BATCH_MAX \<and> queued st' = queued st \<and>
         (\<exists>ts. runnable_queues st' ! cpu = runnable_queues st ! cpu @ ts \<and> length ts = n \<and>
            list_all (\<lambda>t. idle_of (queued_idle_ticks st) t \<ge> STEAL_MIN_IDLE_TICKS) ts) \<and>
         (\<forall>v. v \<noteq> cpu \<longrightarrow> mset (runnable_queues st' ! v) \<subseteq># mset (runnable_queues st ! v))"
proof -
  from reachable_inv[OF assms(1-3)] have inv: "sched_inv False st" .
  have len: "length (runnable_queues st) = RUNNABLE_QUEUE_CPUS"
    using sched_invD(2)[OF inv] by (simp add: shape_def)
  define st1 where "st1 = st\<lparr>steal_attempts := saturating_add u64_max (steal_attempts st) 1\<rparr>"
  define start where "start = steal_scan_cursor st1 ! cpu"
  define cs where "cs = steal_scan st1 cpu start [1..<RUNNABLE_QUEUE_CPUS + 1] []"
  define st2 where "st2 = st1\<lparr>steal_scan_cursor := (steal_scan_cursor st1)
                      [cpu := (start + 1) mod RUNNABLE_QUEUE_CPUS]\<rparr>"
  have run: "take_stolen cpu cs 0 st2 = (n, st')"
    using assms(5) unfolding steal_idle_runnables_def steal_idle_runnables_locked_def Let_def
      st1_def start_def cs_def st2_def by simp
  have q2: "runnable_queues st2 = runnable_queues st" "queued_idle_ticks st1 = queued_idle_ticks st"
    by (simp_all add: st1_def st2_def)
  have cs: "length cs \<le> STEAL_BATCH_MAX"
    "list_all (\<lambda>c. fst c < RUNNABLE_QUEUE_CPUS \<and> fst c \<noteq> cpu \<and>
       idle_of (queued_idle_ticks st) (snd c) \<ge> STEAL_MIN_IDLE_TICKS) cs"
    using steal_scan_cands[of "[]" cpu st1 start "[1..<RUNNABLE_QUEUE_CPUS + 1]"]
    by (simp_all add: cs_def q2)
  have "list_all (\<lambda>c. fst c < RUNNABLE_QUEUE_CPUS \<and> fst c \<noteq> cpu) cs"
    using cs(2) by (auto simp: list_all_iff)
  then obtain ts where ts: "set ts \<subseteq> snd ` set cs" "n = length ts" "length ts \<le> length cs"
    "runnable_queues st' ! cpu = runnable_queues st ! cpu @ ts"
    "\<forall>v. v \<noteq> cpu \<longrightarrow> mset (runnable_queues st' ! v) \<subseteq># mset (runnable_queues st ! v)"
    using take_stolen_effect[OF run assms(4)] len q2 by auto
  have "list_all (\<lambda>t. idle_of (queued_idle_ticks st) t \<ge> STEAL_MIN_IDLE_TICKS) ts"
    using ts(1) cs(2) by (auto simp: list_all_iff)
  moreover have "queued st' = queued st"
  proof -
    have inv2: "sched_inv False st2"
      using sched_invD(2)[OF inv]
      by (intro inv_irrelevant[OF inv])
         (auto simp: st1_def st2_def same_core_def queued_def waiting_def shape_def)
    have "list_all (\<lambda>c. fst c < RUNNABLE_QUEUE_CPUS) cs" using cs(2) by (auto simp: list_all_iff)
    from take_stolen_idle_ok[OF sched_invD(2)[OF inv2] assms(4) this sched_inv_idle[OF inv2], of 0]
    show ?thesis using run q2 by (simp add: idle_ok_def queued_def)
  qed
  ultimately show ?thesis using ts cs(1) by auto
qed

text \<open>Thread 2 queued on CPU 0 and idle for three ticks.\<close>

definition sample_idle :: scheduler_state where
  "sample_idle = snd (sched_handle_tick 1 0 False (snd (sched_handle_tick 1 0 False
     (snd (sched_handle_tick 1 0 False sample_two)))))"

lemma sample_idle_reachable: "(sched_step False)\<^sup>*\<^sup>* sample_start sample_idle"
proof -
  have tick: "sched_step False st (snd (sched_handle_tick 1 0 False st))" for st
    by (rule step_tick[of 0 1 False st "fst (sched_handle_tick 1 0 False st)"])
       (simp_all add: RUNNABLE_QUEUE_CPUS_def)
  show ?thesis
    unfolding sample_idle_def
    by (meson sample_two_reachable tick rtranclp.rtrancl_into_rtrancl)
qed

theorem stealing_moves_idle_threads_witness:
  "fst (steal_idle_runnables 1 sample_idle) \<le> 2 \<and>
   queued (snd (steal_idle_runnables 1 sample_idle)) = queued sample_idle \<and>
   runnable_queues (snd (steal_idle_runnables 1 sample_idle)) ! 1 = [2]"
proof -
  have "runnable_queues (snd (steal_idle_runnables 1 sample_idle)) ! 1 = [2]" by code_simp
  moreover have "1 < RUNNABLE_QUEUE_CPUS" by (simp add: RUNNABLE_QUEUE_CPUS_def)
  ultimately show ?thesis
    using stealing_moves_idle_threads[OF sample_start_new sample_objects_ids sample_idle_reachable,
        of 1 "fst (steal_idle_runnables 1 sample_idle)" "snd (steal_idle_runnables 1 sample_idle)"]
    by (simp add: STEAL_BATCH_MAX_def)
qed


section \<open>Push balancing\<close>

lemma plan_foldl_extremes:
  assumes "set is \<subseteq> {..<n}" "fst be < n" "snd be < n"
  shows "d ! fst be \<le> d ! fst (foldl (plan_step d) be is)"
    "d ! snd (foldl (plan_step d) be is) \<le> d ! snd be"
    "\<forall>i\<in>set is. d ! i \<le> d ! fst (foldl (plan_step d) be is)"
    "\<forall>i\<in>set is. d ! snd (foldl (plan_step d) be is) \<le> d ! i"
proof -
  have "d ! fst be \<le> d ! fst (foldl (plan_step d) be is) \<and>
    d ! snd (foldl (plan_step d) be is) \<le> d ! snd be \<and>
    (\<forall>i\<in>set is. d ! i \<le> d ! fst (foldl (plan_step d) be is) \<and>
                 d ! snd (foldl (plan_step d) be is) \<le> d ! i)"
    using assms
  proof (induction "is" arbitrary: be)
    case (Cons i "is")
    have step: "fst (plan_step d be i) < n" "snd (plan_step d be i) < n"
      "d ! fst be \<le> d ! fst (plan_step d be i)" "d ! i \<le> d ! fst (plan_step d be i)"
      "d ! snd (plan_step d be i) \<le> d ! snd be" "d ! snd (plan_step d be i) \<le> d ! i"
      using Cons.prems by (auto simp: plan_step_def)
    from Cons.IH[of "plan_step d be i"] Cons.prems step show ?case by force
  qed simp
  then show "d ! fst be \<le> d ! fst (foldl (plan_step d) be is)"
    "d ! snd (foldl (plan_step d) be is) \<le> d ! snd be"
    "\<forall>i\<in>set is. d ! i \<le> d ! fst (foldl (plan_step d) be is)"
    "\<forall>i\<in>set is. d ! snd (foldl (plan_step d) be is) \<le> d ! i"
    by simp_all
qed

lemma rebalance_plan_extremes:
  assumes "rebalance_plan d = Some (b, e, m)" "i < RUNNABLE_QUEUE_CPUS"
  shows "d ! i \<le> d ! b" "d ! e \<le> d ! i"
  using assms plan_foldl_extremes(3,4)[of "[0..<RUNNABLE_QUEUE_CPUS]" RUNNABLE_QUEUE_CPUS "(0, 0)" d]
  by (auto simp: rebalance_plan_def Let_def lessThan_atLeast0 split: prod.splits if_splits)

lemma ranks_before_total: "ranks_before a b \<or> ranks_before b a"
  by (auto simp: ranks_before_def)

lemma ranks_before_trans: "ranks_before a b \<Longrightarrow> ranks_before b c \<Longrightarrow> ranks_before a c"
  by (auto simp: ranks_before_def)

lemma mset_insert_ranked [simp]: "mset (insert_ranked a bs) = add_mset a (mset bs)"
  by (induction a bs rule: insert_ranked.induct) auto

lemma sorted_insert_ranked: "sorted_wrt ranks_before bs \<Longrightarrow> sorted_wrt ranks_before (insert_ranked a bs)"
proof (induction a bs rule: insert_ranked.induct)
  case (2 a b bs)
  have set: "set (insert_ranked a bs) = insert a (set bs)"
    by (metis mset_insert_ranked set_mset_add_mset_insert set_mset_mset)
  show ?case
    using 2 ranks_before_total[of a b] by (auto simp: set intro: ranks_before_trans)
qed simp

lemma mset_rank_sort: "mset (foldr insert_ranked xs []) = mset xs"
  by (induction xs) auto

lemma sorted_rank_sort: "sorted_wrt ranks_before (foldr insert_ranked xs [])"
  by (induction xs) (auto simp: sorted_insert_ranked)

lemma select_rebalance_candidates_spec:
  fixes q idle
  defines "cs n \<equiv> select_rebalance_candidates q idle n"
  assumes n: "n \<le> length q"
  shows "length (cs n) = n" "mset (cs n) \<subseteq># mset q"
    "\<forall>t\<in>set (cs n). \<forall>u\<in>#mset q - mset (cs n). idle_of idle u \<le> idle_of idle t"
proof -
  define ranked where "ranked = map (\<lambda>(position, t). (idle_of idle t, usize_max - position, t))
                     (zip [0..<length q] q)"
  define sorted where "sorted = foldr insert_ranked ranked []"
  have cs: "cs n = map (snd \<circ> snd) (take n sorted)"
    by (simp add: cs_def select_rebalance_candidates_def ranked_def sorted_def Let_def)
  have ms: "mset sorted = mset ranked" by (simp add: sorted_def mset_rank_sort)
  have map_ranked: "map (snd \<circ> snd) ranked = q"
    by (simp add: ranked_def comp_def case_prod_beta)
  have q: "mset q = image_mset (snd \<circ> snd) (mset sorted)"
    unfolding ms by (metis map_ranked mset_map)
  have len: "length sorted = length q"
    by (metis length_map map_ranked ms mset_eq_length)
  show "length (cs n) = n" using n len by (simp add: cs)
  have "mset sorted = mset (take n sorted) + mset (drop n sorted)"
    by (simp flip: mset_append)
  then have split: "mset q = mset (cs n) + image_mset (snd \<circ> snd) (mset (drop n sorted))"
    unfolding q cs by simp
  then show "mset (cs n) \<subseteq># mset q" by simp
  have fst_idle: "fst r = idle_of idle (snd (snd r))" if "r \<in> set sorted" for r
  proof -
    from that ms have "r \<in> set ranked" by (metis set_mset_mset)
    then show ?thesis by (auto simp: ranked_def)
  qed
  have before: "ranks_before x y" if "x \<in> set (take n sorted)" "y \<in> set (drop n sorted)" for x y
    using that sorted_rank_sort[of ranked]
      sorted_wrt_append[of ranks_before "take n sorted" "drop n sorted"] by (simp add: sorted_def)
  show "\<forall>t\<in>set (cs n). \<forall>u\<in>#mset q - mset (cs n). idle_of idle u \<le> idle_of idle t"
  proof (intro ballI)
    fix t u assume t: "t \<in> set (cs n)" and u: "u \<in># mset q - mset (cs n)"
    from t obtain x where x: "x \<in> set (take n sorted)" "t = snd (snd x)" by (auto simp: cs)
    from u split obtain y where y: "y \<in> set (drop n sorted)" "u = snd (snd y)" by auto
    from before[OF x(1) y(1)] have "fst y \<le> fst x" by (auto simp: ranks_before_def)
    then show "idle_of idle u \<le> idle_of idle t"
      using fst_idle[of x] fst_idle[of y] x y by (metis in_set_dropD in_set_takeD)
  qed
qed

lemma take_moved_effect:
  assumes "take_moved b e cs n st = (n', st')" "b < RUNNABLE_QUEUE_CPUS" "e < RUNNABLE_QUEUE_CPUS"
    "b \<noteq> e" "length (runnable_queues st) = RUNNABLE_QUEUE_CPUS"
    "mset cs \<subseteq># mset (runnable_queues st ! b)"
  shows "n' = n + length cs" "mset (runnable_queues st' ! b) = mset (runnable_queues st ! b) - mset cs"
    "runnable_queues st' ! e = runnable_queues st ! e @ cs"
    "v \<noteq> b \<Longrightarrow> v \<noteq> e \<Longrightarrow> runnable_queues st' ! v = runnable_queues st ! v"
proof -
  have "n' = n + length cs \<and> mset (runnable_queues st' ! b) = mset (runnable_queues st ! b) - mset cs \<and>
    runnable_queues st' ! e = runnable_queues st ! e @ cs \<and>
    (v \<noteq> b \<longrightarrow> v \<noteq> e \<longrightarrow> runnable_queues st' ! v = runnable_queues st ! v)"
    using assms
  proof (induction b e cs n st arbitrary: n' st' rule: take_moved.induct)
    case (2 b e t cs n st)
    have t: "t \<in> set (runnable_queues st ! b)"
      using 2(8) by (metis insert_subset_eq_iff mset.simps(2) set_mset_mset)
    define st1 where "st1 = move_queued b e t st"
    define st2 where "st2 = st1\<lparr>rebalance_moves := saturating_add u64_max (rebalance_moves st1) 1\<rparr>"
    have mv: "runnable_queues st2 ! v =
        (if v = e then runnable_queues st ! e @ [t]
         else if v = b then remove1 t (runnable_queues st ! b) else runnable_queues st ! v)"
      "length (runnable_queues st2) = RUNNABLE_QUEUE_CPUS" for v
      using move_queued_queues[of st b e t] 2(4-7) by (simp_all add: st1_def st2_def)
    have run: "take_moved b e cs (n + 1) st2 = (n', st')"
      using 2(3) t unfolding st2_def st1_def by (simp add: Let_def)
    have "mset cs \<subseteq># mset (runnable_queues st2 ! b)"
      using 2(6,8) by (simp add: mv insert_subset_eq_iff)
    from 2(1)[OF t st1_def, folded st2_def, OF run 2(4,5,6) mv(2) this] 2(6)
    show ?case by (simp add: mv)
  qed simp
  then show "n' = n + length cs" "mset (runnable_queues st' ! b) = mset (runnable_queues st ! b) - mset cs"
    "runnable_queues st' ! e = runnable_queues st ! e @ cs"
    "v \<noteq> b \<Longrightarrow> v \<noteq> e \<Longrightarrow> runnable_queues st' ! v = runnable_queues st ! v"
    by simp_all
qed



text \<open>Threads 2, 3 and 4 queued on CPU 0.\<close>

definition sample_four :: scheduler_state where
  "sample_four = add_runnable 4 (add_runnable 3 sample_two)"

lemma sample_four_reachable: "(sched_step False)\<^sup>*\<^sup>* sample_start sample_four"
  unfolding sample_four_def
  by (rule add_runnable_reachable, rule add_runnable_reachable, rule sample_two_reachable) code_simp+


end
