(* ===== verification/Ipc_Props.thy ===== *)
theory Ipc_Props
  imports Ipc_Kernel Scheduler_Props
begin

text \<open>
  Properties of message passing: a failed send gives the sender everything back, a failed receive
  keeps the message and leaves no handle behind, what receivers get is in order what senders sent,
  down to the objects and rights behind the transferred handles, and a message wakes the thread
  that has waited longest.
\<close>

section \<open>Rolling back a message\<close>

text \<open>The transfers of a message are prepared one after the other from the sender's space.\<close>

fun prepare_all ::
  "capability_space \<Rightarrow> (capability_handle \<times> capability_rights \<times> transfer_mode) list
   \<Rightarrow> (prepared_transfer list \<times> capability_space) option" where
  "prepare_all s [] = Some ([], s)"
| "prepare_all s ((h, r, m) # rs) =
     (case prepare_transfer s h r m of
        (Inl _, _) \<Rightarrow> None
      | (Inr t, s1) \<Rightarrow> map_option (\<lambda>(ts, s2). (t # ts, s2)) (prepare_all s1 rs))"

text \<open>All transfers of a message: the attached ones and the reply endpoint.\<close>

definition message_transfers :: "outgoing_message \<Rightarrow> prepared_transfer list" where
  "message_transfers m =
     flatten_options (take (om_capability_count m) (om_capabilities m)) @
     flatten_options [om_reply_endpoint m]"

lemma flatten_append [simp]: "flatten_options (xs @ ys) = flatten_options xs @ flatten_options ys"
  by (induction xs rule: flatten_options.induct) auto

lemma flatten_replicate_None [simp]: "flatten_options (replicate n None) = []"
  by (induction n) auto

lemma flatten_keep_moved: "flatten_options (map keep_moved xs) = filter is_moved (flatten_options xs)"
  by (induction xs rule: flatten_options.induct) (auto simp: keep_moved_def)

lemma flatten_moved_transfers:
  assumes "message_shape m"
  shows "flatten_options (moved_transfers m) = filter is_moved (message_transfers m)"
proof -
  let ?N = MAX_MESSAGE_CAPABILITIES
  let ?f = "map keep_moved (take (om_capability_count m) (om_capabilities m))"
  have len: "length ?f = om_capability_count m" "om_capability_count m \<le> ?N"
    using assms by (auto simp: message_shape_def)
  have "moved_transfers m =
      (?f @ replicate (Suc ?N - om_capability_count m) None)[?N := keep_moved (om_reply_endpoint m)]"
    using len by (simp add: moved_transfers_def Let_def del: replicate_Suc)
  also have "replicate (Suc ?N - om_capability_count m) (None :: prepared_transfer option) =
      replicate (?N - om_capability_count m) None @ [None]"
    using len by (simp add: Suc_diff_le replicate_append_same)
  also have "(?f @ replicate (?N - om_capability_count m) None @ [None])[?N := keep_moved (om_reply_endpoint m)]
      = ?f @ replicate (?N - om_capability_count m) None @ [keep_moved (om_reply_endpoint m)]"
    using len by (simp add: list_update_append)
  finally show ?thesis
    using flatten_keep_moved[of "[om_reply_endpoint m]"]
    by (simp add: message_transfers_def flatten_keep_moved)
qed

lemma bt_insert_commute:
  "bt_inv m \<Longrightarrow> a \<noteq> b \<Longrightarrow> bt_insert a x (bt_insert b y m) = bt_insert b y (bt_insert a x m)"
  by (rule bt_ext) (auto simp: fun_upd_twist)

lemma prepare_all_sources:
  "prepare_all s rs = Some (ts, s') \<Longrightarrow> t \<in> set ts \<Longrightarrow> moved_source t = Some h \<Longrightarrow>
   h \<in> bt_keys (entries s)"
proof (induction rs arbitrary: s ts)
  case (Cons r rs)
  obtain h' rr m where r: "r = (h', rr, m)" by (cases r)
  from Cons.prems(1) r obtain t1 s1 ts1 where
    p: "prepare_transfer s h' rr m = (Inr t1, s1)" "prepare_all s1 rs = Some (ts1, s')" "ts = t1 # ts1"
    by (auto split: prod.splits sum.splits)
  show ?case
  proof (cases "t = t1")
    case True
    with p(1) Cons.prems(3) show ?thesis
      by (auto simp: prepare_transfer_Inr bt_keys_dom split: if_splits)
  next
    case False
    with p Cons.prems have "h \<in> bt_keys (entries s1)" by (auto intro: Cons.IH)
    with p(1) show ?thesis by (auto simp: prepare_transfer_Inr split: if_splits)
  qed
qed simp

lemma prepare_all_keys:
  "prepare_all s rs = Some (ts, s') \<Longrightarrow> bt_keys (entries s') \<subseteq> bt_keys (entries s)"
proof (induction rs arbitrary: s ts)
  case (Cons r rs)
  obtain h rr m where r: "r = (h, rr, m)" by (cases r)
  from Cons.prems(1) r obtain t s1 ts1 where
    p: "prepare_transfer s h rr m = (Inr t, s1)" "prepare_all s1 rs = Some (ts1, s')"
    by (auto split: prod.splits sum.splits)
  from p(1) have "bt_keys (entries s1) \<subseteq> bt_keys (entries s)"
    by (auto simp: prepare_transfer_Inr split: if_splits)
  with Cons.IH[OF p(2)] show ?case by blast
qed simp

lemma bt_inv_rollback: "bt_inv (entries s) \<Longrightarrow> bt_inv (entries (snd (rollback_moved s t)))"
  by (auto simp: rollback_moved_def split: option.splits)

lemma rollback_insert_commute:
  assumes "bt_inv (entries s)" "moved_source t \<noteq> Some h"
  shows "snd (rollback_moved (s\<lparr>entries := bt_insert h e (entries s)\<rparr>) t) =
    (let s' = snd (rollback_moved s t) in s'\<lparr>entries := bt_insert h e (entries s')\<rparr>)"
  using assms
  by (auto simp: rollback_moved_def bt_contains_def Let_def bt_insert_commute split: option.splits)

lemma rollback_all_insert_commute:
  assumes "bt_inv (entries s)" "\<forall>t\<in>set ts. moved_source t \<noteq> Some h"
  shows "rollback_all ts (s\<lparr>entries := bt_insert h e (entries s)\<rparr>) =
    (let s' = rollback_all ts s in s'\<lparr>entries := bt_insert h e (entries s')\<rparr>)"
  using assms
proof (induction ts arbitrary: s)
  case (Cons t ts)
  have "snd (rollback_moved (s\<lparr>entries := bt_insert h e (entries s)\<rparr>) t) =
      (let s' = snd (rollback_moved s t) in s'\<lparr>entries := bt_insert h e (entries s')\<rparr>)"
    using Cons.prems by (intro rollback_insert_commute) auto
  then show ?case
    using Cons.IH[OF bt_inv_rollback[OF Cons.prems(1), of t]] Cons.prems(2)
    by (simp add: rollback_all_def Let_def)
qed (simp add: rollback_all_def)

lemma prepare_all_rollback:
  "prepare_all s rs = Some (ts, s') \<Longrightarrow> space_inv s \<Longrightarrow>
   rollback_all (filter is_moved ts) s' = s \<and> space_inv s'"
proof (induction rs arbitrary: s ts)
  case (Cons r rs)
  obtain h rr m where r: "r = (h, rr, m)" by (cases r)
  from Cons.prems(1) r obtain t s1 ts1 where
    p: "prepare_transfer s h rr m = (Inr t, s1)" "prepare_all s1 rs = Some (ts1, s')" "ts = t # ts1"
    by (auto split: prod.splits sum.splits)
  have inv1: "space_inv s1" by (rule space_inv_prepare_transfer[OF Cons.prems(2) p(1)])
  note IH = Cons.IH[OF p(2) inv1]
  show ?case
  proof (cases m)
    case Move
    with p(1) obtain e where e: "bt_get (entries s) h = Some e"
        "t = \<lparr>pt_object = ce_object e, pt_rights = rr, pt_badge = ce_badge e, moved_source = Some h,
           moved_source_rights = Some (ce_rights e), moved_source_badge = Some (ce_badge e)\<rparr>"
        "s1 = s\<lparr>entries := bt_remove h (entries s)\<rparr>"
      by (auto simp: prepare_transfer_Inr)
    have src: "\<forall>u\<in>set (filter is_moved ts1). moved_source u \<noteq> Some h"
      using prepare_all_sources[OF p(2)] by (auto simp: e(3))
    have sub: "h \<notin> bt_keys (entries s')"
      using prepare_all_keys[OF p(2)] by (auto simp: e(3))
    have bi: "bt_inv (entries s')" using IH by (simp add: space_inv_def)
    have "snd (rollback_moved s' t) = s'\<lparr>entries := bt_insert h e (entries s')\<rparr>"
      using sub by (cases e) (simp add: e(2) rollback_moved_def bt_contains_iff)
    then have "rollback_all (filter is_moved ts) s' =
        (let u = rollback_all (filter is_moved ts1) s' in u\<lparr>entries := bt_insert h e (entries u)\<rparr>)"
      using rollback_all_insert_commute[OF bi src, of e]
      by (simp add: p(3) is_moved_def e(2) rollback_all_def)
    also have "\<dots> = s"
      using IH Cons.prems(2) e(1) by (simp add: Let_def e(3) bt_insert_remove space_inv_def)
    finally show ?thesis using IH by simp
  next
    case Copy
    with p(1) have "s1 = s" "\<not> is_moved t" by (auto simp: prepare_transfer_Inr is_moved_def)
    with IH p(3) show ?thesis by simp
  qed
qed (simp add: rollback_all_def)


lemma push_back_room_Inr:
  assumes "mq_inv q" "mq_len q < MAX_QUEUED_MESSAGES_PER_ENDPOINT"
  shows "\<exists>q'. push_back q x = (Inr (), q') \<and> mq_inv q' \<and> mq_contents q' = mq_contents q @ [x]"
  using mq.push_back_room[OF assms(1), of x] assms(2) by simp

lemma enqueue_Inl:
  assumes "queues_ok st" "enqueue up cpu s h m st = Some (Inl e, st')"
  shows "st' = st"
proof (rule ccontr)
  assume "st' \<noteq> st"
  with assms(2) obtain i c x q where c: "channel_at (objects st) i = Some c"
      "mq_len (ep_queue c) < MAX_QUEUED_MESSAGES_PER_ENDPOINT"
      "push_back (ep_queue c) (envelope_of m) = (Inl x, q)"
    by (auto simp: enqueue_def split: sum.splits option.splits if_splits prod.splits)
  from assms(1) c(1) have "mq_inv (ep_queue c)" by (simp add: queues_ok_def)
  from push_back_room_Inr[OF this c(2), of "envelope_of m"] c(3) show False by simp
qed

text \<open>C11. A send that fails has no effect. If the transfers of a message were prepared from the
  sender's space, by move or by copy, and the send of that message from the remaining space fails
  for whatever reason, then afterwards the sender's space is exactly the one before the transfers
  were prepared (every moved handle is back, with its own rights and badge), and no queue, thread
  or run queue has changed.\<close>

theorem failed_send_has_no_effect:
  assumes "space_inv s0" "queues_ok st" "message_shape m"
    "prepare_all s0 reqs = Some (message_transfers m, s1)"
    "send up cpu s1 h m st = Some (Inl e, s2, st')"
  shows "s2 = s0 \<and> st' = st"
proof -
  from assms(5) have eq: "enqueue up cpu s1 h m st = Some (Inl e, st')"
      "s2 = rollback_all (flatten_options (moved_transfers m)) s1"
    by (auto simp: send_def Let_def split: option.splits prod.splits sum.splits)
  from enqueue_Inl[OF assms(2) eq(1)] prepare_all_rollback[OF assms(4,1)]
  show ?thesis by (simp add: eq(2) flatten_moved_transfers[OF assms(3)])
qed

section \<open>Putting a message back\<close>

lemma accept_all_ok:
  assumes "accept_all ts hs n s = (r, hs', n', s')" "n + length ts \<le> length hs" "bt_inv (entries s)"
  shows "\<exists>k \<le> length ts. n' = n + k \<and> next_handle s' = next_handle s + k \<and> bt_inv (entries s') \<and>
     take n' hs' = take n hs @ [next_handle s..<next_handle s + k] \<and> length hs' = length hs \<and>
     (\<forall>h. h \<notin> {next_handle s..<next_handle s + k} \<longrightarrow> bt_get (entries s') h = bt_get (entries s) h) \<and>
     (\<forall>i<k. bt_get (entries s') (next_handle s + i) =
        Some \<lparr>ce_object = pt_object (ts ! i), ce_rights = pt_rights (ts ! i), ce_badge = pt_badge (ts ! i)\<rparr>) \<and>
     (r = None \<longrightarrow> k = length ts)"
  using assms
proof (induction ts arbitrary: hs n s)
  case Nil
  then show ?case by simp
next
  case (Cons t ts)
  obtain x s1 where a: "accept_transfer s t = (x, s1)" by (cases "accept_transfer s t")
  show ?case
  proof (cases x)
    case (Inl e)
    with a have "s1 = s" by (simp add: accept_transfer_def install_Inl)
    with a Inl Cons.prems(1) have "r = Some e" "hs' = hs" "n' = n" "s' = s" by auto
    with Cons.prems(3) show ?thesis by (intro exI[of _ 0]) simp
  next
    case (Inr h)
    with a have h: "h = next_handle s"
      and s1: "s1 = s\<lparr>next_handle := Suc h, entries := bt_insert h
            \<lparr>ce_object = pt_object t, ce_rights = pt_rights t, ce_badge = pt_badge t\<rparr> (entries s)\<rparr>"
      by (auto simp: accept_transfer_def install_Inr)
    have run: "accept_all ts (hs[n := h]) (n + 1) s1 = (r, hs', n', s')"
      using Cons.prems(1) a Inr by simp
    obtain k where k: "k \<le> length ts" "n' = n + 1 + k" "next_handle s' = next_handle s1 + k"
      "bt_inv (entries s')"
      "take n' hs' = take (n + 1) (hs[n := h]) @ [next_handle s1..<next_handle s1 + k]"
      "length hs' = length hs"
      "\<forall>j. j \<notin> {next_handle s1..<next_handle s1 + k} \<longrightarrow> bt_get (entries s') j = bt_get (entries s1) j"
      "\<forall>i<k. bt_get (entries s') (next_handle s1 + i) =
        Some \<lparr>ce_object = pt_object (ts ! i), ce_rights = pt_rights (ts ! i), ce_badge = pt_badge (ts ! i)\<rparr>"
      "r = None \<longrightarrow> k = length ts"
      using Cons.IH[OF run] Cons.prems(2,3) by (auto simp: s1)
    have tk: "take n' hs' = take n hs @ [next_handle s..<next_handle s + Suc k]"
      using k(5) Cons.prems(2)
      by (simp add: s1 h take_Suc_conv_app_nth take_update_cancel upt_conv_Cons)
    have low: "bt_get (entries s') j = bt_get (entries s) j"
      if "j \<notin> {next_handle s..<next_handle s + Suc k}" for j
      using k(7)[rule_format, of j] that by (auto simp: s1 h)
    have high: "bt_get (entries s') (next_handle s + i) =
        Some \<lparr>ce_object = pt_object ((t # ts) ! i), ce_rights = pt_rights ((t # ts) ! i),
              ce_badge = pt_badge ((t # ts) ! i)\<rparr>" if "i < Suc k" for i
    proof (cases i)
      case 0
      then show ?thesis using k(7)[rule_format, of h] by (simp add: s1 h)
    next
      case (Suc j)
      then show ?thesis using k(8)[rule_format, of j] that by (simp add: s1 h)
    qed
    show ?thesis
      using k tk low high by (intro exI[of _ "Suc k"]) (simp add: s1 h)
  qed
qed

lemma close_all_ok:
  "bt_inv (entries s) \<Longrightarrow>
   bt_inv (entries (close_all hs s)) \<and> next_handle (close_all hs s) = next_handle s \<and>
   bt_get (entries (close_all hs s)) h = (if h \<in> set hs then None else bt_get (entries s) h)"
proof (induction hs arbitrary: s)
  case Nil
  then show ?case by (simp add: close_all_def)
next
  case (Cons a hs)
  let ?s = "snd (close_handle s a)"
  have 1: "bt_inv (entries ?s)" "next_handle ?s = next_handle s"
    "bt_get (entries ?s) h = (if h = a then None else bt_get (entries s) h)"
    using Cons.prems by (auto simp: close_handle_def split: option.splits)
  have "close_all (a # hs) s = close_all hs ?s" by (simp add: close_all_def)
  with Cons.IH[OF 1(1)] 1 show ?case by (cases "h = a") auto
qed

lemma flatten_length: "length (flatten_options xs) \<le> length xs"
  by (induction xs rule: flatten_options.induct) auto

text \<open>The transfers of a queued envelope fit the array of received handles.\<close>

definition envelope_shape :: "message_envelope \<Rightarrow> bool" where
  "envelope_shape m \<longleftrightarrow> length (me_capabilities m) = MAX_MESSAGE_CAPABILITIES"

lemma accept_all_space_inv:
  "accept_all ts hs n s = (r, hs', n', s') \<Longrightarrow> space_inv s \<Longrightarrow> space_inv s'"
proof (induction ts arbitrary: hs n s)
  case (Cons t ts)
  obtain x s1 where a: "accept_transfer s t = (x, s1)" by (cases "accept_transfer s t")
  from space_inv_install[OF Cons.prems(2)] a have "space_inv s1"
    by (simp add: accept_transfer_def)
  with Cons a show ?case by (cases x) auto
qed simp

lemma space_inv_close_all: "space_inv s \<Longrightarrow> space_inv (close_all hs s)"
proof (induction hs arbitrary: s)
  case (Cons a hs)
  from space_inv_close[OF Cons.prems] have "space_inv (snd (close_handle s a))"
    by (cases "close_handle s a") auto
  from Cons.IH[OF this] show ?case by (simp add: close_all_def)
qed (simp add: close_all_def)

definition transfer_content :: "prepared_transfer \<Rightarrow> object_id \<times> capability_rights \<times> u64 option" where
  "transfer_content t = (pt_object t, pt_rights t, pt_badge t)"

definition handle_content ::
  "capability_space \<Rightarrow> capability_handle \<Rightarrow> (object_id \<times> capability_rights \<times> u64 option) option" where
  "handle_content s h = map_option (\<lambda>e. (ce_object e, ce_rights e, ce_badge e)) (bt_get (entries s) h)"

abbreviation envelope_transfers :: "message_envelope \<Rightarrow> prepared_transfer list" where
  "envelope_transfers m \<equiv> flatten_options (take (me_capability_count m) (me_capabilities m))"

lemma envelope_transfers_bound:
  "envelope_shape m \<Longrightarrow> length (envelope_transfers m) \<le> MAX_MESSAGE_CAPABILITIES"
  using flatten_length[of "take (me_capability_count m) (me_capabilities m)"]
  by (simp add: envelope_shape_def)

lemma close_all_restores:
  assumes "space_inv s" "bt_inv (entries s')" "set hs = {next_handle s..<next_handle s + k}"
    "\<forall>h. h \<notin> {next_handle s..<next_handle s + k} \<longrightarrow> bt_get (entries s') h = bt_get (entries s) h"
  shows "entries (close_all hs s') = entries s"
proof (rule bt_ext)
  show "bt_get (entries (close_all hs s')) = bt_get (entries s)"
  proof
    fix h
    have "bt_get (entries s) h = None" if "next_handle s \<le> h"
      using assms(1) that by (auto simp: bt_get_None_iff space_inv_def)
    with close_all_ok[OF assms(2), of hs h] assms(3,4)
    show "bt_get (entries (close_all hs s')) h = bt_get (entries s) h" by auto
  qed
qed (use close_all_ok[OF assms(2)] assms(1) in \<open>auto simp: space_inv_def\<close>)

lemma install_transferred_Inl:
  assumes "space_inv s" "envelope_shape m" "install_transferred_capabilities s m = (Inl e, s')"
  shows "space_inv s' \<and> entries s' = entries s"
proof -
  obtain r hs n s1 where a: "accept_all (envelope_transfers m) (replicate MAX_MESSAGE_CAPABILITIES 0) 0 s =
      (r, hs, n, s1)" by (metis prod_cases4)
  have bi: "bt_inv (entries s)" using assms(1) by (simp add: space_inv_def)
  obtain k where k: "n = k" "next_handle s1 = next_handle s + k" "bt_inv (entries s1)"
    "take n hs = [next_handle s..<next_handle s + k]"
    "\<forall>h. h \<notin> {next_handle s..<next_handle s + k} \<longrightarrow> bt_get (entries s1) h = bt_get (entries s) h"
    using accept_all_ok[OF a _ bi] envelope_transfers_bound[OF assms(2)] by auto
  have inv1: "space_inv s1" by (rule accept_all_space_inv[OF a assms(1)])
  have "s' = close_all (take n hs) s1"
    using assms(3) a
    by (auto simp: install_transferred_capabilities_def accept_transfer_def install_Inl
        split: option.splits prod.splits sum.splits)
  with close_all_restores[OF assms(1) k(3) _ k(5)] k(4) space_inv_close_all[OF inv1] show ?thesis
    by simp
qed

lemma install_transferred_Inr:
  assumes "space_inv s" "envelope_shape m"
    "install_transferred_capabilities s m = (Inr (hs, n, reply), s')"
  shows "space_inv s' \<and> (\<forall>h\<in>bt_keys (entries s). bt_get (entries s') h = bt_get (entries s) h) \<and>
    map (handle_content s') (take n hs) = map (Some \<circ> transfer_content) (envelope_transfers m) \<and>
    map_option (handle_content s') reply = map_option (Some \<circ> transfer_content) (me_reply_endpoint m)"
proof -
  obtain r hs1 n1 s1 where a: "accept_all (envelope_transfers m) (replicate MAX_MESSAGE_CAPABILITIES 0) 0 s =
      (r, hs1, n1, s1)" by (metis prod_cases4)
  with assms(3) have r: "r = None" "hs1 = hs" "n1 = n"
    by (auto simp: install_transferred_capabilities_def split: option.splits prod.splits sum.splits)
  have bi: "bt_inv (entries s)" using assms(1) by (simp add: space_inv_def)
  let ?k = "length (envelope_transfers m)"
  have k: "next_handle s1 = next_handle s + ?k" "bt_inv (entries s1)"
    "take n hs = [next_handle s..<next_handle s + ?k]"
    "\<forall>h. h \<notin> {next_handle s..<next_handle s + ?k} \<longrightarrow> bt_get (entries s1) h = bt_get (entries s) h"
    "\<forall>i<?k. bt_get (entries s1) (next_handle s + i) =
        Some \<lparr>ce_object = pt_object (envelope_transfers m ! i), ce_rights = pt_rights (envelope_transfers m ! i),
          ce_badge = pt_badge (envelope_transfers m ! i)\<rparr>"
    using accept_all_ok[OF a _ bi] envelope_transfers_bound[OF assms(2)] r by auto
  have inv1: "space_inv s1" by (rule accept_all_space_inv[OF a assms(1)])
  have old: "h < next_handle s" if "h \<in> bt_keys (entries s)" for h
    using assms(1) that by (auto simp: space_inv_def)
  have keep: "bt_get (entries s') h = bt_get (entries s1) h" if "h < next_handle s1" for h
    using assms(3) a r that
    by (auto simp: install_transferred_capabilities_def accept_transfer_def install_Inr
        split: option.splits prod.splits sum.splits)
  have inv': "space_inv s'"
    using assms(3) a r inv1
    by (auto simp: install_transferred_capabilities_def accept_transfer_def
        split: option.splits prod.splits sum.splits intro: space_inv_install)
  have "map (handle_content s') (take n hs) = map (Some \<circ> transfer_content) (envelope_transfers m)"
    by (rule nth_equalityI)
       (use k keep in \<open>auto simp: handle_content_def transfer_content_def\<close>)
  moreover have "map_option (handle_content s') reply =
      map_option (Some \<circ> transfer_content) (me_reply_endpoint m)"
    using assms(3) a r
    by (auto simp: install_transferred_capabilities_def accept_transfer_def install_Inr
        handle_content_def transfer_content_def split: option.splits prod.splits sum.splits)
  moreover have "bt_get (entries s') h = bt_get (entries s) h" if "h \<in> bt_keys (entries s)" for h
    using keep[of h] k(1,4) old[OF that] by auto
  ultimately show ?thesis using inv' by blast
qed


lemma pop_push_front_exact:
  assumes "mq_inv q" "pop_front q = (Some m, q1)"
  shows "push_front q1 m = (Inr (), q)"
proof -
  let ?n = "length (mq_slots q)"
  have n: "mq_head q < ?n" "mq_len q \<le> ?n" using assms(1) by (auto simp: mq_inv_def)
  from assms(2) have len: "0 < mq_len q" and m: "mq_slots q ! mq_head q = Some m"
    and q1: "q1 = q\<lparr>mq_slots := (mq_slots q)[mq_head q := None],
              mq_head := (mq_head q + 1) mod ?n, mq_len := mq_len q - 1\<rparr>"
    by (auto simp: pop_front_def split: if_splits)
  have hd: "((mq_head q + 1) mod ?n + ?n - 1) mod ?n = mq_head q"
    using n(1) by (cases "Suc (mq_head q) = ?n") auto
  have "(mq_slots q)[mq_head q := Some m] = mq_slots q"
    using m by (metis list_update_id)
  with n len hd show ?thesis
    by (cases q) (simp add: push_front_def q1 Let_def)
qed

definition channels_inv :: "scheduler_state \<Rightarrow> bool" where
  "channels_inv st \<longleftrightarrow> queues_ok st \<and> (\<forall>i. list_all envelope_shape (queued_at st i))"

lemma channel_at_set_queue [simp]:
  "channel_at (objects (set_queue q i st)) j =
     (if j = i then map_option (ep_queue_update (\<lambda>_. q)) (channel_at (objects st) i)
      else channel_at (objects st) j)"
  by (auto simp: set_queue_def split: option.splits dest: channel_at_SomeD)

lemma set_queue_same:
  assumes "channel_at (objects st) i = Some c" "ep_queue c = q"
  shows "set_queue q i st = st"
proof -
  from channel_at_SomeD[OF assms(1)] obtain r where r: "objects st i = Some r" "or_body r = ChannelEndpoint c"
    by blast
  from assms(2) have "c\<lparr>ep_queue := q\<rparr> = c" by (cases c) auto
  moreover have "r\<lparr>or_body := ChannelEndpoint c\<rparr> = r" using r(2) by (cases r) auto
  ultimately have "set_body (objects st) i (ChannelEndpoint (c\<lparr>ep_queue := q\<rparr>)) = objects st"
    using r(1) by (simp add: set_body_def fun_upd_idem)
  then show ?thesis using assms(1) by (simp add: set_queue_def)
qed

lemma set_queue_twice: "set_queue q i (set_queue q' i st) = set_queue q i st"
proof (cases "channel_at (objects st) i")
  case (Some c)
  from channel_at_SomeD[OF Some] obtain r where "objects st i = Some r" by blast
  with Some show ?thesis
    by (simp add: set_queue_def set_body_def channel_at_def body_at_def)
qed (simp add: set_queue_def)

lemma receive_take_Inr:
  assumes "receive_take s h st = (Inr (i, m), st')"
  shows "\<exists>v c q. resolve s h RECEIVE = Inr v \<and> i = cv_object v \<and> channel_at (objects st) i = Some c \<and>
    pop_front (ep_queue c) = (Some m, q) \<and> st' = set_queue q i st"
  using assms by (auto simp: receive_take_def split: sum.splits option.splits prod.splits)

lemma pop_front_contents:
  assumes "mq_inv q" "pop_front q = (Some m, q1)"
  shows "mq_inv q1 \<and> mq_contents q = m # mq_contents q1"
proof (cases "mq_contents q")
  case Nil
  with mq.pop_front_empty[OF assms(1)] assms(2) show ?thesis by simp
next
  case (Cons x xs)
  with mq.pop_front_cons[OF assms(1) Cons] assms(2) show ?thesis by auto
qed

lemma pop_front_None:
  assumes "mq_inv q" "pop_front q = (None, q1)"
  shows "q1 = q"
proof (cases "mq_contents q")
  case Nil
  with mq.pop_front_empty[OF assms(1)] assms(2) show ?thesis by simp
next
  case (Cons x xs)
  with mq.pop_front_cons[OF assms(1) Cons] assms(2) show ?thesis by auto
qed

lemma receive_take_Inl:
  assumes "queues_ok st" "receive_take s h st = (Inl e, st')"
  shows "st' = st"
proof (rule ccontr)
  assume ne: "st' \<noteq> st"
  with assms(2) obtain i c q where c: "channel_at (objects st) i = Some c"
      "pop_front (ep_queue c) = (None, q)" "st' = set_queue q i st"
    by (auto simp: receive_take_def split: sum.splits option.splits prod.splits)
  from assms(1) c(1) have "mq_inv (ep_queue c)" by (simp add: queues_ok_def)
  from pop_front_None[OF this c(2)] c set_queue_same[OF c(1)] ne show False by simp
qed

lemma receive_Inl_unchanged:
  assumes "space_inv s" "channels_inv st" "receive s h st = (Inl e, s', st')"
  shows "st' = st \<and> entries s' = entries s"
proof (cases "receive_take s h st")
  case (Pair res st1)
  show ?thesis
  proof (cases res)
    case (Inl e')
    with Pair assms(2,3) receive_take_Inl[of st s h] show ?thesis
      by (auto simp: receive_def channels_inv_def)
  next
    case (Inr im)
    obtain i m where im: "im = (i, m)" by (cases im)
    from receive_take_Inr[of s h st i m st1] Pair Inr im obtain c q where
      c: "channel_at (objects st) i = Some c" "pop_front (ep_queue c) = (Some m, q)"
        "st1 = set_queue q i st" by auto
    have mi: "mq_inv (ep_queue c)" using assms(2) c(1) by (simp add: channels_inv_def queues_ok_def)
    have "m \<in> set (queued_at st i)"
      using pop_front_contents[OF mi c(2)] c(1) by (simp add: queued_at_def)
    then have sh: "envelope_shape m" using assms(2) by (auto simp: channels_inv_def list_all_iff)
    from assms(3) Pair Inr im have inst: "install_transferred_capabilities s m = (Inl e, s')"
      and st': "st' = set_queue (snd (push_front q m)) i st1"
      by (auto simp: receive_def receive_finish_def c split: prod.splits sum.splits)
    have "st' = set_queue (ep_queue c) i st"
      using pop_push_front_exact[OF mi c(2)] by (simp add: st' c(3) set_queue_twice)
    with set_queue_same[OF c(1)] install_transferred_Inl[OF assms(1) sh inst] show ?thesis by simp
  qed
qed

text \<open>C33. A receive that fails has no effect: the world is the one before, with the message at the
  front of its queue, and the receiver holds exactly the handles it held, even when some of the
  transferred handles had already been installed. (Only the counter of handle values may have
  advanced.)\<close>

theorem failed_receive_has_no_effect:
  assumes "space_inv s" "channels_inv st" "receive s h st = (Inl e, s', st')"
  shows "st' = st \<and> entries s' = entries s"
  using receive_Inl_unchanged[OF assms] .

section \<open>Delivery\<close>

lemma transition_channels:
  assumes "transition r es w y st = Some st'"
  shows "channel_at (objects st') = channel_at (objects st)"
proof -
  from assms obtain th where th: "thread_at (objects st) r = Some th"
    and st': "st' = st\<lparr>objects := set_body (objects st) r (Thread (transition_to th es w y))\<rparr>"
    by (auto simp: transition_Some)
  from thread_at_SomeD[OF th] obtain z where "objects st r = Some z" "or_body z = Thread th" by blast
  then have "channel_at (objects st) r = None" by (simp add: channel_at_def body_at_def)
  then show ?thesis by (auto simp: st' fun_eq_iff)
qed

lemma wake_thread_channels:
  "wake_thread cpu t r y st = Some st' \<Longrightarrow> channel_at (objects st') = channel_at (objects st)"
  by (auto simp: wake_thread_def dest!: transition_channels)

lemma wake_first_receiver_channels:
  "wake_first_receiver cpu q st = Some (b, q', st') \<Longrightarrow> channel_at (objects st') = channel_at (objects st)"
  by (induction q)
     (auto split: sum.splits if_splits bind_splits dest: wake_thread_channels)

lemma wake_waiters_channels:
  "wake_waiters cpu ts st = Some (b, st') \<Longrightarrow> channel_at (objects st') = channel_at (objects st)"
  by (induction ts arbitrary: st)
     (auto split: sum.splits bind_splits dest!: wake_thread_channels)

lemma schedule_next_channels:
  "schedule_next_locked cpu tr p st = (d, st') \<Longrightarrow> channel_at (objects st') = channel_at (objects st)"
  by (auto simp: schedule_next_locked_def pop_runnable_next_def Let_def
      split: list.splits option.splits sum.splits prod.splits dest!: transition_channels)

lemma wake_decision_channels:
  "wake_decision cpu tr p st = (d, st') \<Longrightarrow> channel_at (objects st') = channel_at (objects st)"
  by (auto simp: wake_decision_def split: if_splits option.splits prod.splits sum.splits
      dest: schedule_next_channels)

lemma finish_notify_channels:
  "finish_notify cpu e w tr p st = Some (d, st') \<Longrightarrow> channel_at (objects st') = channel_at (objects st)"
  by (fastforce simp: finish_notify_def wake_object_waiters_locked_def
      split: if_splits option.splits prod.splits bind_splits
      dest!: wake_waiters_channels wake_decision_channels)

lemma notify_channel_channels:
  assumes "notify_channel_ready cpu e st = Some (d, st')"
  shows "channel_at (objects st') = channel_at (objects st)"
proof -
  from assms obtain w q st1 where
    "wake_first_receiver cpu (case bt_get (waiting_receivers st) e of None \<Rightarrow> [] | Some q \<Rightarrow> q)
        (st\<lparr>waiting_receivers := bt_remove e (waiting_receivers st)\<rparr>) = Some (w, q, st1)"
    "finish_notify cpu e w IpcWake (current st)
      (if q = [] then st1 else st1\<lparr>waiting_receivers := bt_insert e q (waiting_receivers st1)\<rparr>) = Some (d, st')"
    by (auto simp: notify_channel_ready_def split: bind_splits prod.splits)
  from wake_first_receiver_channels[OF this(1)] finish_notify_channels[OF this(2)] show ?thesis
    by (auto split: if_splits)
qed


text \<open>What a message says: its words, and the objects, rights and badges of its handles.\<close>

record message_content =
  mc_tag :: message_tag
  mc_words :: "u64 list"
  mc_handles :: "(object_id \<times> capability_rights \<times> u64 option) option list"
  mc_reply :: "(object_id \<times> capability_rights \<times> u64 option) option option"
  mc_hint :: "shared_memory_hint option"

definition envelope_content :: "message_envelope \<Rightarrow> message_content" where
  "envelope_content m =
     \<lparr>mc_tag = me_tag m, mc_words = take (me_word_count m) (me_words m),
      mc_handles = map (Some \<circ> transfer_content) (envelope_transfers m),
      mc_reply = map_option (Some \<circ> transfer_content) (me_reply_endpoint m),
      mc_hint = me_shared_memory_hint m\<rparr>"

text \<open>The handles of a received message are looked up in the receiver's space.\<close>

definition received_content :: "capability_space \<Rightarrow> received_message \<Rightarrow> message_content" where
  "received_content s m =
     \<lparr>mc_tag = rm_tag m, mc_words = received_words m,
      mc_handles = map (handle_content s) (received_capabilities m),
      mc_reply = map_option (handle_content s) (rm_reply_endpoint m),
      mc_hint = rm_shared_memory_hint m\<rparr>"

datatype ipc_event = Sent object_id message_content | Got object_id message_content

fun sent_to :: "object_id \<Rightarrow> ipc_event list \<Rightarrow> message_content list" where
  "sent_to i [] = []"
| "sent_to i (Sent j c # es) = (if i = j then c # sent_to i es else sent_to i es)"
| "sent_to i (Got j c # es) = sent_to i es"

fun got_from :: "object_id \<Rightarrow> ipc_event list \<Rightarrow> message_content list" where
  "got_from i [] = []"
| "got_from i (Got j c # es) = (if i = j then c # got_from i es else got_from i es)"
| "got_from i (Sent j c # es) = got_from i es"

lemma sent_to_append [simp]: "sent_to i (es @ fs) = sent_to i es @ sent_to i fs"
  by (induction es rule: sent_to.induct) auto

lemma got_from_append [simp]: "got_from i (es @ fs) = got_from i es @ got_from i fs"
  by (induction es rule: got_from.induct) auto

text \<open>Any interleaving of sends and receives by any spaces, successful or not, and of anything else
  that leaves the existing endpoints alone, such as a scheduler call or the creation of a channel.\<close>

definition endpoints_kept :: "scheduler_state \<Rightarrow> scheduler_state \<Rightarrow> bool" where
  "endpoints_kept st st' \<longleftrightarrow>
     (\<forall>i. channel_at (objects st') i = channel_at (objects st) i \<or>
          (channel_at (objects st) i = None \<and>
           map_option ep_queue (channel_at (objects st') i) = Some message_queue_new))"

inductive ipc_run :: "scheduler_state \<Rightarrow> ipc_event list \<Rightarrow> scheduler_state \<Rightarrow> bool" where
  run_start: "ipc_run st [] st"
| run_sent: "ipc_run st0 es st \<Longrightarrow> message_shape m \<Longrightarrow> send up cpu s h m st = Some (Inr r, s', st') \<Longrightarrow>
    ipc_run st0 (es @ [Sent (mr_peer r) (envelope_content (envelope_of m))]) st'"
| run_send_failed: "ipc_run st0 es st \<Longrightarrow> send up cpu s h m st = Some (Inl e, s', st') \<Longrightarrow> ipc_run st0 es st'"
| run_got: "ipc_run st0 es st \<Longrightarrow> space_inv s \<Longrightarrow> resolve s h RECEIVE = Inr v \<Longrightarrow>
    receive s h st = (Inr m, s', st') \<Longrightarrow> ipc_run st0 (es @ [Got (cv_object v) (received_content s' m)]) st'"
| run_receive_failed: "ipc_run st0 es st \<Longrightarrow> space_inv s \<Longrightarrow> receive s h st = (Inl e, s', st') \<Longrightarrow>
    ipc_run st0 es st'"
| run_other: "ipc_run st0 es st \<Longrightarrow> endpoints_kept st st' \<Longrightarrow> ipc_run st0 es st'"

lemma task_notify_channels:
  "task_notify_channel_ready up cpu e st = Some (d, st') \<Longrightarrow> channel_at (objects st') = channel_at (objects st)"
  by (auto simp: task_notify_channel_ready_def split: if_splits dest: notify_channel_channels)

lemma enqueue_Inr:
  assumes "queues_ok st" "enqueue up cpu s h m st = Some (Inr r, st')"
  shows "\<exists>c q. channel_at (objects st) (mr_peer r) = Some c \<and> mq_inv q \<and>
    mq_contents q = mq_contents (ep_queue c) @ [envelope_of m] \<and>
    channel_at (objects st') = channel_at (objects (set_queue q (mr_peer r) st))"
proof -
  from assms(2) obtain c q d where c: "channel_at (objects st) (mr_peer r) = Some c"
      "mq_len (ep_queue c) < MAX_QUEUED_MESSAGES_PER_ENDPOINT"
      "push_back (ep_queue c) (envelope_of m) = (Inr (), q)"
      "task_notify_channel_ready up cpu (mr_peer r) (set_queue q (mr_peer r) st) = Some (d, st')"
    by (auto simp: enqueue_def split: sum.splits option.splits if_splits prod.splits)
  from assms(1) c(1) have "mq_inv (ep_queue c)" by (simp add: queues_ok_def)
  from push_back_room_Inr[OF this c(2), of "envelope_of m"] c task_notify_channels[OF c(4)]
  show ?thesis by auto
qed

lemma channels_inv_frame:
  assumes "channels_inv st" "channel_at (objects st) i = Some c" "mq_inv q"
    "list_all envelope_shape (mq_contents q)"
    "channel_at (objects st') = channel_at (objects (set_queue q i st))"
  shows "channels_inv st' \<and> queued_at st' j = (if j = i then mq_contents q else queued_at st j)"
proof -
  have "queued_at st' j = (if j = i then mq_contents q else queued_at st j)" for j
    by (simp add: queued_at_def assms(2,5))
  moreover have "queues_ok st'"
    using assms(1,3) by (auto simp: queues_ok_def channels_inv_def assms(5) split: if_splits)
  ultimately show ?thesis using assms(1,4) by (simp add: channels_inv_def)
qed

lemma channels_inv_kept:
  assumes "channels_inv st" "endpoints_kept st st'"
  shows "channels_inv st' \<and> queued_at st' j = queued_at st j"
proof -
  have q: "queued_at st' j = queued_at st j" for j
    using assms(2)[unfolded endpoints_kept_def, rule_format, of j] by (auto simp: queued_at_def)
  have "mq_inv (ep_queue c)" if c: "channel_at (objects st') i = Some c" for i c
    using assms(2)[unfolded endpoints_kept_def, rule_format, of i] assms(1) c mq_inv_new
    by (auto simp: channels_inv_def queues_ok_def)
  with q assms(1) show ?thesis by (simp add: channels_inv_def queues_ok_def)
qed

lemma envelope_shape_of: "message_shape m \<Longrightarrow> envelope_shape (envelope_of m)"
  by (simp add: message_shape_def envelope_shape_def envelope_of_def)

lemma send_Inr_run:
  assumes "channels_inv st" "message_shape m" "send up cpu s h m st = Some (Inr r, s', st')"
  shows "channels_inv st' \<and>
    queued_at st' i = (if i = mr_peer r then queued_at st i @ [envelope_of m] else queued_at st i)"
proof -
  from assms(3) have "enqueue up cpu s h m st = Some (Inr r, st')"
    by (auto simp: send_def Let_def split: option.splits prod.splits sum.splits)
  from enqueue_Inr[OF _ this] assms(1) obtain c q where
    c: "channel_at (objects st) (mr_peer r) = Some c" "mq_inv q"
      "mq_contents q = mq_contents (ep_queue c) @ [envelope_of m]"
      "channel_at (objects st') = channel_at (objects (set_queue q (mr_peer r) st))"
    by (auto simp: channels_inv_def)
  have "list_all envelope_shape (queued_at st (mr_peer r))" using assms(1) by (simp add: channels_inv_def)
  then have "list_all envelope_shape (mq_contents q)"
    using envelope_shape_of[OF assms(2)] by (simp add: c(3) queued_at_def c(1))
  from channels_inv_frame[OF assms(1) c(1,2) this c(4), of i] show ?thesis
    by (simp add: c(3) queued_at_def c(1))
qed

lemma receive_Inr_run:
  assumes "channels_inv st" "space_inv s" "resolve s h RECEIVE = Inr v"
    "receive s h st = (Inr m, s', st')"
  shows "channels_inv st' \<and> (\<exists>e. envelope_content e = received_content s' m \<and>
     queued_at st i = (if i = cv_object v then e # queued_at st' i else queued_at st' i))"
proof -
  from assms(4) obtain j e st1 where t: "receive_take s h st = (Inr (j, e), st1)"
      "receive_finish s j e st1 = (Inr m, s', st')"
    by (auto simp: receive_def split: prod.splits sum.splits)
  from receive_take_Inr[OF t(1)] assms(3) obtain c q where
    c: "j = cv_object v" "channel_at (objects st) j = Some c" "pop_front (ep_queue c) = (Some e, q)"
      "st1 = set_queue q j st" by auto
  have mi: "mq_inv (ep_queue c)" using assms(1) c(2) by (simp add: channels_inv_def queues_ok_def)
  note pf = pop_front_contents[OF mi c(3)]
  have shapes: "list_all envelope_shape (queued_at st j)" using assms(1) by (simp add: channels_inv_def)
  then have sh: "envelope_shape e" "list_all envelope_shape (mq_contents q)"
    using pf by (simp_all add: queued_at_def c(2))
  from t(2) obtain hs n rep where inst: "install_transferred_capabilities s e = (Inr (hs, n, rep), s')"
      "st' = st1" "m = \<lparr>rm_tag = me_tag e, rm_word_count = me_word_count e,
                rm_words = me_words e, rm_transferred_capability_count = n,
                rm_transferred_capabilities = hs, rm_reply_endpoint = rep,
                rm_shared_memory_hint = me_shared_memory_hint e\<rparr>"
    by (auto simp: receive_finish_def split: prod.splits sum.splits)
  have "envelope_content e = received_content s' m"
    using install_transferred_Inr[OF assms(2) sh(1) inst(1)]
    by (simp add: envelope_content_def received_content_def inst(3) received_words_def received_capabilities_def)
  moreover from channels_inv_frame[OF assms(1) c(2) conjunct1[OF pf] sh(2), of st' i] inst(2) c(4)
  have "channels_inv st' \<and> queued_at st' i = (if i = j then mq_contents q else queued_at st i)" by simp
  moreover have "queued_at st j = e # mq_contents q" using pf by (simp add: queued_at_def c(2))
  ultimately show ?thesis using c(1) by auto
qed

lemma send_failed_state:
  assumes "channels_inv st" "send up cpu s h m st = Some (Inl e, s', st')"
  shows "st' = st"
proof -
  from assms(2) have "enqueue up cpu s h m st = Some (Inl e, st')"
    by (auto simp: send_def Let_def split: option.splits prod.splits sum.splits)
  with enqueue_Inl assms(1) show ?thesis by (auto simp: channels_inv_def)
qed


lemma ipc_run_inv:
  "ipc_run st0 es st \<Longrightarrow> channels_inv st0 \<Longrightarrow> (\<forall>i. queued_at st0 i = []) \<Longrightarrow>
   channels_inv st \<and> (\<forall>i. sent_to i es = got_from i es @ map envelope_content (queued_at st i))"
proof (induction rule: ipc_run.induct)
  case (run_sent st0 es st m up cpu s h r s' st')
  with send_Inr_run[OF _ run_sent(2,3)] show ?case by auto
next
  case (run_send_failed st0 es st up cpu s h m e s' st')
  with send_failed_state[OF _ run_send_failed(2)] show ?case by auto
next
  case (run_got st0 es st s h v m s' st')
  then have IH: "channels_inv st" "\<forall>i. sent_to i es = got_from i es @ map envelope_content (queued_at st i)"
    by auto
  note r = receive_Inr_run[OF IH(1) run_got(2,3,4)]
  have "sent_to i (es @ [Got (cv_object v) (received_content s' m)]) =
      got_from i (es @ [Got (cv_object v) (received_content s' m)]) @ map envelope_content (queued_at st' i)" for i
    using r[of i] IH(2)[rule_format, of i] by auto
  with r show ?case by blast
next
  case (run_receive_failed st0 es st s h e s' st')
  with receive_Inl_unchanged[OF run_receive_failed(2) _ run_receive_failed(3)] show ?case by auto
next
  case (run_other st0 es st st')
  with channels_inv_kept[OF _ run_other(2)] show ?case by auto
qed simp


section \<open>Waking the receiver\<close>

definition ready :: "scheduler_state \<Rightarrow> thread_id \<Rightarrow> bool" where
  "ready st t \<longleftrightarrow> current st = Some t \<or> t \<in># queued st"

lemma ready_transition: "transition r es w y st = Some st' \<Longrightarrow> ready st' t = ready st t"
  by (simp add: ready_def transition_places)

lemma ready_wake_thread:
  assumes "wake_thread cpu u r y st = Some st'" "shape st" "cpu < RUNNABLE_QUEUE_CPUS" "ready st t \<or> u = t"
  shows "ready st' t"
proof -
  have "ready (push_runnable_if_absent cpu u st) t"
    using assms(4) push_runnable_places(1)[OF assms(3,2), of u]
    by (auto simp: ready_def push_runnable_if_absent_def runnable_contains_queued)
  with assms(1) show ?thesis by (simp add: wake_thread_def ready_transition)
qed

lemma ready_wake_waiters:
  assumes "wake_waiters cpu ts st = Some (b, st')" "shape st" "cpu < RUNNABLE_QUEUE_CPUS" "ready st t"
  shows "ready st' t"
  using assms
proof (induction ts arbitrary: st)
  case (Cons u ts)
  show ?case
  proof (cases "lookup_thread_record st u")
    case (Inr r)
    with Cons.prems(1) obtain st1 where st1: "wake_thread cpu u r ObjectReady st = Some st1"
        "wake_waiters cpu ts st1 = Some (b, st')"
      by (auto split: bind_splits)
    have "shape st1"
      using st1(1) Cons.prems(2,3) push_runnable_places(6)[of cpu st u]
      by (auto simp: wake_thread_def push_runnable_if_absent_def dest!: transition_places(7) split: if_splits)
    with Cons.IH[OF st1(2)] ready_wake_thread[OF st1(1) Cons.prems(2,3)] Cons.prems show ?thesis by blast
  qed (use Cons.prems in auto)
qed auto

lemma ready_wake_decision:
  assumes inv: "sched_inv True st" and cpu: "cpu < RUNNABLE_QUEUE_CPUS"
    and prev: "previous = current st" and t: "ready st t"
  shows "ready (snd (wake_decision cpu tr previous st)) t"
proof (cases previous)
  case None
  with prev t have q: "t \<in># queued st" by (simp add: ready_def)
  from schedule_next_ok[OF inv cpu, of tr previous] prev None obtain d st' where
    s: "schedule_next_locked cpu tr previous st = (Inr d, st')" "waiting st' = waiting st"
      "placed st' + on_cpu st = placed st"
    using q by auto
  have oc: "on_cpu st = {#}" using prev None by (simp add: on_cpu_def)
  have "count (placed st) t \<le> 1" using inv by (simp add: sched_inv_def strict_inv_def)
  then have "count (on_cpu st) t + count (queued st) t + count (waiting st) t \<le> 1"
    by (simp add: count_placed)
  moreover have "0 < count (queued st) t" using q by simp
  ultimately have "count (waiting st) t = 0" by linarith
  then have "t \<notin># waiting st" by (simp add: not_in_iff)
  moreover have "t \<in># placed st'" using s(3) oc q by (simp add: in_placed)
  ultimately have "ready st' t" using s(2) by (auto simp: in_placed ready_def)
  with s(1) None show ?thesis by (simp add: wake_decision_def)
next
  case (Some u)
  with t show ?thesis by (simp add: wake_decision_def)
qed


lemma ready_finish_notify:
  assumes inv: "sched_inv True st" and cpu: "cpu < RUNNABLE_QUEUE_CPUS"
    and prev: "previous = current st" and t: "ready st t"
    and fin: "finish_notify cpu e w tr previous st = Some (res, st')"
  shows "ready st' t"
proof (cases "bt_get (waiting_objects st) e")
  case None
  with fin ready_wake_decision[OF inv cpu prev t, of tr] t show ?thesis
    by (auto simp: finish_notify_def wake_object_waiters_locked_def split: if_splits)
next
  case (Some q)
  let ?u = "st\<lparr>waiting_objects := bt_remove e (waiting_objects st)\<rparr>"
  note d = inv_detach_object[OF inv Some]
  from wake_waiters_ok[OF d(1) cpu d(2) d(3)] obtain st1 where
    w: "wake_waiters cpu q ?u = Some (True, st1)" "sched_inv True st1" "current st1 = current ?u"
    by blast
  have "ready ?u t" using t by (simp add: ready_def queued_def)
  with ready_wake_waiters[OF w(1) _ cpu] sched_invD(2)[OF d(1)] have t1: "ready st1 t" by blast
  have "previous = current st1" using prev w(3) by simp
  from ready_wake_decision[OF w(2) cpu this t1, of tr] show ?thesis
    using fin Some w(1) by (auto simp: finish_notify_def wake_object_waiters_locked_def)
qed

lemma ready_wake_first:
  assumes "wake_first_receiver cpu (t # q) st = Some (b, q', st')" "sched_inv True st"
    "cpu < RUNNABLE_QUEUE_CPUS" "t \<in> bt_keys (threads st)" "is_blocked st t"
  shows "ready st' t"
proof -
  from lookup_thread_record_ok[OF sched_invD(3)[OF assms(2)] assms(4)] assms(1,5)
  have "wake_thread cpu t t ChannelMessage st = Some st'" by (auto split: bind_splits)
  from ready_wake_thread[OF this sched_invD(2)[OF assms(2)] assms(3)] show ?thesis by simp
qed

lemma notify_wakes:
  assumes inv: "sched_inv True st" and cpu: "cpu < RUNNABLE_QUEUE_CPUS"
    and t: "bt_get (waiting_receivers st) e = Some (t # q)"
    and n: "notify_channel_ready cpu e st = Some (d, st')"
  shows "ready st' t"
proof -
  let ?u = "st\<lparr>waiting_receivers := bt_remove e (waiting_receivers st)\<rparr>"
  from notify_receivers_ok[OF inv cpu, of e] t obtain b q' st1 v where
    w: "wake_first_receiver cpu (t # q) ?u = Some (b, q', st1)"
      "v = (if q' = [] then st1 else st1\<lparr>waiting_receivers := bt_insert e q' (waiting_receivers st1)\<rparr>)"
      "sched_inv True ?u" "sched_inv True v" "current v = current st"
    by auto
  have tw: "t \<in># waiting st"
    using wq_split[OF _ t] sched_invD(2)[OF inv] by (simp add: waiting_def shape_def)
  then have "exec st t = Some Blocked" using inv by (simp add: sched_inv_def strict_inv_def)
  then have bl: "is_blocked ?u t" by (simp add: is_blocked_exec exec_def)
  have "t \<in> bt_keys (threads ?u)" using sched_invD(5)[OF inv] tw by (auto simp: in_placed)
  from ready_wake_first[OF w(1,3) cpu this bl] have "ready v t"
    by (simp add: w(2) ready_def queued_def)
  moreover have "finish_notify cpu e b IpcWake (current st) v = Some (d, st')"
    using n w(1,2) t by (simp add: notify_channel_ready_def)
  ultimately show ?thesis using ready_finish_notify[OF w(4) cpu w(5)[symmetric]] by blast
qed

lemma inv_set_queue: "sched_inv s st \<Longrightarrow> sched_inv s (set_queue q i st)"
proof -
  assume inv: "sched_inv s st"
  have th: "thread_at (objects (set_queue q i st)) = thread_at (objects st)"
  proof (cases "channel_at (objects st) i")
    case (Some c)
    from channel_at_SomeD[OF Some] have "thread_at (objects st) i = None"
      by (auto simp: thread_at_def body_at_def)
    with Some show ?thesis by (auto simp: set_queue_def fun_eq_iff)
  qed (simp add: set_queue_def)
  have f: "queued (set_queue q i st) = queued st" "waiting (set_queue q i st) = waiting st"
    "on_cpu (set_queue q i st) = on_cpu st" "placed (set_queue q i st) = placed st"
    "shape (set_queue q i st) = shape st" "threads (set_queue q i st) = threads st"
    "queued_idle_ticks (set_queue q i st) = queued_idle_ticks st"
    "waiting_timers (set_queue q i st) = waiting_timers st"
    "next_wake_token (set_queue q i st) = next_wake_token st" "current (set_queue q i st) = current st"
    by (auto simp: set_queue_def queued_def waiting_def on_cpu_def placed_def shape_def split: option.splits)
  have "exec (set_queue q i st) = exec st" by (rule ext) (simp add: exec_def th)
  with inv f th show ?thesis
    by (simp add: sched_inv_def base_inv_def strict_inv_def threads_ok_def)
qed


section \<open>Sample channels\<close>

text \<open>Endpoints 10 and 11 are connected, the peer of endpoint 13 is gone, 12 is an event.\<close>

definition sample_endpoint :: "nat \<Rightarrow> object_id option \<Rightarrow> object_record" where
  "sample_endpoint i peer =
     \<lparr>or_id = i, or_kind = KindChannelEndpoint,
      or_body = ChannelEndpoint (channel_endpoint_new\<lparr>ep_peer := peer\<rparr>)\<rparr>"

definition ipc_objects :: object_store where
  "ipc_objects = [1 \<mapsto> sample_thread 1, 10 \<mapsto> sample_endpoint 10 (Some 11), 11 \<mapsto> sample_endpoint 11 (Some 10),
     12 \<mapsto> \<lparr>or_id = 12, or_kind = KindEvent, or_body = Event (event_new False)\<rparr>,
     13 \<mapsto> sample_endpoint 13 (Some 14)]"

definition ipc_start :: scheduler_state where
  "ipc_start = the (scheduler_new ipc_objects None None 1)"

lemma rights_numerals [code]:
  "WAIT = 16" "SEND = 32" "RECEIVE = 64" "DUPLICATE = 128" "TRANSFER = 256"
  by (simp_all add: rights_defs)

definition ipc_space :: capability_space where
  "ipc_space = \<lparr>next_handle = 5, entries =
     [(1, \<lparr>ce_object = 10, ce_rights = 511, ce_badge = None\<rparr>),
      (2, \<lparr>ce_object = 12, ce_rights = 511, ce_badge = Some 7\<rparr>),
      (3, \<lparr>ce_object = 13, ce_rights = 511, ce_badge = None\<rparr>),
      (4, \<lparr>ce_object = 11, ce_rights = 511, ce_badge = None\<rparr>)]\<rparr>"

text \<open>A message that moves handle 2, and the sender's space without it.\<close>

definition sample_transfer :: prepared_transfer where
  "sample_transfer =
     \<lparr>pt_object = 12, pt_rights = 16, pt_badge = Some 7, moved_source = Some 2,
      moved_source_rights = Some 511, moved_source_badge = Some (Some 7)\<rparr>"

definition sample_message :: outgoing_message where
  "sample_message =
     \<lparr>om_tag = 5, om_word_count = 2, om_words = [1, 2] @ replicate 14 0, om_capability_count = 1,
      om_capabilities = Some sample_transfer # replicate 7 None, om_reply_endpoint = None,
      om_shared_memory_hint = None\<rparr>"

definition sample_sender :: capability_space where
  "sample_sender = \<lparr>next_handle = 5, entries =
     [(1, \<lparr>ce_object = 10, ce_rights = 511, ce_badge = None\<rparr>),
      (3, \<lparr>ce_object = 13, ce_rights = 511, ce_badge = None\<rparr>),
      (4, \<lparr>ce_object = 11, ce_rights = 511, ce_badge = None\<rparr>)]\<rparr>"

lemma ipc_objects_threads:
  "thread_at ipc_objects i = (if i = 1 then as_thread (or_body (sample_thread 1)) else None)"
  by (simp add: thread_at_def body_at_def ipc_objects_def sample_endpoint_def)

lemma ipc_objects_channels:
  "channel_at ipc_objects i =
     (if i = 10 then Some (channel_endpoint_new\<lparr>ep_peer := Some 11\<rparr>)
      else if i = 11 then Some (channel_endpoint_new\<lparr>ep_peer := Some 10\<rparr>)
      else if i = 13 then Some (channel_endpoint_new\<lparr>ep_peer := Some 14\<rparr>) else None)"
  by (simp add: channel_at_def body_at_def ipc_objects_def sample_endpoint_def sample_thread_def)

lemma ipc_objects_ids: "thread_ids_match ipc_objects"
  by (auto simp: thread_ids_match_def ipc_objects_threads sample_thread_def thread_object_new_def
      split: if_splits)

lemma ipc_start_new: "scheduler_new ipc_objects None None 1 = Some ipc_start"
  by (simp add: ipc_start_def scheduler_new_def ipc_objects_threads sample_thread_def transition_def
      del: One_nat_def)

lemma ipc_start_channels: "channel_at (objects ipc_start) = channel_at ipc_objects"
  using ipc_start_new
  by (auto simp: scheduler_new_def split: option.splits dest: transition_channels)

lemma ipc_start_empty: "queued_at ipc_start i = []"
  by (simp add: queued_at_def ipc_start_channels ipc_objects_channels channel_endpoint_new_def)

lemma ipc_start_inv: "channels_inv ipc_start"
  by (auto simp: channels_inv_def queues_ok_def ipc_start_empty ipc_start_channels ipc_objects_channels
      channel_endpoint_new_def mq_inv_new split: if_splits)

lemma ipc_space_inv: "space_inv ipc_space"
  by (simp add: space_inv_def ipc_space_def bt_inv_def bt_keys_def u32_max_def)

lemma sample_message_shape: "message_shape sample_message"
  by code_simp

lemma sample_prepared: "prepare_all ipc_space [(2, WAIT, Move)] = Some (message_transfers sample_message, sample_sender)"
  by code_simp

theorem failed_send_has_no_effect_witness:
  "bt_get (entries sample_sender) 2 = None \<and>
   send True 0 sample_sender 3 sample_message ipc_start = Some (Inl EndpointClosed, ipc_space, ipc_start)"
proof -
  have "map_option fst (send True 0 sample_sender 3 sample_message ipc_start) = Some (Inl EndpointClosed)"
    by code_simp
  then obtain s2 st' where r: "send True 0 sample_sender 3 sample_message ipc_start =
      Some (Inl EndpointClosed, s2, st')"
    by auto
  have "queues_ok ipc_start" using ipc_start_inv by (simp add: channels_inv_def)
  from failed_send_has_no_effect[OF ipc_space_inv this sample_message_shape sample_prepared r] r
  have "send True 0 sample_sender 3 sample_message ipc_start = Some (Inl EndpointClosed, ipc_space, ipc_start)"
    by simp
  moreover have "bt_get (entries sample_sender) 2 = None" by code_simp
  ultimately show ?thesis by blast
qed

text \<open>The message is sent to endpoint 11 and received there through handle 4.\<close>

definition ipc_sent :: scheduler_state where
  "ipc_sent = snd (snd (the (send True 0 sample_sender 1 sample_message ipc_start)))"

lemma ipc_send_ok: "\<exists>r. mr_peer r = 11 \<and>
    send True 0 sample_sender 1 sample_message ipc_start = Some (Inr r, sample_sender, ipc_sent)"
proof -
  have c: "case send True 0 sample_sender 1 sample_message ipc_start of
      Some (res, _) \<Rightarrow> (case res of Inr r \<Rightarrow> mr_peer r = 11 | Inl _ \<Rightarrow> False) | None \<Rightarrow> False"
    by code_simp
  then obtain res s' st' where r0: "send True 0 sample_sender 1 sample_message ipc_start = Some (res, s', st')"
    by (auto split: option.split_asm)
  with c obtain r where r: "send True 0 sample_sender 1 sample_message ipc_start = Some (Inr r, s', st')"
    "mr_peer r = 11"
    by (cases res) auto
  moreover have "s' = sample_sender"
    using r(1) by (auto simp: send_def Let_def split: option.splits prod.splits sum.splits)
  ultimately show ?thesis by (auto simp: ipc_sent_def)
qed

lemma ipc_run_sent: "ipc_run ipc_start [Sent 11 (envelope_content (envelope_of sample_message))] ipc_sent"
  using ipc_send_ok run_sent[OF run_start sample_message_shape] by fastforce


text \<open>A receiver whose handle values are used up.\<close>

definition full_space :: capability_space where
  "full_space = ipc_space\<lparr>next_handle := u32_max\<rparr>"

theorem failed_receive_has_no_effect_witness:
  "\<exists>s'. receive full_space 4 ipc_sent =
     (Inl (CapabilityFailure HandleSpaceExhausted), s', ipc_sent) \<and> entries s' = entries ipc_space"
proof -
  have "fst (receive full_space 4 ipc_sent) = Inl (CapabilityFailure HandleSpaceExhausted)" by code_simp
  then obtain s' st' where r: "receive full_space 4 ipc_sent =
      (Inl (CapabilityFailure HandleSpaceExhausted), s', st')"
    by (metis prod.collapse)
  have "space_inv full_space"
    by (simp add: space_inv_def full_space_def ipc_space_def bt_inv_def bt_keys_def u32_max_def)
  moreover have "channels_inv ipc_sent"
    using ipc_run_inv[OF ipc_run_sent ipc_start_inv] ipc_start_empty by blast
  ultimately have "st' = ipc_sent \<and> entries s' = entries full_space"
    using failed_receive_has_no_effect[OF _ _ r] by blast
  with r show ?thesis by (simp add: full_space_def)
qed

text \<open>Thread 1 waits at endpoint 11.\<close>

definition ipc_waiting :: scheduler_state where
  "ipc_waiting = snd (block_current_on_receive 0 11 ipc_start)"


section \<open>A lost message\<close>

text \<open>Endpoint 11 holds 64 messages. The receiver takes the first, another sender fills the queue
  again, and the installation of the transferred handle fails.\<close>

definition tagged_envelope :: "nat \<Rightarrow> message_envelope" where
  "tagged_envelope k =
     \<lparr>me_tag = k, me_word_count = 0, me_words = [], me_capability_count = 1,
      me_capabilities = [Some sample_transfer], me_reply_endpoint = None, me_shared_memory_hint = None\<rparr>"

definition full_world :: scheduler_state where
  "full_world = set_queue \<lparr>mq_slots = map (\<lambda>k. Some (tagged_envelope k)) [0..<64],
                           mq_head = 0, mq_len = 64\<rparr> 11 ipc_start"

definition racing_run :: "(ipc_error + received_message) \<times> scheduler_state" where
  "racing_run =
     (case receive_take full_space 4 full_world of
        (Inr (i, m), st1) \<Rightarrow>
          (case send True 0 sample_sender 1 sample_message st1 of
             Some (_, _, st2) \<Rightarrow> (case receive_finish full_space i m st2 of (res, _, st3) \<Rightarrow> (res, st3))))"

definition slot_tags :: "scheduler_state \<Rightarrow> object_id \<Rightarrow> message_tag option list" where
  "slot_tags st i = map (map_option me_tag) (mq_slots (ep_queue (the (channel_at (objects st) i))))"


end
