(* ===== verification/Le_Bytes.thy ===== *)
theory Le_Bytes
  imports Prelude
begin

text \<open>
  Little-endian encodings: \<open>to_le_bytes\<close> and \<open>from_le_bytes\<close> of Rust's unsigned integers.
\<close>

definition to_le_bytes :: "nat \<Rightarrow> 'a::len word \<Rightarrow> u8 list" where
  "to_le_bytes n w = map (\<lambda>i. ucast (drop_bit (8 * i) w)) [0..<n]"

definition from_le_bytes :: "u8 list \<Rightarrow> 'a::len word" where
  "from_le_bytes bs = foldr (\<lambda>b acc. ucast b OR push_bit 8 acc) bs 0"

lemma length_to_le_bytes [simp]: "length (to_le_bytes n w) = n"
  by (simp add: to_le_bytes_def)

lemma to_le_bytes_Suc: "to_le_bytes (Suc n) w = ucast w # to_le_bytes n (drop_bit 8 w)"
  by (simp add: to_le_bytes_def upt_conv_Cons map_Suc_upt[symmetric] comp_def add.commute
      del: upt_Suc)

lemma from_le_bytes_Cons: "from_le_bytes (b # bs) = ucast b OR push_bit 8 (from_le_bytes bs)"
  by (simp add: from_le_bytes_def)

lemma from_to_le_bytes:
  "from_le_bytes (to_le_bytes n w) = take_bit (8 * n) (w :: 'a::len word)"
proof (induction n arbitrary: w)
  case 0
  then show ?case by (simp add: from_le_bytes_def to_le_bytes_def)
next
  case (Suc n)
  have "ucast (ucast w :: u8) OR push_bit 8 (take_bit (8 * n) (drop_bit 8 w)) = take_bit (8 * Suc n) w"
    by (rule bit_word_eqI) (auto simp: bit_simps)
  with Suc show ?case by (simp add: to_le_bytes_Suc from_le_bytes_Cons)
qed

lemma from_to_le_bytes_64 [simp]: "from_le_bytes (to_le_bytes 8 (w :: u64)) = w"
  by (simp add: from_to_le_bytes take_bit_word_eq_self)

end
