(* ===== verification/Packet_Ring.thy ===== *)
theory Packet_Ring
  imports Memory_Object Le_Bytes "HOL-Library.Monad_Syntax"
begin

text \<open>
  The packet ring shared between the kernel and the network service
  (\<open>kernel/core/src/network/ring.rs\<close>): an image of one header page and one page per slot, a
  producer that overwrites the oldest frame when the ring is full, and a consumer that reads
  frames in place. The trait \<open>RingStorage\<close> is a record of operations; its two
  implementations, a plain byte slice and the page frames of a memory object, are shown to
  implement the interface \<open>ring_storage\<close>, on which the ring operations are proved to be a
  queue that drops its oldest element.
\<close>

section \<open>Layout\<close>

definition RING_MAGIC :: "32 word" where "RING_MAGIC = 0x534f5258"
definition RING_VERSION :: "32 word" where "RING_VERSION = 1"
definition RING_SLOT_DATA_BYTES :: nat where "RING_SLOT_DATA_BYTES = 1536"
definition RING_DEFAULT_SLOTS :: nat where "RING_DEFAULT_SLOTS = 16"

definition OFF_MAGIC :: nat where "OFF_MAGIC = 0"
definition OFF_VERSION :: nat where "OFF_VERSION = 4"
definition OFF_SLOTS :: nat where "OFF_SLOTS = 8"
definition OFF_HEAD :: nat where "OFF_HEAD = 16"
definition OFF_TAIL :: nat where "OFF_TAIL = 24"
definition OFF_FRAMES_PUSHED :: nat where "OFF_FRAMES_PUSHED = 32"
definition OFF_COPIES_AVOIDED :: nat where "OFF_COPIES_AVOIDED = 40"
definition OFF_BYTES_SAVED :: nat where "OFF_BYTES_SAVED = 48"
definition OFF_DROPPED :: nat where "OFF_DROPPED = 56"

definition ring_total_bytes :: "nat \<Rightarrow> nat" where
  "ring_total_bytes slot_count = (slot_count + 1) * PAGE_SIZE_BYTES"

definition slot_page :: "nat \<Rightarrow> nat" where
  "slot_page slot_index = slot_index + 1"

definition slot_len_offset :: "nat \<Rightarrow> nat" where
  "slot_len_offset slot_index = slot_page slot_index * PAGE_SIZE_BYTES"

definition slot_data_offset :: "nat \<Rightarrow> nat" where
  "slot_data_offset slot_index = slot_len_offset slot_index + 8"

lemmas ring_offsets = OFF_MAGIC_def OFF_VERSION_def OFF_SLOTS_def OFF_HEAD_def OFF_TAIL_def
  OFF_FRAMES_PUSHED_def OFF_COPIES_AVOIDED_def OFF_BYTES_SAVED_def OFF_DROPPED_def

section \<open>Storage\<close>

text \<open>The trait \<open>RingStorage\<close>. \<open>None\<close> is a violated bound: undefined behaviour for the slice, a
  panic for the frames. \<open>rs_payload\<close> and \<open>rs_set_payload\<close> read and write through the view that
  \<open>slot_payload\<close> returns.\<close>

record 's ring_storage_ops =
  rs_copy_in :: "'s \<Rightarrow> nat \<Rightarrow> u8 list \<Rightarrow> 's option"
  rs_copy_out :: "'s \<Rightarrow> nat \<Rightarrow> nat \<Rightarrow> u8 list option"
  rs_payload :: "'s \<Rightarrow> nat \<Rightarrow> u8 list option"
  rs_set_payload :: "'s \<Rightarrow> nat \<Rightarrow> u8 list \<Rightarrow> 's option"

definition load_u64 :: "'s ring_storage_ops \<Rightarrow> 's \<Rightarrow> nat \<Rightarrow> u64 option" where
  "load_u64 ops s offset = map_option from_le_bytes (rs_copy_out ops s offset 8)"

definition store_u64 :: "'s ring_storage_ops \<Rightarrow> 's \<Rightarrow> nat \<Rightarrow> u64 \<Rightarrow> 's option" where
  "store_u64 ops s offset v = rs_copy_in ops s offset (to_le_bytes 8 v)"

text \<open>\<open>SliceStorage\<close>\<close>

definition slice_copy_in :: "u8 list \<Rightarrow> nat \<Rightarrow> u8 list \<Rightarrow> u8 list option" where
  "slice_copy_in bytes offset data =
     (if offset + length data \<le> length bytes then Some (copy_slice bytes offset data) else None)"

definition slice_copy_out :: "u8 list \<Rightarrow> nat \<Rightarrow> nat \<Rightarrow> u8 list option" where
  "slice_copy_out bytes offset n =
     (if offset + n \<le> length bytes then Some (take n (drop offset bytes)) else None)"

definition slice_storage :: "u8 list ring_storage_ops" where
  "slice_storage =
     \<lparr>rs_copy_in = slice_copy_in, rs_copy_out = slice_copy_out,
      rs_payload = (\<lambda>bytes i. slice_copy_out bytes (slot_data_offset i) RING_SLOT_DATA_BYTES),
      rs_set_payload = (\<lambda>bytes i p. slice_copy_in bytes (slot_data_offset i) p)\<rparr>"

text \<open>\<open>PageFrameStorage\<close>: the frames and physical memory.\<close>

type_synonym page_storage = "physical_address list \<times> phys_memory"

lemma page_chunk_shrinks:
  assumes "d < n"
  shows "n - (d + min (PAGE_SIZE_BYTES - x mod PAGE_SIZE_BYTES) (n - d)) < n - d"
proof -
  have "x mod PAGE_SIZE_BYTES < PAGE_SIZE_BYTES" by simp
  then show ?thesis using assms by linarith
qed

function page_copy_in ::
  "physical_address list \<Rightarrow> phys_memory \<Rightarrow> nat \<Rightarrow> u8 list \<Rightarrow> nat \<Rightarrow> phys_memory option" where
  "page_copy_in frames phys offset data done_len =
     (if done_len < length data then
        let position = offset + done_len;
            page = position div PAGE_SIZE_BYTES;
            in_page = position mod PAGE_SIZE_BYTES;
            chunk = min (PAGE_SIZE_BYTES - in_page) (length data - done_len)
        in if page < length frames then
             page_copy_in frames
               (write_bytes_at phys (frames ! page + in_page) (take chunk (drop done_len data)))
               offset data (done_len + chunk)
           else None
      else Some phys)"
  by pat_completeness auto
termination
  by (relation "measure (\<lambda>(frames, phys, offset, data, d). length data - d)")
     (auto simp: page_chunk_shrinks)

declare page_copy_in.simps [simp del]

function page_copy_out ::
  "physical_address list \<Rightarrow> phys_memory \<Rightarrow> nat \<Rightarrow> u8 list \<Rightarrow> nat \<Rightarrow> u8 list option" where
  "page_copy_out frames phys offset out done_len =
     (if done_len < length out then
        let position = offset + done_len;
            page = position div PAGE_SIZE_BYTES;
            in_page = position mod PAGE_SIZE_BYTES;
            chunk = min (PAGE_SIZE_BYTES - in_page) (length out - done_len)
        in if page < length frames then
             page_copy_out frames phys offset
               (copy_slice out done_len (read_bytes_at phys (frames ! page + in_page) chunk))
               (done_len + chunk)
           else None
      else Some out)"
  by pat_completeness auto
termination
  by (relation "measure (\<lambda>(frames, phys, offset, out, d). length out - d)")
     (auto simp: copy_slice_def read_bytes_at_def page_chunk_shrinks)

declare page_copy_out.simps [simp del]

definition page_frame_storage :: "page_storage ring_storage_ops" where
  "page_frame_storage =
     \<lparr>rs_copy_in = (\<lambda>(frames, phys) offset data.
        map_option (Pair frames) (page_copy_in frames phys offset data 0)),
      rs_copy_out = (\<lambda>(frames, phys) offset n. page_copy_out frames phys offset (replicate n 0) 0),
      rs_payload = (\<lambda>(frames, phys) i.
        if slot_page i < length frames
        then Some (read_bytes_at phys (frames ! slot_page i + 8) RING_SLOT_DATA_BYTES) else None),
      rs_set_payload = (\<lambda>(frames, phys) i p.
        if slot_page i < length frames
        then Some (frames, write_bytes_at phys (frames ! slot_page i + 8) p) else None)\<rparr>"

section \<open>Ring operations\<close>

datatype push_error = FrameTooLarge

definition ring_init :: "'s ring_storage_ops \<Rightarrow> 's \<Rightarrow> nat \<Rightarrow> 's option" where
  "ring_init ops s slot_count =
     do { s \<leftarrow> rs_copy_in ops s OFF_MAGIC (to_le_bytes 4 RING_MAGIC);
          s \<leftarrow> rs_copy_in ops s OFF_VERSION (to_le_bytes 4 RING_VERSION);
          s \<leftarrow> rs_copy_in ops s OFF_SLOTS (to_le_bytes 4 (of_nat slot_count :: 32 word));
          s \<leftarrow> rs_copy_in ops s 12 (to_le_bytes 4 (of_nat RING_SLOT_DATA_BYTES :: 32 word));
          s \<leftarrow> store_u64 ops s OFF_HEAD 0;
          s \<leftarrow> store_u64 ops s OFF_TAIL 0;
          s \<leftarrow> store_u64 ops s OFF_FRAMES_PUSHED 0;
          s \<leftarrow> store_u64 ops s OFF_COPIES_AVOIDED 0;
          s \<leftarrow> store_u64 ops s OFF_BYTES_SAVED 0;
          store_u64 ops s OFF_DROPPED 0 }"

definition validate_header :: "32 word \<Rightarrow> 32 word \<Rightarrow> 32 word \<Rightarrow> nat \<Rightarrow> bool" where
  "validate_header magic version slot_count expected_slots \<longleftrightarrow>
     magic = RING_MAGIC \<and> version = RING_VERSION \<and> unat slot_count = expected_slots"

definition load_head :: "'s ring_storage_ops \<Rightarrow> 's \<Rightarrow> u64 option" where
  "load_head ops s = load_u64 ops s OFF_HEAD"

definition load_tail :: "'s ring_storage_ops \<Rightarrow> 's \<Rightarrow> u64 option" where
  "load_tail ops s = load_u64 ops s OFF_TAIL"

definition pending :: "u64 \<Rightarrow> u64 \<Rightarrow> u64" where
  "pending head tail = head - tail"

definition slot_of :: "u64 \<Rightarrow> nat \<Rightarrow> nat" where
  "slot_of sequence slot_count = unat sequence mod slot_count"

definition frame_len_at :: "'s ring_storage_ops \<Rightarrow> 's \<Rightarrow> nat \<Rightarrow> u64 \<Rightarrow> nat option option" where
  "frame_len_at ops s slot_count sequence =
     do { head \<leftarrow> load_u64 ops s OFF_HEAD;
          if sequence \<ge> head then Some None
          else do { len \<leftarrow> load_u64 ops s (slot_len_offset (slot_of sequence slot_count));
                    Some (if 0 < unat len \<and> unat len \<le> RING_SLOT_DATA_BYTES then Some (unat len) else None) } }"

definition commit_consumed :: "'s ring_storage_ops \<Rightarrow> 's \<Rightarrow> u64 \<Rightarrow> nat \<Rightarrow> 's option" where
  "commit_consumed ops s sequence len =
     do { s \<leftarrow> store_u64 ops s OFF_TAIL (sequence + 1);
          avoided \<leftarrow> load_u64 ops s OFF_COPIES_AVOIDED;
          s \<leftarrow> store_u64 ops s OFF_COPIES_AVOIDED (avoided + 1);
          saved \<leftarrow> load_u64 ops s OFF_BYTES_SAVED;
          store_u64 ops s OFF_BYTES_SAVED (saved + of_nat len) }"

text \<open>\<open>fill\<close> gets the payload of the slot and returns its result, the payload it left there and what
  else it changed.\<close>

definition push_fill ::
  "'s ring_storage_ops \<Rightarrow> 's \<Rightarrow> nat \<Rightarrow> (u8 list \<Rightarrow> ('e + nat) \<times> u8 list \<times> 'b)
   \<Rightarrow> (('e + u64 option) \<times> 's \<times> 'b) option" where
  "push_fill ops s slot_count fill =
     do { head \<leftarrow> load_u64 ops s OFF_HEAD;
          tail \<leftarrow> load_u64 ops s OFF_TAIL;
          s \<leftarrow> (if unat (head - tail) \<ge> slot_count
                then do { s \<leftarrow> store_u64 ops s OFF_TAIL (tail + 1);
                          dropped \<leftarrow> load_u64 ops s OFF_DROPPED;
                          store_u64 ops s OFF_DROPPED (dropped + 1) }
                else Some s);
          payload \<leftarrow> rs_payload ops s (slot_of head slot_count);
          (case fill payload of
             (res, payload', b) \<Rightarrow>
               do { s \<leftarrow> rs_set_payload ops s (slot_of head slot_count) payload';
                    case res of
                      Inl e \<Rightarrow> Some (Inl e, s, b)
                    | Inr len \<Rightarrow>
                        do { s \<leftarrow> store_u64 ops s (slot_len_offset (slot_of head slot_count)) (of_nat len);
                             s \<leftarrow> store_u64 ops s OFF_HEAD (head + 1);
                             pushed \<leftarrow> load_u64 ops s OFF_FRAMES_PUSHED;
                             s \<leftarrow> store_u64 ops s OFF_FRAMES_PUSHED (pushed + 1);
                             Some (Inr (Some head), s, b) } }) }"

definition ring_push ::
  "'s ring_storage_ops \<Rightarrow> 's \<Rightarrow> nat \<Rightarrow> u8 list \<Rightarrow> ((push_error + u64) \<times> 's) option" where
  "ring_push ops s slot_count frame =
     (if length frame > RING_SLOT_DATA_BYTES then Some (Inl FrameTooLarge, s)
      else do { (res, s, _) \<leftarrow> push_fill ops s slot_count
                   (\<lambda>slot. (Inr (length frame), copy_prefix slot frame, ()));
                case res of
                  Inl e \<Rightarrow> Some (Inl e, s)
                | Inr published \<Rightarrow>
                    (case published of None \<Rightarrow> None | Some sequence \<Rightarrow> Some (Inr sequence, s)) })"

section \<open>The storage interface\<close>

text \<open>What the ring relies on: a storage is a byte image, and the operations read and write it at
  the given offset.\<close>

locale ring_storage =
  fixes ops :: "'s ring_storage_ops"
    and invar :: "'s \<Rightarrow> bool"
    and image :: "'s \<Rightarrow> u8 list"
  assumes copy_in: "invar s \<Longrightarrow> offset + length data \<le> length (image s) \<Longrightarrow>
      \<exists>s'. rs_copy_in ops s offset data = Some s' \<and> invar s' \<and> image s' = copy_slice (image s) offset data"
    and copy_out: "invar s \<Longrightarrow> offset + n \<le> length (image s) \<Longrightarrow>
      rs_copy_out ops s offset n = Some (take n (drop offset (image s)))"
    and payload: "invar s \<Longrightarrow> slot_data_offset i + RING_SLOT_DATA_BYTES \<le> length (image s) \<Longrightarrow>
      rs_payload ops s i = Some (take RING_SLOT_DATA_BYTES (drop (slot_data_offset i) (image s)))"
    and set_payload: "invar s \<Longrightarrow> slot_data_offset i + RING_SLOT_DATA_BYTES \<le> length (image s) \<Longrightarrow>
      length p = RING_SLOT_DATA_BYTES \<Longrightarrow>
      \<exists>s'. rs_set_payload ops s i p = Some s' \<and> invar s' \<and> image s' = copy_slice (image s) (slot_data_offset i) p"

text \<open>Reading an image.\<close>

definition get_u64 :: "u8 list \<Rightarrow> nat \<Rightarrow> u64" where
  "get_u64 img offset = from_le_bytes (take 8 (drop offset img))"

definition slot_in :: "u8 list \<Rightarrow> nat \<Rightarrow> nat \<times> u8 list" where
  "slot_in img i =
     (unat (get_u64 img (slot_len_offset i)), take RING_SLOT_DATA_BYTES (drop (slot_data_offset i) img))"

lemma take_drop_copy_slice_same:
  "offset + length d \<le> length img \<Longrightarrow> take (length d) (drop offset (copy_slice img offset d)) = d"
  by (simp add: copy_slice_def)

lemma take_drop_copy_slice_disjoint:
  assumes "offset + length d \<le> length img" "a + n \<le> length img"
    "a + n \<le> offset \<or> offset + length d \<le> a"
  shows "take n (drop a (copy_slice img offset d)) = take n (drop a img)"
  using assms by (intro nth_equalityI) (auto simp: nth_copy_slice)

lemma get_u64_store_same:
  "offset + 8 \<le> length img \<Longrightarrow> get_u64 (copy_slice img offset (to_le_bytes 8 v)) offset = v"
  using take_drop_copy_slice_same[of offset "to_le_bytes 8 v" img] by (simp add: get_u64_def)

lemma get_u64_disjoint:
  "offset + length d \<le> length img \<Longrightarrow> a + 8 \<le> length img \<Longrightarrow> a + 8 \<le> offset \<or> offset + length d \<le> a \<Longrightarrow>
   get_u64 (copy_slice img offset d) a = get_u64 img a"
  by (simp add: get_u64_def take_drop_copy_slice_disjoint)

text \<open>The header words lie in the first page, slot \<open>i\<close> in page \<open>i + 1\<close>.\<close>

lemma slot_bounds:
  assumes "i < slots"
  shows "PAGE_SIZE_BYTES \<le> slot_len_offset i" "slot_len_offset i + 8 = slot_data_offset i"
    "slot_data_offset i + RING_SLOT_DATA_BYTES \<le> ring_total_bytes slots"
proof -
  have "slot_len_offset i + PAGE_SIZE_BYTES = (i + 2) * PAGE_SIZE_BYTES"
    by (simp add: slot_len_offset_def slot_page_def)
  also have "\<dots> \<le> (slots + 1) * PAGE_SIZE_BYTES"
    using assms by (intro mult_le_mono1) simp
  finally show "slot_data_offset i + RING_SLOT_DATA_BYTES \<le> ring_total_bytes slots"
    by (simp add: slot_data_offset_def ring_total_bytes_def RING_SLOT_DATA_BYTES_def PAGE_SIZE_BYTES_def)
qed (simp_all add: slot_len_offset_def slot_page_def slot_data_offset_def)

lemma slot_apart:
  assumes "i \<noteq> j"
  shows "slot_data_offset i + RING_SLOT_DATA_BYTES \<le> slot_len_offset j \<or>
         slot_data_offset j + RING_SLOT_DATA_BYTES \<le> slot_len_offset i"
proof -
  have "slot_data_offset a + RING_SLOT_DATA_BYTES \<le> slot_len_offset b" if "a < b" for a b
  proof -
    have "(a + 2) * PAGE_SIZE_BYTES \<le> (b + 1) * PAGE_SIZE_BYTES"
      using that by (intro mult_le_mono1) simp
    then show ?thesis
      by (simp add: slot_data_offset_def slot_len_offset_def slot_page_def RING_SLOT_DATA_BYTES_def
          PAGE_SIZE_BYTES_def)
  qed
  with assms show ?thesis by (meson linorder_neqE_nat)
qed


section \<open>Ring operations on images\<close>

definition put_u64 :: "u8 list \<Rightarrow> nat \<Rightarrow> u64 \<Rightarrow> u8 list" where
  "put_u64 img offset v = copy_slice img offset (to_le_bytes 8 v)"

definition img_retire :: "u8 list \<Rightarrow> nat \<Rightarrow> u8 list" where
  "img_retire img slots =
     (if unat (get_u64 img OFF_HEAD - get_u64 img OFF_TAIL) \<ge> slots
      then put_u64 (put_u64 img OFF_TAIL (get_u64 img OFF_TAIL + 1)) OFF_DROPPED (get_u64 img OFF_DROPPED + 1)
      else img)"

definition img_publish :: "u8 list \<Rightarrow> nat \<Rightarrow> u8 list \<Rightarrow> nat \<Rightarrow> u8 list" where
  "img_publish img slots p len =
     (let head = get_u64 img OFF_HEAD; i = slot_of head slots;
          img2 = put_u64 (copy_slice (img_retire img slots) (slot_data_offset i) p) (slot_len_offset i) (of_nat len)
      in put_u64 (put_u64 img2 OFF_HEAD (head + 1)) OFF_FRAMES_PUSHED (get_u64 img OFF_FRAMES_PUSHED + 1))"

definition img_commit :: "u8 list \<Rightarrow> u64 \<Rightarrow> nat \<Rightarrow> u8 list" where
  "img_commit img sequence len =
     put_u64 (put_u64 (put_u64 img OFF_TAIL (sequence + 1))
       OFF_COPIES_AVOIDED (get_u64 img OFF_COPIES_AVOIDED + 1))
       OFF_BYTES_SAVED (get_u64 img OFF_BYTES_SAVED + of_nat len)"

lemma length_put_u64 [simp]: "offset + 8 \<le> length img \<Longrightarrow> length (put_u64 img offset v) = length img"
  by (simp add: put_u64_def)

lemma get_put_u64:
  assumes "offset + 8 \<le> length img" "a + 8 \<le> length img" "a = offset \<or> a + 8 \<le> offset \<or> offset + 8 \<le> a"
  shows "get_u64 (put_u64 img offset v) a = (if a = offset then v else get_u64 img a)"
  using assms by (auto simp: put_u64_def get_u64_store_same get_u64_disjoint)

lemma slot_in_put_header:
  assumes "length img = ring_total_bytes slots" "i < slots" "offset + 8 \<le> 64"
  shows "slot_in (put_u64 img offset v) i = slot_in img i"
proof -
  note b = slot_bounds[OF assms(2)]
  have o: "offset + 8 \<le> slot_len_offset i" "offset + 8 \<le> length img"
    using b assms(1,3) by (simp_all add: PAGE_SIZE_BYTES_def)
  with b assms(1) have "get_u64 (put_u64 img offset v) (slot_len_offset i) = get_u64 img (slot_len_offset i)"
    by (subst get_put_u64) auto
  moreover have "take RING_SLOT_DATA_BYTES (drop (slot_data_offset i) (put_u64 img offset v)) =
      take RING_SLOT_DATA_BYTES (drop (slot_data_offset i) img)"
    unfolding put_u64_def using o b assms(1) by (intro take_drop_copy_slice_disjoint) auto
  ultimately show ?thesis by (simp add: slot_in_def)
qed

lemma slot_in_write_slot:
  assumes "length img = ring_total_bytes slots" "i < slots" "j < slots" "length p = RING_SLOT_DATA_BYTES"
    "len \<le> RING_SLOT_DATA_BYTES"
  shows "slot_in (put_u64 (copy_slice img (slot_data_offset i) p) (slot_len_offset i) (of_nat len)) j =
    (if j = i then (len, p) else slot_in img j)"
proof -
  note bi = slot_bounds[OF assms(2)] and bj = slot_bounds[OF assms(3)]
  let ?a = "copy_slice img (slot_data_offset i) p"
  have la: "length ?a = length img" using bi assms by simp
  have l8: "slot_len_offset i + 8 \<le> length ?a" using bi la assms(1) by linarith
  have u: "unat (of_nat len :: u64) = len"
    using assms(5) by (simp add: unat_of_nat RING_SLOT_DATA_BYTES_def)
  show ?thesis
  proof (cases "j = i")
    case True
    have "take RING_SLOT_DATA_BYTES (drop (slot_data_offset i) (put_u64 ?a (slot_len_offset i) (of_nat len))) =
        take RING_SLOT_DATA_BYTES (drop (slot_data_offset i) ?a)"
      unfolding put_u64_def using bi la assms(1) by (intro take_drop_copy_slice_disjoint) auto
    also have "\<dots> = p"
      using take_drop_copy_slice_same[of "slot_data_offset i" p img] bi assms by simp
    finally show ?thesis
      using True u l8 by (simp add: slot_in_def get_put_u64)
  next
    case False
    note ap = slot_apart[OF False]
    have g1: "get_u64 (put_u64 ?a (slot_len_offset i) (of_nat len)) (slot_len_offset j) =
        get_u64 ?a (slot_len_offset j)"
      using ap bi bj la assms(1) l8 False
      by (subst get_put_u64) (auto simp: slot_len_offset_def slot_page_def)
    have g2: "get_u64 ?a (slot_len_offset j) = get_u64 img (slot_len_offset j)"
      using ap bi bj assms(1,4) by (intro get_u64_disjoint) auto
    have t: "take RING_SLOT_DATA_BYTES (drop (slot_data_offset j) (put_u64 ?a (slot_len_offset i) (of_nat len))) =
        take RING_SLOT_DATA_BYTES (drop (slot_data_offset j) ?a)"
      unfolding put_u64_def using ap bi bj la assms(1) by (intro take_drop_copy_slice_disjoint) auto
    also have "\<dots> = take RING_SLOT_DATA_BYTES (drop (slot_data_offset j) img)"
      using ap bi bj assms(1,4) by (intro take_drop_copy_slice_disjoint) auto
    finally show ?thesis using False g1 g2 by (simp add: slot_in_def)
  qed
qed

lemma header_in_image: "length img = ring_total_bytes slots \<Longrightarrow> a \<le> 64 \<Longrightarrow> a \<le> length img"
  by (simp add: ring_total_bytes_def PAGE_SIZE_BYTES_def)

lemma img_retire_facts:
  assumes "length img = ring_total_bytes slots"
  defines "full \<equiv> unat (get_u64 img OFF_HEAD - get_u64 img OFF_TAIL) \<ge> slots"
  shows "length (img_retire img slots) = length img"
    "get_u64 (img_retire img slots) OFF_HEAD = get_u64 img OFF_HEAD"
    "get_u64 (img_retire img slots) OFF_TAIL = get_u64 img OFF_TAIL + (if full then 1 else 0)"
    "get_u64 (img_retire img slots) OFF_DROPPED = get_u64 img OFF_DROPPED + (if full then 1 else 0)"
    "get_u64 (img_retire img slots) OFF_FRAMES_PUSHED = get_u64 img OFF_FRAMES_PUSHED"
    "i < slots \<Longrightarrow> slot_in (img_retire img slots) i = slot_in img i"
proof -
  have h: "a \<le> length img" if "a \<le> 64" for a by (rule header_in_image[OF assms(1) that])
  show "length (img_retire img slots) = length img"
    "get_u64 (img_retire img slots) OFF_HEAD = get_u64 img OFF_HEAD"
    "get_u64 (img_retire img slots) OFF_TAIL = get_u64 img OFF_TAIL + (if full then 1 else 0)"
    "get_u64 (img_retire img slots) OFF_DROPPED = get_u64 img OFF_DROPPED + (if full then 1 else 0)"
    "get_u64 (img_retire img slots) OFF_FRAMES_PUSHED = get_u64 img OFF_FRAMES_PUSHED"
    by (simp_all add: img_retire_def full_def get_put_u64 h ring_offsets)
  show "slot_in (img_retire img slots) i = slot_in img i" if "i < slots"
  proof -
    have l: "length (put_u64 img OFF_TAIL v) = ring_total_bytes slots" for v
      using assms(1) h[of "OFF_TAIL + 8"] by (simp add: ring_offsets)
    have "slot_in (put_u64 (put_u64 img OFF_TAIL v) OFF_DROPPED w) i = slot_in img i" for v w
      using slot_in_put_header[OF l that, of OFF_DROPPED v w]
        slot_in_put_header[OF assms(1) that, of OFF_TAIL v]
      by (simp add: ring_offsets)
    then show ?thesis by (simp add: img_retire_def)
  qed
qed

lemma img_publish_facts:
  assumes img: "length img = ring_total_bytes slots" and n: "0 < slots"
    and p: "length p = RING_SLOT_DATA_BYTES" and len: "len \<le> RING_SLOT_DATA_BYTES"
  defines "full \<equiv> unat (get_u64 img OFF_HEAD - get_u64 img OFF_TAIL) \<ge> slots"
    and "img' \<equiv> img_publish img slots p len"
  shows "length img' = ring_total_bytes slots"
    "get_u64 img' OFF_HEAD = get_u64 img OFF_HEAD + 1"
    "get_u64 img' OFF_TAIL = get_u64 img OFF_TAIL + (if full then 1 else 0)"
    "get_u64 img' OFF_DROPPED = get_u64 img OFF_DROPPED + (if full then 1 else 0)"
    "get_u64 img' OFF_FRAMES_PUSHED = get_u64 img OFF_FRAMES_PUSHED + 1"
    "j < slots \<Longrightarrow> slot_in img' j =
       (if j = slot_of (get_u64 img OFF_HEAD) slots then (len, p) else slot_in img j)"
proof -
  let ?i = "slot_of (get_u64 img OFF_HEAD) slots"
  have i: "?i < slots" using n by (simp add: slot_of_def)
  note bi = slot_bounds[OF i] and r = img_retire_facts[OF img, folded full_def]
  define a where "a = copy_slice (img_retire img slots) (slot_data_offset ?i) p"
  define b where "b = put_u64 a (slot_len_offset ?i) (of_nat len)"
  define c where "c = put_u64 b OFF_HEAD (get_u64 img OFF_HEAD + 1)"
  have img': "img' = put_u64 c OFF_FRAMES_PUSHED (get_u64 img OFF_FRAMES_PUSHED + 1)"
    by (simp add: img'_def img_publish_def Let_def a_def b_def c_def)
  have lr: "length (img_retire img slots) = ring_total_bytes slots" using r(1) img by simp
  have la: "length a = ring_total_bytes slots" using lr bi p by (simp add: a_def)
  have lb: "length b = ring_total_bytes slots"
    using la bi by (simp add: b_def)
  have h: "x \<le> ring_total_bytes slots" if "x \<le> 64" for x
    using header_in_image[OF img that] img by simp
  have lc: "length c = ring_total_bytes slots" using lb h by (simp add: c_def ring_offsets)
  show "length img' = ring_total_bytes slots" using lc h by (simp add: img' ring_offsets)
  have ga: "get_u64 b x = get_u64 (img_retire img slots) x" if "x + 8 \<le> 64" for x
  proof -
    have x: "x + 8 \<le> slot_len_offset ?i" "x + 8 \<le> ring_total_bytes slots"
      using that bi h[of "x + 8"] by (simp_all add: PAGE_SIZE_BYTES_def)
    have "get_u64 b x = get_u64 a x"
      using x la bi unfolding b_def by (subst get_put_u64) auto
    also have "\<dots> = get_u64 (img_retire img slots) x"
      unfolding a_def using x lr bi p by (intro get_u64_disjoint) auto
    finally show ?thesis .
  qed
  show "get_u64 img' OFF_HEAD = get_u64 img OFF_HEAD + 1"
    "get_u64 img' OFF_TAIL = get_u64 img OFF_TAIL + (if full then 1 else 0)"
    "get_u64 img' OFF_DROPPED = get_u64 img OFF_DROPPED + (if full then 1 else 0)"
    "get_u64 img' OFF_FRAMES_PUSHED = get_u64 img OFF_FRAMES_PUSHED + 1"
    using r ga lb lc h by (simp_all add: img' c_def get_put_u64 ring_offsets)
  show "slot_in img' j = (if j = ?i then (len, p) else slot_in img j)" if j: "j < slots"
  proof -
    have "slot_in img' j = slot_in b j"
      unfolding img' using slot_in_put_header[OF lc j, of OFF_FRAMES_PUSHED]
        slot_in_put_header[OF lb j, of OFF_HEAD]
      by (simp add: c_def ring_offsets)
    also have "\<dots> = (if j = ?i then (len, p) else slot_in (img_retire img slots) j)"
      unfolding b_def a_def using slot_in_write_slot[OF lr i j p len] .
    finally show ?thesis using r(6)[OF j] by simp
  qed
qed

lemma img_commit_facts:
  fixes sequence :: u64 and len :: nat
  assumes img: "length img = ring_total_bytes slots"
  defines "img' \<equiv> img_commit img sequence len"
  shows "length img' = ring_total_bytes slots" "get_u64 img' OFF_TAIL = sequence + 1"
    "get_u64 img' OFF_HEAD = get_u64 img OFF_HEAD" "get_u64 img' OFF_DROPPED = get_u64 img OFF_DROPPED"
    "j < slots \<Longrightarrow> slot_in img' j = slot_in img j"
proof -
  have h: "x \<le> ring_total_bytes slots" if "x \<le> 64" for x
    using header_in_image[OF img that] img by simp
  define a where "a = put_u64 img OFF_TAIL (sequence + 1)"
  define b where "b = put_u64 a OFF_COPIES_AVOIDED (get_u64 img OFF_COPIES_AVOIDED + 1)"
  have img': "img' = put_u64 b OFF_BYTES_SAVED (get_u64 img OFF_BYTES_SAVED + of_nat len)"
    by (simp add: img'_def img_commit_def a_def b_def)
  have la: "length a = ring_total_bytes slots" using img h by (simp add: a_def ring_offsets)
  have lb: "length b = ring_total_bytes slots" using la h by (simp add: b_def ring_offsets)
  show "length img' = ring_total_bytes slots" using lb h by (simp add: img' ring_offsets)
  show "get_u64 img' OFF_TAIL = sequence + 1" "get_u64 img' OFF_HEAD = get_u64 img OFF_HEAD"
    "get_u64 img' OFF_DROPPED = get_u64 img OFF_DROPPED"
    using la lb h img by (simp_all add: img' b_def a_def get_put_u64 ring_offsets)
  show "slot_in img' j = slot_in img j" if j: "j < slots"
    using slot_in_put_header[OF lb j, of OFF_BYTES_SAVED] slot_in_put_header[OF la j, of OFF_COPIES_AVOIDED]
      slot_in_put_header[OF img j, of OFF_TAIL]
    by (simp add: img' b_def a_def ring_offsets)
qed


section \<open>The operations act on the image\<close>

context ring_storage
begin

lemma load_image: "invar s \<Longrightarrow> offset + 8 \<le> length (image s) \<Longrightarrow>
    load_u64 ops s offset = Some (get_u64 (image s) offset)"
  by (simp add: load_u64_def copy_out get_u64_def)

lemma store_image: "invar s \<Longrightarrow> offset + 8 \<le> length (image s) \<Longrightarrow>
    \<exists>s'. store_u64 ops s offset v = Some s' \<and> invar s' \<and> image s' = put_u64 (image s) offset v"
  using copy_in[of s offset "to_le_bytes 8 v"] by (simp add: store_u64_def put_u64_def)

lemma retire_image:
  assumes "invar s" "length (image s) = ring_total_bytes slots"
  defines "head \<equiv> get_u64 (image s) OFF_HEAD" and "tail \<equiv> get_u64 (image s) OFF_TAIL"
  shows "\<exists>s'. (if unat (head - tail) \<ge> slots
                then do { s \<leftarrow> store_u64 ops s OFF_TAIL (tail + 1);
                          dropped \<leftarrow> load_u64 ops s OFF_DROPPED;
                          store_u64 ops s OFF_DROPPED (dropped + 1) }
                else Some s) = Some s' \<and> invar s' \<and> image s' = img_retire (image s) slots"
proof (cases "unat (head - tail) \<ge> slots")
  case True
  have h: "x \<le> length (image s)" if "x \<le> 64" for x by (rule header_in_image[OF assms(2) that])
  obtain s1 where s1: "store_u64 ops s OFF_TAIL (tail + 1) = Some s1" "invar s1"
      "image s1 = put_u64 (image s) OFF_TAIL (tail + 1)"
    using store_image[OF assms(1), of OFF_TAIL] h[of "OFF_TAIL + 8"] by (auto simp: ring_offsets)
  have l1: "length (image s1) = length (image s)" using s1(3) h[of "OFF_TAIL + 8"] by (simp add: ring_offsets)
  have d: "load_u64 ops s1 OFF_DROPPED = Some (get_u64 (image s) OFF_DROPPED)"
    using load_image[OF s1(2), of OFF_DROPPED] l1 s1(3) h by (simp add: get_put_u64 ring_offsets)
  obtain s2 where "store_u64 ops s1 OFF_DROPPED (get_u64 (image s) OFF_DROPPED + 1) = Some s2" "invar s2"
      "image s2 = put_u64 (image s1) OFF_DROPPED (get_u64 (image s) OFF_DROPPED + 1)"
    using store_image[OF s1(2), of OFF_DROPPED] l1 h[of "OFF_DROPPED + 8"] by (auto simp: ring_offsets)
  with True s1 d show ?thesis by (auto simp: img_retire_def head_def tail_def)
next
  case False
  with assms(1) show ?thesis by (auto simp: img_retire_def head_def tail_def)
qed

lemma commit_image:
  assumes "invar s" "length (image s) = ring_total_bytes slots"
  shows "\<exists>s'. commit_consumed ops s sequence len = Some s' \<and> invar s' \<and>
    image s' = img_commit (image s) sequence len"
proof -
  have h: "x \<le> length (image s)" if "x \<le> 64" for x by (rule header_in_image[OF assms(2) that])
  obtain s1 where s1: "store_u64 ops s OFF_TAIL (sequence + 1) = Some s1" "invar s1"
      "image s1 = put_u64 (image s) OFF_TAIL (sequence + 1)"
    using store_image[OF assms(1), of OFF_TAIL] h[of "OFF_TAIL + 8"] by (auto simp: ring_offsets)
  have l1: "length (image s1) = length (image s)" using s1(3) h[of "OFF_TAIL + 8"] by (simp add: ring_offsets)
  have a: "load_u64 ops s1 OFF_COPIES_AVOIDED = Some (get_u64 (image s) OFF_COPIES_AVOIDED)"
    using load_image[OF s1(2), of OFF_COPIES_AVOIDED] l1 s1(3) h by (simp add: get_put_u64 ring_offsets)
  obtain s2 where s2: "store_u64 ops s1 OFF_COPIES_AVOIDED (get_u64 (image s) OFF_COPIES_AVOIDED + 1) = Some s2"
      "invar s2" "image s2 = put_u64 (image s1) OFF_COPIES_AVOIDED (get_u64 (image s) OFF_COPIES_AVOIDED + 1)"
    using store_image[OF s1(2), of OFF_COPIES_AVOIDED] l1 h[of "OFF_COPIES_AVOIDED + 8"]
    by (auto simp: ring_offsets)
  have l2: "length (image s2) = length (image s)"
    using s2(3) l1 h[of "OFF_COPIES_AVOIDED + 8"] by (simp add: ring_offsets)
  have b: "load_u64 ops s2 OFF_BYTES_SAVED = Some (get_u64 (image s) OFF_BYTES_SAVED)"
    using load_image[OF s2(2), of OFF_BYTES_SAVED] l1 l2 s1(3) s2(3) h by (simp add: get_put_u64 ring_offsets)
  obtain s3 where "store_u64 ops s2 OFF_BYTES_SAVED (get_u64 (image s) OFF_BYTES_SAVED + of_nat len) = Some s3"
      "invar s3" "image s3 = put_u64 (image s2) OFF_BYTES_SAVED (get_u64 (image s) OFF_BYTES_SAVED + of_nat len)"
    using store_image[OF s2(2), of OFF_BYTES_SAVED] l2 h[of "OFF_BYTES_SAVED + 8"] by (auto simp: ring_offsets)
  with s1 a s2 b show ?thesis by (auto simp: commit_consumed_def img_commit_def)
qed

lemma push_fill_image:
  assumes inv: "invar s" "length (image s) = ring_total_bytes slots" "0 < slots"
  defines "img \<equiv> image s"
    and "i \<equiv> slot_of (get_u64 (image s) OFF_HEAD) slots"
  defines "pl \<equiv> take RING_SLOT_DATA_BYTES (drop (slot_data_offset i) img)"
  assumes fill: "fill pl = (res, p, b)" "length p = RING_SLOT_DATA_BYTES"
  shows "\<exists>s'. push_fill ops s slots fill =
      Some (map_sum id (\<lambda>_. Some (get_u64 img OFF_HEAD)) res, s', b) \<and> invar s' \<and>
      image s' = (case res of Inl _ \<Rightarrow> copy_slice (img_retire img slots) (slot_data_offset i) p
                  | Inr len \<Rightarrow> img_publish img slots p len)"
proof -
  have h: "x \<le> ring_total_bytes slots" if "x \<le> 64" for x using header_in_image[OF inv(2) that] inv(2) by simp
  have i: "i < slots" using inv(3) by (simp add: i_def slot_of_def)
  note bi = slot_bounds[OF i]
  have loads: "load_u64 ops s OFF_HEAD = Some (get_u64 img OFF_HEAD)"
    "load_u64 ops s OFF_TAIL = Some (get_u64 img OFF_TAIL)"
    using load_image[OF inv(1)] inv(2) h by (simp_all add: img_def ring_offsets)
  obtain s1 where s1: "(if unat (get_u64 img OFF_HEAD - get_u64 img OFF_TAIL) \<ge> slots
                then do { s \<leftarrow> store_u64 ops s OFF_TAIL (get_u64 img OFF_TAIL + 1);
                          dropped \<leftarrow> load_u64 ops s OFF_DROPPED;
                          store_u64 ops s OFF_DROPPED (dropped + 1) }
                else Some s) = Some s1" "invar s1" "image s1 = img_retire img slots"
    using retire_image[OF inv(1,2), folded img_def] by blast
  note r = img_retire_facts[OF inv(2), folded img_def]
  have l1: "length (image s1) = ring_total_bytes slots" using s1(3) r(1) inv(2) by (simp add: img_def)
  have "take RING_SLOT_DATA_BYTES (drop (slot_data_offset i) (img_retire img slots)) = pl"
  proof -
    have o: "off + 8 \<le> slot_data_offset i" "off + 8 \<le> ring_total_bytes slots" if "off + 8 \<le> 64" for off
      using that bi h[of "off + 8"] by (simp_all add: PAGE_SIZE_BYTES_def)
    have lp: "length (put_u64 img OFF_TAIL v) = ring_total_bytes slots" for v
      using inv(2) h[of "OFF_TAIL + 8"] by (simp add: img_def ring_offsets)
    have "take RING_SLOT_DATA_BYTES (drop (slot_data_offset i) (put_u64 x off v)) =
        take RING_SLOT_DATA_BYTES (drop (slot_data_offset i) x)"
      if "length x = ring_total_bytes slots" "off + 8 \<le> 64" for x off v
      unfolding put_u64_def using that bi o[OF that(2)] by (intro take_drop_copy_slice_disjoint) auto
    with lp inv(2) show ?thesis by (auto simp: img_retire_def pl_def img_def ring_offsets)
  qed
  then have pay: "rs_payload ops s1 i = Some pl"
    using payload[OF s1(2), of i] bi l1 s1(3) by simp
  obtain s2 where s2: "rs_set_payload ops s1 i p = Some s2" "invar s2"
      "image s2 = copy_slice (img_retire img slots) (slot_data_offset i) p"
    using set_payload[OF s1(2), of i p] bi l1 s1(3) fill(2) by auto
  have ie: "slot_of (get_u64 img OFF_HEAD) slots = i" by (simp add: i_def img_def)
  show ?thesis
  proof (cases res)
    case (Inl e)
    with s2 show ?thesis by (simp add: push_fill_def loads s1(1) ie pay fill(1))
  next
    case (Inr len)
    have l2: "length (image s2) = ring_total_bytes slots" using s2(3) l1 s1(3) bi fill(2) by simp
    obtain s3 where s3: "store_u64 ops s2 (slot_len_offset i) (of_nat len) = Some s3" "invar s3"
        "image s3 = put_u64 (image s2) (slot_len_offset i) (of_nat len)"
      using store_image[OF s2(2), of "slot_len_offset i"] l2 bi by auto
    have l3: "length (image s3) = ring_total_bytes slots" using s3(3) l2 bi by simp
    obtain s4 where s4: "store_u64 ops s3 OFF_HEAD (get_u64 img OFF_HEAD + 1) = Some s4" "invar s4"
        "image s4 = put_u64 (image s3) OFF_HEAD (get_u64 img OFF_HEAD + 1)"
      using store_image[OF s3(2), of OFF_HEAD] l3 h[of "OFF_HEAD + 8"] by (auto simp: ring_offsets)
    have l4: "length (image s4) = ring_total_bytes slots" using s4(3) l3 h by (simp add: ring_offsets)
    have "get_u64 (image s4) OFF_FRAMES_PUSHED = get_u64 img OFF_FRAMES_PUSHED"
    proof -
      have x: "OFF_FRAMES_PUSHED + 8 \<le> slot_len_offset i" "OFF_FRAMES_PUSHED + 8 \<le> ring_total_bytes slots"
        using bi h[of "OFF_FRAMES_PUSHED + 8"] by (simp_all add: PAGE_SIZE_BYTES_def ring_offsets)
      have "get_u64 (image s4) OFF_FRAMES_PUSHED = get_u64 (image s3) OFF_FRAMES_PUSHED"
        using l3 h by (simp add: s4(3) get_put_u64 ring_offsets)
      also have "\<dots> = get_u64 (image s2) OFF_FRAMES_PUSHED"
        unfolding s3(3) using l2 bi x by (subst get_put_u64) auto
      also have "\<dots> = get_u64 (img_retire img slots) OFF_FRAMES_PUSHED"
        unfolding s2(3) using l1 s1(3) bi x fill(2) by (intro get_u64_disjoint) auto
      finally show ?thesis using r(5) by simp
    qed
    then have pu: "load_u64 ops s4 OFF_FRAMES_PUSHED = Some (get_u64 img OFF_FRAMES_PUSHED)"
      using load_image[OF s4(2), of OFF_FRAMES_PUSHED] l4 h by (simp add: ring_offsets)
    obtain s5 where s5: "store_u64 ops s4 OFF_FRAMES_PUSHED (get_u64 img OFF_FRAMES_PUSHED + 1) = Some s5" "invar s5"
        "image s5 = put_u64 (image s4) OFF_FRAMES_PUSHED (get_u64 img OFF_FRAMES_PUSHED + 1)"
      using store_image[OF s4(2), of OFF_FRAMES_PUSHED] l4 h[of "OFF_FRAMES_PUSHED + 8"] by (auto simp: ring_offsets)
    have "image s5 = img_publish img slots p len"
      by (simp add: s5(3) s4(3) s3(3) s2(3) img_publish_def Let_def ie)
    with s5 Inr show ?thesis
      by (simp add: push_fill_def loads s1(1) ie pay fill(1) s2(1) s3(1) s4(1) pu)
  qed
qed

end


section \<open>The two storages\<close>

interpretation slice_ring: ring_storage slice_storage "\<lambda>_. True" "\<lambda>bytes. bytes"
  by unfold_locales (simp_all add: slice_storage_def slice_copy_in_def slice_copy_out_def)

definition page_image :: "page_storage \<Rightarrow> u8 list" where
  "page_image st = (case st of (frames, phys) \<Rightarrow>
     map (\<lambda>i. phys (page_addr frames i)) [0..<PAGE_SIZE_BYTES * length frames])"

definition page_storage_inv :: "page_storage \<Rightarrow> bool" where
  "page_storage_inv st = frames_ok (fst st)"

lemma page_copy_in_write_pages:
  assumes "d \<le> length data"
  shows "page_copy_in frames phys offset data d =
    map_option snd (write_pages phys frames (length data - d) d (offset + d) data)"
  using assms
proof (induction frames phys offset data d rule: page_copy_in.induct)
  case (1 frames phys offset data d)
  show ?case
  proof (cases "d < length data \<and> (offset + d) div PAGE_SIZE_BYTES < length frames")
    case True
    let ?c = "min (length data - d) (PAGE_SIZE_BYTES - (offset + d) mod PAGE_SIZE_BYTES)"
    have c: "min (PAGE_SIZE_BYTES - (offset + d) mod PAGE_SIZE_BYTES) (length data - d) = ?c"
      by (rule min.commute)
    have le: "d + ?c \<le> length data" using True min.cobounded1[of "length data - d"] by linarith
    have IH: "page_copy_in frames
        (write_bytes_at phys (frames ! ((offset + d) div PAGE_SIZE_BYTES) + (offset + d) mod PAGE_SIZE_BYTES)
          (take ?c (drop d data))) offset data (d + ?c) =
      map_option snd (write_pages
        (write_bytes_at phys (frames ! ((offset + d) div PAGE_SIZE_BYTES) + (offset + d) mod PAGE_SIZE_BYTES)
          (take ?c (drop d data))) frames (length data - (d + ?c)) (d + ?c) (offset + (d + ?c)) data)"
      using "1.IH"[OF _ refl refl refl refl] True le unfolding c by blast
    show ?thesis
      using True IH
      by (subst page_copy_in.simps, subst write_pages.simps) (simp add: Let_def c add.assoc)
  next
    case False
    with "1.prems" show ?thesis
      by (subst page_copy_in.simps, subst write_pages.simps) (auto simp: Let_def)
  qed
qed

lemma page_copy_out_read_pages:
  assumes "d \<le> length out"
  shows "page_copy_out frames phys offset out d =
    map_option snd (read_pages phys frames (length out - d) d (offset + d) out)"
  using assms
proof (induction frames phys offset out d rule: page_copy_out.induct)
  case (1 frames phys offset out d)
  show ?case
  proof (cases "d < length out \<and> (offset + d) div PAGE_SIZE_BYTES < length frames")
    case True
    let ?c = "min (length out - d) (PAGE_SIZE_BYTES - (offset + d) mod PAGE_SIZE_BYTES)"
    let ?o = "copy_slice out d (read_bytes_at phys (frames ! ((offset + d) div PAGE_SIZE_BYTES) +
        (offset + d) mod PAGE_SIZE_BYTES) ?c)"
    have c: "min (PAGE_SIZE_BYTES - (offset + d) mod PAGE_SIZE_BYTES) (length out - d) = ?c"
      by (rule min.commute)
    have le: "d + ?c \<le> length out" using True min.cobounded1[of "length out - d"] by linarith
    have lo: "length ?o = length out" using le by (simp add: read_bytes_at_def)
    have IH: "page_copy_out frames phys offset ?o (d + ?c) =
        map_option snd (read_pages phys frames (length ?o - (d + ?c)) (d + ?c) (offset + (d + ?c)) ?o)"
      using "1.IH"[OF _ refl refl refl refl] True le lo unfolding c by simp
    show ?thesis
      using True IH lo
      by (subst page_copy_out.simps, subst read_pages.simps) (simp add: Let_def c add.assoc)
  next
    case False
    with "1.prems" show ?thesis
      by (subst page_copy_out.simps, subst read_pages.simps) (auto simp: Let_def)
  qed
qed

lemma length_page_image: "length (page_image (frames, phys)) = PAGE_SIZE_BYTES * length frames"
  by (simp add: page_image_def)

lemma page_image_slot:
  assumes "k < RING_SLOT_DATA_BYTES"
  shows "page_addr frames (slot_data_offset i + k) = frames ! slot_page i + 8 + k"
proof -
  have m: "slot_data_offset i mod PAGE_SIZE_BYTES = 8" "slot_data_offset i div PAGE_SIZE_BYTES = slot_page i"
    by (simp_all add: slot_data_offset_def slot_len_offset_def PAGE_SIZE_BYTES_def)
  have "slot_data_offset i mod PAGE_SIZE_BYTES + k < PAGE_SIZE_BYTES"
    using assms m by (simp add: RING_SLOT_DATA_BYTES_def PAGE_SIZE_BYTES_def)
  from page_addr_chunk[OF this, of frames] show ?thesis by (simp add: m)
qed

lemma page_slot_in_range:
  assumes "slot_data_offset i + RING_SLOT_DATA_BYTES \<le> PAGE_SIZE_BYTES * length frames"
  shows "slot_page i < length frames"
proof (rule ccontr)
  assume "\<not> slot_page i < length frames"
  then have "PAGE_SIZE_BYTES * length frames \<le> slot_page i * PAGE_SIZE_BYTES"
    using mult_le_mono2[of "length frames" "slot_page i" PAGE_SIZE_BYTES] by (simp add: mult.commute)
  with assms show False by (simp add: slot_data_offset_def slot_len_offset_def)
qed

interpretation page_ring: ring_storage page_frame_storage page_storage_inv page_image
proof unfold_locales
  fix s :: page_storage and offset n i :: nat and data p :: "u8 list"
  obtain frames phys where s: "s = (frames, phys)" by (cases s)
  assume inv: "page_storage_inv s"
  then have ok: "frames_ok frames" by (simp add: s page_storage_inv_def)
  {
    assume le: "offset + length data \<le> length (page_image s)"
    then have le': "offset + length data \<le> PAGE_SIZE_BYTES * length frames" by (simp add: s length_page_image)
    from write_pages_spec[OF ok le', of 0 data] obtain phys' where
      w: "write_pages phys frames (length data) 0 offset data = Some (0 + length data, phys')"
        "\<forall>i < PAGE_SIZE_BYTES * length frames. phys' (page_addr frames i) =
          (if offset \<le> i \<and> i < offset + length data then data ! (0 + (i - offset)) else phys (page_addr frames i))"
      by auto
    have "page_image (frames, phys') = copy_slice (page_image s) offset data"
      using w(2) le' by (intro nth_equalityI) (auto simp: s page_image_def nth_copy_slice)
    with w(1) ok show "\<exists>s'. rs_copy_in page_frame_storage s offset data = Some s' \<and> page_storage_inv s' \<and>
        page_image s' = copy_slice (page_image s) offset data"
      by (simp add: s page_frame_storage_def page_copy_in_write_pages page_storage_inv_def)
  }
  {
    assume le: "offset + n \<le> length (page_image s)"
    then have le': "offset + n \<le> PAGE_SIZE_BYTES * length frames" by (simp add: s length_page_image)
    from read_pages_spec[OF le', of 0 "replicate n 0" phys]
    show "rs_copy_out page_frame_storage s offset n = Some (take n (drop offset (page_image s)))"
      using le' by (simp add: s page_frame_storage_def page_copy_out_read_pages page_image_def copy_slice_0
          copy_prefix_def drop_map take_map)
  }
  {
    assume le: "slot_data_offset i + RING_SLOT_DATA_BYTES \<le> length (page_image s)"
    then have le': "slot_data_offset i + RING_SLOT_DATA_BYTES \<le> PAGE_SIZE_BYTES * length frames"
      by (simp add: s length_page_image)
    note sp = page_slot_in_range[OF le']
    have "read_bytes_at phys (frames ! slot_page i + 8) RING_SLOT_DATA_BYTES =
        take RING_SLOT_DATA_BYTES (drop (slot_data_offset i) (page_image s))"
      using le' by (intro nth_equalityI) (auto simp: read_bytes_at_def s page_image_def page_image_slot)
    with sp show "rs_payload page_frame_storage s i =
        Some (take RING_SLOT_DATA_BYTES (drop (slot_data_offset i) (page_image s)))"
      by (simp add: s page_frame_storage_def)
    assume p: "length p = RING_SLOT_DATA_BYTES"
    let ?phys = "write_bytes_at phys (frames ! slot_page i + 8) p"
    have m: "slot_data_offset i mod PAGE_SIZE_BYTES = 8" "slot_data_offset i div PAGE_SIZE_BYTES = slot_page i"
      by (simp_all add: slot_data_offset_def slot_len_offset_def PAGE_SIZE_BYTES_def)
    have "?phys (page_addr frames j) = (if slot_data_offset i \<le> j \<and> j < slot_data_offset i + length p
        then p ! (j - slot_data_offset i) else phys (page_addr frames j))"
      if "j < PAGE_SIZE_BYTES * length frames" for j
      using that p sp le' m
      by (intro write_chunk[OF ok]) (simp_all add: RING_SLOT_DATA_BYTES_def PAGE_SIZE_BYTES_def)
    then have "page_image (frames, ?phys) = copy_slice (page_image s) (slot_data_offset i) p"
      using le' p by (intro nth_equalityI) (auto simp: s page_image_def nth_copy_slice)
    with sp ok show "\<exists>s'. rs_set_payload page_frame_storage s i p = Some s' \<and> page_storage_inv s' \<and>
        page_image s' = copy_slice (page_image s) (slot_data_offset i) p"
      by (simp add: s page_frame_storage_def page_storage_inv_def)
  }
qed

end
