(* ===== verification/Packet_Interface.thy ===== *)
theory Packet_Interface
  imports Packet_Ring
begin

text \<open>
  Packet interfaces (\<open>kernel/core/src/network/backend.rs\<close>) with their shared receive and transmit
  rings, and the rings' other ends in the network service
  (\<open>userspace/programs/network-service/src/device.rs\<close>). A backend is a parameter: its state and
  its operations.
\<close>

section \<open>Backends\<close>

datatype packet_interface_error =
  PacketQueueEmpty | PacketBufferTooSmall | PacketBusy | PacketUnsupported

text \<open>The trait \<open>PacketBackend\<close>. \<open>receive\<close> returns its result and what it left in the buffer.\<close>

record 'b packet_backend =
  pb_transmit :: "'b \<Rightarrow> u8 list \<Rightarrow> (packet_interface_error + unit) \<times> 'b"
  pb_receive :: "'b \<Rightarrow> u8 list \<Rightarrow> (packet_interface_error + nat) \<times> u8 list \<times> 'b"
  pb_poll :: "'b \<Rightarrow> bool \<times> 'b"

section \<open>The shared receive ring\<close>

definition receive_attempt ::
  "'s ring_storage_ops \<Rightarrow> 'b packet_backend \<Rightarrow> nat \<Rightarrow> 's \<Rightarrow> 'b
   \<Rightarrow> ((packet_interface_error + nat option) \<times> 's \<times> 'b) option" where
  "receive_attempt ops be slot_count s b =
     do { head_before \<leftarrow> load_head ops s;
          (published, s, b) \<leftarrow> push_fill ops s slot_count (pb_receive be b);
          (case published of
             Inl e \<Rightarrow> Some (Inl e, s, b)
           | Inr None \<Rightarrow> Some (Inr None, s, b)
           | Inr (Some _) \<Rightarrow>
               do { len \<leftarrow> frame_len_at ops s slot_count head_before;
                    Some (Inr (Some (case len of None \<Rightarrow> 0 | Some n \<Rightarrow> n)), s, b) }) }"

definition receive_into_slot ::
  "'s ring_storage_ops \<Rightarrow> 'b packet_backend \<Rightarrow> nat \<Rightarrow> 's \<Rightarrow> 'b
   \<Rightarrow> ((packet_interface_error + nat option) \<times> 's \<times> 'b) option" where
  "receive_into_slot ops be slot_count s b =
     do { (res, s1, b1) \<leftarrow> receive_attempt ops be slot_count s b;
          if res = Inr None \<or> res = Inl PacketQueueEmpty
          then receive_attempt ops be slot_count s1 (snd (pb_poll be b1))
          else Some (res, s1, b1) }"

section \<open>The shared transmit ring\<close>

text \<open>\<open>None\<close> is a panic or a drain that does not end.\<close>

partial_function (option) flush_loop ::
  "'s ring_storage_ops \<Rightarrow> 'b packet_backend \<Rightarrow> nat \<Rightarrow> 's \<Rightarrow> 'b \<Rightarrow> nat \<Rightarrow> (nat \<times> 's \<times> 'b) option" where
  [code]: "flush_loop ops be slot_count s b transmitted =
     do { head \<leftarrow> load_head ops s;
          tail \<leftarrow> load_tail ops s;
          if tail \<ge> head then Some (transmitted, s, b)
          else do { next \<leftarrow> frame_len_at ops s slot_count tail;
                    (case next of
                       None \<Rightarrow>
                         do { s \<leftarrow> commit_consumed ops s tail 0;
                              flush_loop ops be slot_count s b transmitted }
                     | Some len \<Rightarrow>
                         do { frame \<leftarrow> rs_copy_out ops s (slot_data_offset (slot_of tail slot_count)) len;
                              (case pb_transmit be b frame of
                                 (res, b') \<Rightarrow>
                                   (case res of
                                      Inr _ \<Rightarrow>
                                        do { s \<leftarrow> commit_consumed ops s tail len;
                                             flush_loop ops be slot_count s b' (transmitted + 1) }
                                    | Inl e \<Rightarrow>
                                        if e = PacketBufferTooSmall
                                        then do { s \<leftarrow> commit_consumed ops s tail 0;
                                                  flush_loop ops be slot_count s b' transmitted }
                                        else Some (transmitted, s, b'))) }) } }"

definition flush ::
  "'s ring_storage_ops \<Rightarrow> 'b packet_backend \<Rightarrow> nat \<Rightarrow> 's \<Rightarrow> 'b \<Rightarrow> (nat \<times> 's \<times> 'b) option" where
  "flush ops be slot_count s b = flush_loop ops be slot_count s b 0"

section \<open>The interface object\<close>

record 'b packet_interface_object =
  pi_backend :: 'b
  pi_shared_ring :: "(page_storage \<times> nat) option"
  pi_shared_tx_ring :: "(page_storage \<times> nat) option"

definition packet_interface_new :: "'b \<Rightarrow> 'b packet_interface_object" where
  "packet_interface_new backend =
     \<lparr>pi_backend = backend, pi_shared_ring = None, pi_shared_tx_ring = None\<rparr>"

definition attach_shared_tx_ring ::
  "'b packet_interface_object \<Rightarrow> page_storage \<Rightarrow> nat \<Rightarrow> 'b packet_interface_object" where
  "attach_shared_tx_ring pi storage slot_count =
     (case pi_shared_tx_ring pi of
        Some _ \<Rightarrow> pi
      | None \<Rightarrow> pi\<lparr>pi_shared_tx_ring := Some (storage, slot_count)\<rparr>)"

definition attach_shared_ring ::
  "'b packet_interface_object \<Rightarrow> page_storage \<Rightarrow> nat \<Rightarrow> 'b packet_interface_object" where
  "attach_shared_ring pi storage slot_count =
     (case pi_shared_ring pi of
        Some _ \<Rightarrow> pi
      | None \<Rightarrow> pi\<lparr>pi_shared_ring := Some (storage, slot_count)\<rparr>)"

definition flush_transmits ::
  "'b packet_backend \<Rightarrow> 'b packet_interface_object \<Rightarrow> (nat \<times> 'b packet_interface_object) option" where
  "flush_transmits be pi =
     (case pi_shared_tx_ring pi of
        None \<Rightarrow> Some (0, pi)
      | Some (storage, slot_count) \<Rightarrow>
          do { (n, storage, b) \<leftarrow> flush page_frame_storage be slot_count storage (pi_backend pi);
               Some (n, pi\<lparr>pi_shared_tx_ring := Some (storage, slot_count), pi_backend := b\<rparr>) })"

definition packet_transmit ::
  "'b packet_backend \<Rightarrow> 'b packet_interface_object \<Rightarrow> u8 list
   \<Rightarrow> ((packet_interface_error + unit) \<times> 'b packet_interface_object) option" where
  "packet_transmit be pi frame =
     do { (_, pi) \<leftarrow> flush_transmits be pi;
          let (res, b) = pb_transmit be (pi_backend pi) frame in Some (res, pi\<lparr>pi_backend := b\<rparr>) }"

definition receive_copied ::
  "'b packet_backend \<Rightarrow> 'b \<Rightarrow> u8 list \<Rightarrow> (packet_interface_error + nat) \<times> u8 list \<times> 'b" where
  "receive_copied be b buffer =
     (case pb_receive be b buffer of
        (Inl PacketQueueEmpty, buffer', b') \<Rightarrow> pb_receive be (snd (pb_poll be b')) buffer'
      | r \<Rightarrow> r)"

definition packet_receive ::
  "'b packet_backend \<Rightarrow> 'b packet_interface_object \<Rightarrow> u8 list
   \<Rightarrow> ((packet_interface_error + nat) \<times> u8 list \<times> 'b packet_interface_object) option" where
  "packet_receive be pi buffer =
     (case pi_shared_ring pi of
        Some (storage, slot_count) \<Rightarrow>
          do { (res, storage, b) \<leftarrow> receive_into_slot page_frame_storage be slot_count storage (pi_backend pi);
               Some ((case res of
                        Inl e \<Rightarrow> Inl e
                      | Inr None \<Rightarrow> Inl PacketQueueEmpty
                      | Inr (Some n) \<Rightarrow> if n > 0 then Inr n else Inl PacketQueueEmpty),
                     buffer, pi\<lparr>pi_shared_ring := Some (storage, slot_count), pi_backend := b\<rparr>) }
      | None \<Rightarrow>
          (case receive_copied be (pi_backend pi) buffer of
             (res, buffer', b) \<Rightarrow> Some (res, buffer', pi\<lparr>pi_backend := b\<rparr>)))"

section \<open>The service's ends\<close>

definition MAX_FRAME_BYTES :: nat where "MAX_FRAME_BYTES = 1536"
definition RING_PAGE_BYTES :: nat where "RING_PAGE_BYTES = 4096"
definition TX_STALL_DOORBELL_LIMIT :: nat where "TX_STALL_DOORBELL_LIMIT = 8"

text \<open>The mapped image; a slice out of range panics.\<close>

definition image_load_u64 :: "u8 list \<Rightarrow> nat \<Rightarrow> u64 option" where
  "image_load_u64 img offset =
     (if offset + 8 \<le> length img then Some (from_le_bytes (take 8 (drop offset img))) else None)"

record mapped_rx_ring =
  rx_mem :: "u8 list"
  rx_slot_count :: nat
  rx_tail :: u64

definition rx_head :: "mapped_rx_ring \<Rightarrow> u64 option" where
  "rx_head ring = image_load_u64 (rx_mem ring) OFF_HEAD"

definition next_sequence :: "mapped_rx_ring \<Rightarrow> u64 option option" where
  "next_sequence ring =
     do { head \<leftarrow> rx_head ring; Some (if rx_tail ring \<ge> head then None else Some (rx_tail ring)) }"

text \<open>\<open>claim\<close> borrows the frame in place: its offset and length.\<close>

definition claim :: "mapped_rx_ring \<Rightarrow> u64 \<Rightarrow> (nat \<times> nat) option option" where
  "claim ring sequence =
     do { head \<leftarrow> rx_head ring;
          if sequence \<ge> head then Some None
          else let len_offset = (unat sequence mod rx_slot_count ring + 1) * RING_PAGE_BYTES
               in do { len \<leftarrow> image_load_u64 (rx_mem ring) len_offset;
                       Some (if unat len = 0 \<or> unat len > MAX_FRAME_BYTES then None
                             else Some (len_offset + 8, unat len)) } }"

definition rx_commit :: "mapped_rx_ring \<Rightarrow> u64 \<Rightarrow> nat \<Rightarrow> mapped_rx_ring" where
  "rx_commit ring sequence len =
     (let m1 = copy_slice (rx_mem ring) OFF_TAIL (to_le_bytes 8 (sequence + 1));
          avoided = from_le_bytes (take 8 (drop OFF_COPIES_AVOIDED m1));
          m2 = copy_slice m1 OFF_COPIES_AVOIDED (to_le_bytes 8 (avoided + 1 :: u64));
          saved = from_le_bytes (take 8 (drop OFF_BYTES_SAVED m2));
          m3 = copy_slice m2 OFF_BYTES_SAVED (to_le_bytes 8 (saved + of_nat len :: u64))
      in ring\<lparr>rx_mem := m3, rx_tail := sequence + 1\<rparr>)"

definition discard :: "mapped_rx_ring \<Rightarrow> u64 \<Rightarrow> mapped_rx_ring" where
  "discard ring sequence =
     ring\<lparr>rx_mem := copy_slice (rx_mem ring) OFF_TAIL (to_le_bytes 8 (sequence + 1)),
          rx_tail := sequence + 1\<rparr>"

record mapped_tx_ring =
  tx_mem :: "u8 list"
  tx_slot_count :: nat
  tx_head :: u64
  stalled_doorbells :: nat
  tx_disabled :: bool

definition kernel_tail :: "mapped_tx_ring \<Rightarrow> u64 option" where
  "kernel_tail ring = image_load_u64 (tx_mem ring) OFF_TAIL"

definition has_room :: "mapped_tx_ring \<Rightarrow> bool option" where
  "has_room ring =
     do { tail \<leftarrow> kernel_tail ring; Some (unat (tx_head ring - tail) < tx_slot_count ring) }"

definition publish :: "mapped_tx_ring \<Rightarrow> u64 \<Rightarrow> nat \<Rightarrow> mapped_tx_ring" where
  "publish ring sequence len =
     (let len_offset = (unat sequence mod tx_slot_count ring + 1) * RING_PAGE_BYTES;
          m1 = copy_slice (tx_mem ring) len_offset (to_le_bytes 8 (of_nat len :: u64));
          pushed = from_le_bytes (take 8 (drop OFF_FRAMES_PUSHED m1));
          m2 = copy_slice m1 OFF_FRAMES_PUSHED (to_le_bytes 8 (pushed + 1 :: u64))
      in ring\<lparr>tx_mem := m2, tx_head := sequence + 1\<rparr>)"

text \<open>The ring part of \<open>TxToken::consume\<close>: whether the frame went into the ring.\<close>

definition tx_via_ring :: "mapped_tx_ring \<Rightarrow> u8 list \<Rightarrow> (bool \<times> mapped_tx_ring) option" where
  "tx_via_ring ring frame =
     do { room \<leftarrow> (if tx_disabled ring \<or> length frame > MAX_FRAME_BYTES then Some False else has_room ring);
          if \<not> room then Some (False, ring)
          else let sequence = tx_head ring;
                   data_offset = (unat sequence mod tx_slot_count ring + 1) * RING_PAGE_BYTES + 8
               in Some (True, publish (ring\<lparr>tx_mem := copy_slice (tx_mem ring) data_offset frame\<rparr>)
                                sequence (length frame)) }"

definition note_doorbell :: "mapped_tx_ring \<Rightarrow> mapped_tx_ring option" where
  "note_doorbell ring =
     do { tail \<leftarrow> kernel_tail ring;
          Some (if tail \<ge> tx_head ring then ring\<lparr>stalled_doorbells := 0\<rparr>
                else let n = stalled_doorbells ring + 1
                     in ring\<lparr>stalled_doorbells := n,
                             tx_disabled := (n \<ge> TX_STALL_DOORBELL_LIMIT \<or> tx_disabled ring)\<rparr>) }"

text \<open>\<open>TxToken::consume\<close> for a frame that leaves the guest: the ring and the doorbell, in which the
  kernel drains the shared image, or the copied transmit.\<close>

definition tx_consume ::
  "'b packet_backend \<Rightarrow> mapped_tx_ring \<times> 'b \<Rightarrow> u8 list \<Rightarrow> (mapped_tx_ring \<times> 'b) option" where
  "tx_consume be st frame =
     (case st of (ring, b) \<Rightarrow>
        do { (via_ring, ring) \<leftarrow> tx_via_ring ring frame;
             if via_ring
             then do { (_, mem, b) \<leftarrow> flush slice_storage be (tx_slot_count ring) (tx_mem ring) b;
                       ring \<leftarrow> note_doorbell (ring\<lparr>tx_mem := mem\<rparr>);
                       Some (ring, b) }
             else do { (_, mem, b) \<leftarrow> flush slice_storage be (tx_slot_count ring) (tx_mem ring) b;
                       Some (ring\<lparr>tx_mem := mem\<rparr>, snd (pb_transmit be b frame)) } })"


section \<open>Pending frames\<close>

abbreviation img_head :: "u8 list \<Rightarrow> nat" where "img_head img \<equiv> unat (get_u64 img OFF_HEAD)"
abbreviation img_tail :: "u8 list \<Rightarrow> nat" where "img_tail img \<equiv> unat (get_u64 img OFF_TAIL)"

definition slot_frame :: "u8 list \<Rightarrow> nat \<Rightarrow> nat \<Rightarrow> u8 list" where
  "slot_frame img slots k = (case slot_in img (k mod slots) of (len, p) \<Rightarrow> take len p)"

definition pending_frames :: "u8 list \<Rightarrow> nat \<Rightarrow> u8 list list" where
  "pending_frames img slots = map (slot_frame img slots) [img_tail img..<img_head img]"

text \<open>A well-formed ring whose counters have not wrapped.\<close>

definition ring_ok :: "u8 list \<Rightarrow> nat \<Rightarrow> bool" where
  "ring_ok img slots \<longleftrightarrow>
     length img = ring_total_bytes slots \<and> 0 < slots \<and>
     img_tail img \<le> img_head img \<and> img_head img - img_tail img \<le> slots \<and>
     (\<forall>k. img_tail img \<le> k \<and> k < img_head img \<longrightarrow> fst (slot_in img (k mod slots)) \<le> RING_SLOT_DATA_BYTES)"

lemma ring_okD:
  assumes "ring_ok img slots"
  shows "length img = ring_total_bytes slots" "0 < slots" "img_tail img \<le> img_head img"
    "img_head img - img_tail img \<le> slots"
    "img_tail img \<le> k \<Longrightarrow> k < img_head img \<Longrightarrow> fst (slot_in img (k mod slots)) \<le> RING_SLOT_DATA_BYTES"
  using assms by (auto simp: ring_ok_def)

lemma ring_pending_count:
  assumes "ring_ok img slots"
  shows "unat (get_u64 img OFF_HEAD - get_u64 img OFF_TAIL) = length (pending_frames img slots)"
  using ring_okD(3)[OF assms] by (simp add: pending_frames_def unat_sub word_le_nat_alt)

lemma unat_plus_one:
  fixes w :: u64
  assumes "unat w + 1 < 2 ^ 64"
  shows "unat (w + 1) = unat w + 1"
  using assms by (subst unat_add_lem[THEN iffD1]) simp_all

text \<open>Two different sequence numbers less than a ring length apart use different slots.\<close>

lemma slots_differ:
  fixes h k slots :: nat
  assumes "k < h" "h - k < slots"
  shows "k mod slots \<noteq> h mod slots"
proof
  assume "k mod slots = h mod slots"
  then have "slots dvd h - k" using assms(1) by (metis mod_eq_dvd_iff_nat less_imp_le)
  with assms show False by (auto dest: dvd_imp_le)
qed

lemma slot_in_payload_length:
  assumes "length img = ring_total_bytes slots" "i < slots"
  shows "length (snd (slot_in img i)) = RING_SLOT_DATA_BYTES"
  using slot_bounds(3)[OF assms(2)] assms(1) by (simp add: slot_in_def)

text \<open>Publishing a frame is the push of a queue that drops its oldest element.\<close>

definition queue_push :: "nat \<Rightarrow> 'a list \<Rightarrow> 'a \<Rightarrow> 'a list" where
  "queue_push n q x = (if length q < n then q else tl q) @ [x]"

lemma publish_queue:
  assumes ok: "ring_ok img slots" and h: "img_head img + 1 < 2 ^ 64"
    and p: "length p = RING_SLOT_DATA_BYTES" "len \<le> RING_SLOT_DATA_BYTES"
  defines "img' \<equiv> img_publish img slots p len"
  shows "ring_ok img' slots" "img_head img' = img_head img + 1"
    "pending_frames img' slots = queue_push slots (pending_frames img slots) (take len p)"
proof -
  note o = ring_okD[OF ok]
  note f = img_publish_facts[OF o(1,2) p, folded img'_def]
  let ?full = "slots \<le> unat (get_u64 img OFF_HEAD - get_u64 img OFF_TAIL)"
  have n: "?full \<longleftrightarrow> img_head img - img_tail img = slots"
    using o(3,4) by (auto simp: unat_sub word_le_nat_alt)
  show head: "img_head img' = img_head img + 1" using f(2) h by (simp add: unat_plus_one)
  have tail: "img_tail img' = img_tail img + (if ?full then 1 else 0)"
    using f(3) h o(3) by (auto simp: unat_plus_one)
  have i: "slot_of (get_u64 img OFF_HEAD) slots = img_head img mod slots" by (simp add: slot_of_def)
  have sl: "slot_in img' (k mod slots) = (if k = img_head img then (len, p) else slot_in img (k mod slots))"
    if "img_tail img' \<le> k" "k < img_head img'" for k
  proof (cases "k = img_head img")
    case True
    then show ?thesis using f(6)[of "k mod slots"] o(2) by (simp add: i)
  next
    case False
    then have "k < img_head img" using that(2) head by simp
    moreover have "img_head img - k < slots"
      using that(1) tail n o(3,4) calculation by (auto split: if_splits)
    ultimately have "k mod slots \<noteq> img_head img mod slots" by (rule slots_differ)
    with False show ?thesis using f(6)[of "k mod slots"] o(2) by (simp add: i)
  qed
  have tle: "img_tail img' \<le> img_head img" using tail n o(2,3) by (auto split: if_splits)
  show "ring_ok img' slots"
    unfolding ring_ok_def
  proof (intro conjI allI impI)
    show "length img' = ring_total_bytes slots" by (rule f(1))
    show "0 < slots" by (rule o(2))
    show "img_tail img' \<le> img_head img'" using tle head by simp
    show "img_head img' - img_tail img' \<le> slots" using tail n head o(3,4) by (auto split: if_splits)
    show "fst (slot_in img' (k mod slots)) \<le> RING_SLOT_DATA_BYTES"
      if k: "img_tail img' \<le> k \<and> k < img_head img'" for k
      using sl[of k] k o(5)[of k] tail head p(2) by (auto split: if_splits)
  qed
  have "pending_frames img' slots = map (slot_frame img' slots) ([img_tail img'..<img_head img] @ [img_head img])"
    using head tle by (simp add: pending_frames_def)
  also have "\<dots> = map (slot_frame img slots) [img_tail img'..<img_head img] @ [take len p]"
    using sl head tle by (auto simp: slot_frame_def)
  also have "map (slot_frame img slots) [img_tail img'..<img_head img] =
      (if length (pending_frames img slots) < slots then pending_frames img slots else tl (pending_frames img slots))"
    using tail n o(3,4) by (auto simp: pending_frames_def map_tl upt_rec[of "img_tail img"])
  finally show "pending_frames img' slots = queue_push slots (pending_frames img slots) (take len p)"
    by (simp add: queue_push_def)
qed

lemma commit_queue:
  fixes len :: nat
  assumes ok: "ring_ok img slots" and ne: "pending_frames img slots \<noteq> []"
  defines "img' \<equiv> img_commit img (get_u64 img OFF_TAIL) len"
  shows "ring_ok img' slots" "img_head img' = img_head img" "pending_frames img' slots = tl (pending_frames img slots)"
proof -
  note o = ring_okD[OF ok]
  note f = img_commit_facts[OF o(1), where sequence = "get_u64 img OFF_TAIL" and len = len, folded img'_def]
  have lt: "img_tail img < img_head img" using ne by (simp add: pending_frames_def)
  have "img_head img < 2 ^ 64" using unsigned_less[of "get_u64 img OFF_HEAD", where ?'a = nat] by simp
  with lt have tail: "img_tail img' = img_tail img + 1" using f(2) by (simp add: unat_plus_one)
  show head: "img_head img' = img_head img" using f(3) by simp
  have sl: "slot_in img' (k mod slots) = slot_in img (k mod slots)" for k using f(5) o(2) by simp
  show "ring_ok img' slots"
    unfolding ring_ok_def using f(1) o lt tail head sl by auto
  show "pending_frames img' slots = tl (pending_frames img slots)"
    using lt by (simp add: pending_frames_def tail head slot_frame_def[abs_def] sl map_tl upt_rec[of "img_tail img"])
qed


text \<open>What a drain does to the queue: frames leave in order until the backend refuses one; empty frames
  are skipped and frames that are too large for the backend are dropped.\<close>

fun queue_flush :: "'b packet_backend \<Rightarrow> 'b \<Rightarrow> u8 list list \<Rightarrow> nat \<times> 'b \<times> u8 list list" where
  "queue_flush be b [] = (0, b, [])"
| "queue_flush be b (f # q) =
     (if f = [] then queue_flush be b q
      else case pb_transmit be b f of
             (Inr _, b') \<Rightarrow> (case queue_flush be b' q of (n, b'', q') \<Rightarrow> (n + 1, b'', q'))
           | (Inl e, b') \<Rightarrow> if e = PacketBufferTooSmall then queue_flush be b' q else (0, b', f # q))"

context ring_storage
begin

lemma frame_len_image:
  assumes inv: "invar s" and ok: "ring_ok (image s) slots" and q: "pending_frames (image s) slots = f # q"
  shows "frame_len_at ops s slots (get_u64 (image s) OFF_TAIL) = Some (if f = [] then None else Some (length f))"
    "rs_copy_out ops s (slot_data_offset (slot_of (get_u64 (image s) OFF_TAIL) slots)) (length f) = Some f"
proof -
  let ?img = "image s"
  note o = ring_okD[OF ok]
  let ?t = "img_tail ?img"
  have lt: "?t < img_head ?img"
    using q by (cases "?t < img_head ?img") (auto simp: pending_frames_def)
  define i where "i = ?t mod slots"
  have i: "i < slots" using o(2) by (simp add: i_def)
  note b = slot_bounds[OF i]
  have f: "f = take (fst (slot_in ?img i)) (snd (slot_in ?img i))"
    using q lt by (simp add: pending_frames_def upt_rec[of ?t] slot_frame_def i_def case_prod_beta)
  have le: "fst (slot_in ?img i) \<le> RING_SLOT_DATA_BYTES" using o(5)[of ?t] lt by (simp add: i_def)
  have len: "length f = fst (slot_in ?img i)"
    using f le slot_in_payload_length[OF o(1) i] by simp
  have h: "load_u64 ops s OFF_HEAD = Some (get_u64 ?img OFF_HEAD)"
    using load_image[OF inv, of OFF_HEAD] header_in_image[OF o(1), of "OFF_HEAD + 8"] by (simp add: ring_offsets)
  have l: "load_u64 ops s (slot_len_offset i) = Some (get_u64 ?img (slot_len_offset i))"
    using load_image[OF inv, of "slot_len_offset i"] b o(1) by simp
  have so: "slot_of (get_u64 ?img OFF_TAIL) slots = i" by (simp add: slot_of_def i_def)
  show "frame_len_at ops s slots (get_u64 ?img OFF_TAIL) = Some (if f = [] then None else Some (length f))"
    using lt h l le len by (auto simp: frame_len_at_def so word_le_nat_alt slot_in_def)
  have "take (length f) (drop (slot_data_offset i) ?img) = f"
    using f len le by (simp add: slot_in_def min_def)
  then show "rs_copy_out ops s (slot_data_offset (slot_of (get_u64 ?img OFF_TAIL) slots)) (length f) = Some f"
    using copy_out[OF inv, of "slot_data_offset i" "length f"] b o(1) le len by (simp add: so)
qed

lemma load_counters:
  assumes "invar s" "ring_ok (image s) slots"
  shows "load_head ops s = Some (get_u64 (image s) OFF_HEAD)" "load_tail ops s = Some (get_u64 (image s) OFF_TAIL)"
  using load_image[OF assms(1)] header_in_image[OF ring_okD(1)[OF assms(2)]]
  by (simp_all add: load_head_def load_tail_def ring_offsets)

lemma flush_image:
  assumes "invar s" "ring_ok (image s) slots" "queue_flush be b (pending_frames (image s) slots) = (k, b', q')"
  shows "\<exists>s'. flush_loop ops be slots s b n = Some (n + k, s', b') \<and> invar s' \<and> ring_ok (image s') slots \<and>
    img_head (image s') = img_head (image s) \<and> pending_frames (image s') slots = q'"
  using assms
proof (induction "pending_frames (image s) slots" arbitrary: s b n k)
  case Nil
  have "img_head (image s) \<le> img_tail (image s)" using Nil.hyps by (auto simp: pending_frames_def)
  with Nil load_counters[OF Nil.prems(1,2)] show ?case
    by (subst flush_loop.simps) (auto simp: word_le_nat_alt)
next
  case (Cons f q)
  note inv = Cons.prems(1) and ok = Cons.prems(2) and pf = Cons.hyps(2)[symmetric]
  note ld = load_counters[OF inv ok] and fl = frame_len_image[OF inv ok pf]
  have lt: "\<not> get_u64 (image s) OFF_HEAD \<le> get_u64 (image s) OFF_TAIL"
    using pf by (auto simp: pending_frames_def word_le_nat_alt)
  have rec: "\<exists>s'. do { s \<leftarrow> commit_consumed ops s (get_u64 (image s) OFF_TAIL) len;
                     flush_loop ops be slots s b1 m } = Some (m + k1, s', b') \<and> invar s' \<and>
      ring_ok (image s') slots \<and> img_head (image s') = img_head (image s) \<and> pending_frames (image s') slots = q'"
    if qf: "queue_flush be b1 q = (k1, b', q')" for len b1 m k1
  proof -
    obtain s1 where s1: "commit_consumed ops s (get_u64 (image s) OFF_TAIL) len = Some s1" "invar s1"
        "image s1 = img_commit (image s) (get_u64 (image s) OFF_TAIL) len"
      using commit_image[OF inv ring_okD(1)[OF ok]] by blast
    note cq = commit_queue[OF ok, of len, folded s1(3)]
    have "q = pending_frames (image s1) slots" using cq(3) pf by simp
    with Cons.hyps(1)[OF _ s1(2), of b1 k1 m] cq(1,2) qf pf s1(1) show ?thesis by simp
  qed
  show ?case
  proof (cases "f = []")
    case True
    with Cons.prems(3) pf have "queue_flush be b q = (k, b', q')" by simp
    from rec[OF this, of 0 n] True ld fl lt show ?thesis by (subst flush_loop.simps) simp
  next
    case False
    obtain res b1 where t: "pb_transmit be b f = (res, b1)" by (cases "pb_transmit be b f")
    show ?thesis
    proof (cases res)
      case (Inr u)
      obtain k1 where k1: "queue_flush be b1 q = (k1, b', q')" "k = k1 + 1"
        using Cons.prems(3) pf t Inr False by (cases "queue_flush be b1 q") auto
      from rec[OF k1(1), of "length f" "n + 1"] False ld fl lt t Inr k1(2) show ?thesis
        by (subst flush_loop.simps) simp
    next
      case (Inl e)
      show ?thesis
      proof (cases "e = PacketBufferTooSmall")
        case True
        with Cons.prems(3) pf t Inl False have "queue_flush be b1 q = (k, b', q')" by simp
        from rec[OF this, of 0 n] False ld fl lt t Inl True show ?thesis by (subst flush_loop.simps) simp
      next
        case e: False
        with Cons.prems(3) pf t Inl False have "k = 0" "b' = b1" "q' = f # q" by simp_all
        with e False ld fl lt t Inl inv ok pf show ?thesis by (subst flush_loop.simps) simp
      qed
    qed
  qed
qed

lemma push_image:
  assumes inv: "invar s" and ok: "ring_ok (image s) slots" and h: "img_head (image s) + 1 < 2 ^ 64"
    and f: "length frame \<le> RING_SLOT_DATA_BYTES"
  shows "\<exists>s'. ring_push ops s slots frame = Some (Inr (get_u64 (image s) OFF_HEAD), s') \<and> invar s' \<and>
    ring_ok (image s') slots \<and> img_head (image s') = img_head (image s) + 1 \<and>
    pending_frames (image s') slots = queue_push slots (pending_frames (image s) slots) frame"
proof -
  note o = ring_okD[OF ok]
  let ?i = "slot_of (get_u64 (image s) OFF_HEAD) slots"
  let ?pl = "take RING_SLOT_DATA_BYTES (drop (slot_data_offset ?i) (image s))"
  have i: "?i < slots" using o(2) by (simp add: slot_of_def)
  have "length ?pl = RING_SLOT_DATA_BYTES" using slot_bounds(3)[OF i] o(1) by simp
  then have p: "length (copy_prefix ?pl frame) = RING_SLOT_DATA_BYTES" using f by simp
  let ?fill = "\<lambda>slot. (Inr (length frame) :: push_error + nat, copy_prefix slot frame, ())"
  obtain s' where s': "push_fill ops s slots ?fill = Some (Inr (Some (get_u64 (image s) OFF_HEAD)), s', ())"
      "invar s'" "image s' = img_publish (image s) slots (copy_prefix ?pl frame) (length frame)"
    using push_fill_image[OF inv o(1,2), of ?fill, OF refl p] by auto
  from publish_queue[OF ok h p f] s' f show ?thesis by (auto simp: ring_push_def)
qed

lemma init_image:
  assumes inv: "invar s" and l: "length (image s) = ring_total_bytes slots" and n: "0 < slots"
  shows "\<exists>s'. ring_init ops s slots = Some s' \<and> invar s' \<and> ring_ok (image s') slots \<and>
    img_head (image s') = 0 \<and> pending_frames (image s') slots = []"
proof -
  have h: "x \<le> ring_total_bytes slots" if "x \<le> 64" for x using header_in_image[OF l that] l by simp
  have cp: "\<exists>s'. rs_copy_in ops s off d = Some s' \<and> invar s' \<and> length (image s') = ring_total_bytes slots"
    if "invar s" "length (image s) = ring_total_bytes slots" "off + length d \<le> 64" for s off d
    using copy_in[of s off d] that h[of "off + length d"] by auto
  have st: "\<exists>s'. store_u64 ops s off v = Some s' \<and> invar s' \<and> image s' = put_u64 (image s) off v \<and>
      length (image s') = ring_total_bytes slots"
    if "invar s" "length (image s) = ring_total_bytes slots" "off + 8 \<le> 64" for s off v
    using store_image[of s off v] that h[of "off + 8"] by auto
  obtain s1 where s1: "rs_copy_in ops s OFF_MAGIC (to_le_bytes 4 RING_MAGIC) = Some s1" "invar s1"
      "length (image s1) = ring_total_bytes slots"
    using cp[OF inv l, of OFF_MAGIC "to_le_bytes 4 RING_MAGIC"] by (auto simp: ring_offsets)
  obtain s2 where s2: "rs_copy_in ops s1 OFF_VERSION (to_le_bytes 4 RING_VERSION) = Some s2" "invar s2"
      "length (image s2) = ring_total_bytes slots"
    using cp[OF s1(2,3), of OFF_VERSION "to_le_bytes 4 RING_VERSION"] by (auto simp: ring_offsets)
  obtain s3 where s3: "rs_copy_in ops s2 OFF_SLOTS (to_le_bytes 4 (of_nat slots :: 32 word)) = Some s3" "invar s3"
      "length (image s3) = ring_total_bytes slots"
    using cp[OF s2(2,3), of OFF_SLOTS "to_le_bytes 4 (of_nat slots :: 32 word)"] by (auto simp: ring_offsets)
  obtain s4 where s4: "rs_copy_in ops s3 12 (to_le_bytes 4 (of_nat RING_SLOT_DATA_BYTES :: 32 word)) = Some s4"
      "invar s4" "length (image s4) = ring_total_bytes slots"
    using cp[OF s3(2,3), of 12 "to_le_bytes 4 (of_nat RING_SLOT_DATA_BYTES :: 32 word)"] by auto
  obtain s5 where s5: "store_u64 ops s4 OFF_HEAD 0 = Some s5" "invar s5" "image s5 = put_u64 (image s4) OFF_HEAD 0"
      "length (image s5) = ring_total_bytes slots"
    using st[OF s4(2,3), of OFF_HEAD 0] by (auto simp: ring_offsets)
  obtain s6 where s6: "store_u64 ops s5 OFF_TAIL 0 = Some s6" "invar s6" "image s6 = put_u64 (image s5) OFF_TAIL 0"
      "length (image s6) = ring_total_bytes slots"
    using st[OF s5(2,4), of OFF_TAIL 0] by (auto simp: ring_offsets)
  obtain s7 where s7: "store_u64 ops s6 OFF_FRAMES_PUSHED 0 = Some s7" "invar s7"
      "image s7 = put_u64 (image s6) OFF_FRAMES_PUSHED 0" "length (image s7) = ring_total_bytes slots"
    using st[OF s6(2,4), of OFF_FRAMES_PUSHED 0] by (auto simp: ring_offsets)
  obtain s8 where s8: "store_u64 ops s7 OFF_COPIES_AVOIDED 0 = Some s8" "invar s8"
      "image s8 = put_u64 (image s7) OFF_COPIES_AVOIDED 0" "length (image s8) = ring_total_bytes slots"
    using st[OF s7(2,4), of OFF_COPIES_AVOIDED 0] by (auto simp: ring_offsets)
  obtain s9 where s9: "store_u64 ops s8 OFF_BYTES_SAVED 0 = Some s9" "invar s9"
      "image s9 = put_u64 (image s8) OFF_BYTES_SAVED 0" "length (image s9) = ring_total_bytes slots"
    using st[OF s8(2,4), of OFF_BYTES_SAVED 0] by (auto simp: ring_offsets)
  obtain s' where s': "store_u64 ops s9 OFF_DROPPED 0 = Some s'" "invar s'"
      "image s' = put_u64 (image s9) OFF_DROPPED 0" "length (image s') = ring_total_bytes slots"
    using st[OF s9(2,4), of OFF_DROPPED 0] by (auto simp: ring_offsets)
  have z: "get_u64 (image s') OFF_HEAD = 0" "get_u64 (image s') OFF_TAIL = 0"
    using s5 s6 s7 s8 s9 s' s4(3) h by (simp_all add: get_put_u64 ring_offsets)
  have "ring_init ops s slots = Some s'"
    by (simp add: ring_init_def s1(1) s2(1) s3(1) s4(1) s5(1) s6(1) s7(1) s8(1) s9(1) s'(1))
  with s' z n show ?thesis by (auto simp: ring_ok_def pending_frames_def)
qed

end


section \<open>The ring is a queue\<close>

datatype ring_call = RingPush "u8 list" | RingFlush

datatype ring_reply = PushReply "push_error + u64" | FlushReply nat

fun ring_run ::
  "'s ring_storage_ops \<Rightarrow> 'b packet_backend \<Rightarrow> nat \<Rightarrow> ring_call list \<Rightarrow> 's \<Rightarrow> 'b
   \<Rightarrow> (ring_reply list \<times> 's \<times> 'b) option" where
  "ring_run ops be slots [] s b = Some ([], s, b)"
| "ring_run ops be slots (RingPush f # cs) s b =
     do { (r, s) \<leftarrow> ring_push ops s slots f;
          (rs, s, b) \<leftarrow> ring_run ops be slots cs s b;
          Some (PushReply r # rs, s, b) }"
| "ring_run ops be slots (RingFlush # cs) s b =
     do { (n, s, b) \<leftarrow> flush ops be slots s b;
          (rs, s, b) \<leftarrow> ring_run ops be slots cs s b;
          Some (FlushReply n # rs, s, b) }"

text \<open>The same calls on a list of frames; \<open>n\<close> counts the frames pushed.\<close>

fun queue_run ::
  "'b packet_backend \<Rightarrow> nat \<Rightarrow> ring_call list \<Rightarrow> nat \<Rightarrow> u8 list list \<Rightarrow> 'b
   \<Rightarrow> ring_reply list \<times> u8 list list \<times> 'b" where
  "queue_run be slots [] n q b = ([], q, b)"
| "queue_run be slots (RingPush f # cs) n q b =
     (if length f > RING_SLOT_DATA_BYTES
      then (case queue_run be slots cs n q b of (rs, r) \<Rightarrow> (PushReply (Inl FrameTooLarge) # rs, r))
      else (case queue_run be slots cs (n + 1) (queue_push slots q f) b of
              (rs, r) \<Rightarrow> (PushReply (Inr (of_nat n)) # rs, r)))"
| "queue_run be slots (RingFlush # cs) n q b =
     (case queue_flush be b q of
        (k, b', q') \<Rightarrow> (case queue_run be slots cs n q' b' of (rs, r) \<Rightarrow> (FlushReply k # rs, r)))"

context ring_storage
begin

lemma run_queue:
  assumes "invar s" "ring_ok (image s) slots" "img_head (image s) + length cs < 2 ^ 64"
    "queue_run be slots cs (img_head (image s)) (pending_frames (image s) slots) b = (rs, q', b')"
  shows "\<exists>s'. ring_run ops be slots cs s b = Some (rs, s', b') \<and> pending_frames (image s') slots = q'"
  using assms
proof (induction cs arbitrary: s b rs)
  case Nil
  then show ?case by simp
next
  case (Cons c cs)
  show ?case
  proof (cases c)
    case (RingPush f)
    show ?thesis
    proof (cases "length f > RING_SLOT_DATA_BYTES")
      case True
      obtain rs1 where r1: "queue_run be slots cs (img_head (image s)) (pending_frames (image s) slots) b = (rs1, q', b')"
          "rs = PushReply (Inl FrameTooLarge) # rs1"
        using Cons.prems(4) RingPush True by (auto split: prod.splits)
      from Cons.IH[OF Cons.prems(1,2) _ r1(1)] Cons.prems(3) r1(2) RingPush True show ?thesis
        by (auto simp: ring_push_def)
    next
      case False
      from push_image[OF Cons.prems(1,2), of f] Cons.prems(3) False obtain s1 where
        s1: "ring_push ops s slots f = Some (Inr (get_u64 (image s) OFF_HEAD), s1)" "invar s1"
          "ring_ok (image s1) slots" "img_head (image s1) = img_head (image s) + 1"
          "pending_frames (image s1) slots = queue_push slots (pending_frames (image s) slots) f"
        by auto
      obtain rs1 where r1: "queue_run be slots cs (img_head (image s1)) (pending_frames (image s1) slots) b = (rs1, q', b')"
          "rs = PushReply (Inr (get_u64 (image s) OFF_HEAD)) # rs1"
        using Cons.prems(4) RingPush False s1(4,5) by (auto split: prod.splits)
      from Cons.IH[OF s1(2,3) _ r1(1)] Cons.prems(3) s1(1,4) r1(2) RingPush show ?thesis by auto
    qed
  next
    case RingFlush
    obtain k b1 q1 where qf: "queue_flush be b (pending_frames (image s) slots) = (k, b1, q1)"
      by (metis prod_cases3)
    from flush_image[OF Cons.prems(1,2) qf, of 0] obtain s1 where
      s1: "flush ops be slots s b = Some (k, s1, b1)" "invar s1" "ring_ok (image s1) slots"
        "img_head (image s1) = img_head (image s)" "pending_frames (image s1) slots = q1"
      by (auto simp: flush_def)
    obtain rs1 where r1: "queue_run be slots cs (img_head (image s1)) (pending_frames (image s1) slots) b1 = (rs1, q', b')"
        "rs = FlushReply k # rs1"
      using Cons.prems(4) RingFlush qf s1(4,5) by (auto split: prod.splits)
    from Cons.IH[OF s1(2,3) _ r1(1)] Cons.prems(3) s1(1,4) r1(2) RingFlush show ?thesis by auto
  qed
qed

end

text \<open>C12. The packet ring over the page frames of a memory object is a queue that drops its oldest
  frame. After \<open>init\<close>, any sequence of pushes and drains answers as the list queue does: a push
  gives the next sequence number, or refuses a frame that does not fit a slot; when all slots are
  taken it drops the oldest frame; a drain ends and hands the frames to the backend in order until
  one is refused. (The counters are 64 bits wide; fewer than \<open>2^64\<close> calls are made.)\<close>

theorem packet_ring_refines_queue:
  assumes "page_storage_inv (frames, phys)" "length frames = slots + 1" "0 < slots"
    "length cs < 2 ^ 64" "queue_run be slots cs 0 [] b = (rs, q, b')"
  shows "\<exists>s0 s'. ring_init page_frame_storage (frames, phys) slots = Some s0 \<and>
    ring_run page_frame_storage be slots cs s0 b = Some (rs, s', b') \<and>
    pending_frames (page_image s') slots = q"
proof -
  have "length (page_image (frames, phys)) = ring_total_bytes slots"
    using assms(2) by (simp add: length_page_image ring_total_bytes_def)
  from page_ring.init_image[OF assms(1) this assms(3)] obtain s0 where
    s0: "ring_init page_frame_storage (frames, phys) slots = Some s0" "page_storage_inv s0"
      "ring_ok (page_image s0) slots" "img_head (page_image s0) = 0" "pending_frames (page_image s0) slots = []"
    by blast
  from page_ring.run_queue[OF s0(2,3)] assms(4,5) s0 show ?thesis by auto
qed

definition sample_backend :: "u8 list list packet_backend" where
  "sample_backend =
     \<lparr>pb_transmit = (\<lambda>b f. if length f > 2 then (Inl PacketBufferTooSmall, b) else (Inr (), b @ [f])),
      pb_receive = (\<lambda>b p. (Inl PacketQueueEmpty, p, b)), pb_poll = (\<lambda>b. (False, b))\<rparr>"

lemma sample_frames_ok: "page_storage_inv ([4096, 8192, 0], \<lambda>_. 7)"
  by (simp add: page_storage_inv_def frames_ok_def PAGE_SIZE_BYTES_def)

theorem packet_ring_refines_queue_witness:
  "\<exists>s0 s'. ring_init page_frame_storage ([4096, 8192, 0], \<lambda>_. 7) 2 = Some s0 \<and>
     ring_run page_frame_storage sample_backend 2
       [RingPush [1], RingPush [2], RingPush [3, 3], RingFlush, RingPush [4, 4, 4]] s0 [] =
       Some ([PushReply (Inr 0), PushReply (Inr 1), PushReply (Inr 2), FlushReply 2, PushReply (Inr 3)],
             s', [[2], [3, 3]]) \<and>
     pending_frames (page_image s') 2 = [[4, 4, 4]]"
proof -
  have qr: "queue_run sample_backend 2
      [RingPush [1], RingPush [2], RingPush [3, 3], RingFlush, RingPush [4, 4, 4]] 0 [] [] =
      ([PushReply (Inr 0), PushReply (Inr 1), PushReply (Inr 2), FlushReply 2, PushReply (Inr 3)],
       [[4, 4, 4]], [[2], [3, 3]])"
    by (simp add: queue_push_def RING_SLOT_DATA_BYTES_def sample_backend_def)
  show ?thesis
    by (rule packet_ring_refines_queue[OF sample_frames_ok _ _ _ qr]) simp_all
qed

section \<open>Receiving into a full ring\<close>

lemma copy_slice_same: "off + n \<le> length img \<Longrightarrow> copy_slice img off (take n (drop off img)) = img"
  by (rule nth_equalityI) (auto simp: nth_copy_slice)

lemma retire_queue:
  assumes ok: "ring_ok img slots"
  shows "ring_ok (img_retire img slots) slots \<and>
    pending_frames (img_retire img slots) slots =
      (if length (pending_frames img slots) < slots then pending_frames img slots else tl (pending_frames img slots))"
proof -
  note o = ring_okD[OF ok]
  note f = img_retire_facts[OF o(1)]
  show ?thesis
  proof (cases "length (pending_frames img slots) < slots")
    case True
    then show ?thesis using ok ring_pending_count[OF ok] by (simp add: img_retire_def)
  next
    case False
    have full: "slots \<le> unat (get_u64 img OFF_HEAD - get_u64 img OFF_TAIL)"
      using False ring_pending_count[OF ok] by simp
    have lt: "img_tail img < img_head img" using False o(2) by (simp add: pending_frames_def)
    have "img_head img < 2 ^ 64" using unsigned_less[of "get_u64 img OFF_HEAD", where ?'a = nat] by simp
    then have tail: "img_tail (img_retire img slots) = img_tail img + 1"
      using f(3) full lt by (simp add: unat_plus_one)
    have sl: "slot_in (img_retire img slots) (k mod slots) = slot_in img (k mod slots)" for k
      using f(6) o(2) by simp
    have "ring_ok (img_retire img slots) slots"
      unfolding ring_ok_def using f(1,2) o lt tail sl by auto
    moreover have "pending_frames (img_retire img slots) slots = tl (pending_frames img slots)"
      using lt f(2)
      by (simp add: pending_frames_def tail slot_frame_def[abs_def] sl map_tl upt_rec[of "img_tail img"])
    ultimately show ?thesis using False by simp
  qed
qed

context ring_storage
begin

lemma empty_attempt:
  assumes inv: "invar s" and ok: "ring_ok (image s) slots"
    and empty: "\<And>p. pb_receive be b p = (Inl e, p, b')"
  shows "\<exists>s'. receive_attempt ops be slots s b = Some (Inl e, s', b') \<and> invar s' \<and>
    image s' = img_retire (image s) slots"
proof -
  note o = ring_okD[OF ok]
  let ?i = "slot_of (get_u64 (image s) OFF_HEAD) slots"
  let ?pl = "take RING_SLOT_DATA_BYTES (drop (slot_data_offset ?i) (image s))"
  have i: "?i < slots" using o(2) by (simp add: slot_of_def)
  have l: "length ?pl = RING_SLOT_DATA_BYTES" using slot_bounds(3)[OF i] o(1) by simp
  obtain s' where s': "push_fill ops s slots (pb_receive be b) = Some (Inl e, s', b')" "invar s'"
      "image s' = copy_slice (img_retire (image s) slots) (slot_data_offset ?i) ?pl"
    using push_fill_image[OF inv o(1,2), of "pb_receive be b", OF empty l] by auto
  have "?pl = take RING_SLOT_DATA_BYTES (drop (slot_data_offset ?i) (img_retire (image s) slots))"
    using img_retire_facts(6)[OF o(1) i] by (simp add: slot_in_def)
  then have "image s' = img_retire (image s) slots"
    using s'(3) copy_slice_same[of "slot_data_offset ?i" RING_SLOT_DATA_BYTES "img_retire (image s) slots"]
      slot_bounds(3)[OF i] img_retire_facts(1)[OF o(1)] o(1) by simp
  with s' load_counters(1)[OF inv ok] show ?thesis by (simp add: receive_attempt_def)
qed

end

text \<open>A receive that finds the device empty still drops a frame of a full receive ring: the call
  reports \<open>QueueEmpty\<close> and publishes nothing, but the oldest pending frame is gone.\<close>

theorem empty_receive_drops_frame:
  assumes "page_storage_inv s" "ring_ok (page_image s) slots"
    "length (pending_frames (page_image s) slots) = slots"
    "\<And>b p. pb_receive be b p = (Inl PacketQueueEmpty, p, b)"
  shows "\<exists>s' b'. receive_into_slot page_frame_storage be slots s b = Some (Inl PacketQueueEmpty, s', b') \<and>
    pending_frames (page_image s') slots = tl (pending_frames (page_image s) slots)"
proof -
  obtain s1 where s1: "receive_attempt page_frame_storage be slots s b = Some (Inl PacketQueueEmpty, s1, b)"
      "page_storage_inv s1" "page_image s1 = img_retire (page_image s) slots"
    using page_ring.empty_attempt[OF assms(1,2), of be b PacketQueueEmpty b] assms(4) by blast
  have r1: "ring_ok (page_image s1) slots"
      "pending_frames (page_image s1) slots = tl (pending_frames (page_image s) slots)"
    using retire_queue[OF assms(2)] assms(3) s1(3) by simp_all
  let ?b = "snd (pb_poll be b)"
  obtain s2 where s2: "receive_attempt page_frame_storage be slots s1 ?b = Some (Inl PacketQueueEmpty, s2, ?b)"
      "page_image s2 = img_retire (page_image s1) slots"
    using page_ring.empty_attempt[OF s1(2) r1(1), of be ?b PacketQueueEmpty ?b] assms(4) by blast
  have "length (pending_frames (page_image s1) slots) < slots"
    using r1(2) assms(3) ring_okD(2)[OF assms(2)] by simp
  then have "pending_frames (page_image s2) slots = pending_frames (page_image s1) slots"
    using retire_queue[OF r1(1)] s2(2) by simp
  with s1(1) s2(1) r1(2) show ?thesis by (simp add: receive_into_slot_def)
qed


lemma sample_full_ring:
  "\<exists>s. page_storage_inv s \<and> ring_ok (page_image s) 2 \<and> pending_frames (page_image s) 2 = [[1], [2]]"
proof -
  have "length (page_image ([4096, 8192, 0], \<lambda>_. 7)) = ring_total_bytes 2"
    by (simp add: length_page_image ring_total_bytes_def)
  from page_ring.init_image[OF sample_frames_ok this] obtain s0 where
    s0: "page_storage_inv s0" "ring_ok (page_image s0) 2" "img_head (page_image s0) = 0"
      "pending_frames (page_image s0) 2 = []" by auto
  from page_ring.push_image[OF s0(1,2), of "[1]"] s0(3,4) obtain s1 where
    s1: "page_storage_inv s1" "ring_ok (page_image s1) 2" "img_head (page_image s1) = 1"
      "pending_frames (page_image s1) 2 = [[1]]"
    by (auto simp: queue_push_def RING_SLOT_DATA_BYTES_def)
  from page_ring.push_image[OF s1(1,2), of "[2]"] s1(3,4) show ?thesis
    by (auto simp: queue_push_def RING_SLOT_DATA_BYTES_def)
qed

theorem empty_receive_drops_frame_witness:
  "\<exists>s s' b'. pending_frames (page_image s) 2 = [[1], [2]] \<and>
     receive_into_slot page_frame_storage sample_backend 2 s [] = Some (Inl PacketQueueEmpty, s', b') \<and>
     pending_frames (page_image s') 2 = [[2]]"
proof -
  from sample_full_ring obtain s where s: "page_storage_inv s" "ring_ok (page_image s) 2"
    "pending_frames (page_image s) 2 = [[1], [2]]" by blast
  from empty_receive_drops_frame[OF s(1,2), of sample_backend "[]"] s(3) show ?thesis
    by (fastforce simp: sample_backend_def)
qed

section \<open>Transmitting through the ring\<close>

fun tx_consume_all ::
  "'b packet_backend \<Rightarrow> mapped_tx_ring \<times> 'b \<Rightarrow> u8 list list \<Rightarrow> (mapped_tx_ring \<times> 'b) option" where
  "tx_consume_all be st [] = Some st"
| "tx_consume_all be st (f # fs) = do { st \<leftarrow> tx_consume be st f; tx_consume_all be st fs }"

text \<open>A ring into which the service has put \<open>k\<close> frames.\<close>

definition tx_ring_at :: "nat \<Rightarrow> mapped_tx_ring \<Rightarrow> bool" where
  "tx_ring_at k ring \<longleftrightarrow>
     length (tx_mem ring) = ring_total_bytes (tx_slot_count ring) \<and>
     TX_STALL_DOORBELL_LIMIT \<le> tx_slot_count ring \<and>
     get_u64 (tx_mem ring) OFF_HEAD = 0 \<and> get_u64 (tx_mem ring) OFF_TAIL = 0 \<and>
     tx_head ring = of_nat k \<and> stalled_doorbells ring = k \<and>
     tx_disabled ring = (k \<ge> TX_STALL_DOORBELL_LIMIT)"

lemma publish_keeps_counters:
  fixes n :: nat and v :: u64
  assumes l: "length mem = ring_total_bytes slots" and i: "i < slots" and f: "length f \<le> MAX_FRAME_BYTES"
    and off: "off = OFF_HEAD \<or> off = OFF_TAIL"
  defines "m1 \<equiv> copy_slice mem ((i + 1) * RING_PAGE_BYTES + 8) f"
  defines "m2 \<equiv> copy_slice m1 ((i + 1) * RING_PAGE_BYTES) (to_le_bytes 8 (of_nat n :: u64))"
  defines "m3 \<equiv> copy_slice m2 OFF_FRAMES_PUSHED (to_le_bytes 8 v)"
  shows "length m3 = ring_total_bytes slots" "get_u64 m3 off = get_u64 mem off"
proof -
  have "(i + 2) * RING_PAGE_BYTES \<le> (slots + 1) * RING_PAGE_BYTES"
    using i by (intro mult_le_mono1) simp
  then have b: "(i + 1) * RING_PAGE_BYTES + 4096 \<le> ring_total_bytes slots"
    by (simp add: ring_total_bytes_def RING_PAGE_BYTES_def PAGE_SIZE_BYTES_def)
  have p: "4096 \<le> (i + 1) * RING_PAGE_BYTES" by (simp add: RING_PAGE_BYTES_def)
  have f': "length f \<le> 1536" using f by (simp add: MAX_FRAME_BYTES_def)
  have l1: "length m1 = ring_total_bytes slots" unfolding m1_def using l b f' by simp
  have l2: "length m2 = ring_total_bytes slots" unfolding m2_def using l1 b by simp
  have h: "64 \<le> ring_total_bytes slots" using b p by linarith
  show "length m3 = ring_total_bytes slots" unfolding m3_def using l2 h by (simp add: ring_offsets)
  have o: "off + 8 \<le> 32" using off by (auto simp: ring_offsets)
  have "get_u64 m3 off = get_u64 m2 off"
    unfolding m3_def using l2 h o by (intro get_u64_disjoint) (auto simp: ring_offsets)
  also have "\<dots> = get_u64 m1 off"
    unfolding m2_def using l1 b p h o by (intro get_u64_disjoint) auto
  also have "\<dots> = get_u64 mem off"
    unfolding m1_def using l b p h o f' by (intro get_u64_disjoint) auto
  finally show "get_u64 m3 off = get_u64 mem off" .
qed

lemma flush_nothing:
  assumes "length mem = ring_total_bytes slots" "get_u64 mem OFF_HEAD = 0"
  shows "flush slice_storage be slots mem b = Some (0, mem, b)"
proof -
  have "load_u64 slice_storage mem OFF_HEAD = Some 0" "\<exists>t. load_u64 slice_storage mem OFF_TAIL = Some t"
    using slice_ring.load_image[OF TrueI] header_in_image[OF assms(1)] assms(2) by (simp_all add: ring_offsets)
  then show ?thesis
    unfolding flush_def by (subst flush_loop.simps) (auto simp: load_head_def load_tail_def)
qed

lemma tx_consume_step:
  assumes ring: "tx_ring_at k ring" "k < TX_STALL_DOORBELL_LIMIT" and f: "length f \<le> MAX_FRAME_BYTES"
  shows "\<exists>ring'. tx_consume be (ring, b) f = Some (ring', b) \<and> tx_ring_at (Suc k) ring' \<and>
    tx_slot_count ring' = tx_slot_count ring"
proof -
  let ?n = "tx_slot_count ring"
  have k: "k < 8" "8 \<le> ?n" using ring by (simp_all add: tx_ring_at_def TX_STALL_DOORBELL_LIMIT_def)
  have l: "length (tx_mem ring) = ring_total_bytes ?n" using ring(1) by (simp add: tx_ring_at_def)
  have uk: "unat (of_nat k :: u64) = k" using k(1) by (simp add: unat_of_nat)
  have h: "64 \<le> ring_total_bytes ?n" by (simp add: ring_total_bytes_def PAGE_SIZE_BYTES_def)
  have room: "has_room ring = Some True"
    using ring(1) h uk k
    by (simp add: has_room_def kernel_tail_def image_load_u64_def tx_ring_at_def ring_offsets flip: get_u64_def)
  define ring1 where "ring1 = publish (ring\<lparr>tx_mem := copy_slice (tx_mem ring)
      ((unat (tx_head ring) mod ?n + 1) * RING_PAGE_BYTES + 8) f\<rparr>) (tx_head ring) (length f)"
  have via: "tx_via_ring ring f = Some (True, ring1)"
    using ring f room by (simp add: tx_via_ring_def ring1_def tx_ring_at_def Let_def)
  have i: "unat (tx_head ring) mod ?n < ?n" using k(2) by simp
  note pk = publish_keeps_counters[OF l i f]
  have m: "length (tx_mem ring1) = ring_total_bytes ?n" "get_u64 (tx_mem ring1) OFF_HEAD = 0"
      "get_u64 (tx_mem ring1) OFF_TAIL = 0"
    using pk(1)[of OFF_HEAD] pk(2)[of OFF_HEAD] pk(2)[of OFF_TAIL] ring(1)
    by (simp_all add: ring1_def publish_def Let_def tx_ring_at_def)
  have r1: "tx_head ring1 = of_nat (Suc k)" "stalled_doorbells ring1 = k" "tx_disabled ring1 = False"
      "tx_slot_count ring1 = ?n"
    using ring by (simp_all add: ring1_def publish_def Let_def tx_ring_at_def)
  have fl: "flush slice_storage be ?n (tx_mem ring1) b = Some (0, tx_mem ring1, b)"
    by (rule flush_nothing[OF m(1,2)])
  have "unat (of_nat (Suc k) :: u64) = Suc k" using k(1) by (simp add: unat_of_nat del: of_nat_Suc)
  then have pos: "\<not> (of_nat (Suc k) :: u64) \<le> 0" by (simp add: word_le_nat_alt del: of_nat_Suc)
  have "kernel_tail ring1 = Some 0"
    using m h by (simp add: kernel_tail_def image_load_u64_def ring_offsets flip: get_u64_def)
  then have nd: "note_doorbell ring1 = Some (ring1\<lparr>stalled_doorbells := Suc k,
      tx_disabled := Suc k \<ge> TX_STALL_DOORBELL_LIMIT\<rparr>)"
    using r1 pos by (simp add: note_doorbell_def Let_def del: of_nat_Suc)
  have same: "ring1\<lparr>tx_mem := tx_mem ring1\<rparr> = ring1" by simp
  have "tx_ring_at (Suc k) (ring1\<lparr>stalled_doorbells := Suc k, tx_disabled := Suc k \<ge> TX_STALL_DOORBELL_LIMIT\<rparr>)"
    using m r1 k by (simp add: tx_ring_at_def TX_STALL_DOORBELL_LIMIT_def del: of_nat_Suc)
  then show ?thesis
    using via fl nd r1(4) by (simp add: tx_consume_def same)
qed

lemma tx_consume_steps:
  assumes "tx_ring_at k ring" "k + length fs \<le> TX_STALL_DOORBELL_LIMIT" "list_all (\<lambda>f. length f \<le> MAX_FRAME_BYTES) fs"
  shows "\<exists>ring'. tx_consume_all be (ring, b) fs = Some (ring', b) \<and> tx_ring_at (k + length fs) ring'"
  using assms
proof (induction fs arbitrary: k ring)
  case (Cons f fs)
  from tx_consume_step[OF Cons.prems(1), of f be b] Cons.prems(2,3) obtain ring1 where
    r1: "tx_consume be (ring, b) f = Some (ring1, b)" "tx_ring_at (Suc k) ring1" by auto
  from Cons.IH[OF r1(2)] Cons.prems(2,3) r1(1) show ?case by simp
qed simp

text \<open>C36. The service's end of the transmit ring never advances the head counter in the shared image.
  From a freshly negotiated ring, the first eight frames the service emits reach the backend in no
  way: every drain finds the ring empty, the service takes the frames for sent, and after the eighth
  doorbell it gives the ring up, without sending these frames again.\<close>

theorem tx_ring_loses_first_frames:
  assumes "length (tx_mem ring) = ring_total_bytes (tx_slot_count ring)" "8 \<le> tx_slot_count ring"
    "get_u64 (tx_mem ring) OFF_HEAD = 0" "get_u64 (tx_mem ring) OFF_TAIL = 0"
    "tx_head ring = 0" "stalled_doorbells ring = 0" "\<not> tx_disabled ring"
    "length fs = 8" "list_all (\<lambda>f. length f \<le> MAX_FRAME_BYTES) fs"
  shows "\<exists>ring'. tx_consume_all be (ring, b) fs = Some (ring', b) \<and> tx_disabled ring'"
proof -
  have "tx_ring_at 0 ring" using assms by (simp add: tx_ring_at_def TX_STALL_DOORBELL_LIMIT_def)
  from tx_consume_steps[OF this, of fs be b] assms(8,9) show ?thesis
    by (auto simp: tx_ring_at_def TX_STALL_DOORBELL_LIMIT_def)
qed

theorem tx_ring_loses_first_frames_witness:
  "\<exists>ring ring'. tx_consume_all sample_backend (ring, []) (replicate 8 [1, 2]) = Some (ring', []) \<and> tx_disabled ring'"
proof -
  have "length (replicate (ring_total_bytes 16) (0 :: u8)) = ring_total_bytes 16" by simp
  from slice_ring.init_image[OF TrueI this] obtain mem where m: "ring_ok mem 16" "img_head mem = 0"
      "pending_frames mem 16 = []" by auto
  then have t: "img_tail mem = 0" using ring_okD(3)[OF m(1)] by simp
  define ring where "ring = \<lparr>tx_mem = mem, tx_slot_count = 16, tx_head = 0, stalled_doorbells = 0, tx_disabled = False\<rparr>"
  have "\<exists>ring'. tx_consume_all sample_backend (ring, []) (replicate 8 [1, 2]) = Some (ring', []) \<and> tx_disabled ring'"
    using m t ring_okD(1)[OF m(1)]
    by (intro tx_ring_loses_first_frames) (simp_all add: ring_def unat_eq_0 MAX_FRAME_BYTES_def list_all_iff)
  then show ?thesis by blast
qed

end
