(* ===== verification/Byte_Words.thy ===== *)
theory Byte_Words
  imports Le_Bytes
begin

text \<open>
  Byte strings as numbers and words as numbers: the value \<open>le_nat\<close> of a little-endian byte string,
  big-endian encodings, slices and chunks of a byte string, and how shifts, masks and the
  wrapping operations of a word act on its value.
\<close>

type_synonym u32 = "32 word"
type_synonym u128 = "128 word"

section \<open>Slices and chunks\<close>

text \<open>\<open>xs[i..j]\<close> and \<open>xs.chunks(n)\<close>.\<close>

definition sub_slice :: "'a list \<Rightarrow> nat \<Rightarrow> nat \<Rightarrow> 'a list" where
  "sub_slice xs i j = take (j - i) (drop i xs)"

lemma length_slice [simp]: "j \<le> length xs \<Longrightarrow> length (sub_slice xs i j) = j - i"
  by (simp add: sub_slice_def)

fun chunks :: "nat \<Rightarrow> 'a list \<Rightarrow> 'a list list" where
  "chunks n xs = (if n = 0 \<or> xs = [] then [] else take n xs # chunks n (drop n xs))"

declare chunks.simps [simp del]

lemma chunks_Nil [simp]: "chunks n [] = []"
  by (simp add: chunks.simps)

lemma chunks_short: "xs \<noteq> [] \<Longrightarrow> length xs \<le> n \<Longrightarrow> chunks n xs = [xs]"
  by (subst chunks.simps) (cases n; auto)

lemma chunks_full: "0 < n \<Longrightarrow> length xs = n \<Longrightarrow> chunks n (xs @ ys) = xs # chunks n ys"
  by (subst chunks.simps) auto

lemma concat_chunks: "0 < n \<Longrightarrow> concat (chunks n xs) = xs"
proof (induction n xs rule: chunks.induct)
  case (1 n xs)
  show ?case
  proof (cases "xs = []")
    case False
    then have "chunks n xs = take n xs # chunks n (drop n xs)"
      using 1(2) by (subst chunks.simps) simp
    with 1 False show ?thesis by simp
  qed simp
qed

lemma chunks_append:
  "0 < n \<Longrightarrow> n dvd length xs \<Longrightarrow> chunks n (xs @ ys) = chunks n xs @ chunks n ys"
proof (induction n xs rule: chunks.induct)
  case (1 n xs)
  show ?case
  proof (cases "xs = []")
    case False
    from False 1(3) have l: "n \<le> length xs" by (auto dest: dvd_imp_le)
    have "chunks n (xs @ ys) = take n xs # chunks n (drop n xs @ ys)"
      using 1(2) False l by (subst chunks.simps) simp
    moreover have "chunks n xs = take n xs # chunks n (drop n xs)"
      using 1(2) False by (subst chunks.simps) simp
    moreover have "n dvd length (drop n xs)" using 1(3) by simp
    ultimately show ?thesis using 1 False by simp
  qed simp
qed

lemma length_chunks_mem: "c \<in> set (chunks n xs) \<Longrightarrow> c \<noteq> [] \<and> length c \<le> n"
proof (induction n xs rule: chunks.induct)
  case (1 n xs)
  then show ?case by (subst (asm) (2) chunks.simps) (auto split: if_splits)
qed

lemma chunks_lengths:
  "0 < n \<Longrightarrow> list_all (\<lambda>c. length c = n) (butlast (chunks n xs)) \<and> (chunks n xs \<noteq> [] \<longrightarrow> length (last (chunks n xs)) \<le> n)
     \<and> length xs \<le> n * length (chunks n xs)"
proof (induction n xs rule: chunks.induct)
  case (1 n xs)
  show ?case
  proof (cases "xs = []")
    case False
    then have c: "chunks n xs = take n xs # chunks n (drop n xs)" using 1(2) by (subst chunks.simps) simp
    have "length (take n xs) = n" if "chunks n (drop n xs) \<noteq> []"
      using that by (cases "length xs \<le> n") simp_all
    then show ?thesis using 1 False unfolding c by (cases "chunks n (drop n xs) = []") auto
  qed simp
qed

lemma list5: "length xs = 5 \<Longrightarrow> xs = [xs ! 0, xs ! 1, xs ! 2, xs ! 3, xs ! 4]"
  by (rule nth_equalityI) (auto simp: less_Suc_eq numeral_eq_Suc)

lemma list5E:
  assumes "length xs = 5"
  obtains a b c d e where "xs = [a, b, c, d, e]"
  using list5[OF assms] by blast

lemma map_upt5: "map f [0..<5] = [f 0, f 1, f 2, f 3, f 4]"
  by (simp add: upt_rec numeral_eq_Suc)

section \<open>Words as numbers\<close>

named_theorems word_value

lemma unat_and_mask [word_value]: "unat (w AND mask n :: 'a::len word) = unat w mod 2 ^ n"
  by (metis take_bit_eq_mask unsigned_take_bit_eq take_bit_eq_mod)

lemma unat_drop_bit [word_value]: "unat (drop_bit n w :: 'a::len word) = unat w div 2 ^ n"
  by (metis unat_drop_bit_eq drop_bit_eq_div)

lemma unat_push_bit [word_value]:
  "unat (push_bit n w :: 'a::len word) = unat w * 2 ^ n mod 2 ^ LENGTH('a)"
  by (metis unsigned_push_bit_eq push_bit_eq_mult take_bit_eq_mod)

lemma unat_ucast_mod [word_value]:
  "unat (ucast (w :: 'a::len word) :: 'b::len word) = unat w mod 2 ^ LENGTH('b)"
  by (simp add: unsigned_ucast_eq take_bit_eq_mod)

lemma unat_plus_exact: "unat a + unat b < 2 ^ LENGTH('a) \<Longrightarrow> unat (a + b :: 'a::len word) = unat a + unat b"
  by (simp add: unat_word_ariths)

lemma unat_times_exact: "unat a * unat b < 2 ^ LENGTH('a) \<Longrightarrow> unat (a * b :: 'a::len word) = unat a * unat b"
  by (simp add: unat_word_ariths)

lemma unat_ucast_up: "LENGTH('a) \<le> LENGTH('b) \<Longrightarrow> unat (ucast (w :: 'a::len word) :: 'b::len word) = unat w"
  by (metis unat_ucast_mod unsigned_less mod_less order_less_le_trans power_increasing_iff one_less_numeral_iff semiring_norm(76))

text \<open>A sum of five products of bounded words does not overflow.\<close>

lemma dot5_exact:
  fixes a0 a1 a2 a3 a4 b0 b1 b2 b3 b4 :: "'a::len word"
  assumes "LENGTH('a) \<le> LENGTH('b::len)"
    "unat a0 \<le> A" "unat a1 \<le> A" "unat a2 \<le> A" "unat a3 \<le> A" "unat a4 \<le> A"
    "unat b0 \<le> B" "unat b1 \<le> B" "unat b2 \<le> B" "unat b3 \<le> B" "unat b4 \<le> B" "5 * (A * B) < 2 ^ LENGTH('b)"
  shows "unat (ucast a0 * ucast b0 + ucast a1 * ucast b1 + ucast a2 * ucast b2
      + ucast a3 * ucast b3 + ucast a4 * ucast b4 :: 'b word) =
    unat a0 * unat b0 + unat a1 * unat b1 + unat a2 * unat b2 + unat a3 * unat b3 + unat a4 * unat b4"
    and "unat a0 * unat b0 + unat a1 * unat b1 + unat a2 * unat b2 + unat a3 * unat b3 + unat a4 * unat b4
      \<le> 5 * (A * B)"
proof -
  have "unat a0 * unat b0 \<le> A * B" "unat a1 * unat b1 \<le> A * B" "unat a2 * unat b2 \<le> A * B"
    "unat a3 * unat b3 \<le> A * B" "unat a4 * unat b4 \<le> A * B"
    using assms by (simp_all add: mult_le_mono)
  then show b: "unat a0 * unat b0 + unat a1 * unat b1 + unat a2 * unat b2 + unat a3 * unat b3 + unat a4 * unat b4
      \<le> 5 * (A * B)" by linarith
  then show "unat (ucast a0 * ucast b0 + ucast a1 * ucast b1 + ucast a2 * ucast b2
      + ucast a3 * ucast b3 + ucast a4 * ucast b4 :: 'b word) =
    unat a0 * unat b0 + unat a1 * unat b1 + unat a2 * unat b2 + unat a3 * unat b3 + unat a4 * unat b4"
    using assms(12) by (simp add: unat_word_ariths mod_simps unat_ucast_up[OF assms(1)])
qed

lemma unat_less_power: "unat (w :: 'a::len word) < 2 ^ LENGTH('a)"
  by (rule unsigned_less)

lemma or_disjoint_add:
  fixes a b :: nat
  assumes "a < 2 ^ k"
  shows "a OR push_bit k b = a + 2 ^ k * b"
proof -
  have "a AND push_bit k b = 0"
  proof (rule bit_eqI)
    fix n assume "possible_bit TYPE(nat) n"
    have "\<not> bit a n" if "k \<le> n"
      using assms that by (metis bit_take_bit_iff linorder_not_less take_bit_nat_eq_self)
    then show "bit (a AND push_bit k b) n = bit 0 n" by (auto simp: bit_simps)
  qed
  then show ?thesis
    by (simp add: push_bit_eq_mult mult.commute flip: disjunctive_add_eq_or)
qed

lemma div_mod_window:
  fixes t :: nat
  assumes "j + n \<le> m"
  shows "t div 2 ^ i mod 2 ^ m div 2 ^ j mod 2 ^ n = t div 2 ^ (i + j) mod 2 ^ n"
proof -
  have "drop_bit j (take_bit m (drop_bit i t)) = take_bit (m - j) (drop_bit (i + j) t)"
    by (simp add: drop_bit_take_bit add.commute)
  moreover have "min n (m - j) = n" using assms by simp
  ultimately have "take_bit n (drop_bit j (take_bit m (drop_bit i t))) = take_bit n (drop_bit (i + j) t)"
    by simp
  then show ?thesis by (simp add: take_bit_eq_mod drop_bit_eq_div)
qed

lemma div_digit: "(t :: nat) div 2 ^ k = t div 2 ^ k mod 2 ^ n + 2 ^ n * (t div 2 ^ (k + n))"
  by (simp add: power_add div_mult2_eq)

lemma div_mod_join:
  "(t :: nat) div 2 ^ i mod 2 ^ m + 2 ^ m * (t div 2 ^ (i + m) mod 2 ^ n) = t div 2 ^ i mod 2 ^ (m + n)"
  by (simp add: power_add mod_mult2_eq div_mult2_eq)

text \<open>The high part of one word and the low part of the next, put together.\<close>

lemma funnel_shift:
  fixes x y :: "'a::len word"
  assumes "a \<le> LENGTH('a)"
  shows "unat (drop_bit a x OR push_bit (LENGTH('a) - a) y) =
    (unat x + 2 ^ LENGTH('a) * unat y) div 2 ^ a mod 2 ^ LENGTH('a)"
proof -
  let ?L = "LENGTH('a)"
  have e: "(2::nat) ^ ?L = 2 ^ a * 2 ^ (?L - a)" using assms by (simp flip: power_add)
  have lo: "unat x div 2 ^ a < 2 ^ (?L - a)"
    using unat_less_power[of x] by (simp add: e div_less_iff_less_mult mult.commute)
  have push: "unat y * 2 ^ (?L - a) mod 2 ^ ?L = push_bit (?L - a) (unat y mod 2 ^ a)"
    by (simp add: e push_bit_eq_mult mult_mod_left mult.commute)
  have "unat (drop_bit a x OR push_bit (?L - a) y) = unat x div 2 ^ a + 2 ^ (?L - a) * (unat y mod 2 ^ a)"
    unfolding unsigned_or_eq unat_drop_bit unat_push_bit push by (rule or_disjoint_add[OF lo])
  moreover have "(unat x + 2 ^ ?L * unat y) div 2 ^ a = unat x div 2 ^ a + 2 ^ (?L - a) * unat y"
    by (simp add: e mult.assoc)
  moreover have "(unat x div 2 ^ a + 2 ^ (?L - a) * unat y) mod 2 ^ ?L =
      unat x div 2 ^ a + 2 ^ (?L - a) * (unat y mod 2 ^ a)"
  proof -
    have "(unat x div 2 ^ a + 2 ^ (?L - a) * unat y) mod (2 ^ (?L - a) * 2 ^ a) =
        unat x div 2 ^ a + 2 ^ (?L - a) * (unat y mod 2 ^ a)"
      using lo by (simp add: mod_mult2_eq)
    then show ?thesis by (simp add: e mult.commute)
  qed
  ultimately show ?thesis by simp
qed

text \<open>The same for the limbs of a number, when the low part is short enough.\<close>

lemma pack_limbs:
  fixes x y :: "'a::len word"
  assumes "unat x < 2 ^ (a + n)" "n \<le> LENGTH('a)"
  shows "unat (drop_bit a x OR push_bit n y) = unat x div 2 ^ a + 2 ^ n * (unat y mod 2 ^ (LENGTH('a) - n))"
proof -
  have "unat x div 2 ^ a < 2 ^ n" using assms(1) by (simp add: div_less_iff_less_mult power_add mult.commute)
  moreover have "unat y * 2 ^ n mod 2 ^ LENGTH('a) = push_bit n (unat y mod 2 ^ (LENGTH('a) - n))"
    using assms(2) by (simp add: push_bit_eq_mult mult_mod_left flip: power_add)
  ultimately show ?thesis
    unfolding unsigned_or_eq unat_drop_bit unat_push_bit by (simp only: or_disjoint_add)
qed

text \<open>A number in limbs of \<open>n\<close> bits.\<close>

definition limb_value :: "nat \<Rightarrow> 'a::len word list \<Rightarrow> nat" where
  "limb_value n ws = foldr (\<lambda>w acc. unat w + 2 ^ n * acc) ws 0"

lemma limb_value_Nil [simp]: "limb_value n [] = 0"
  and limb_value_Cons [simp]: "limb_value n (w # ws) = unat w + 2 ^ n * limb_value n ws"
  by (simp_all add: limb_value_def)

text \<open>A branch-free selection by an all-ones or all-zeros mask.\<close>

lemma xor_select: "b XOR (m AND (a XOR b)) = (if m = 0 then b else a)" if "m = 0 \<or> m = - 1"
  for a b m :: "'a::len word"
  using that by (elim disjE) (auto simp: bit_eq_iff bit_simps)

lemma xor_eq_0_word: "a XOR b = 0 \<longleftrightarrow> a = b" for a b :: "'a::len word"
  by (metis xor.assoc xor.left_neutral xor.right_neutral xor_self_eq)

section \<open>Little-endian byte strings as numbers\<close>

definition le_nat :: "u8 list \<Rightarrow> nat" where
  "le_nat bs = foldr (\<lambda>b acc. unat b + 256 * acc) bs 0"

lemma le_nat_Nil [simp]: "le_nat [] = 0"
  and le_nat_Cons [simp]: "le_nat (b # bs) = unat b + 256 * le_nat bs"
  by (simp_all add: le_nat_def)

lemma le_nat_less: "le_nat bs < 256 ^ length bs"
proof (induction bs)
  case (Cons b bs)
  have "unat b < 256" using unsigned_less[of b, where ?'a = nat] by simp
  with Cons show ?case by simp
qed simp

lemma le_nat_append: "le_nat (xs @ ys) = le_nat xs + 256 ^ length xs * le_nat ys"
  by (induction xs) (simp_all add: algebra_simps)

lemma le_nat_zeros [simp]: "le_nat (replicate n 0) = 0"
  by (induction n) simp_all

lemma le_nat_slice:
  assumes "i \<le> j" "j \<le> length bs"
  shows "le_nat (sub_slice bs i j) = le_nat bs div 256 ^ i mod 256 ^ (j - i)"
proof -
  have "drop i bs = sub_slice bs i j @ drop j bs"
    using assms append_take_drop_id[of "j - i" "drop i bs"] by (simp add: sub_slice_def)
  then have "bs = take i bs @ sub_slice bs i j @ drop j bs"
    using append_take_drop_id[of i bs] by simp
  then have "le_nat bs = le_nat (take i bs @ sub_slice bs i j @ drop j bs)" by (rule arg_cong)
  then have "le_nat bs = le_nat (take i bs) + 256 ^ i * (le_nat (sub_slice bs i j) + 256 ^ (j - i) * le_nat (drop j bs))"
    using assms by (simp add: le_nat_append min_def)
  moreover have "le_nat (take i bs) < 256 ^ i"
    using le_nat_less[of "take i bs"] assms by simp
  moreover have "le_nat (sub_slice bs i j) < 256 ^ (j - i)"
    using le_nat_less[of "sub_slice bs i j"] assms by simp
  ultimately show ?thesis by simp
qed

lemma unat_from_le_bytes:
  "8 * length bs \<le> LENGTH('a) \<Longrightarrow> unat (from_le_bytes bs :: 'a::len word) = le_nat bs"
proof (induction bs)
  case Nil
  then show ?case by (simp add: from_le_bytes_def)
next
  case (Cons b bs)
  let ?w = "from_le_bytes bs :: 'a word"
  have b: "unat b < 2 ^ 8" using unsigned_less[of b, where ?'a = nat] by simp
  have l: "8 \<le> LENGTH('a)" using Cons.prems by simp
  have "le_nat bs < 2 ^ (8 * length bs)" using le_nat_less[of bs] by (simp add: power_mult)
  then have "le_nat bs * 2 ^ 8 < 2 ^ (8 * length bs + 8)" by (simp add: power_add)
  also have "\<dots> \<le> 2 ^ LENGTH('a)" using Cons.prems by (intro power_increasing) simp_all
  finally have s: "le_nat bs * 2 ^ 8 < 2 ^ LENGTH('a)" .
  have "(2::nat) ^ 8 \<le> 2 ^ LENGTH('a)" using l by (intro power_increasing) simp_all
  then have u: "unat (ucast b :: 'a word) = unat b"
    using b by (simp add: unat_ucast_mod)
  have "unat (push_bit 8 ?w) = push_bit 8 (le_nat bs)"
    unfolding unat_push_bit using Cons s by (simp add: push_bit_eq_mult)
  then show ?case
    using u or_disjoint_add[OF b, of "le_nat bs"]
    by (simp add: from_le_bytes_Cons unsigned_or_eq)
qed

lemma le_nat_to_le_bytes: "le_nat (to_le_bytes n w) = unat w mod 2 ^ (8 * n)"
proof (induction n arbitrary: w)
  case 0
  then show ?case by (simp add: to_le_bytes_def)
next
  case (Suc n)
  have "unat w mod 2 ^ (8 * Suc n) = unat w mod 256 + 256 * (unat w div 256 mod 2 ^ (8 * n))"
    by (simp add: power_add mod_mult2_eq)
  with Suc show ?case by (simp add: to_le_bytes_Suc unat_ucast_mod unat_drop_bit)
qed

lemma le_nat_inj: "length xs = length ys \<Longrightarrow> le_nat xs = le_nat ys \<Longrightarrow> xs = ys"
proof (induction xs ys rule: list_induct2)
  case (Cons x xs y ys)
  have "unat x < 256" "unat y < 256" for x y :: u8
    using unsigned_less[of x, where ?'a = nat] unsigned_less[of y, where ?'a = nat] by simp_all
  then have "unat x = unat y \<and> le_nat xs = le_nat ys"
    using Cons.prems by (metis le_nat_Cons add.commute div_mult_self4 mod_mult_self2 mod_less div_less add_0_right zero_neq_numeral)
  with Cons show ?case by (simp add: word_unat_eq_iff)
qed simp

text \<open>The bytes of a number: what \<open>le_nat\<close> inverts.\<close>

definition nat_le_bytes :: "nat \<Rightarrow> nat \<Rightarrow> u8 list" where
  "nat_le_bytes n v = map (\<lambda>i. of_nat (v div 256 ^ i)) [0..<n]"

lemma length_nat_le_bytes [simp]: "length (nat_le_bytes n v) = n"
  by (simp add: nat_le_bytes_def)

lemma nat_le_bytes_Suc: "nat_le_bytes (Suc n) v = of_nat v # nat_le_bytes n (v div 256)"
  by (simp add: nat_le_bytes_def upt_conv_Cons map_Suc_upt[symmetric] comp_def div_mult2_eq del: upt_Suc)

lemma le_nat_nat_le_bytes: "le_nat (nat_le_bytes n v) = v mod 256 ^ n"
proof (induction n arbitrary: v)
  case 0
  then show ?case by (simp add: nat_le_bytes_def)
next
  case (Suc n)
  then show ?case by (simp add: nat_le_bytes_Suc unat_of_nat mod_mult2_eq)
qed

lemma nat_le_bytes_le_nat: "nat_le_bytes (length bs) (le_nat bs) = bs"
  by (rule le_nat_inj) (simp_all add: le_nat_nat_le_bytes le_nat_less)

lemma nat_le_bytesI: "length bs = n \<Longrightarrow> le_nat bs = v \<Longrightarrow> bs = nat_le_bytes n v"
  using nat_le_bytes_le_nat[of bs] by simp

section \<open>Big-endian encodings\<close>

definition to_be_bytes :: "nat \<Rightarrow> 'a::len word \<Rightarrow> u8 list" where
  "to_be_bytes n w = rev (to_le_bytes n w)"

definition from_be_bytes :: "u8 list \<Rightarrow> 'a::len word" where
  "from_be_bytes bs = from_le_bytes (rev bs)"

lemma length_to_be_bytes [simp]: "length (to_be_bytes n w) = n"
  by (simp add: to_be_bytes_def)

end
