(* ===== verification/Poly1305.thy ===== *)
theory Poly1305
  imports Byte_Words
begin

text \<open>
  The one-time authenticator Poly1305 (\<open>shared/crypto/src/poly1305.rs\<close>): five limbs of 26 bits with
  64-bit products, incremental absorption of the message, and the masked final reduction. The
  reference is the algorithm of RFC 8439, section 2.5, on natural numbers.
\<close>

section \<open>The code\<close>

definition MASK26 :: u32 where "MASK26 = 0x3ffffff"

record poly1305 =
  poly_r :: "u32 list"
  poly_h :: "u32 list"
  poly_pad :: "u32 list"
  poly_buf :: "u8 list"
  poly_buf_len :: nat

abbreviation le32 :: "u8 list \<Rightarrow> u32" where "le32 b \<equiv> from_le_bytes b"

definition poly1305_new :: "u8 list \<Rightarrow> poly1305" where
  "poly1305_new key =
     \<lparr>poly_r = [le32 (sub_slice key 0 4) AND 0x3ffffff,
                drop_bit 2 (le32 (sub_slice key 3 7)) AND 0x3ffff03,
                drop_bit 4 (le32 (sub_slice key 6 10)) AND 0x3ffc0ff,
                drop_bit 6 (le32 (sub_slice key 9 13)) AND 0x3f03fff,
                drop_bit 8 (le32 (sub_slice key 12 16)) AND 0x00fffff],
      poly_h = replicate 5 0,
      poly_pad = [le32 (sub_slice key 16 20), le32 (sub_slice key 20 24), le32 (sub_slice key 24 28), le32 (sub_slice key 28 32)],
      poly_buf = replicate 16 0,
      poly_buf_len = 0\<rparr>"

abbreviation as_u64 :: "u32 \<Rightarrow> u64" where "as_u64 x \<equiv> ucast x"
abbreviation as_u32 :: "u64 \<Rightarrow> u32" where "as_u32 x \<equiv> ucast x"

text \<open>The carries of \<open>multiply\<close>, from the products \<open>d\<close> to the new limbs.\<close>

definition carry_products :: "u64 \<Rightarrow> u64 \<Rightarrow> u64 \<Rightarrow> u64 \<Rightarrow> u64 \<Rightarrow> u32 list" where
  "carry_products d0 d1 d2 d3 d4 =
     (let c = as_u32 (drop_bit 26 d0); d0 = d0 AND as_u64 MASK26; d1 = d1 + as_u64 c;
          c = as_u32 (drop_bit 26 d1); d1 = d1 AND as_u64 MASK26; d2 = d2 + as_u64 c;
          c = as_u32 (drop_bit 26 d2); d2 = d2 AND as_u64 MASK26; d3 = d3 + as_u64 c;
          c = as_u32 (drop_bit 26 d3); d3 = d3 AND as_u64 MASK26; d4 = d4 + as_u64 c;
          c = as_u32 (drop_bit 26 d4); d4 = d4 AND as_u64 MASK26;
          h0 = as_u32 d0 + c * 5;
          c = drop_bit 26 h0
      in [h0 AND MASK26, as_u32 d1 + c, as_u32 d2, as_u32 d3, as_u32 d4])"

definition multiply :: "poly1305 \<Rightarrow> poly1305" where
  "multiply self =
     (let h = poly_h self; r = poly_r self;
          s1 = r ! 1 * 5; s2 = r ! 2 * 5; s3 = r ! 3 * 5; s4 = r ! 4 * 5;
          d0 = as_u64 (h ! 0) * as_u64 (r ! 0) + as_u64 (h ! 1) * as_u64 s4 + as_u64 (h ! 2) * as_u64 s3
             + as_u64 (h ! 3) * as_u64 s2 + as_u64 (h ! 4) * as_u64 s1;
          d1 = as_u64 (h ! 0) * as_u64 (r ! 1) + as_u64 (h ! 1) * as_u64 (r ! 0) + as_u64 (h ! 2) * as_u64 s4
             + as_u64 (h ! 3) * as_u64 s3 + as_u64 (h ! 4) * as_u64 s2;
          d2 = as_u64 (h ! 0) * as_u64 (r ! 2) + as_u64 (h ! 1) * as_u64 (r ! 1) + as_u64 (h ! 2) * as_u64 (r ! 0)
             + as_u64 (h ! 3) * as_u64 s4 + as_u64 (h ! 4) * as_u64 s3;
          d3 = as_u64 (h ! 0) * as_u64 (r ! 3) + as_u64 (h ! 1) * as_u64 (r ! 2) + as_u64 (h ! 2) * as_u64 (r ! 1)
             + as_u64 (h ! 3) * as_u64 (r ! 0) + as_u64 (h ! 4) * as_u64 s4;
          d4 = as_u64 (h ! 0) * as_u64 (r ! 4) + as_u64 (h ! 1) * as_u64 (r ! 3) + as_u64 (h ! 2) * as_u64 (r ! 2)
             + as_u64 (h ! 3) * as_u64 (r ! 1) + as_u64 (h ! 4) * as_u64 (r ! 0)
      in self\<lparr>poly_h := carry_products d0 d1 d2 d3 d4\<rparr>)"

definition process_block :: "poly1305 \<Rightarrow> u8 list \<Rightarrow> bool \<Rightarrow> poly1305" where
  "process_block self block full =
     (let t0 = le32 (sub_slice block 0 4); t1 = le32 (sub_slice block 4 8);
          t2 = le32 (sub_slice block 8 12); t3 = le32 (sub_slice block 12 16);
          hibit = (if full then push_bit 24 1 else 0);
          h = poly_h self;
          h = h[0 := h ! 0 + (t0 AND MASK26)];
          h = h[1 := h ! 1 + ((drop_bit 26 t0 OR push_bit 6 t1) AND MASK26)];
          h = h[2 := h ! 2 + ((drop_bit 20 t1 OR push_bit 12 t2) AND MASK26)];
          h = h[3 := h ! 3 + ((drop_bit 14 t2 OR push_bit 18 t3) AND MASK26)];
          h = h[4 := h ! 4 + (drop_bit 8 t3 OR hibit)]
      in multiply (self\<lparr>poly_h := h\<rparr>))"

text \<open>The loop of \<open>update\<close> over the whole blocks of the data.\<close>

fun absorb_blocks :: "poly1305 \<Rightarrow> u8 list \<Rightarrow> poly1305 \<times> u8 list" where
  "absorb_blocks self data =
     (if length data \<ge> 16
      then absorb_blocks (process_block self (copy_prefix (replicate 16 0) (take 16 data)) True) (drop 16 data)
      else (self, data))"

declare absorb_blocks.simps [simp del]

definition poly_update :: "poly1305 \<Rightarrow> u8 list \<Rightarrow> poly1305" where
  "poly_update self data =
     (let (self, data) =
        (if poly_buf_len self > 0
         then let k = min (16 - poly_buf_len self) (length data);
                  self = self\<lparr>poly_buf := copy_slice (poly_buf self) (poly_buf_len self) (take k data),
                              poly_buf_len := poly_buf_len self + k\<rparr>;
                  data = drop k data
              in if poly_buf_len self = 16
                 then ((process_block self (poly_buf self) True)\<lparr>poly_buf_len := 0\<rparr>, data)
                 else (self, data)
         else (self, data));
        (self, data) = absorb_blocks self data
      in if data \<noteq> []
         then self\<lparr>poly_buf := copy_prefix (replicate 16 0) data, poly_buf_len := length data\<rparr>
         else self)"

definition pad16 :: "poly1305 \<Rightarrow> poly1305" where
  "pad16 self =
     (let rem = poly_buf_len self mod 16
      in if rem \<noteq> 0 then poly_update self (take (16 - rem) (replicate 16 0)) else self)"

definition update_le64 :: "poly1305 \<Rightarrow> u64 \<Rightarrow> poly1305" where
  "update_le64 self value = poly_update self (to_le_bytes 8 value)"

text \<open>The carries, the conditional subtraction of \<open>2^130 - 5\<close> and the final addition of
  \<open>finalize\<close>, on the limbs it works on.\<close>

definition carry_limbs :: "u32 list \<Rightarrow> u32 list" where
  "carry_limbs h =
     (let carry = drop_bit 26 (h ! 1); h1 = h ! 1 AND MASK26; h2 = h ! 2 + carry;
          carry = drop_bit 26 h2; h2 = h2 AND MASK26; h3 = h ! 3 + carry;
          carry = drop_bit 26 h3; h3 = h3 AND MASK26; h4 = h ! 4 + carry;
          carry = drop_bit 26 h4; h4 = h4 AND MASK26; h0 = h ! 0 + carry * 5;
          carry = drop_bit 26 h0; h0 = h0 AND MASK26; h1 = h1 + carry
      in [h0, h1, h2, h3, h4])"

definition reduce_limbs :: "u32 list \<Rightarrow> u32 list" where
  "reduce_limbs h =
     (let g0 = h ! 0 + 5; c = drop_bit 26 g0; g0 = g0 AND MASK26;
          g1 = h ! 1 + c; c = drop_bit 26 g1; g1 = g1 AND MASK26;
          g2 = h ! 2 + c; c = drop_bit 26 g2; g2 = g2 AND MASK26;
          g3 = h ! 3 + c; c = drop_bit 26 g3; g3 = g3 AND MASK26;
          g4 = h ! 4 + c - push_bit 26 1;
          msk = drop_bit 31 g4 - 1;
          g = [g0, g1, g2, g3, g4]
      in map (\<lambda>i. (h ! i AND NOT msk) OR (g ! i AND msk)) [0..<5])"

definition add_pad :: "u32 list \<Rightarrow> u32 list \<Rightarrow> u8 list" where
  "add_pad h pad =
     (let h0 = (h ! 0 OR push_bit 26 (h ! 1)) AND 0xffffffff;
          h1 = (drop_bit 6 (h ! 1) OR push_bit 20 (h ! 2)) AND 0xffffffff;
          h2 = (drop_bit 12 (h ! 2) OR push_bit 14 (h ! 3)) AND 0xffffffff;
          h3 = (drop_bit 18 (h ! 3) OR push_bit 8 (h ! 4)) AND 0xffffffff;
          f0 = as_u64 h0 + as_u64 (pad ! 0);
          f1 = as_u64 h1 + as_u64 (pad ! 1) + drop_bit 32 f0;
          f2 = as_u64 h2 + as_u64 (pad ! 2) + drop_bit 32 f1;
          f3 = as_u64 h3 + as_u64 (pad ! 3) + drop_bit 32 f2
      in to_le_bytes 4 (as_u32 f0) @ to_le_bytes 4 (as_u32 f1) @
         to_le_bytes 4 (as_u32 f2) @ to_le_bytes 4 (as_u32 f3))"

definition poly_finalize :: "poly1305 \<Rightarrow> u8 list" where
  "poly_finalize self =
     (let self = (if poly_buf_len self > 0
                  then process_block (self\<lparr>poly_buf_len := 0\<rparr>) ((poly_buf self)[poly_buf_len self := 1]) False
                  else self)
      in add_pad (reduce_limbs (carry_limbs (poly_h self))) (poly_pad self))"

definition poly1305_tag :: "u8 list \<Rightarrow> u8 list \<Rightarrow> u8 list" where
  "poly1305_tag message key = poly_finalize (poly_update (poly1305_new key) message)"

section \<open>RFC 8439, section 2.5\<close>

definition P1305 :: nat where "P1305 = 2 ^ 130 - 5"

definition rfc_clamp :: "nat \<Rightarrow> nat" where
  "rfc_clamp r = r AND 0x0ffffffc0ffffffc0ffffffc0fffffff"

definition rfc_poly_step :: "nat \<Rightarrow> u8 list \<Rightarrow> nat \<Rightarrow> nat" where
  "rfc_poly_step r block acc = (acc + le_nat (block @ [1])) * r mod P1305"

definition rfc_poly_acc :: "nat \<Rightarrow> u8 list \<Rightarrow> nat" where
  "rfc_poly_acc r msg = fold (rfc_poly_step r) (chunks 16 msg) 0"

definition rfc_poly1305 :: "u8 list \<Rightarrow> u8 list \<Rightarrow> u8 list" where
  "rfc_poly1305 msg key =
     (let r = rfc_clamp (le_nat (sub_slice key 0 16)); s = le_nat (sub_slice key 16 32)
      in nat_le_bytes 16 (rfc_poly_acc r msg + s))"

end
