(* ===== verification/Poly1305_Proof.thy ===== *)
theory Poly1305_Proof
  imports Poly1305
begin

text \<open>
  Correctness of the limb arithmetic of \<open>shared/crypto/src/poly1305.rs\<close>: no carry of \<open>multiply\<close> or of
  \<open>finalize\<close> overflows its word, a block multiplies the accumulator modulo \<open>2^130 - 5\<close>, and the tag is
  the one of RFC 8439, section 2.5.
\<close>

section \<open>Multiplication\<close>

lemma MASK26_mask: "MASK26 = mask 26"
  by (simp add: MASK26_def mask_eq_exp_minus_1)

lemma ucast_MASK26: "as_u64 MASK26 = mask 26"
  by (simp add: MASK26_def mask_eq_exp_minus_1)

lemma as_u64_value [simp]: "unat (as_u64 x) = unat x"
  by (simp add: unat_ucast_mod mod_less order_less_le_trans[OF unat_less_power[of x]])

text \<open>One step of the carry chain: the carry fits a \<open>u32\<close> and nothing is lost.\<close>

lemma carry_step:
  fixes d d' :: u64
  assumes d: "unat d \<le> 2 ^ 58 - 1" and d': "unat d' \<le> 2 ^ 58 - 1"
  defines "c \<equiv> as_u32 (drop_bit 26 d)"
  shows "unat c = unat d div 2 ^ 26"
    "unat (d AND as_u64 MASK26) = unat d mod 2 ^ 26"
    "unat (d' + as_u64 c) = unat d' + unat d div 2 ^ 26"
    "unat (as_u32 (d AND as_u64 MASK26)) = unat d mod 2 ^ 26"
proof -
  have "unat d div 2 ^ 26 \<le> (2 ^ 58 - 1) div 2 ^ 26" using d by (rule div_le_mono)
  then have l: "unat d div 2 ^ 26 < 2 ^ 32" by simp
  then show c: "unat c = unat d div 2 ^ 26" by (simp add: c_def word_value)
  show m: "unat (d AND as_u64 MASK26) = unat d mod 2 ^ 26" by (simp add: ucast_MASK26 word_value)
  have "unat (d' + as_u64 c) = unat d' + unat (as_u64 c)"
    using d' l c by (intro unat_plus_exact) simp
  then show "unat (d' + as_u64 c) = unat d' + unat d div 2 ^ 26" using c by simp
  have "unat d mod 2 ^ 26 < 2 ^ 26" by simp
  then have "unat d mod 2 ^ 26 < 2 ^ 32" by (rule order_less_le_trans) simp
  then show "unat (as_u32 (d AND as_u64 MASK26)) = unat d mod 2 ^ 26" by (simp add: unat_ucast_mod m)
qed

text \<open>The bounds under which the products and carries are exact.\<close>

definition r_ok :: "u32 list \<Rightarrow> bool" where
  "r_ok r \<longleftrightarrow> length r = 5 \<and> list_all (\<lambda>x. unat x < 2 ^ 26) r"

definition h_ok :: "u32 list \<Rightarrow> bool" where
  "h_ok h \<longleftrightarrow> length h = 5 \<and> unat (h ! 0) < 2 ^ 26 \<and> unat (h ! 1) < 2 ^ 26 + 64 \<and>
     unat (h ! 2) < 2 ^ 26 \<and> unat (h ! 3) < 2 ^ 26 \<and> unat (h ! 4) < 2 ^ 26"

lemma limb_product:
  fixes h0 h1 h2 h3 h4 r0 r1 r2 r3 r4 :: nat
  shows "(h0 + 2^26 * (h1 + 2^26 * (h2 + 2^26 * (h3 + 2^26 * h4)))) *
         (r0 + 2^26 * (r1 + 2^26 * (r2 + 2^26 * (r3 + 2^26 * r4)))) =
    (h0*r0 + h1*(5*r4) + h2*(5*r3) + h3*(5*r2) + h4*(5*r1)) +
    2^26 * ((h0*r1 + h1*r0 + h2*(5*r4) + h3*(5*r3) + h4*(5*r2)) +
    2^26 * ((h0*r2 + h1*r1 + h2*r0 + h3*(5*r4) + h4*(5*r3)) +
    2^26 * ((h0*r3 + h1*r2 + h2*r1 + h3*r0 + h4*(5*r4)) +
    2^26 * (h0*r4 + h1*r3 + h2*r2 + h3*r1 + h4*r0)))) +
    P1305 * ((h1*r4 + h2*r3 + h3*r2 + h4*r1) + 2^26 * ((h2*r4 + h3*r3 + h4*r2) +
      2^26 * ((h3*r4 + h4*r3) + 2^26 * (h4*r4))))"
  by (simp add: P1305_def algebra_simps)

lemma carry_total:
  fixes D0 D1 D2 D3 D4 :: nat
  assumes "D0 = m0 + 2^26 * c0" "D1 + c0 = m1 + 2^26 * c1" "D2 + c1 = m2 + 2^26 * c2"
    "D3 + c2 = m3 + 2^26 * c3" "D4 + c3 = m4 + 2^26 * c4" "m0 + c4 * 5 = f + 2^26 * c"
  shows "D0 + 2^26 * (D1 + 2^26 * (D2 + 2^26 * (D3 + 2^26 * D4))) =
    (f + 2^26 * ((m1 + c) + 2^26 * (m2 + 2^26 * (m3 + 2^26 * m4)))) + P1305 * c4"
  using assms by (simp add: P1305_def)

lemma times5_exact: "unat (x :: u32) < 2 ^ 26 \<Longrightarrow> unat (x * 5) = 5 * unat x"
  by (subst unat_times_exact) simp_all

text \<open>The largest sum of products, for limbs below \<open>2^27 + 64\<close> and multipliers below \<open>2^26\<close>,
  five times \<open>2^26\<close> where the reduction by five is folded in.\<close>

abbreviation "limb_max \<equiv> 2 ^ 27 + 64 :: nat"
abbreviation "product_max \<equiv> 5 * (limb_max * (5 * 2 ^ 26)) :: nat"

lemma div_26_le: "x div 2 ^ 26 \<le> 2 ^ 32" if "x \<le> 2 ^ 58 - 1" for x :: nat
proof -
  have "x div 2 ^ 26 \<le> (2 ^ 58 - 1) div 2 ^ 26" using that by (rule div_le_mono)
  then show ?thesis by simp
qed

lemma carry_products_value:
  assumes l: "unat d0 \<le> product_max" "unat d1 \<le> product_max" "unat d2 \<le> product_max" "unat d3 \<le> product_max"
    "unat d4 \<le> 5 * (limb_max * 2 ^ 26)"
  shows "h_ok (carry_products d0 d1 d2 d3 d4) \<and>
    (\<exists>c. limb_value 26 [d0, d1, d2, d3, d4] = limb_value 26 (carry_products d0 d1 d2 d3 d4) + P1305 * c)"
proof -
  define e1 where "e1 = d1 + as_u64 (as_u32 (drop_bit 26 d0))"
  define e2 where "e2 = d2 + as_u64 (as_u32 (drop_bit 26 e1))"
  define e3 where "e3 = d3 + as_u64 (as_u32 (drop_bit 26 e2))"
  define e4 where "e4 = d4 + as_u64 (as_u32 (drop_bit 26 e3))"
  have l0: "unat d0 \<le> 2 ^ 58 - 1" "unat d1 \<le> 2 ^ 58 - 1" "unat d2 \<le> 2 ^ 58 - 1" "unat d3 \<le> 2 ^ 58 - 1" "unat d4 \<le> 2 ^ 58 - 1"
    using l by simp_all
  note k0 = carry_step[OF l0(1,2)]
  have E1: "unat e1 = unat d1 + unat d0 div 2 ^ 26" unfolding e1_def by (rule k0(3))
  then have l1: "unat e1 \<le> 2 ^ 58 - 1" using div_26_le[OF l0(1)] l(2) by simp
  note k1 = carry_step[OF l1 l0(3)]
  have E2: "unat e2 = unat d2 + unat e1 div 2 ^ 26" unfolding e2_def by (rule k1(3))
  then have l2: "unat e2 \<le> 2 ^ 58 - 1" using div_26_le[OF l1] l(3) by simp
  note k2 = carry_step[OF l2 l0(4)]
  have E3: "unat e3 = unat d3 + unat e2 div 2 ^ 26" unfolding e3_def by (rule k2(3))
  then have l3: "unat e3 \<le> 2 ^ 58 - 1" using div_26_le[OF l2] l(4) by simp
  note k3 = carry_step[OF l3 l0(5)]
  have E4: "unat e4 = unat d4 + unat e3 div 2 ^ 26" unfolding e4_def by (rule k3(3))
  then have l4': "unat e4 \<le> 5 * (limb_max * 2 ^ 26) + 2 ^ 32" using div_26_le[OF l3] l(5) by simp
  then have l4: "unat e4 \<le> 2 ^ 58 - 1" by simp
  note k4 = carry_step[OF l4 l4]
  define c where "c = as_u32 (drop_bit 26 e4)"
  have C: "unat c = unat e4 div 2 ^ 26" unfolding c_def by (rule k4(1))
  have "unat e4 div 2 ^ 26 \<le> (5 * (limb_max * 2 ^ 26) + 2 ^ 32) div 2 ^ 26" using l4' by (rule div_le_mono)
  then have cb: "unat c \<le> 671089088" unfolding C by simp
  define f where "f = as_u32 (d0 AND as_u64 MASK26) + c * 5"
  have c5: "unat (c * 5) = unat c * 5" using cb by (subst unat_times_exact) simp_all
  have "unat d0 mod 2 ^ 26 < 2 ^ 26" by simp
  then have F: "unat f = unat d0 mod 2 ^ 26 + unat c * 5" and fb: "unat f < 2 ^ 32"
    unfolding f_def using cb c5 k0(4) by (subst unat_plus_exact; simp)+
  define g1 where "g1 = as_u32 (e1 AND as_u64 MASK26) + drop_bit 26 f"
  have "unat f div 2 ^ 26 \<le> (2 ^ 32 - 1) div 2 ^ 26" using fb by (intro div_le_mono) simp
  then have fq: "unat f div 2 ^ 26 < 64" by simp
  have "unat e1 mod 2 ^ 26 < 2 ^ 26" by simp
  then have G1: "unat g1 = unat e1 mod 2 ^ 26 + unat f div 2 ^ 26"
    unfolding g1_def using fq k1(4) by (subst unat_plus_exact) (simp_all add: unat_drop_bit)
  have p: "carry_products d0 d1 d2 d3 d4 = [f AND MASK26, g1, as_u32 (e2 AND as_u64 MASK26),
      as_u32 (e3 AND as_u64 MASK26), as_u32 (e4 AND as_u64 MASK26)]"
    by (simp add: carry_products_def Let_def f_def g1_def c_def e4_def e3_def e2_def e1_def)
  have v: "unat (f AND MASK26) = unat f mod 2 ^ 26" by (simp add: MASK26_mask unat_and_mask)
  have "h_ok (carry_products d0 d1 d2 d3 d4)" unfolding h_ok_def p using v G1 fq k2(4) k3(4) k4(4) by simp
  moreover have "limb_value 26 [d0, d1, d2, d3, d4] = limb_value 26 (carry_products d0 d1 d2 d3 d4) + P1305 * unat c"
    unfolding p limb_value_Cons limb_value_Nil mult_0_right add_0_right v G1 k2(4) k3(4) k4(4)
    by (rule carry_total[where ?c0.0 = "unat d0 div 2 ^ 26" and ?c1.0 = "unat e1 div 2 ^ 26" and ?c2.0 = "unat e2 div 2 ^ 26" and ?c3.0 = "unat e3 div 2 ^ 26" and ?m0.0 = "unat d0 mod 2 ^ 26"])
      (simp_all only: E1[symmetric] E2[symmetric] E3[symmetric] E4[symmetric] C F[unfolded C, symmetric] mod_mult_div_eq)
  ultimately show ?thesis by blast
qed

lemma multiply_limbs:
  assumes r: "poly_r self = [r0, r1, r2, r3, r4]" "list_all (\<lambda>x. unat x < 2 ^ 26) [r0, r1, r2, r3, r4]"
    and h: "poly_h self = [h0, h1, h2, h3, h4]" "list_all (\<lambda>x. unat x \<le> limb_max) [h0, h1, h2, h3, h4]"
  shows "\<exists>h'. multiply self = self\<lparr>poly_h := h'\<rparr> \<and> h_ok h' \<and>
    limb_value 26 h' mod P1305 = limb_value 26 (poly_h self) * limb_value 26 (poly_r self) mod P1305"
proof -
  note rb = r(2)[simplified] and hb = h(2)[simplified]
  have s: "unat (r1 * 5) = 5 * unat r1" "unat (r2 * 5) = 5 * unat r2" "unat (r3 * 5) = 5 * unat r3"
    "unat (r4 * 5) = 5 * unat r4" using rb by (simp_all add: times5_exact)
  note dot = dot5_exact[where 'a = 32 and 'b = 64 and A = limb_max and B = "5 * 2 ^ 26"]
  note d0 = dot[of h0 h1 h2 h3 h4 r0 "r4 * 5" "r3 * 5" "r2 * 5" "r1 * 5"]
  note d1 = dot[of h0 h1 h2 h3 h4 r1 r0 "r4 * 5" "r3 * 5" "r2 * 5"]
  note d2 = dot[of h0 h1 h2 h3 h4 r2 r1 r0 "r4 * 5" "r3 * 5"]
  note d3 = dot[of h0 h1 h2 h3 h4 r3 r2 r1 r0 "r4 * 5"]
  note d4 = dot5_exact[where 'a = 32 and 'b = 64 and A = limb_max and B = "2 ^ 26", of h0 h1 h2 h3 h4 r4 r3 r2 r1 r0]
  obtain e0 e1 e2 e3 e4 where m: "multiply self = self\<lparr>poly_h := carry_products e0 e1 e2 e3 e4\<rparr>"
    and E: "unat e0 = unat h0 * unat r0 + unat h1 * unat (r4 * 5) + unat h2 * unat (r3 * 5) + unat h3 * unat (r2 * 5) + unat h4 * unat (r1 * 5)"
      "unat e1 = unat h0 * unat r1 + unat h1 * unat r0 + unat h2 * unat (r4 * 5) + unat h3 * unat (r3 * 5) + unat h4 * unat (r2 * 5)"
      "unat e2 = unat h0 * unat r2 + unat h1 * unat r1 + unat h2 * unat r0 + unat h3 * unat (r4 * 5) + unat h4 * unat (r3 * 5)"
      "unat e3 = unat h0 * unat r3 + unat h1 * unat r2 + unat h2 * unat r1 + unat h3 * unat r0 + unat h4 * unat (r4 * 5)"
      "unat e4 = unat h0 * unat r4 + unat h1 * unat r3 + unat h2 * unat r2 + unat h3 * unat r1 + unat h4 * unat r0"
  proof
    show "multiply self = self\<lparr>poly_h := carry_products
        (as_u64 h0 * as_u64 r0 + as_u64 h1 * as_u64 (r4 * 5) + as_u64 h2 * as_u64 (r3 * 5) + as_u64 h3 * as_u64 (r2 * 5) + as_u64 h4 * as_u64 (r1 * 5))
        (as_u64 h0 * as_u64 r1 + as_u64 h1 * as_u64 r0 + as_u64 h2 * as_u64 (r4 * 5) + as_u64 h3 * as_u64 (r3 * 5) + as_u64 h4 * as_u64 (r2 * 5))
        (as_u64 h0 * as_u64 r2 + as_u64 h1 * as_u64 r1 + as_u64 h2 * as_u64 r0 + as_u64 h3 * as_u64 (r4 * 5) + as_u64 h4 * as_u64 (r3 * 5))
        (as_u64 h0 * as_u64 r3 + as_u64 h1 * as_u64 r2 + as_u64 h2 * as_u64 r1 + as_u64 h3 * as_u64 r0 + as_u64 h4 * as_u64 (r4 * 5))
        (as_u64 h0 * as_u64 r4 + as_u64 h1 * as_u64 r3 + as_u64 h2 * as_u64 r2 + as_u64 h3 * as_u64 r1 + as_u64 h4 * as_u64 r0)\<rparr>"
      by (simp add: multiply_def Let_def r(1) h(1))
  qed (rule d0(1) d1(1) d2(1) d3(1) d4(1); use rb hb s in simp)+
  have b: "unat e0 \<le> product_max" "unat e1 \<le> product_max" "unat e2 \<le> product_max" "unat e3 \<le> product_max"
      "unat e4 \<le> 5 * (limb_max * 2 ^ 26)"
    unfolding E by (rule d0(2) d1(2) d2(2) d3(2) d4(2); use rb hb s in simp)+
  from carry_products_value[OF b] obtain c where ok: "h_ok (carry_products e0 e1 e2 e3 e4)"
    and c: "limb_value 26 [e0, e1, e2, e3, e4] = limb_value 26 (carry_products e0 e1 e2 e3 e4) + P1305 * c" by blast
  have "limb_value 26 (poly_h self) * limb_value 26 (poly_r self) mod P1305 = limb_value 26 [e0, e1, e2, e3, e4] mod P1305"
    unfolding r(1) h(1) limb_value_Cons limb_value_Nil mult_0_right add_0_right limb_product E s by simp
  then have "limb_value 26 (carry_products e0 e1 e2 e3 e4) mod P1305 = limb_value 26 (poly_h self) * limb_value 26 (poly_r self) mod P1305"
    unfolding c by simp
  with m ok show ?thesis by blast
qed


section \<open>Absorbing a block\<close>

lemma funnel_limb:
  fixes x y :: u32
  assumes "a + b = 32" "a + 26 \<le> 64"
    and x: "unat x = t div 2 ^ i mod 2 ^ 32" and y: "unat y = t div 2 ^ (i + 32) mod 2 ^ 32"
  shows "unat ((drop_bit a x OR push_bit b y) AND MASK26) = t div 2 ^ (i + a) mod 2 ^ 26"
proof -
  have b: "b = LENGTH(32) - a" "a \<le> LENGTH(32)" using assms(1) by simp_all
  have "unat ((drop_bit a x OR push_bit b y) AND MASK26) =
      (t div 2 ^ i mod 2 ^ 32 + 2 ^ 32 * (t div 2 ^ (i + 32) mod 2 ^ 32)) div 2 ^ a mod 2 ^ 32 mod 2 ^ 26"
    unfolding MASK26_mask unat_and_mask b(1) funnel_shift[OF b(2)] x y by simp
  also have "\<dots> = t div 2 ^ i mod 2 ^ (32 + 32) div 2 ^ a mod 2 ^ 32 mod 2 ^ 26"
    unfolding div_mod_join ..
  also have "\<dots> = t div 2 ^ i mod 2 ^ 64 div 2 ^ a mod 2 ^ 26"
    by (simp add: mod_mod_cancel)
  also have "\<dots> = t div 2 ^ (i + a) mod 2 ^ 26" by (rule div_mod_window[OF assms(2)])
  finally show ?thesis .
qed

lemma le32_slice:
  assumes "length block = n" "i + 4 \<le> n" "j = i + 4"
  shows "unat (le32 (sub_slice block i j)) = le_nat block div 2 ^ (8 * i) mod 2 ^ 32"
proof -
  have "unat (le32 (sub_slice block i j)) = le_nat (sub_slice block i j)"
    using assms by (intro unat_from_le_bytes) simp
  also have "\<dots> = le_nat block div 256 ^ i mod 256 ^ 4"
    using assms by (simp add: le_nat_slice)
  also have "(256::nat) ^ i = 2 ^ (8 * i)" by (simp add: power_mult)
  finally show ?thesis by simp
qed

lemma block_limbs:
  assumes "length block = 16"
  defines "t \<equiv> le_nat block"
  shows "unat (le32 (sub_slice block 0 4) AND MASK26) = t mod 2 ^ 26"
    "unat ((drop_bit 26 (le32 (sub_slice block 0 4)) OR push_bit 6 (le32 (sub_slice block 4 8))) AND MASK26) = t div 2 ^ 26 mod 2 ^ 26"
    "unat ((drop_bit 20 (le32 (sub_slice block 4 8)) OR push_bit 12 (le32 (sub_slice block 8 12))) AND MASK26) = t div 2 ^ 52 mod 2 ^ 26"
    "unat ((drop_bit 14 (le32 (sub_slice block 8 12)) OR push_bit 18 (le32 (sub_slice block 12 16))) AND MASK26) = t div 2 ^ 78 mod 2 ^ 26"
    "unat (drop_bit 8 (le32 (sub_slice block 12 16)) OR (if full then push_bit 24 1 else 0)) = t div 2 ^ 104 + (if full then 2 ^ 24 else 0)"
    "t div 2 ^ 104 < 2 ^ 24"
proof -
  note w = le32_slice[OF assms(1), folded t_def]
  have w0: "unat (le32 (sub_slice block 0 4)) = t div 2 ^ 0 mod 2 ^ 32" using w[of 0] by simp
  have w1: "unat (le32 (sub_slice block 4 8)) = t div 2 ^ (0 + 32) mod 2 ^ 32" using w[of 4] by simp
  have w2: "unat (le32 (sub_slice block 8 12)) = t div 2 ^ (32 + 32) mod 2 ^ 32" using w[of 8] by simp
  have w3: "unat (le32 (sub_slice block 12 16)) = t div 2 ^ (64 + 32) mod 2 ^ 32" using w[of 12] by simp
  show "unat (le32 (sub_slice block 0 4) AND MASK26) = t mod 2 ^ 26"
    unfolding MASK26_mask unat_and_mask w0 by (simp add: mod_mod_cancel)
  show "unat ((drop_bit 26 (le32 (sub_slice block 0 4)) OR push_bit 6 (le32 (sub_slice block 4 8))) AND MASK26) = t div 2 ^ 26 mod 2 ^ 26"
    using funnel_limb[OF _ _ w0 w1, of 26 6] by simp
  show "unat ((drop_bit 20 (le32 (sub_slice block 4 8)) OR push_bit 12 (le32 (sub_slice block 8 12))) AND MASK26) = t div 2 ^ 52 mod 2 ^ 26"
    using funnel_limb[OF _ _ _ w2, of 20 12] w1 by simp
  show "unat ((drop_bit 14 (le32 (sub_slice block 8 12)) OR push_bit 18 (le32 (sub_slice block 12 16))) AND MASK26) = t div 2 ^ 78 mod 2 ^ 26"
    using funnel_limb[OF _ _ _ w3, of 14 18] w2 by simp
  have tb: "t < 2 ^ 128" unfolding t_def using le_nat_less[of block] assms(1) by simp
  then show hi: "t div 2 ^ 104 < 2 ^ 24" by (simp add: div_less_iff_less_mult)
  have "unat (le32 (sub_slice block 12 16)) = t div 2 ^ 96"
    unfolding w3 using tb by (simp add: div_less_iff_less_mult)
  then have d: "unat (drop_bit 8 (le32 (sub_slice block 12 16))) = t div 2 ^ 104"
    by (simp add: unat_drop_bit div_mult2_eq[symmetric])
  have "unat (push_bit 24 1 :: u32) = push_bit 24 (1 :: nat)" by (simp add: push_bit_eq_mult)
  then show "unat (drop_bit 8 (le32 (sub_slice block 12 16)) OR (if full then push_bit 24 1 else 0)) = t div 2 ^ 104 + (if full then 2 ^ 24 else 0)"
    using or_disjoint_add[OF hi, of 1] d by (simp add: unsigned_or_eq)
qed

lemma digits26:
  fixes t :: nat
  shows "t = t mod 2^26 + 2^26 * (t div 2^26 mod 2^26 + 2^26 * (t div 2^52 mod 2^26 + 2^26 * (t div 2^78 mod 2^26 + 2^26 * (t div 2^104))))"
  using div_digit[of t 0 26] div_digit[of t 26 26] div_digit[of t 52 26] div_digit[of t 78 26] by simp

lemma block_digits:
  assumes "length block = 16"
  obtains u0 u1 u2 u3 u4 where "u0 < 2 ^ 26" "u1 < 2 ^ 26" "u2 < 2 ^ 26" "u3 < 2 ^ 26" "u4 < 2 ^ 24"
    "le_nat block = u0 + 2^26 * (u1 + 2^26 * (u2 + 2^26 * (u3 + 2^26 * u4)))"
    "unat (le32 (sub_slice block 0 4) AND MASK26) = u0"
    "unat ((drop_bit 26 (le32 (sub_slice block 0 4)) OR push_bit 6 (le32 (sub_slice block 4 8))) AND MASK26) = u1"
    "unat ((drop_bit 20 (le32 (sub_slice block 4 8)) OR push_bit 12 (le32 (sub_slice block 8 12))) AND MASK26) = u2"
    "unat ((drop_bit 14 (le32 (sub_slice block 8 12)) OR push_bit 18 (le32 (sub_slice block 12 16))) AND MASK26) = u3"
    "\<And>full. unat (drop_bit 8 (le32 (sub_slice block 12 16)) OR (if full then push_bit 24 1 else 0)) = u4 + (if full then 2 ^ 24 else 0)"
proof (rule that)
  show "le_nat block div 2 ^ 104 < 2 ^ 24" by (rule block_limbs(6)[OF assms])
qed (rule block_limbs[OF assms] digits26 mod_less_divisor; simp)+

lemma process_block_value:
  assumes r: "r_ok (poly_r self)" and h: "h_ok (poly_h self)" and b: "length block = 16"
  shows "\<exists>h'. process_block self block full = self\<lparr>poly_h := h'\<rparr> \<and> h_ok h' \<and>
    limb_value 26 h' mod P1305 =
      (limb_value 26 (poly_h self) + (le_nat block + (if full then 2 ^ 128 else 0))) * limb_value 26 (poly_r self) mod P1305"
proof -
  obtain r0 r1 r2 r3 r4 where R: "poly_r self = [r0, r1, r2, r3, r4]" "list_all (\<lambda>x. unat x < 2 ^ 26) [r0, r1, r2, r3, r4]"
    using r list5[of "poly_r self"] unfolding r_ok_def by metis
  obtain h0 h1 h2 h3 h4 where H: "poly_h self = [h0, h1, h2, h3, h4]"
    using h list5[of "poly_h self"] unfolding h_ok_def by metis
  have hb: "unat h0 < 2 ^ 26" "unat h1 < 2 ^ 26 + 64" "unat h2 < 2 ^ 26" "unat h3 < 2 ^ 26" "unat h4 < 2 ^ 26"
    using h unfolding h_ok_def H by simp_all
  obtain u0 u1 u2 u3 u4 where ub: "u0 < 2 ^ 26" "u1 < 2 ^ 26" "u2 < 2 ^ 26" "u3 < 2 ^ 26" "u4 < 2 ^ 24"
    and t: "le_nat block = u0 + 2^26 * (u1 + 2^26 * (u2 + 2^26 * (u3 + 2^26 * u4)))"
    and u: "unat (le32 (sub_slice block 0 4) AND MASK26) = u0"
      "unat ((drop_bit 26 (le32 (sub_slice block 0 4)) OR push_bit 6 (le32 (sub_slice block 4 8))) AND MASK26) = u1"
      "unat ((drop_bit 20 (le32 (sub_slice block 4 8)) OR push_bit 12 (le32 (sub_slice block 8 12))) AND MASK26) = u2"
      "unat ((drop_bit 14 (le32 (sub_slice block 8 12)) OR push_bit 18 (le32 (sub_slice block 12 16))) AND MASK26) = u3"
      "\<And>full. unat (drop_bit 8 (le32 (sub_slice block 12 16)) OR (if full then push_bit 24 1 else 0)) = u4 + (if full then 2 ^ 24 else 0)"
    by (rule block_digits[OF b]) blast
  obtain g0 g1 g2 g3 g4 where p: "process_block self block full = multiply (self\<lparr>poly_h := [g0, g1, g2, g3, g4]\<rparr>)"
    and G: "unat g0 = unat h0 + u0" "unat g1 = unat h1 + u1" "unat g2 = unat h2 + u2" "unat g3 = unat h3 + u3"
      "unat g4 = unat h4 + (u4 + (if full then 2 ^ 24 else 0))"
  proof
    show "process_block self block full = multiply (self\<lparr>poly_h := [h0 + (le32 (sub_slice block 0 4) AND MASK26),
      h1 + ((drop_bit 26 (le32 (sub_slice block 0 4)) OR push_bit 6 (le32 (sub_slice block 4 8))) AND MASK26),
      h2 + ((drop_bit 20 (le32 (sub_slice block 4 8)) OR push_bit 12 (le32 (sub_slice block 8 12))) AND MASK26),
      h3 + ((drop_bit 14 (le32 (sub_slice block 8 12)) OR push_bit 18 (le32 (sub_slice block 12 16))) AND MASK26),
      h4 + (drop_bit 8 (le32 (sub_slice block 12 16)) OR (if full then push_bit 24 1 else 0))]\<rparr>)"
      by (simp add: process_block_def Let_def H)
  qed (subst unat_plus_exact; use hb ub in \<open>simp only: u\<close>; use hb ub in simp)+
  have gb: "list_all (\<lambda>x. unat x \<le> limb_max) [g0, g1, g2, g3, g4]"
    using G hb ub by simp
  have "limb_value 26 [g0, g1, g2, g3, g4] = limb_value 26 (poly_h self) + (le_nat block + (if full then 2 ^ 128 else 0))"
    unfolding H t by (simp add: G)
  then show ?thesis
    using multiply_limbs[of "self\<lparr>poly_h := [g0, g1, g2, g3, g4]\<rparr>" r0 r1 r2 r3 r4 g0 g1 g2 g3 g4] R gb
    by (auto simp: p)
qed

section \<open>The clamped key\<close>

lemma and_low_mask:
  fixes x c :: nat
  assumes "take_bit n c = c" "n \<le> m"
  shows "take_bit m x AND c = take_bit n x AND c"
proof -
  have "take_bit m x AND take_bit n c = take_bit n x AND take_bit n c"
    by (rule bit_eqI) (use assms(2) in \<open>auto simp: bit_simps\<close>)
  then show ?thesis using assms(1) by simp
qed

lemma clamp_limb:
  fixes w :: u32 and k C :: nat
  assumes w: "unat w = k div 2 ^ i mod 2 ^ 32" and c: "unat c = take_bit n (drop_bit (i + j) C)" and n: "j + n \<le> 32"
  shows "unat (drop_bit j w AND c) = (k AND C) div 2 ^ (i + j) mod 2 ^ n"
proof -
  have "unat (drop_bit j w) = take_bit (32 - j) (drop_bit (i + j) k)"
    using w n drop_bit_take_bit[of j 32 "drop_bit i k"]
    by (simp only: unat_drop_bit drop_bit_drop_bit add.commute flip: take_bit_eq_mod drop_bit_eq_div)
  then have "unat (drop_bit j w AND c) = take_bit (32 - j) (drop_bit (i + j) k) AND take_bit n (drop_bit (i + j) C)"
    using c by (simp add: unsigned_and_eq)
  also have "\<dots> = take_bit n (drop_bit (i + j) k) AND take_bit n (drop_bit (i + j) C)"
    using n by (intro and_low_mask) simp_all
  also have "\<dots> = take_bit n (drop_bit (i + j) (k AND C))"
    by (simp add: drop_bit_and)
  finally show ?thesis by (simp add: take_bit_eq_mod drop_bit_eq_div)
qed

lemma new_key:
  assumes "length key = 32"
  shows "r_ok (poly_r (poly1305_new key))"
    "limb_value 26 (poly_r (poly1305_new key)) = rfc_clamp (le_nat (sub_slice key 0 16))"
proof -
  let ?k = "le_nat (sub_slice key 0 16)" and ?C = "0x0ffffffc0ffffffc0ffffffc0fffffff :: nat"
  have sub: "sub_slice key i j = sub_slice (sub_slice key 0 16) i j" if "j \<le> 16" for i j
    using that assms by (auto simp: sub_slice_def min_def drop_take)
  have w: "unat (le32 (sub_slice key i (i + 4))) = ?k div 2 ^ (8 * i) mod 2 ^ 32" if "i + 4 \<le> 16" for i
    unfolding sub[OF that] using that assms by (intro le32_slice[where n = 16]) simp_all
  obtain a where a: "a = (?k AND ?C)" by blast
  have "unat (0x3ffffff :: u32) = take_bit 26 (drop_bit (8 * 0 + 0) ?C)" by (simp add: take_bit_eq_mod)
  from clamp_limb[OF w this] have L0: "unat (le32 (sub_slice key 0 4) AND 0x3ffffff) = a mod 2 ^ 26" by (simp add: a)
  have "unat (0x3ffff03 :: u32) = take_bit 26 (drop_bit (8 * 3 + 2) ?C)" by (simp add: take_bit_eq_mod drop_bit_eq_div)
  from clamp_limb[OF w this] have L1: "unat (drop_bit 2 (le32 (sub_slice key 3 7)) AND 0x3ffff03) = a div 2 ^ 26 mod 2 ^ 26"
    by (simp add: a)
  have "unat (0x3ffc0ff :: u32) = take_bit 26 (drop_bit (8 * 6 + 4) ?C)" by (simp add: take_bit_eq_mod drop_bit_eq_div)
  from clamp_limb[OF w this] have L2: "unat (drop_bit 4 (le32 (sub_slice key 6 10)) AND 0x3ffc0ff) = a div 2 ^ 52 mod 2 ^ 26"
    by (simp add: a)
  have "unat (0x3f03fff :: u32) = take_bit 26 (drop_bit (8 * 9 + 6) ?C)" by (simp add: take_bit_eq_mod drop_bit_eq_div)
  from clamp_limb[OF w this] have L3: "unat (drop_bit 6 (le32 (sub_slice key 9 13)) AND 0x3f03fff) = a div 2 ^ 78 mod 2 ^ 26"
    by (simp add: a)
  have "unat (0x00fffff :: u32) = take_bit 24 (drop_bit (8 * 12 + 8) ?C)" by (simp add: take_bit_eq_mod drop_bit_eq_div)
  from clamp_limb[OF w this] have L4: "unat (drop_bit 8 (le32 (sub_slice key 12 16)) AND 0x00fffff) = a div 2 ^ 104 mod 2 ^ 24"
    by (simp add: a)
  note L = L0 L1 L2 L3 L4
  have "int a \<le> int ?C" unfolding a of_nat_and_eq by (rule AND_upper2) simp
  then have "a \<le> ?C" by (simp only: of_nat_le_iff)
  then have "a div 2 ^ 104 \<le> ?C div 2 ^ 104" by (rule div_le_mono)
  then have top: "a div 2 ^ 104 mod 2 ^ 24 = a div 2 ^ 104" "a div 2 ^ 104 < 2 ^ 24" by simp_all
  show "r_ok (poly_r (poly1305_new key))"
    unfolding poly1305_new_def poly1305.select_convs r_ok_def list.pred_inject L using top(2) by simp
  show "limb_value 26 (poly_r (poly1305_new key)) = rfc_clamp (le_nat (sub_slice key 0 16))"
    unfolding poly1305_new_def poly1305.select_convs limb_value_Cons limb_value_Nil L top(1) rfc_clamp_def
      a[symmetric] mult_0_right add_0_right by (rule digits26[symmetric])
qed

section \<open>Absorbing a message\<close>

text \<open>A state that has absorbed the message \<open>d @ rest\<close>: the whole blocks \<open>d\<close> are in the accumulator, the
  rest is in the buffer, with zeros behind it.\<close>

definition absorbed :: "u8 list \<Rightarrow> poly1305 \<Rightarrow> u8 list \<Rightarrow> u8 list \<Rightarrow> bool" where
  "absorbed key self d rest \<longleftrightarrow>
     poly_r self = poly_r (poly1305_new key) \<and> poly_pad self = poly_pad (poly1305_new key) \<and>
     h_ok (poly_h self) \<and> length (poly_buf self) = 16 \<and>
     16 dvd length d \<and> length rest < 16 \<and> poly_buf_len self = length rest \<and>
     (rest \<noteq> [] \<longrightarrow> poly_buf self = rest @ replicate (16 - length rest) 0) \<and>
     limb_value 26 (poly_h self) mod P1305 = rfc_poly_acc (limb_value 26 (poly_r self)) d"

lemma rfc_poly_acc_append:
  "16 dvd length xs \<Longrightarrow> rfc_poly_acc r (xs @ ys) = fold (rfc_poly_step r) (chunks 16 ys) (rfc_poly_acc r xs)"
  by (simp add: rfc_poly_acc_def chunks_append)

lemma rfc_poly_acc_mod: "rfc_poly_acc r xs mod P1305 = rfc_poly_acc r xs"
proof -
  have "acc mod P1305 = acc \<Longrightarrow> fold (rfc_poly_step r) bs acc mod P1305 = fold (rfc_poly_step r) bs acc" for bs acc
    by (induction bs arbitrary: acc) (simp_all add: rfc_poly_step_def)
  then show ?thesis by (simp add: rfc_poly_acc_def)
qed

lemma rfc_poly_step_mod:
  "rfc_poly_step r block (acc mod P1305) = (acc + le_nat (block @ [1])) * r mod P1305"
  unfolding rfc_poly_step_def by (metis mod_add_left_eq mod_mult_left_eq)

text \<open>A full block.\<close>

lemma absorb_block:
  assumes key: "length key = 32" and h: "h_ok (poly_h self)" and r: "poly_r self = poly_r (poly1305_new key)"
    and b: "length block = 16" and d: "16 dvd length done"
    and acc: "limb_value 26 (poly_h self) mod P1305 = rfc_poly_acc (limb_value 26 (poly_r self)) done"
  shows "\<exists>h'. process_block self block True = self\<lparr>poly_h := h'\<rparr> \<and> h_ok h' \<and>
    limb_value 26 h' mod P1305 = rfc_poly_acc (limb_value 26 (poly_r self)) (done @ block)"
proof -
  have "r_ok (poly_r self)" using new_key(1)[OF key] r by simp
  from process_block_value[OF this h b, of True] obtain h' where
    h': "process_block self block True = self\<lparr>poly_h := h'\<rparr>" "h_ok h'"
      "limb_value 26 h' mod P1305 = (limb_value 26 (poly_h self) + (le_nat block + 2 ^ 128)) * limb_value 26 (poly_r self) mod P1305"
    by auto
  have "chunks 16 block = [block]" using b by (intro chunks_short) auto
  then have "rfc_poly_acc (limb_value 26 (poly_r self)) (done @ block) =
      rfc_poly_step (limb_value 26 (poly_r self)) block (limb_value 26 (poly_h self) mod P1305)"
    using d acc by (simp add: rfc_poly_acc_append)
  also have "\<dots> = limb_value 26 h' mod P1305"
    unfolding rfc_poly_step_mod h'(3) using b by (simp add: le_nat_append)
  finally show ?thesis using h' by auto
qed

text \<open>The end of \<open>update\<close>: the whole blocks of the data, and the rest into the empty buffer.\<close>

definition absorb_rest :: "poly1305 \<Rightarrow> u8 list \<Rightarrow> poly1305" where
  "absorb_rest self data =
     (case absorb_blocks self data of (self, data) \<Rightarrow>
        if data \<noteq> [] then self\<lparr>poly_buf := copy_prefix (replicate 16 0) data, poly_buf_len := length data\<rparr> else self)"

lemma absorb_rest_absorbed:
  assumes key: "length key = 32"
  shows "absorbed key self d [] \<Longrightarrow> \<exists>d' rest. absorbed key (absorb_rest self data) d' rest \<and> d' @ rest = d @ data"
proof (induction self data arbitrary: d rule: absorb_blocks.induct)
  case (1 self data)
  note a = 1(2)[unfolded absorbed_def]
  show ?case
  proof (cases "length data \<ge> 16")
    case False
    then have "absorb_rest self data = (if data \<noteq> [] then self\<lparr>poly_buf := copy_prefix (replicate 16 0) data, poly_buf_len := length data\<rparr> else self)"
      unfolding absorb_rest_def by (subst absorb_blocks.simps) simp
    then have "absorbed key (absorb_rest self data) d data"
      using a False by (auto simp: absorbed_def copy_prefix_def)
    then show ?thesis by blast
  next
    case True
    have b: "copy_prefix (replicate 16 0) (take 16 data) = take 16 data" "length (take 16 data) = 16"
      using True by (simp_all add: copy_prefix_def)
    from absorb_block[OF key _ _ b(2), of self d] a obtain h1 where
      h1: "process_block self (take 16 data) True = self\<lparr>poly_h := h1\<rparr>" "h_ok h1"
        "limb_value 26 h1 mod P1305 = rfc_poly_acc (limb_value 26 (poly_r self)) (d @ take 16 data)" by blast
    have step: "absorb_rest self data = absorb_rest (self\<lparr>poly_h := h1\<rparr>) (drop 16 data)"
      unfolding absorb_rest_def using True b h1 by (subst absorb_blocks.simps) simp
    have "absorbed key (self\<lparr>poly_h := h1\<rparr>) (d @ take 16 data) []"
      using a h1 b(2) by (simp add: absorbed_def)
    with 1(1)[OF True] b(1) h1(1) step show ?thesis by fastforce
  qed
qed

lemma update_absorbed:
  assumes key: "length key = 32" and a: "absorbed key self d rest"
  shows "\<exists>d' rest'. absorbed key (poly_update self data) d' rest' \<and> d' @ rest' = d @ rest @ data"
proof (cases "rest = []")
  case True
  then have "poly_update self data = absorb_rest self data"
    using a by (simp add: poly_update_def absorb_rest_def absorbed_def)
  then show ?thesis using absorb_rest_absorbed[OF key] a True by simp
next
  case False
  note a' = a[unfolded absorbed_def]
  let ?k = "min (16 - length rest) (length data)"
  let ?blk = "rest @ take ?k data"
  have buf: "copy_slice (poly_buf self) (poly_buf_len self) (take ?k data) = ?blk @ replicate (16 - length ?blk) 0"
    using a' False by (simp add: copy_slice_def min_def)
  show ?thesis
  proof (cases "length rest + ?k = 16")
    case full: True
    then have b: "length ?blk = 16" by simp
    let ?s = "self\<lparr>poly_buf := ?blk, poly_buf_len := 16\<rparr>"
    from absorb_block[OF key _ _ b, of ?s d] a' obtain h1 where
      h1: "process_block ?s ?blk True = ?s\<lparr>poly_h := h1\<rparr>" "h_ok h1"
        "limb_value 26 h1 mod P1305 = rfc_poly_acc (limb_value 26 (poly_r self)) (d @ ?blk)" by auto
    have "poly_update self data = absorb_rest (?s\<lparr>poly_h := h1, poly_buf_len := 0\<rparr>) (drop ?k data)"
      unfolding poly_update_def absorb_rest_def using False a' full buf h1(1) b by (simp add: Let_def)
    moreover have "absorbed key (?s\<lparr>poly_h := h1, poly_buf_len := 0\<rparr>) (d @ ?blk) []"
      using a' h1 b by (simp add: absorbed_def)
    ultimately show ?thesis
      using absorb_rest_absorbed[OF key, of _ "d @ ?blk" "drop ?k data"] by fastforce
  next
    case part: False
    then have d: "?k = length data" "length rest + length data < 16" using a' by (auto simp: min_def split: if_splits)
    have "absorb_blocks x [] = (x, [])" for x by (subst absorb_blocks.simps) simp
    then have "poly_update self data = self\<lparr>poly_buf := (rest @ data) @ replicate (16 - length (rest @ data)) 0, poly_buf_len := length (rest @ data)\<rparr>"
      unfolding poly_update_def using False a' part buf d by (simp add: Let_def)
    then have "absorbed key (poly_update self data) d (rest @ data)" using a' d False by (simp add: absorbed_def)
    then show ?thesis by blast
  qed
qed


section \<open>The final reduction\<close>

lemma carry26:
  fixes x y :: u32
  assumes "unat x + unat y < 2 ^ 32"
  shows "unat ((x + y) AND MASK26) = (unat x + unat y) mod 2 ^ 26" "unat (drop_bit 26 (x + y)) = (unat x + unat y) div 2 ^ 26"
  using unat_plus_exact[of x y] assms by (simp_all add: MASK26_mask unat_and_mask unat_drop_bit)

text \<open>After the carries every limb is below \<open>2^26\<close>: when the carry runs all the way round, the second
  limb has just been cut to less than 64.\<close>

definition canon :: "u32 list \<Rightarrow> bool" where
  "canon h \<longleftrightarrow> length h = 5 \<and> list_all (\<lambda>x. unat x < 2 ^ 26) h"

lemma carry_limbs_value:
  assumes "h_ok h"
  shows "canon (carry_limbs h) \<and> limb_value 26 (carry_limbs h) mod P1305 = limb_value 26 h mod P1305"
proof -
  obtain h0 h1 h2 h3 h4 where H: "h = [h0, h1, h2, h3, h4]"
    using assms list5[of h] unfolding h_ok_def by metis
  have b: "unat h0 < 2 ^ 26" "unat h1 < 2 ^ 26 + 64" "unat h2 < 2 ^ 26" "unat h3 < 2 ^ 26" "unat h4 < 2 ^ 26"
    using assms unfolding h_ok_def H by simp_all
  show ?thesis
  proof (cases "unat h1 < 2 ^ 26")
    case True
    have m: "x AND MASK26 = x \<and> drop_bit 26 x = 0" if "unat x < 2 ^ 26" for x :: u32
    proof -
      have "unat (x AND MASK26) = unat x" "unat (drop_bit 26 x) = 0"
        using that by (simp_all add: MASK26_mask unat_and_mask unat_drop_bit)
      then show ?thesis by (simp add: word_unat_eq_iff)
    qed
    have "carry_limbs h = h" using m b True by (simp add: carry_limbs_def H)
    then show ?thesis using b True by (simp add: canon_def H)
  next
    case False
    define e2 where "e2 = h2 + drop_bit 26 h1"
    define e3 where "e3 = h3 + drop_bit 26 e2"
    define e4 where "e4 = h4 + drop_bit 26 e3"
    define f where "f = h0 + drop_bit 26 e4 * 5"
    define g1 where "g1 = (h1 AND MASK26) + drop_bit 26 f"
    have one: "x div 2 ^ 26 \<le> 1" if "x < 2 * 2 ^ 26" for x :: nat
      using that by (metis One_nat_def div_less_iff_less_mult less_Suc_eq_le numeral_2_eq_2 zero_less_numeral zero_less_power)
    have q1: "unat (drop_bit 26 h1) = unat h1 div 2 ^ 26" "unat h1 div 2 ^ 26 \<le> 1"
      using one[of "unat h1"] b(2) by (simp_all add: unat_drop_bit)
    have E2: "unat e2 = unat h2 + unat h1 div 2 ^ 26" unfolding e2_def using q1 b by (subst unat_plus_exact) simp_all
    then have q2: "unat (drop_bit 26 e2) = unat e2 div 2 ^ 26" "unat e2 div 2 ^ 26 \<le> 1"
      using one[of "unat e2"] b q1 by (simp_all add: unat_drop_bit)
    have E3: "unat e3 = unat h3 + unat e2 div 2 ^ 26" unfolding e3_def using q2 b by (subst unat_plus_exact) simp_all
    then have q3: "unat (drop_bit 26 e3) = unat e3 div 2 ^ 26" "unat e3 div 2 ^ 26 \<le> 1"
      using one[of "unat e3"] b q2 by (simp_all add: unat_drop_bit)
    have E4: "unat e4 = unat h4 + unat e3 div 2 ^ 26" unfolding e4_def using q3 b by (subst unat_plus_exact) simp_all
    then have q4: "unat (drop_bit 26 e4) = unat e4 div 2 ^ 26" "unat e4 div 2 ^ 26 \<le> 1"
      using one[of "unat e4"] b q3 by (simp_all add: unat_drop_bit)
    have c5: "unat (drop_bit 26 e4 * 5) = unat e4 div 2 ^ 26 * 5" using q4 by (subst unat_times_exact) simp_all
    then have F: "unat f = unat h0 + unat e4 div 2 ^ 26 * 5" unfolding f_def using q4 b by (subst unat_plus_exact) simp_all
    then have q: "unat (drop_bit 26 f) = unat f div 2 ^ 26" "unat f div 2 ^ 26 \<le> 1"
      using one[of "unat f"] b q4 by (simp_all add: unat_drop_bit)
    have m1: "unat (h1 AND MASK26) = unat h1 mod 2 ^ 26" "unat h1 mod 2 ^ 26 < 64"
      using False b(2) by (simp_all add: MASK26_mask unat_and_mask le_mod_geq)
    have G1: "unat g1 = unat h1 mod 2 ^ 26 + unat f div 2 ^ 26"
      unfolding g1_def using q m1 by (subst unat_plus_exact) simp_all
    have c: "carry_limbs h = [f AND MASK26, g1, e2 AND MASK26, e3 AND MASK26, e4 AND MASK26]"
      by (simp add: carry_limbs_def Let_def H e2_def e3_def e4_def f_def g1_def)
    have v: "unat (x AND MASK26) = unat x mod 2 ^ 26" for x :: u32 by (simp add: MASK26_mask unat_and_mask)
    have "canon (carry_limbs h)" using G1 m1 q by (simp add: canon_def c v)
    moreover have "limb_value 26 h = limb_value 26 (carry_limbs h) + P1305 * (unat e4 div 2 ^ 26)"
      unfolding c unfolding H limb_value_Cons limb_value_Nil mult_0_right add_0_right v G1
      by (rule carry_total[where ?c0.0 = 0 and ?c1.0 = "unat h1 div 2 ^ 26" and ?c2.0 = "unat e2 div 2 ^ 26" and ?c3.0 = "unat e3 div 2 ^ 26" and ?m0.0 = "unat h0"])
        (simp_all only: E2[symmetric] E3[symmetric] E4[symmetric] F[symmetric] mod_mult_div_eq mult_0_right add_0_right)
    ultimately show ?thesis by simp
  qed
qed

lemma limbs26_less:
  fixes m0 :: nat
  assumes "m0 < 2^26" "m1 < 2^26" "m2 < 2^26" "m3 < 2^26"
  shows "m4 < 2^26 \<Longrightarrow> m0 + 2^26 * (m1 + 2^26 * (m2 + 2^26 * (m3 + 2^26 * m4))) < 2 ^ 130"
    and "m4 < 2^24 \<Longrightarrow> m0 + 2^26 * (m1 + 2^26 * (m2 + 2^26 * (m3 + 2^26 * m4))) < 2 ^ 128"
  using assms by simp_all

lemma reduce_limbs_value:
  assumes "canon h"
  shows "canon (reduce_limbs h) \<and> limb_value 26 (reduce_limbs h) = limb_value 26 h mod P1305"
proof -
  obtain h0 h1 h2 h3 h4 where H: "h = [h0, h1, h2, h3, h4]"
    using assms list5[of h] unfolding canon_def by metis
  have b: "unat h0 < 2 ^ 26" "unat h1 < 2 ^ 26" "unat h2 < 2 ^ 26" "unat h3 < 2 ^ 26" "unat h4 < 2 ^ 26"
    using assms unfolding canon_def H by simp_all
  define g0 where "g0 = h0 + 5"
  define g1 where "g1 = h1 + drop_bit 26 g0"
  define g2 where "g2 = h2 + drop_bit 26 g1"
  define g3 where "g3 = h3 + drop_bit 26 g2"
  define g4 where "g4 = h4 + drop_bit 26 g3"
  have one: "x div 2 ^ 26 \<le> 1" if "x < 2 * 2 ^ 26" for x :: nat
    using that by (metis One_nat_def div_less_iff_less_mult less_Suc_eq_le numeral_2_eq_2 zero_less_numeral zero_less_power)
  have G0: "unat g0 = unat h0 + 5" unfolding g0_def using b by (subst unat_plus_exact) simp_all
  then have q0: "unat (drop_bit 26 g0) = unat g0 div 2 ^ 26" "unat g0 div 2 ^ 26 \<le> 1"
    using one[of "unat g0"] b by (simp_all add: unat_drop_bit)
  have G1: "unat g1 = unat h1 + unat g0 div 2 ^ 26" unfolding g1_def using q0 b by (subst unat_plus_exact) simp_all
  then have q1: "unat (drop_bit 26 g1) = unat g1 div 2 ^ 26" "unat g1 div 2 ^ 26 \<le> 1"
    using one[of "unat g1"] b q0 by (simp_all add: unat_drop_bit)
  have G2: "unat g2 = unat h2 + unat g1 div 2 ^ 26" unfolding g2_def using q1 b by (subst unat_plus_exact) simp_all
  then have q2: "unat (drop_bit 26 g2) = unat g2 div 2 ^ 26" "unat g2 div 2 ^ 26 \<le> 1"
    using one[of "unat g2"] b q1 by (simp_all add: unat_drop_bit)
  have G3: "unat g3 = unat h3 + unat g2 div 2 ^ 26" unfolding g3_def using q2 b by (subst unat_plus_exact) simp_all
  then have q3: "unat (drop_bit 26 g3) = unat g3 div 2 ^ 26" "unat g3 div 2 ^ 26 \<le> 1"
    using one[of "unat g3"] b q2 by (simp_all add: unat_drop_bit)
  have G4: "unat g4 = unat h4 + unat g3 div 2 ^ 26" unfolding g4_def using q3 b by (subst unat_plus_exact) simp_all
  then have g4b: "unat g4 \<le> 2 ^ 26" using b q3 by simp
  let ?m = "drop_bit 31 (g4 - push_bit 26 1) - 1 :: u32"
  have r: "reduce_limbs h = map2 (\<lambda>x y. (x AND NOT ?m) OR (y AND ?m)) h
      [g0 AND MASK26, g1 AND MASK26, g2 AND MASK26, g3 AND MASK26, g4 - push_bit 26 1]"
    by (simp add: reduce_limbs_def Let_def H g0_def g1_def g2_def g3_def g4_def upt_rec)
  have v: "unat (x AND MASK26) = unat x mod 2 ^ 26" for x :: u32 by (simp add: MASK26_mask unat_and_mask)
  have dm: "x = x mod 2 ^ 26 + 2 ^ 26 * (x div 2 ^ 26)" for x :: nat by simp
  have sum: "limb_value 26 h + 5 = unat g0 mod 2^26 + 2^26 * (unat g1 mod 2^26 + 2^26 * (unat g2 mod 2^26 + 2^26 * (unat g3 mod 2^26 + 2^26 * unat g4)))"
    using dm[of "unat g0"] dm[of "unat g1"] dm[of "unat g2"] dm[of "unat g3"] G0 G1 G2 G3 G4 unfolding H by simp
  have hb: "limb_value 26 h < 2 ^ 130" using b unfolding H by simp
  show ?thesis
  proof (cases "unat g4 = 2 ^ 26")
    case True
    then have z: "g4 = push_bit 26 1" by (simp add: word_unat_eq_iff)
    then have "?m = - 1" by simp
    then have R: "reduce_limbs h = [g0 AND MASK26, g1 AND MASK26, g2 AND MASK26, g3 AND MASK26, 0]"
      unfolding r unfolding H using z by simp
    have "limb_value 26 h = limb_value 26 (reduce_limbs h) + P1305"
      using sum unfolding R limb_value_Cons limb_value_Nil v True P1305_def by simp
    moreover from this have "limb_value 26 (reduce_limbs h) < P1305" using hb by (simp add: P1305_def)
    ultimately show ?thesis using R v by (simp add: canon_def)
  next
    case False
    then have lt: "unat g4 < 2 ^ 26" using g4b by simp
    have "unat (g4 - push_bit 26 1) = 2 ^ 32 - 2 ^ 26 + unat g4"
      using lt by (simp add: unat_sub_if')
    then have "unat (drop_bit 31 (g4 - push_bit 26 1)) = 1" using lt by (simp add: unat_drop_bit)
    then have "drop_bit 31 (g4 - push_bit 26 1) = 1" by (simp only: word_unat_eq_iff unat_1)
    then have "?m = 0" by simp
    then have R: "reduce_limbs h = h" unfolding r unfolding H by simp
    have "limb_value 26 h + 5 < 2 ^ 130"
      unfolding sum by (rule limbs26_less(1)) (use lt in simp_all)
    then show ?thesis using R assms by (simp add: P1305_def)
  qed
qed

section \<open>The tag\<close>

lemma word4_value:
  "le_nat (to_le_bytes 4 w0 @ to_le_bytes 4 w1 @ to_le_bytes 4 w2 @ to_le_bytes 4 (w3 :: u32)) =
     unat w0 + 2^32 * (unat w1 + 2^32 * (unat w2 + 2^32 * unat w3))" for w0 w1 w2 w3 :: u32
proof -
  have "unat w mod 2 ^ (8 * 4) = unat w" for w :: u32
    using unat_less_power[of w] by simp
  then show ?thesis by (simp add: le_nat_append le_nat_to_le_bytes)
qed


lemma limbs32_less:
  fixes m0 :: nat
  shows "m0 < 2^32 \<Longrightarrow> m1 < 2^32 \<Longrightarrow> m2 < 2^32 \<Longrightarrow> m3 < 2^32 \<Longrightarrow> m0 + 2^32 * (m1 + 2^32 * (m2 + 2^32 * m3)) < 2 ^ 128"
  by simp

lemma carry32_total:
  fixes h0 h1 h2 h3 :: nat
  assumes "h0 + p0 = m0 + 2^32 * c0" "h1 + p1 + c0 = m1 + 2^32 * c1" "h2 + p2 + c1 = m2 + 2^32 * c2" "h3 + p3 + c2 = m3 + 2^32 * c3"
  shows "h0 + 2^32 * (h1 + 2^32 * (h2 + 2^32 * h3)) + (p0 + 2^32 * (p1 + 2^32 * (p2 + 2^32 * p3))) =
    m0 + 2^32 * (m1 + 2^32 * (m2 + 2^32 * m3)) + 2 ^ 128 * c3"
  using assms by simp

lemma add_words_value:
  fixes h0 h1 h2 h3 p0 p1 p2 p3 :: u32
  defines "f0 \<equiv> as_u64 h0 + as_u64 p0" defines "f1 \<equiv> as_u64 h1 + as_u64 p1 + drop_bit 32 f0"
  defines "f2 \<equiv> as_u64 h2 + as_u64 p2 + drop_bit 32 f1" defines "f3 \<equiv> as_u64 h3 + as_u64 p3 + drop_bit 32 f2"
  shows "unat (as_u32 f0) + 2^32 * (unat (as_u32 f1) + 2^32 * (unat (as_u32 f2) + 2^32 * unat (as_u32 f3))) =
    (limb_value 32 [h0, h1, h2, h3] + limb_value 32 [p0, p1, p2, p3]) mod 2 ^ 128"
proof -
  have l: "unat w < 2 ^ 32" for w :: u32 using unat_less_power[of w] by simp
  have F0: "unat f0 = unat h0 + unat p0" unfolding f0_def using l[of h0] l[of p0] by (subst unat_plus_exact) simp_all
  have F: "unat (as_u64 x + as_u64 y + drop_bit 32 f) = unat x + unat y + unat f div 2 ^ 32" for x y f
  proof -
    have "unat f < 2 ^ 64" using unat_less_power[of f] by simp
    then have q: "unat (drop_bit 32 f) < 2 ^ 32" by (simp add: unat_drop_bit div_less_iff_less_mult)
    have "unat (as_u64 x + as_u64 y) = unat x + unat y" using l[of x] l[of y] by (subst unat_plus_exact) simp_all
    then show ?thesis using q l[of x] l[of y] by (subst unat_plus_exact) (simp_all add: unat_drop_bit)
  qed
  have F1: "unat f1 = unat h1 + unat p1 + unat f0 div 2 ^ 32" unfolding f1_def by (rule F)
  have F2: "unat f2 = unat h2 + unat p2 + unat f1 div 2 ^ 32" unfolding f2_def by (rule F)
  have F3: "unat f3 = unat h3 + unat p3 + unat f2 div 2 ^ 32" unfolding f3_def by (rule F)
  have c: "unat (as_u32 f) = unat f mod 2 ^ 32" for f by (simp add: unat_ucast_mod)
  have dm: "x = x mod 2 ^ 32 + 2 ^ 32 * (x div 2 ^ 32)" for x :: nat by simp
  define v where "v = unat f0 mod 2^32 + 2^32 * (unat f1 mod 2^32 + 2^32 * (unat f2 mod 2^32 + 2^32 * (unat f3 mod 2^32)))"
  have "limb_value 32 [h0, h1, h2, h3] + limb_value 32 [p0, p1, p2, p3] = v + 2 ^ 128 * (unat f3 div 2 ^ 32)"
    unfolding v_def limb_value_Cons limb_value_Nil mult_0_right add_0_right
    by (rule carry32_total[where ?c0.0 = "unat f0 div 2^32" and ?c1.0 = "unat f1 div 2^32" and ?c2.0 = "unat f2 div 2^32"])
      (simp_all only: F0[symmetric] F1[symmetric] F2[symmetric] F3[symmetric] mod_mult_div_eq)
  moreover have "v < 2 ^ 128"
    unfolding v_def by (rule limbs32_less) simp_all
  ultimately show ?thesis unfolding c v_def[symmetric] by simp
qed

lemma top_limb:
  fixes h0 h1 h2 h3 q k :: nat
  shows "h0 + 2^26 * (h1 + 2^26 * (h2 + 2^26 * (h3 + 2^26 * (q + 2^24 * k)))) =
    h0 + 2^26 * (h1 + 2^26 * (h2 + 2^26 * (h3 + 2^26 * q))) + 2 ^ 128 * k"
  by simp

lemma repack_sum:
  fixes h0 q1 k1 q2 k2 q3 k3 q4 :: nat
  shows "(h0 + 2^26 * q1) + 2^32 * ((k1 + 2^20 * q2) + 2^32 * ((k2 + 2^14 * q3) + 2^32 * (k3 + 2^8 * q4))) =
    h0 + 2^26 * ((q1 + 2^6 * k1) + 2^26 * ((q2 + 2^12 * k2) + 2^26 * ((q3 + 2^18 * k3) + 2^26 * q4)))"
  by simp

lemma repack_value:
  assumes "canon h"
  shows "limb_value 32 [(h ! 0 OR push_bit 26 (h ! 1)) AND 0xffffffff, (drop_bit 6 (h ! 1) OR push_bit 20 (h ! 2)) AND 0xffffffff,
      (drop_bit 12 (h ! 2) OR push_bit 14 (h ! 3)) AND 0xffffffff, (drop_bit 18 (h ! 3) OR push_bit 8 (h ! 4)) AND 0xffffffff]
    = limb_value 26 h mod 2 ^ 128"
proof -
  obtain h0 h1 h2 h3 h4 where H: "h = [h0, h1, h2, h3, h4]"
    using assms list5[of h] unfolding canon_def by metis
  have b: "unat h0 < 2 ^ 26" "unat h1 < 2 ^ 26" "unat h2 < 2 ^ 26" "unat h3 < 2 ^ 26" "unat h4 < 2 ^ 26"
    using assms unfolding canon_def H by simp_all
  have "(0xffffffff :: u32) = mask 32" by (simp add: mask_eq_exp_minus_1)
  then have all: "unat (x AND 0xffffffff) = unat x" for x :: u32
    using unat_and_mask[of x 32] unat_less_power[of x] by simp
  have pk: "unat (drop_bit a x OR push_bit n y) = unat x div 2 ^ a + 2 ^ n * (unat y mod 2 ^ (32 - n))"
    if "unat x < 2 ^ 26" "26 = a + n" for a n and x y :: u32
    using pack_limbs[of x a n y] that by simp
  have w: "unat (h0 OR push_bit 26 h1) = unat h0 + 2 ^ 26 * (unat h1 mod 2 ^ 6)"
      "unat (drop_bit 6 h1 OR push_bit 20 h2) = unat h1 div 2 ^ 6 + 2 ^ 20 * (unat h2 mod 2 ^ 12)"
      "unat (drop_bit 12 h2 OR push_bit 14 h3) = unat h2 div 2 ^ 12 + 2 ^ 14 * (unat h3 mod 2 ^ 18)"
      "unat (drop_bit 18 h3 OR push_bit 8 h4) = unat h3 div 2 ^ 18 + 2 ^ 8 * (unat h4 mod 2 ^ 24)"
    using pk[OF b(1), of 0 26 h1] pk[OF b(2), of 6 20 h2] pk[OF b(3), of 12 14 h3] pk[OF b(4), of 18 8 h4] by simp_all
  let ?v = "unat h0 + 2^26 * (unat h1 + 2^26 * (unat h2 + 2^26 * (unat h3 + 2^26 * (unat h4 mod 2 ^ 24))))"
  have "limb_value 26 h = ?v + 2 ^ 128 * (unat h4 div 2 ^ 24)"
    using top_limb[of "unat h0" "unat h1" "unat h2" "unat h3" "unat h4 mod 2 ^ 24" "unat h4 div 2 ^ 24"]
    unfolding H mod_mult_div_eq by simp
  moreover have "?v < 2 ^ 128" using b(1-4) by (rule limbs26_less(2)) simp
  moreover have "limb_value 32 [(h ! 0 OR push_bit 26 (h ! 1)) AND 0xffffffff, (drop_bit 6 (h ! 1) OR push_bit 20 (h ! 2)) AND 0xffffffff,
      (drop_bit 12 (h ! 2) OR push_bit 14 (h ! 3)) AND 0xffffffff, (drop_bit 18 (h ! 3) OR push_bit 8 (h ! 4)) AND 0xffffffff] = ?v"
    using repack_sum[of "unat h0" "unat h1 mod 2^6" "unat h1 div 2^6" "unat h2 mod 2^12" "unat h2 div 2^12"
        "unat h3 mod 2^18" "unat h3 div 2^18" "unat h4 mod 2^24"]
    unfolding H mod_mult_div_eq by (simp add: all w del: power_numeral)
  ultimately show ?thesis by simp
qed

lemma add_pad_value:
  assumes "canon h" "pad = [p0, p1, p2, p3]"
  shows "add_pad h pad = nat_le_bytes 16 (limb_value 26 h + limb_value 32 pad)"
proof -
  have "le_nat (add_pad h pad) = (limb_value 26 h mod 2 ^ 128 + limb_value 32 pad) mod 2 ^ 128"
    unfolding repack_value[OF assms(1), symmetric] assms(2) add_words_value[symmetric] word4_value[symmetric]
    by (simp add: add_pad_def Let_def)
  also have "\<dots> = le_nat (nat_le_bytes 16 (limb_value 26 h + limb_value 32 pad))"
    by (simp add: le_nat_nat_le_bytes mod_simps)
  finally show ?thesis by (intro le_nat_inj) (simp_all add: add_pad_def Let_def)
qed

lemma digits32:
  fixes t :: nat
  shows "t = t mod 2^32 + 2^32 * (t div 2^32 mod 2^32 + 2^32 * (t div 2^64 mod 2^32 + 2^32 * (t div 2^96)))"
  using div_digit[of t 0 32] div_digit[of t 32 32] div_digit[of t 64 32] by simp

lemma pad_value:
  assumes "length key = 32"
  shows "limb_value 32 (poly_pad (poly1305_new key)) = le_nat (sub_slice key 16 32)"
proof -
  let ?s = "le_nat (sub_slice key 16 32)"
  have sub: "sub_slice key (16 + i) (16 + i + 4) = sub_slice (sub_slice key 16 32) i (i + 4)" if "i + 4 \<le> 16" for i
    using that assms by (simp add: sub_slice_def drop_take add.commute)
  have w: "unat (le32 (sub_slice key (16 + i) (16 + i + 4))) = ?s div 2 ^ (8 * i) mod 2 ^ 32" if "i + 4 \<le> 16" for i
    unfolding sub[OF that] using that assms by (intro le32_slice[where n = 16]) simp_all
  have sb: "?s < 2 ^ 128" using le_nat_less[of "sub_slice key 16 32"] assms by simp
  then have "?s div 2 ^ 96 < 2 ^ 32" by (simp add: div_less_iff_less_mult)
  then have "limb_value 32 (poly_pad (poly1305_new key)) =
      ?s mod 2 ^ 32 + 2 ^ 32 * (?s div 2 ^ 32 mod 2 ^ 32 + 2 ^ 32 * (?s div 2 ^ 64 mod 2 ^ 32 + 2 ^ 32 * (?s div 2 ^ 96)))"
    using w[of 0] w[of 4] w[of 8] w[of 12] by (simp add: poly1305_new_def)
  then show ?thesis using digits32[of ?s] by (simp only:)
qed

lemma finalize_absorbed:
  assumes key: "length key = 32" and a: "absorbed key self d rest"
  shows "poly_finalize self = rfc_poly1305 (d @ rest) key"
proof -
  note a' = a[unfolded absorbed_def]
  let ?r = "limb_value 26 (poly_r self)"
  have r: "r_ok (poly_r self)" "?r = rfc_clamp (le_nat (sub_slice key 0 16))" using new_key[OF key] a' by simp_all
  obtain self' where s': "self' = (if poly_buf_len self > 0 then process_block (self\<lparr>poly_buf_len := 0\<rparr>) ((poly_buf self)[poly_buf_len self := 1]) False else self)"
    by blast
  have "h_ok (poly_h self') \<and> poly_pad self' = poly_pad (poly1305_new key) \<and> limb_value 26 (poly_h self') mod P1305 = rfc_poly_acc ?r (d @ rest)"
  proof (cases "rest = []")
    case True
    then show ?thesis using a' s' by simp
  next
    case False
    let ?b = "(poly_buf self)[length rest := 1]"
    have b: "?b = (rest @ [1]) @ replicate (15 - length rest) 0"
    proof -
      have "replicate (16 - length rest) (0 :: u8) = 0 # replicate (15 - length rest) 0"
        using a' by (cases "16 - length rest") simp_all
      then show ?thesis using a' False by (simp add: list_update_append)
    qed
    then have bl: "length ?b = 16" using a' False by simp
    have lb: "le_nat ?b = le_nat (rest @ [1])" unfolding b by (simp add: le_nat_append)
    from process_block_value[of "self\<lparr>poly_buf_len := 0\<rparr>", OF _ _ bl, of False] r(1) a' obtain h' where
      h': "process_block (self\<lparr>poly_buf_len := 0\<rparr>) ?b False = self\<lparr>poly_buf_len := 0, poly_h := h'\<rparr>" "h_ok h'"
        "limb_value 26 h' mod P1305 = (limb_value 26 (poly_h self) + le_nat ?b) * ?r mod P1305"
      by auto
    have "chunks 16 rest = [rest]" using False a' by (intro chunks_short) simp_all
    then have "rfc_poly_acc ?r (d @ rest) = rfc_poly_step ?r rest (limb_value 26 (poly_h self) mod P1305)"
      using a' by (simp add: rfc_poly_acc_append)
    also have "\<dots> = limb_value 26 h' mod P1305" unfolding rfc_poly_step_mod h'(3) lb ..
    finally have "limb_value 26 h' mod P1305 = rfc_poly_acc ?r (d @ rest)" ..
    moreover have "self' = self\<lparr>poly_buf_len := 0, poly_h := h'\<rparr>" using s' h'(1) a' False by simp
    ultimately show ?thesis using h'(2) a' by simp
  qed
  then have h: "h_ok (poly_h self')" "poly_pad self' = poly_pad (poly1305_new key)" "limb_value 26 (poly_h self') mod P1305 = rfc_poly_acc ?r (d @ rest)"
    by simp_all
  note c = carry_limbs_value[OF h(1)]
  note d = reduce_limbs_value[OF conjunct1[OF c]]
  have "poly_finalize self = add_pad (reduce_limbs (carry_limbs (poly_h self'))) (poly_pad (poly1305_new key))"
    using h(2) by (simp add: poly_finalize_def s' Let_def)
  also have "\<dots> = nat_le_bytes 16 (rfc_poly_acc ?r (d @ rest) + limb_value 32 (poly_pad (poly1305_new key)))"
    using add_pad_value[OF conjunct1[OF d], of "poly_pad (poly1305_new key)"] d c h(3)
    by (simp add: poly1305_new_def)
  finally show ?thesis by (simp add: rfc_poly1305_def r(2) pad_value[OF key])
qed

lemma new_absorbed: "absorbed key (poly1305_new key) [] []"
proof -
  have z: "replicate 5 (0 :: u32) = [0, 0, 0, 0, 0]" by (simp add: numeral_eq_Suc)
  have "poly_h (poly1305_new key) = [0, 0, 0, 0, 0]" "length (poly_buf (poly1305_new key)) = 16" "poly_buf_len (poly1305_new key) = 0"
    by (simp_all only: poly1305_new_def poly1305.select_convs z length_replicate)
  then show ?thesis by (simp add: absorbed_def rfc_poly_acc_def h_ok_def)
qed

lemma updates_absorbed:
  assumes "length key = 32" "absorbed key self d rest"
  shows "\<exists>d' rest'. absorbed key (fold (\<lambda>part s. poly_update s part) parts self) d' rest' \<and> d' @ rest' = d @ rest @ concat parts"
  using assms(2)
proof (induction parts arbitrary: self d rest)
  case (Cons p parts)
  from update_absorbed[OF assms(1) Cons.prems, of p] obtain d1 r1 where
    "absorbed key (poly_update self p) d1 r1" "d1 @ r1 = d @ rest @ p" by blast
  with Cons.IH[OF this(1)] show ?case by (metis append.assoc concat.simps(2) fold_simps(2))
qed auto

text \<open>C9. The incremental Poly1305 with its 26-bit limbs computes the tag of RFC 8439: for every way of
  cutting a message into parts, absorbing the parts one after the other and finalizing gives
  \<open>((sum of the blocks, times r) mod (2^130 - 5) + s) mod 2^128\<close> of the whole message. No product,
  carry or sum of limbs overflows its word on the way, or the equation would not hold.\<close>

theorem poly1305_is_rfc8439:
  assumes "length key = 32"
  shows "poly_finalize (fold (\<lambda>part s. poly_update s part) parts (poly1305_new key)) = rfc_poly1305 (concat parts) key"
  using updates_absorbed[OF assms new_absorbed, of parts] finalize_absorbed[OF assms] by fastforce

theorem poly1305_is_rfc8439_witness:
  "poly_finalize (fold (\<lambda>part s. poly_update s part) [[1, 2, 3], replicate 20 4] (poly1305_new (replicate 32 7))) =
     rfc_poly1305 (concat [[1, 2, 3], replicate 20 4]) (replicate 32 7)"
  by (rule poly1305_is_rfc8439) simp

end
