(* ===== verification/Aead.thy ===== *)
theory Aead
  imports Poly1305_Proof "HOL-Library.Monad_Syntax"
begin

text \<open>
  The stream cipher ChaCha20 (\<open>shared/crypto/src/chacha20.rs\<close>) and the authenticated encryption
  ChaCha20-Poly1305 (\<open>shared/crypto/src/chacha20poly1305.rs\<close>), with the constant-time comparison of
  \<open>pbkdf2.rs\<close>. Output buffers are arguments that the functions return updated; writing past the end
  of a buffer is a panic, \<open>None\<close>.
\<close>

section \<open>ChaCha20\<close>

definition quarter_round :: "u32 list \<Rightarrow> nat \<Rightarrow> nat \<Rightarrow> nat \<Rightarrow> nat \<Rightarrow> u32 list" where
  "quarter_round state a b c d =
     (let state = state[a := state ! a + state ! b];
          state = state[d := state ! d XOR state ! a];
          state = state[d := word_rotl 16 (state ! d)];
          state = state[c := state ! c + state ! d];
          state = state[b := state ! b XOR state ! c];
          state = state[b := word_rotl 12 (state ! b)];
          state = state[a := state ! a + state ! b];
          state = state[d := state ! d XOR state ! a];
          state = state[d := word_rotl 8 (state ! d)];
          state = state[c := state ! c + state ! d];
          state = state[b := state ! b XOR state ! c]
      in state[b := word_rotl 7 (state ! b)])"

definition double_round :: "u32 list \<Rightarrow> u32 list" where
  "double_round state =
     (let state = quarter_round state 0 4 8 12;
          state = quarter_round state 1 5 9 13;
          state = quarter_round state 2 6 10 14;
          state = quarter_round state 3 7 11 15;
          state = quarter_round state 0 5 10 15;
          state = quarter_round state 1 6 11 12;
          state = quarter_round state 2 7 8 13
      in quarter_round state 3 4 9 14)"

definition chacha_state :: "u8 list \<Rightarrow> u32 \<Rightarrow> u8 list \<Rightarrow> u32 list" where
  "chacha_state key counter nonce =
     [0x61707865, 0x3320646e, 0x79622d32, 0x6b206574,
      le32 (sub_slice key 0 4), le32 (sub_slice key 4 8), le32 (sub_slice key 8 12), le32 (sub_slice key 12 16),
      le32 (sub_slice key 16 20), le32 (sub_slice key 20 24), le32 (sub_slice key 24 28), le32 (sub_slice key 28 32),
      counter, le32 (sub_slice nonce 0 4), le32 (sub_slice nonce 4 8), le32 (sub_slice nonce 8 12)]"

definition chacha_block :: "u8 list \<Rightarrow> u32 \<Rightarrow> u8 list \<Rightarrow> u8 list" where
  "chacha_block key counter nonce =
     (let working = chacha_state key counter nonce;
          state = (double_round ^^ 10) working
      in concat (map (\<lambda>i. to_le_bytes 4 (state ! i + working ! i)) [0..<16]))"

text \<open>The two loops of \<open>xor\<close>: over the chunks, and over the bytes of a chunk.\<close>

definition xor_chunk :: "u8 list \<Rightarrow> u8 list \<Rightarrow> nat \<Rightarrow> u8 list \<Rightarrow> u8 list option" where
  "xor_chunk ks chunk at out =
     (if at + length chunk \<le> length out then Some (copy_slice out at (map2 (XOR) chunk ks)) else None)"

fun xor_chunks :: "u8 list \<Rightarrow> u32 \<Rightarrow> u8 list \<Rightarrow> nat \<Rightarrow> u8 list list \<Rightarrow> u8 list \<Rightarrow> u8 list option" where
  "xor_chunks key counter nonce chunk_idx [] out = Some out"
| "xor_chunks key counter nonce chunk_idx (chunk # rest) out =
     do { out \<leftarrow> xor_chunk (chacha_block key (counter + of_nat chunk_idx) nonce) chunk (chunk_idx * 64) out;
          xor_chunks key counter nonce (chunk_idx + 1) rest out }"

definition chacha_xor :: "u8 list \<Rightarrow> u32 \<Rightarrow> u8 list \<Rightarrow> u8 list \<Rightarrow> u8 list \<Rightarrow> u8 list option" where
  "chacha_xor key counter nonce data out = xor_chunks key counter nonce 0 (chunks 64 data) out"

section \<open>ChaCha20-Poly1305\<close>

definition poly_key_block :: "u8 list \<Rightarrow> u8 list \<Rightarrow> u8 list" where
  "poly_key_block key nonce = sub_slice (chacha_block key 0 nonce) 0 32"

definition compute_tag :: "u8 list \<Rightarrow> u8 list \<Rightarrow> u8 list \<Rightarrow> u8 list \<Rightarrow> u8 list" where
  "compute_tag key nonce aad ciphertext =
     (let mac = poly1305_new (poly_key_block key nonce);
          mac = pad16 (poly_update mac aad);
          mac = pad16 (poly_update mac ciphertext);
          mac = update_le64 mac (of_nat (length aad));
          mac = update_le64 mac (of_nat (length ciphertext))
      in poly_finalize mac)"

definition encrypt :: "u8 list \<Rightarrow> u8 list \<Rightarrow> u8 list \<Rightarrow> u8 list \<Rightarrow> u8 list \<Rightarrow> (u8 list \<times> u8 list) option" where
  "encrypt key nonce aad plaintext ciphertext =
     do { ciphertext \<leftarrow> chacha_xor key 1 nonce plaintext ciphertext;
          Some (compute_tag key nonce aad ciphertext, ciphertext) }"

definition ct_eq :: "u8 list \<Rightarrow> u8 list \<Rightarrow> bool" where
  "ct_eq a b =
     (if length a \<noteq> length b then False
      else fold (\<lambda>index diff. diff OR (a ! index XOR b ! index)) [0..<length a] 0 = 0)"

definition decrypt :: "u8 list \<Rightarrow> u8 list \<Rightarrow> u8 list \<Rightarrow> u8 list \<Rightarrow> u8 list \<Rightarrow> u8 list \<Rightarrow> (bool \<times> u8 list) option" where
  "decrypt key nonce aad ciphertext tag plaintext =
     (let expect = compute_tag key nonce aad ciphertext
      in if \<not> ct_eq expect tag then Some (False, plaintext)
         else do { plaintext \<leftarrow> chacha_xor key 1 nonce ciphertext plaintext; Some (True, plaintext) })"

section \<open>RFC 8439, section 2.8\<close>

text \<open>The key stream, and the data the authenticator runs over.\<close>

definition keystream :: "u8 list \<Rightarrow> u8 list \<Rightarrow> nat \<Rightarrow> u8 list" where
  "keystream key nonce n = concat (map (\<lambda>i. chacha_block key (1 + of_nat i) nonce) [0..<n])"

text \<open>The message, exclusive-or the key stream.\<close>

definition rfc_chacha20 :: "u8 list \<Rightarrow> u8 list \<Rightarrow> u8 list \<Rightarrow> u8 list" where
  "rfc_chacha20 key nonce data = map2 (XOR) data (keystream key nonce (length (chunks 64 data)))"

definition rfc_pad16 :: "u8 list \<Rightarrow> u8 list" where
  "rfc_pad16 xs = replicate ((16 - length xs mod 16) mod 16) 0"

definition rfc_mac_data :: "u8 list \<Rightarrow> u8 list \<Rightarrow> u8 list" where
  "rfc_mac_data aad ciphertext =
     aad @ rfc_pad16 aad @ ciphertext @ rfc_pad16 ciphertext @
     nat_le_bytes 8 (length aad) @ nat_le_bytes 8 (length ciphertext)"

definition rfc_tag :: "u8 list \<Rightarrow> u8 list \<Rightarrow> u8 list \<Rightarrow> u8 list \<Rightarrow> u8 list" where
  "rfc_tag key nonce aad ciphertext = rfc_poly1305 (rfc_mac_data aad ciphertext) (poly_key_block key nonce)"

section \<open>The key stream\<close>

lemma length_Let: "length e = n \<Longrightarrow> (\<And>x. length x = n \<Longrightarrow> length (f x) = m) \<Longrightarrow> length (Let e f) = m"
  by (simp add: Let_def)

lemma length_quarter_round [simp]: "length (quarter_round state a b c d) = length state"
  unfolding quarter_round_def by (rule length_Let[where n = "length state"], simp)+ simp

lemma length_double_rounds [simp]: "length ((double_round ^^ n) state) = length state"
  by (induction n) (simp_all add: double_round_def Let_def)

lemma length_chacha_block [simp]: "length (chacha_block key counter nonce) = 64"
  by (simp add: chacha_block_def Let_def length_concat comp_def sum_list_triv)

lemma xor_chunks_stream:
  assumes "length out = length pre + length (concat cs) + length post" "64 * k = length pre" "take (length pre) out = pre"
    "list_all (\<lambda>c. length c = 64) (butlast cs)" "cs \<noteq> [] \<longrightarrow> length (last cs) \<le> 64" "drop (length pre + length (concat cs)) out = post"
  shows "xor_chunks key counter nonce k cs out = Some (pre @ map2 (XOR) (concat cs)
      (concat (map (\<lambda>i. chacha_block key (counter + of_nat i) nonce) [k..<k + length cs])) @ post)"
  using assms
proof (induction cs arbitrary: k pre out)
  case Nil
  then have "out = pre @ post" using append_take_drop_id[of "length pre" out] by simp
  then show ?case by simp
next
  case (Cons c cs)
  let ?ks = "chacha_block key (counter + of_nat k) nonce"
  have c: "length c \<le> 64" "cs \<noteq> [] \<Longrightarrow> length c = 64"
    using Cons.prems(4,5) by (auto split: if_splits)
  let ?out = "copy_slice out (length pre) (map2 (XOR) c ?ks)"
  have len: "length (map2 (XOR) c ?ks) = length c" using c by simp
  have step: "xor_chunk ?ks c (k * 64) out = Some ?out"
    using Cons.prems(1,2) by (simp add: xor_chunk_def mult.commute)
  show ?case
  proof (cases "cs = []")
    case True
    have "?out = pre @ map2 (XOR) c ?ks @ post"
      unfolding copy_slice_def len using Cons.prems(3,6) True by simp
    then show ?thesis using step True c by (simp add: zip_append1 upt_rec)
  next
    case False
    have o: "?out = pre @ map2 (XOR) c ?ks @ drop (length pre + length c) out"
      unfolding copy_slice_def len using Cons.prems(3) by simp
    have "xor_chunks key counter nonce (k + 1) cs ?out = Some ((pre @ map2 (XOR) c ?ks) @ map2 (XOR) (concat cs)
      (concat (map (\<lambda>i. chacha_block key (counter + of_nat i) nonce) [k + 1..<k + 1 + length cs])) @ post)"
    proof (rule Cons.IH)
      show "length ?out = length (pre @ map2 (XOR) c ?ks) + length (concat cs) + length post"
        using Cons.prems(1) len by simp
      show "64 * (k + 1) = length (pre @ map2 (XOR) c ?ks)" using Cons.prems(2) c(2)[OF False] by simp
      show "take (length (pre @ map2 (XOR) c ?ks)) ?out = pre @ map2 (XOR) c ?ks" unfolding o by simp
      show "list_all (\<lambda>c. length c = 64) (butlast cs)" "cs \<noteq> [] \<longrightarrow> length (last cs) \<le> 64"
        using Cons.prems(4,5) False by simp_all
      show "drop (length (pre @ map2 (XOR) c ?ks) + length (concat cs)) ?out = post"
        unfolding o using Cons.prems(6) len by (simp add: add.commute add.left_commute)
    qed
    moreover have "[k..<k + length (c # cs)] = k # [k + 1..<k + 1 + length cs]" by (simp add: upt_conv_Cons del: upt_Suc)
    ultimately show ?thesis using step c(2)[OF False] by (simp add: zip_append)
  qed
qed

lemma length_keystream: "length (keystream key nonce n) = 64 * n"
  by (simp add: keystream_def length_concat comp_def sum_list_triv)

lemma length_rfc_chacha20 [simp]: "length (rfc_chacha20 key nonce data) = length data"
  using chunks_lengths[of 64 data] by (simp add: rfc_chacha20_def length_keystream)

lemma length_chunks: "length xs = length ys \<Longrightarrow> length (chunks n xs) = length (chunks n ys)"
proof (induction n xs arbitrary: ys rule: chunks.induct)
  case (1 n xs)
  then show ?case by (subst (1 2) chunks.simps) auto
qed

lemma chacha_xor_stream:
  assumes "length out = length data"
  shows "chacha_xor key 1 nonce data out = Some (rfc_chacha20 key nonce data)"
proof -
  have c: "concat (chunks 64 data) = data" by (rule concat_chunks) simp
  show ?thesis
    unfolding chacha_xor_def rfc_chacha20_def keystream_def
    using xor_chunks_stream[of out "[]" "chunks 64 data" "[]" 0 key 1 nonce] chunks_lengths[of 64 data] assms
    by (simp add: c)
qed

lemma rfc_chacha20_involutive: "rfc_chacha20 key nonce (rfc_chacha20 key nonce data) = data"
proof -
  let ?k = "keystream key nonce (length (chunks 64 data))"
  have "length (chunks 64 (rfc_chacha20 key nonce data)) = length (chunks 64 data)"
    by (rule length_chunks) simp
  then have "rfc_chacha20 key nonce (rfc_chacha20 key nonce data) = map2 (XOR) (map2 (XOR) data ?k) ?k"
    by (simp add: rfc_chacha20_def)
  also have "\<dots> = data"
    using chunks_lengths[of 64 data]
    by (intro nth_equalityI) (simp_all add: length_keystream xor.assoc)
  finally show ?thesis .
qed

section \<open>The tag\<close>

lemma ct_eq_iff: "ct_eq a b \<longleftrightarrow> a = b"
proof -
  have f: "fold (\<lambda>i diff. diff OR (a ! i XOR b ! i)) is d = 0 \<longleftrightarrow> d = 0 \<and> (\<forall>i\<in>set is. a ! i = b ! i)" for "is" and d :: u8
    by (induction "is" arbitrary: d) (auto simp: or_eq_0_iff xor_eq_0_word)
  show ?thesis unfolding ct_eq_def f by (auto intro: nth_equalityI)
qed

lemma pad16_absorbed:
  assumes "length key = 32" "absorbed key self d rest"
  shows "\<exists>d'. absorbed key (pad16 self) d' [] \<and> d' = d @ rest @ rfc_pad16 (d @ rest)"
proof -
  have l: "poly_buf_len self = length rest" "length rest < 16" "16 dvd length d" using assms(2) by (simp_all add: absorbed_def)
  then have m: "length (d @ rest) mod 16 = length rest" by (auto elim!: dvdE)
  show ?thesis
  proof (cases "rest = []")
    case True
    then show ?thesis using assms l m by (simp add: pad16_def rfc_pad16_def)
  next
    case False
    then have p: "pad16 self = poly_update self (rfc_pad16 (d @ rest))"
      unfolding pad16_def rfc_pad16_def m using l by (simp add: Let_def)
    from update_absorbed[OF assms, of "rfc_pad16 (d @ rest)"] obtain d' r' where
      u: "absorbed key (pad16 self) d' r'" "d' @ r' = d @ rest @ rfc_pad16 (d @ rest)" unfolding p by blast
    have "16 dvd length (d' @ r')" unfolding u(2) rfc_pad16_def m using l False by simp
    moreover have "16 dvd length d'" "length r' < 16" using u(1) by (simp_all add: absorbed_def)
    ultimately have "r' = []" by (simp add: dvd_add_right_iff) (metis nat_dvd_not_less length_greater_0_conv)
    then show ?thesis using u by auto
  qed
qed

lemma compute_tag_rfc:
  assumes "length aad < 2 ^ 64" "length ciphertext < 2 ^ 64"
  shows "compute_tag key nonce aad ciphertext = rfc_tag key nonce aad ciphertext"
proof -
  let ?k = "poly_key_block key nonce"
  have k: "length ?k = 32" by (simp add: poly_key_block_def)
  have e: "to_le_bytes 8 (of_nat n :: u64) = nat_le_bytes 8 n" if "n < 2 ^ 64" for n
    using that by (intro nat_le_bytesI) (simp_all add: le_nat_to_le_bytes unat_of_nat)
  obtain d1 r1 where a1: "absorbed ?k (poly_update (poly1305_new ?k) aad) d1 r1" "d1 @ r1 = aad"
    using update_absorbed[OF k new_absorbed, of aad] by auto
  obtain d2 where a2: "absorbed ?k (pad16 (poly_update (poly1305_new ?k) aad)) d2 []" "d2 = aad @ rfc_pad16 aad"
    using pad16_absorbed[OF k a1(1)] a1(2) by (metis append.assoc)
  obtain d3 r3 where a3: "absorbed ?k (poly_update (pad16 (poly_update (poly1305_new ?k) aad)) ciphertext) d3 r3"
      "d3 @ r3 = d2 @ ciphertext"
    using update_absorbed[OF k a2(1), of ciphertext] by auto
  have "16 dvd length d2" using a2(1) by (simp add: absorbed_def)
  then have p: "rfc_pad16 (d2 @ ciphertext) = rfc_pad16 ciphertext" by (auto simp: rfc_pad16_def elim!: dvdE)
  obtain d4 where a4: "absorbed ?k (pad16 (poly_update (pad16 (poly_update (poly1305_new ?k) aad)) ciphertext)) d4 []"
      "d4 = d2 @ ciphertext @ rfc_pad16 ciphertext"
    using pad16_absorbed[OF k a3(1)] a3(2) p by (metis append.assoc)
  obtain d5 r5 where a5: "absorbed ?k (update_le64 (pad16 (poly_update (pad16 (poly_update (poly1305_new ?k) aad)) ciphertext)) (of_nat (length aad))) d5 r5"
      "d5 @ r5 = d4 @ nat_le_bytes 8 (length aad)"
    using update_absorbed[OF k a4(1)] unfolding update_le64_def e[OF assms(1)] by fastforce
  obtain d6 r6 where a6: "absorbed ?k (update_le64 (update_le64 (pad16 (poly_update (pad16 (poly_update (poly1305_new ?k) aad)) ciphertext)) (of_nat (length aad))) (of_nat (length ciphertext))) d6 r6"
      "d6 @ r6 = d4 @ nat_le_bytes 8 (length aad) @ nat_le_bytes 8 (length ciphertext)"
    using update_absorbed[OF k a5(1)] a5(2) unfolding update_le64_def e[OF assms(2)] by (metis append.assoc)
  show ?thesis
    using finalize_absorbed[OF k a6(1)] a6(2) a4(2) a2(2)
    by (simp add: compute_tag_def rfc_tag_def rfc_mac_data_def)
qed



end
