(* ===== verification/Field25519.thy ===== *)
theory Field25519
  imports Byte_Words
begin

text \<open>
  Arithmetic modulo \<open>2^255 - 19\<close> in five limbs of 51 bits (\<open>shared/crypto/src/field.rs\<close>). The limbs
  are kept loose: \<open>add\<close> and \<open>sub\<close> do not carry, \<open>mul\<close> accepts limbs below \<open>2^54\<close> and carries its
  result. The lemmas give each operation its value modulo \<open>2^255 - 19\<close> and its bounds.
\<close>

section \<open>The code\<close>

definition MASK51 :: u64 where "MASK51 = 0x7ffffffffffff"

definition TWO_P :: "u64 list" where
  "TWO_P = [4503599627370458, 4503599627370494, 4503599627370494, 4503599627370494, 4503599627370494]"

definition P_LIMBS :: "u64 list" where
  "P_LIMBS = [2251799813685229, 2251799813685247, 2251799813685247, 2251799813685247, 2251799813685247]"

text \<open>\<open>Fe\<close>: an array of five limbs.\<close>

type_synonym fe = "u64 list"

definition wide_mul :: "u64 \<Rightarrow> u64 \<Rightarrow> u128" where
  "wide_mul x y = ucast x * ucast y"

definition FE_ZERO :: fe where "FE_ZERO = [0, 0, 0, 0, 0]"
definition FE_ONE :: fe where "FE_ONE = [1, 0, 0, 0, 0]"

definition fe_from_u64 :: "u64 \<Rightarrow> fe" where
  "fe_from_u64 v = [v AND MASK51, drop_bit 51 v, 0, 0, 0]"

abbreviation le64 :: "u8 list \<Rightarrow> u64" where "le64 b \<equiv> from_le_bytes b"

definition fe_from_bytes :: "u8 list \<Rightarrow> fe" where
  "fe_from_bytes b =
     [le64 (sub_slice b 0 8) AND MASK51,
      drop_bit 3 (le64 (sub_slice b 6 14)) AND MASK51,
      drop_bit 6 (le64 (sub_slice b 12 20)) AND MASK51,
      drop_bit 1 (le64 (sub_slice b 19 27)) AND MASK51,
      drop_bit 12 (le64 (sub_slice b 24 32)) AND MASK51]"

definition carry_pass :: "fe \<Rightarrow> u64 list" where
  "carry_pass x =
     (let l = x;
          l = l[1 := l ! 1 + drop_bit 51 (l ! 0)]; l = l[0 := l ! 0 AND MASK51];
          l = l[2 := l ! 2 + drop_bit 51 (l ! 1)]; l = l[1 := l ! 1 AND MASK51];
          l = l[3 := l ! 3 + drop_bit 51 (l ! 2)]; l = l[2 := l ! 2 AND MASK51];
          l = l[4 := l ! 4 + drop_bit 51 (l ! 3)]; l = l[3 := l ! 3 AND MASK51];
          l = l[0 := l ! 0 + drop_bit 51 (l ! 4) * 19]; l = l[4 := l ! 4 AND MASK51];
          l = l[1 := l ! 1 + drop_bit 51 (l ! 0)]; l = l[0 := l ! 0 AND MASK51]
      in l)"

text \<open>The subtraction loop of \<open>canonical_limbs\<close>, with its two \<open>overflowing_sub\<close> and the borrow flag.\<close>

fun borrow_sub :: "u64 list \<Rightarrow> u64 list \<Rightarrow> u64 \<Rightarrow> u64 list \<times> u64" where
  "borrow_sub (l # ls) (p # ps) borrow =
     (let v = l - p; b1 = l < p; v2 = v - borrow; b2 = v < borrow;
          borrow = borrow OR (of_bool b1 OR of_bool b2)
      in case borrow_sub ls ps borrow of (ds, borrow) \<Rightarrow> (v2 # ds, borrow))"
| "borrow_sub _ _ borrow = ([], borrow)"

definition canonical_limbs :: "fe \<Rightarrow> u64 list" where
  "canonical_limbs x =
     (let l = carry_pass x;
          (d, borrow) = borrow_sub l P_LIMBS 0;
          msk = borrow - 1
      in map (\<lambda>i. l ! i XOR (msk AND (l ! i XOR d ! i))) [0..<5])"

definition to_bytes :: "fe \<Rightarrow> u8 list" where
  "to_bytes x =
     (let limbs = canonical_limbs x;
          q0 = limbs ! 0 OR push_bit 51 (limbs ! 1);
          q1 = drop_bit 13 (limbs ! 1) OR push_bit 38 (limbs ! 2);
          q2 = drop_bit 26 (limbs ! 2) OR push_bit 25 (limbs ! 3);
          q3 = drop_bit 39 (limbs ! 3) OR push_bit 12 (limbs ! 4)
      in to_le_bytes 8 q0 @ to_le_bytes 8 q1 @ to_le_bytes 8 q2 @ to_le_bytes 8 q3)"

definition fe_add :: "fe \<Rightarrow> fe \<Rightarrow> fe" where
  "fe_add x r = map (\<lambda>i. x ! i + r ! i) [0..<5]"

definition fe_sub :: "fe \<Rightarrow> fe \<Rightarrow> fe" where
  "fe_sub x r = map (\<lambda>i. x ! i + TWO_P ! i - r ! i) [0..<5]"

definition fe_negate :: "fe \<Rightarrow> fe" where
  "fe_negate x = fe_sub FE_ZERO x"

text \<open>The carry loop of \<open>from_wide\<close>.\<close>

fun wide_carry :: "u128 list \<Rightarrow> u128 \<Rightarrow> u64 list \<times> u128" where
  "wide_carry [] carry = ([], carry)"
| "wide_carry (c # cs) carry =
     (let v = c + carry
      in case wide_carry cs (drop_bit 51 v) of (l, carry) \<Rightarrow> (ucast (v AND ucast MASK51) # l, carry))"

definition from_wide :: "u128 list \<Rightarrow> fe" where
  "from_wide c =
     (let (l, carry) = wide_carry c 0;
          fld = carry * 19;
          l = l[0 := l ! 0 + ucast (fld AND ucast MASK51)];
          l = l[1 := l ! 1 + ucast (drop_bit 51 fld)];
          l = l[1 := l ! 1 + drop_bit 51 (l ! 0)];
          l = l[0 := l ! 0 AND MASK51]
      in l)"

definition fe_mul :: "fe \<Rightarrow> fe \<Rightarrow> fe" where
  "fe_mul a b =
     (let m = wide_mul;
          b1_19 = b ! 1 * 19; b2_19 = b ! 2 * 19; b3_19 = b ! 3 * 19; b4_19 = b ! 4 * 19;
          c0 = m (a ! 0) (b ! 0) + m (a ! 4) b1_19 + m (a ! 3) b2_19 + m (a ! 2) b3_19 + m (a ! 1) b4_19;
          c1 = m (a ! 1) (b ! 0) + m (a ! 0) (b ! 1) + m (a ! 4) b2_19 + m (a ! 3) b3_19 + m (a ! 2) b4_19;
          c2 = m (a ! 2) (b ! 0) + m (a ! 1) (b ! 1) + m (a ! 0) (b ! 2) + m (a ! 4) b3_19 + m (a ! 3) b4_19;
          c3 = m (a ! 3) (b ! 0) + m (a ! 2) (b ! 1) + m (a ! 1) (b ! 2) + m (a ! 0) (b ! 3) + m (a ! 4) b4_19;
          c4 = m (a ! 4) (b ! 0) + m (a ! 3) (b ! 1) + m (a ! 2) (b ! 2) + m (a ! 1) (b ! 3) + m (a ! 0) (b ! 4)
      in from_wide [c0, c1, c2, c3, c4])"

definition fe_square :: "fe \<Rightarrow> fe" where
  "fe_square x = fe_mul x x"

definition pow2k :: "fe \<Rightarrow> nat \<Rightarrow> fe" where
  "pow2k x k = (fe_square ^^ k) x"

definition pow22501 :: "fe \<Rightarrow> fe \<times> fe" where
  "pow22501 x =
     (let t0 = fe_square x;
          t1 = fe_square (fe_square t0);
          t2 = fe_mul x t1;
          t3 = fe_mul t0 t2;
          t4 = fe_square t3;
          t5 = fe_mul t2 t4;
          t6 = pow2k t5 5;
          t7 = fe_mul t6 t5;
          t8 = pow2k t7 10;
          t9 = fe_mul t8 t7;
          t10 = pow2k t9 20;
          t11 = fe_mul t10 t9;
          t12 = pow2k t11 10;
          t13 = fe_mul t12 t7;
          t14 = pow2k t13 50;
          t15 = fe_mul t14 t13;
          t16 = pow2k t15 100;
          t17 = fe_mul t16 t15;
          t18 = pow2k t17 50;
          t19 = fe_mul t18 t13
      in (t19, t3))"

definition fe_invert :: "fe \<Rightarrow> fe" where
  "fe_invert x = (let (t19, t3) = pow22501 x in fe_mul (pow2k t19 5) t3)"

definition sqrt_m1 :: fe where
  "sqrt_m1 =
     (let two = fe_from_u64 2;
          two_cubed = fe_mul (fe_square two) two;
          (t19, _) = pow22501 two
      in fe_mul (pow2k t19 3) two_cubed)"

definition fe_select :: "fe \<Rightarrow> fe \<Rightarrow> u64 \<Rightarrow> fe" where
  "fe_select a b choice =
     (let msk = - (choice AND 1)
      in map (\<lambda>i. b ! i XOR (msk AND (a ! i XOR b ! i))) [0..<5])"

definition is_negative :: "fe \<Rightarrow> bool" where
  "is_negative x = (to_bytes x ! 0 AND 1 = 1)"

definition is_zero :: "fe \<Rightarrow> bool" where
  "is_zero x = (to_bytes x = replicate 32 0)"

definition constant_time_eq :: "u8 list \<Rightarrow> u8 list \<Rightarrow> bool" where
  "constant_time_eq a b = (fold (\<lambda>i acc. acc OR (a ! i XOR b ! i)) [0..<length a] 0 = 0)"

definition fe_ct_eq :: "fe \<Rightarrow> fe \<Rightarrow> bool" where
  "fe_ct_eq a b = constant_time_eq (to_bytes a) (to_bytes b)"

section \<open>Values and bounds\<close>

definition P25519 :: nat where "P25519 = 2 ^ 255 - 19"

abbreviation fe_val :: "fe \<Rightarrow> nat" where "fe_val x \<equiv> limb_value 51 x"

text \<open>Limbs below a bound; the limbs \<open>mul\<close> returns; limbs that can be subtracted.\<close>

definition fe_below :: "nat \<Rightarrow> fe \<Rightarrow> bool" where
  "fe_below B x \<longleftrightarrow> length x = 5 \<and> list_all (\<lambda>w. unat w < B) x"

definition fe_tight :: "fe \<Rightarrow> bool" where
  "fe_tight x \<longleftrightarrow> length x = 5 \<and> unat (x ! 0) < 2 ^ 51 \<and> unat (x ! 1) < 2 ^ 51 + 2 ^ 18 \<and>
     unat (x ! 2) < 2 ^ 51 \<and> unat (x ! 3) < 2 ^ 51 \<and> unat (x ! 4) < 2 ^ 51"

definition fe_ok :: "fe \<Rightarrow> bool" where
  "fe_ok x \<longleftrightarrow> length x = 5 \<and> list_all2 (\<lambda>a b. unat a \<le> unat b) x TWO_P"

lemma fe_ok_limbs:
  "fe_ok [x0, x1, x2, x3, x4] \<longleftrightarrow> unat x0 \<le> 4503599627370458 \<and> unat x1 \<le> 4503599627370494 \<and>
     unat x2 \<le> 4503599627370494 \<and> unat x3 \<le> 4503599627370494 \<and> unat x4 \<le> 4503599627370494"
  by (simp add: fe_ok_def TWO_P_def)

lemma fe_tight_limbs:
  "fe_tight [x0, x1, x2, x3, x4] \<longleftrightarrow> unat x0 < 2 ^ 51 \<and> unat x1 < 2 ^ 51 + 2 ^ 18 \<and>
     unat x2 < 2 ^ 51 \<and> unat x3 < 2 ^ 51 \<and> unat x4 < 2 ^ 51"
  by (simp add: fe_tight_def)

lemma fe_below_limbs:
  "fe_below B [x0, x1, x2, x3, x4] \<longleftrightarrow> unat x0 < B \<and> unat x1 < B \<and> unat x2 < B \<and> unat x3 < B \<and> unat x4 < B"
  by (simp add: fe_below_def)

lemma fe_okE:
  assumes "fe_ok x" obtains x0 x1 x2 x3 x4 where "x = [x0, x1, x2, x3, x4]"
  using assms by (auto simp: fe_ok_def elim: list5E)

lemma fe_belowE:
  assumes "fe_below B x" obtains x0 x1 x2 x3 x4 where "x = [x0, x1, x2, x3, x4]"
  using assms by (auto simp: fe_below_def elim: list5E)

lemma fe_tightE:
  assumes "fe_tight x" obtains x0 x1 x2 x3 x4 where "x = [x0, x1, x2, x3, x4]"
  using assms by (auto simp: fe_tight_def elim: list5E)

lemma fe_tight_ok:
  assumes "fe_tight x" shows "fe_ok x"
proof -
  obtain x0 x1 x2 x3 x4 where "x = [x0, x1, x2, x3, x4]" using assms by (rule fe_tightE)
  then show ?thesis using assms by (simp add: fe_tight_limbs fe_ok_limbs)
qed

lemma fe_ok_below:
  assumes "fe_ok x" shows "fe_below (2 ^ 52) x"
proof -
  obtain x0 x1 x2 x3 x4 where "x = [x0, x1, x2, x3, x4]" using assms by (rule fe_okE)
  then show ?thesis using assms by (simp add: fe_below_limbs fe_ok_limbs)
qed

lemma MASK51_mask: "MASK51 = mask 51" "(ucast MASK51 :: u128) = mask 51"
  by (simp_all add: MASK51_def mask_eq_exp_minus_1)

lemma unat_MASK51: "unat (w AND MASK51) = unat w mod 2 ^ 51"
  by (simp add: MASK51_mask unat_and_mask)

section \<open>Addition and subtraction\<close>

text \<open>The value of \<open>x\<close> modulo \<open>2^255 - 19\<close> is \<open>a\<close>.\<close>

definition fe_rep :: "fe \<Rightarrow> int \<Rightarrow> bool" where
  "fe_rep x a \<longleftrightarrow> int (fe_val x) mod int P25519 = a mod int P25519"

lemma fe_add_rep:
  assumes "fe_below B x" "fe_below C y" "B + C \<le> 2 ^ 64" "fe_rep x a" "fe_rep y b"
  shows "fe_below (B + C) (fe_add x y) \<and> fe_rep (fe_add x y) (a + b)"
proof -
  obtain x0 x1 x2 x3 x4 where x: "x = [x0, x1, x2, x3, x4]" using assms(1) by (rule fe_belowE)
  obtain y0 y1 y2 y3 y4 where y: "y = [y0, y1, y2, y3, y4]" using assms(2) by (rule fe_belowE)
  have e: "unat (v + w) = unat v + unat w" if "unat v < B" "unat w < C" for v w :: u64
    using that assms(3) by (intro unat_plus_exact) simp
  have s: "fe_add x y = [x0 + y0, x1 + y1, x2 + y2, x3 + y3, x4 + y4]" by (simp add: fe_add_def map_upt5 x y)
  have v: "fe_val (fe_add x y) = fe_val x + fe_val y" and b: "fe_below (B + C) (fe_add x y)"
    using assms(1,2) unfolding s unfolding x y fe_below_limbs by (simp_all add: e)
  show ?thesis
    using b mod_add_cong[OF assms(4,5)[unfolded fe_rep_def]] unfolding fe_rep_def v of_nat_add by blast
qed

lemma fe_sub_rep:
  assumes "fe_below B x" "fe_ok y" "B + 2 ^ 52 \<le> 2 ^ 64" "fe_rep x a" "fe_rep y b"
  shows "fe_below (B + 2 ^ 52) (fe_sub x y) \<and> fe_rep (fe_sub x y) (a - b)"
proof -
  obtain x0 x1 x2 x3 x4 where x: "x = [x0, x1, x2, x3, x4]" using assms(1) by (rule fe_belowE)
  obtain y0 y1 y2 y3 y4 where y: "y = [y0, y1, y2, y3, y4]" using assms(2) by (rule fe_okE)
  have e: "unat (v + t - w) + unat w = unat v + unat t"
    if "unat v < B" "unat w \<le> unat t" "unat t < 2 ^ 52" for v w t :: u64
  proof -
    have "unat (v + t) = unat v + unat t" using that assms(3) by (intro unat_plus_exact) simp
    then show ?thesis using that by (simp add: unat_sub word_le_nat_alt)
  qed
  have s: "fe_sub x y = [x0 + 4503599627370458 - y0, x1 + 4503599627370494 - y1, x2 + 4503599627370494 - y2,
      x3 + 4503599627370494 - y3, x4 + 4503599627370494 - y4]" by (simp add: fe_sub_def map_upt5 x y TWO_P_def)
  note xb = assms(1)[unfolded x fe_below_limbs] and yb = assms(2)[unfolded y fe_ok_limbs]
  note l = e[of x0 y0 4503599627370458, simplified] e[of x1 y1 4503599627370494, simplified]
    e[of x2 y2 4503599627370494, simplified] e[of x3 y3 4503599627370494, simplified] e[of x4 y4 4503599627370494, simplified]
  have "fe_below (B + 2 ^ 52) (fe_sub x y)" unfolding s fe_below_limbs using l xb yb by auto
  moreover have "fe_val (fe_sub x y) + fe_val y = fe_val x + 2 * P25519"
    using l xb yb unfolding s unfolding x y by (simp add: P25519_def)
  then have "int (fe_val (fe_sub x y)) = (int (fe_val x) - int (fe_val y)) + int P25519 * 2" by linarith
  then have "int (fe_val (fe_sub x y)) mod int P25519 = (int (fe_val x) - int (fe_val y)) mod int P25519"
    by (simp only: mod_mult_self2)
  ultimately show ?thesis
    using mod_diff_cong[OF assms(4,5)[unfolded fe_rep_def]] unfolding fe_rep_def by simp
qed


section \<open>Multiplication\<close>

lemma wide_carry_value:
  assumes "list_all (\<lambda>c. unat c \<le> 2 ^ 115) cs" "unat carry \<le> 2 ^ 64 + 2 ^ 15" "wide_carry cs carry = (l, out)"
  shows "length l = length cs \<and> list_all (\<lambda>w. unat w < 2 ^ 51) l \<and> unat out \<le> 2 ^ 64 + 2 ^ 15 \<and>
    limb_value 51 cs + unat carry = limb_value 51 l + 2 ^ (51 * length cs) * unat out"
  using assms
proof (induction cs arbitrary: carry l)
  case Nil
  then show ?case by simp
next
  case (Cons c cs)
  define v where "v = c + carry"
  have V: "unat v = unat c + unat carry" unfolding v_def using Cons.prems by (intro unat_plus_exact) simp
  obtain l' where w: "wide_carry cs (drop_bit 51 v) = (l', out)" and l: "l = ucast (v AND ucast MASK51) # l'"
    using Cons.prems(3) by (auto simp: Let_def v_def split: prod.splits)
  have "unat v div 2 ^ 51 \<le> (2 ^ 115 + (2 ^ 64 + 2 ^ 15)) div 2 ^ 51"
    using Cons.prems V by (intro div_le_mono) simp
  then have q: "unat (drop_bit 51 v) = unat v div 2 ^ 51" "unat v div 2 ^ 51 \<le> 2 ^ 64 + 2 ^ 15"
    by (simp_all add: unat_drop_bit)
  have "unat v mod 2 ^ 51 < 2 ^ 51" by simp
  then have m: "unat (ucast (v AND ucast MASK51) :: u64) = unat v mod 2 ^ 51"
    by (simp add: MASK51_mask(2) word_value)
  from Cons.IH[OF _ _ w] Cons.prems(1) q have
    "length l' = length cs" "list_all (\<lambda>w. unat w < 2 ^ 51) l'" "unat out \<le> 2 ^ 64 + 2 ^ 15"
    and e: "limb_value 51 cs + unat v div 2 ^ 51 = limb_value 51 l' + 2 ^ (51 * length cs) * unat out"
    by simp_all
  moreover have "limb_value 51 (c # cs) + unat carry = unat v mod 2 ^ 51 + 2 ^ 51 * (limb_value 51 cs + unat v div 2 ^ 51)"
    using V mod_mult_div_eq[of "unat v" "2 ^ 51"] by (simp add: distrib_left del: mod_mult_div_eq mult_div_mod_eq)
  moreover have "unat v mod 2 ^ 51 + 2 ^ 51 * (limb_value 51 l' + 2 ^ (51 * length cs) * unat out) =
      limb_value 51 l + 2 ^ (51 * length (c # cs)) * unat out"
    unfolding l limb_value_Cons m by (simp add: power_add distrib_left)
  ultimately show ?case unfolding e using m l by simp
qed

lemma fold_limbs:
  fixes l0 fm gm gq fq :: nat
  assumes "l0 + fm = gm + 2 ^ 51 * gq" "19 * c = fm + 2 ^ 51 * fq"
  shows "(l0 + 2 ^ 51 * (l1 + X)) + 19 * c = gm + 2 ^ 51 * ((l1 + fq + gq) + X)"
  using assms by simp

lemma from_wide_value:
  assumes "length cs = 5" "list_all (\<lambda>c. unat c \<le> 2 ^ 115) cs"
  shows "fe_tight (from_wide cs) \<and> (\<exists>q. limb_value 51 cs = fe_val (from_wide cs) + P25519 * q)"
proof -
  obtain l out where w: "wide_carry cs 0 = (l, out)" by (cases "wide_carry cs 0")
  have o: "length l = 5" "list_all (\<lambda>w. unat w < 2 ^ 51) l" "unat out \<le> 2 ^ 64 + 2 ^ 15"
    "limb_value 51 cs = limb_value 51 l + 2 ^ 255 * unat out"
    using wide_carry_value[OF assms(2) _ w] assms(1) by simp_all
  obtain l0 l1 l2 l3 l4 where l: "l = [l0, l1, l2, l3, l4]" using o(1) by (rule list5E)
  have lb: "unat l0 < 2 ^ 51" "unat l1 < 2 ^ 51" "unat l2 < 2 ^ 51" "unat l3 < 2 ^ 51" "unat l4 < 2 ^ 51"
    using o(2) unfolding l by simp_all
  define f where "f = out * 19"
  have F: "unat f = unat out * 19" unfolding f_def using o(3) by (subst unat_times_exact) simp_all
  define g0 where "g0 = l0 + ucast (f AND ucast MASK51)"
  define g1 where "g1 = l1 + ucast (drop_bit 51 f)"
  define g where "g = g1 + drop_bit 51 g0"
  have "unat f mod 2 ^ 51 < 2 ^ 51" by simp
  then have "unat (ucast (f AND ucast MASK51) :: u64) = unat f mod 2 ^ 51" and "unat f mod 2 ^ 51 < 2 ^ 51"
    by (simp_all add: MASK51_mask(2) word_value)
  then have G0: "unat g0 = unat l0 + unat f mod 2 ^ 51" and g0b: "unat g0 < 2 ^ 52"
    unfolding g0_def using lb by (subst unat_plus_exact; simp)+
  have "unat f div 2 ^ 51 \<le> ((2 ^ 64 + 2 ^ 15) * 19) div 2 ^ 51" using F o(3) by (intro div_le_mono) simp
  then have fq: "unat f div 2 ^ 51 \<le> 155649" by simp
  then have "unat (ucast (drop_bit 51 f) :: u64) = unat f div 2 ^ 51" by (simp add: word_value)
  then have G1: "unat g1 = unat l1 + unat f div 2 ^ 51" unfolding g1_def using lb fq by (subst unat_plus_exact) simp_all
  have "unat g0 div 2 ^ 51 \<le> (2 ^ 52 - 1) div 2 ^ 51" using g0b by (intro div_le_mono) simp
  then have q: "unat (drop_bit 51 g0) = unat g0 div 2 ^ 51" "unat g0 div 2 ^ 51 \<le> 1" by (simp_all add: unat_drop_bit)
  then have G: "unat g = unat l1 + unat f div 2 ^ 51 + unat g0 div 2 ^ 51"
    unfolding g_def using G1 lb fq by (subst unat_plus_exact) simp_all
  have r: "from_wide cs = [g0 AND MASK51, g, l2, l3, l4]"
    by (simp add: from_wide_def w l Let_def g_def g1_def g0_def f_def)
  have "fe_tight (from_wide cs)" unfolding r fe_tight_limbs using lb G fq q by (simp add: unat_MASK51)
  moreover have "limb_value 51 l + 19 * unat out = fe_val (from_wide cs)"
    unfolding r l limb_value_Cons limb_value_Nil unat_MASK51 G
    by (rule fold_limbs) (simp only: mod_mult_div_eq G0, simp add: F)
  then have "limb_value 51 cs = fe_val (from_wide cs) + P25519 * unat out" unfolding o(4) P25519_def by simp
  ultimately show ?thesis by blast
qed

lemma limb_product51:
  fixes a0 a1 a2 a3 a4 b0 b1 b2 b3 b4 :: nat
  shows "(a0 + 2^51 * (a1 + 2^51 * (a2 + 2^51 * (a3 + 2^51 * a4)))) *
         (b0 + 2^51 * (b1 + 2^51 * (b2 + 2^51 * (b3 + 2^51 * b4)))) =
    (a0*b0 + a4*(19*b1) + a3*(19*b2) + a2*(19*b3) + a1*(19*b4)) +
    2^51 * ((a1*b0 + a0*b1 + a4*(19*b2) + a3*(19*b3) + a2*(19*b4)) +
    2^51 * ((a2*b0 + a1*b1 + a0*b2 + a4*(19*b3) + a3*(19*b4)) +
    2^51 * ((a3*b0 + a2*b1 + a1*b2 + a0*b3 + a4*(19*b4)) +
    2^51 * (a4*b0 + a3*b1 + a2*b2 + a1*b3 + a0*b4)))) +
    P25519 * ((a4*b1 + a3*b2 + a2*b3 + a1*b4) + 2^51 * ((a4*b2 + a3*b3 + a2*b4) +
      2^51 * ((a4*b3 + a3*b4) + 2^51 * (a4*b4))))"
  by (simp add: P25519_def algebra_simps)

lemma times19_exact: "unat (x :: u64) < 2 ^ 54 \<Longrightarrow> unat (x * 19) = 19 * unat x"
  by (subst unat_times_exact) simp_all

lemma fe_mul_limbs:
  assumes a: "fe_below (2 ^ 54) a" and b: "fe_below (2 ^ 54) b"
  shows "fe_tight (fe_mul a b) \<and> fe_val (fe_mul a b) mod P25519 = fe_val a * fe_val b mod P25519"
proof -
  obtain a0 a1 a2 a3 a4 where A: "a = [a0, a1, a2, a3, a4]" using a by (rule fe_belowE)
  obtain b0 b1 b2 b3 b4 where B: "b = [b0, b1, b2, b3, b4]" using b by (rule fe_belowE)
  note ab = a[unfolded A fe_below_limbs] and bb = b[unfolded B fe_below_limbs]
  have s: "unat (b1 * 19) = 19 * unat b1" "unat (b2 * 19) = 19 * unat b2" "unat (b3 * 19) = 19 * unat b3"
    "unat (b4 * 19) = 19 * unat b4" using bb by (simp_all add: times19_exact)
  note dot = dot5_exact[where 'a = 64 and 'b = 128 and A = "2 ^ 54" and B = "19 * 2 ^ 54"]
  note c0 = dot[of a0 a4 a3 a2 a1 b0 "b1 * 19" "b2 * 19" "b3 * 19" "b4 * 19"]
  note c1 = dot[of a1 a0 a4 a3 a2 b0 b1 "b2 * 19" "b3 * 19" "b4 * 19"]
  note c2 = dot[of a2 a1 a0 a4 a3 b0 b1 b2 "b3 * 19" "b4 * 19"]
  note c3 = dot[of a3 a2 a1 a0 a4 b0 b1 b2 b3 "b4 * 19"]
  note c4 = dot[of a4 a3 a2 a1 a0 b0 b1 b2 b3 b4]
  obtain e0 e1 e2 e3 e4 where m: "fe_mul a b = from_wide [e0, e1, e2, e3, e4]"
    and E: "unat e0 = unat a0 * unat b0 + unat a4 * unat (b1 * 19) + unat a3 * unat (b2 * 19) + unat a2 * unat (b3 * 19) + unat a1 * unat (b4 * 19)"
      "unat e1 = unat a1 * unat b0 + unat a0 * unat b1 + unat a4 * unat (b2 * 19) + unat a3 * unat (b3 * 19) + unat a2 * unat (b4 * 19)"
      "unat e2 = unat a2 * unat b0 + unat a1 * unat b1 + unat a0 * unat b2 + unat a4 * unat (b3 * 19) + unat a3 * unat (b4 * 19)"
      "unat e3 = unat a3 * unat b0 + unat a2 * unat b1 + unat a1 * unat b2 + unat a0 * unat b3 + unat a4 * unat (b4 * 19)"
      "unat e4 = unat a4 * unat b0 + unat a3 * unat b1 + unat a2 * unat b2 + unat a1 * unat b3 + unat a0 * unat b4"
  proof
    show "fe_mul a b = from_wide
       [ucast a0 * ucast b0 + ucast a4 * ucast (b1 * 19) + ucast a3 * ucast (b2 * 19) + ucast a2 * ucast (b3 * 19) + ucast a1 * ucast (b4 * 19),
        ucast a1 * ucast b0 + ucast a0 * ucast b1 + ucast a4 * ucast (b2 * 19) + ucast a3 * ucast (b3 * 19) + ucast a2 * ucast (b4 * 19),
        ucast a2 * ucast b0 + ucast a1 * ucast b1 + ucast a0 * ucast b2 + ucast a4 * ucast (b3 * 19) + ucast a3 * ucast (b4 * 19),
        ucast a3 * ucast b0 + ucast a2 * ucast b1 + ucast a1 * ucast b2 + ucast a0 * ucast b3 + ucast a4 * ucast (b4 * 19),
        ucast a4 * ucast b0 + ucast a3 * ucast b1 + ucast a2 * ucast b2 + ucast a1 * ucast b3 + ucast a0 * ucast b4]"
      by (simp add: fe_mul_def wide_mul_def Let_def A B)
  qed (rule c0(1) c1(1) c2(1) c3(1) c4(1); use ab bb s in simp)+
  have "unat e0 \<le> 5 * (2 ^ 54 * (19 * 2 ^ 54))" "unat e1 \<le> 5 * (2 ^ 54 * (19 * 2 ^ 54))" "unat e2 \<le> 5 * (2 ^ 54 * (19 * 2 ^ 54))"
      "unat e3 \<le> 5 * (2 ^ 54 * (19 * 2 ^ 54))" "unat e4 \<le> 5 * (2 ^ 54 * (19 * 2 ^ 54))"
    unfolding E by (rule c0(2) c1(2) c2(2) c3(2) c4(2); use ab bb s in simp)+
  then have "list_all (\<lambda>c. unat c \<le> 2 ^ 115) [e0, e1, e2, e3, e4]" by simp
  from from_wide_value[OF _ this] obtain q where t: "fe_tight (fe_mul a b)"
    and q: "limb_value 51 [e0, e1, e2, e3, e4] = fe_val (fe_mul a b) + P25519 * q" unfolding m by auto
  have "fe_val a * fe_val b mod P25519 = limb_value 51 [e0, e1, e2, e3, e4] mod P25519"
    unfolding A B limb_value_Cons limb_value_Nil mult_0_right add_0_right limb_product51 E s by simp
  then show ?thesis using t unfolding q by simp
qed

lemma fe_mul_rep:
  assumes "fe_below (2 ^ 54) x" "fe_below (2 ^ 54) y" "fe_rep x a" "fe_rep y b"
  shows "fe_tight (fe_mul x y) \<and> fe_rep (fe_mul x y) (a * b)"
proof -
  note m = fe_mul_limbs[OF assms(1,2)]
  have "int (fe_val (fe_mul x y)) mod int P25519 = int (fe_val x) * int (fe_val y) mod int P25519"
    using m by (metis of_nat_mod of_nat_mult)
  then show ?thesis using m mod_mult_cong[OF assms(3,4)[unfolded fe_rep_def]] unfolding fe_rep_def by simp
qed


section \<open>Powers\<close>

lemma fe_below_mono: "fe_below B x \<Longrightarrow> B \<le> C \<Longrightarrow> fe_below C x"
  by (auto simp: fe_below_def list_all_iff)

lemma fe_ok_54: "fe_ok x \<Longrightarrow> fe_below (2 ^ 54) x"
  by (rule fe_below_mono[OF fe_ok_below]) simp_all

lemma fe_mul_ok:
  "fe_ok x \<Longrightarrow> fe_ok y \<Longrightarrow> fe_rep x a \<Longrightarrow> fe_rep y b \<Longrightarrow> fe_tight (fe_mul x y) \<and> fe_rep (fe_mul x y) (a * b)"
  by (rule fe_mul_rep[OF fe_ok_54 fe_ok_54])

text \<open>A power of an element, as the code reaches it: \<open>x\<close> stands for the \<open>e\<close>th power of \<open>a\<close>.\<close>

definition fe_pow :: "int \<Rightarrow> fe \<Rightarrow> nat \<Rightarrow> bool" where
  "fe_pow a x e \<longleftrightarrow> fe_ok x \<and> fe_rep x (a ^ e)"

lemma fe_pow_mul: "fe_pow a x e \<Longrightarrow> fe_pow a y f \<Longrightarrow> fe_pow a (fe_mul x y) (e + f)"
  using fe_mul_ok[of x y "a ^ e" "a ^ f"] by (simp add: fe_pow_def power_add fe_tight_ok)

lemma fe_pow_square: "fe_pow a x e \<Longrightarrow> fe_pow a (fe_square x) (2 * e)"
  using fe_pow_mul[of a x e x e] by (simp add: fe_square_def mult_2)

lemma fe_pow_pow2k: "fe_pow a x e \<Longrightarrow> fe_pow a (pow2k x k) (2 ^ k * e)"
proof (induction k)
  case (Suc k)
  then have "fe_pow a (fe_square (pow2k x k)) (2 * (2 ^ k * e))" by (intro fe_pow_square) simp
  then show ?case by (simp add: pow2k_def mult.assoc)
qed (simp add: pow2k_def)

lemma pow22501_pow:
  assumes "fe_pow a x 1" "pow22501 x = (u, v)"
  shows "fe_pow a u (2 ^ 250 - 1)" "fe_pow a v 11"
proof -
  have t0: "fe_pow a (fe_square x) 2" using fe_pow_square[OF assms(1)] by simp
  have t1: "fe_pow a (fe_square (fe_square (fe_square x))) 8" using fe_pow_square[OF fe_pow_square[OF t0]] by simp
  obtain t2 where t2: "fe_pow a t2 9" "t2 = fe_mul x (fe_square (fe_square (fe_square x)))" using fe_pow_mul[OF assms(1) t1] by simp
  obtain t3 where t3: "fe_pow a t3 11" "t3 = fe_mul (fe_square x) t2" using fe_pow_mul[OF t0 t2(1)] by simp
  obtain t5 where t5: "fe_pow a t5 31" "t5 = fe_mul t2 (fe_square t3)"
    using fe_pow_mul[OF t2(1) fe_pow_square[OF t3(1)]] by simp
  obtain t7 where t7: "fe_pow a t7 (2 ^ 10 - 1)" "t7 = fe_mul (pow2k t5 5) t5"
    using fe_pow_mul[OF fe_pow_pow2k[OF t5(1), of 5] t5(1)] by simp
  obtain t9 where t9: "fe_pow a t9 (2 ^ 20 - 1)" "t9 = fe_mul (pow2k t7 10) t7"
    using fe_pow_mul[OF fe_pow_pow2k[OF t7(1), of 10] t7(1)] by simp
  obtain t11 where t11: "fe_pow a t11 (2 ^ 40 - 1)" "t11 = fe_mul (pow2k t9 20) t9"
    using fe_pow_mul[OF fe_pow_pow2k[OF t9(1), of 20] t9(1)] by simp
  obtain t13 where t13: "fe_pow a t13 (2 ^ 50 - 1)" "t13 = fe_mul (pow2k t11 10) t7"
    using fe_pow_mul[OF fe_pow_pow2k[OF t11(1), of 10] t7(1)] by simp
  obtain t15 where t15: "fe_pow a t15 (2 ^ 100 - 1)" "t15 = fe_mul (pow2k t13 50) t13"
    using fe_pow_mul[OF fe_pow_pow2k[OF t13(1), of 50] t13(1)] by simp
  obtain t17 where t17: "fe_pow a t17 (2 ^ 200 - 1)" "t17 = fe_mul (pow2k t15 100) t15"
    using fe_pow_mul[OF fe_pow_pow2k[OF t15(1), of 100] t15(1)] by simp
  obtain t19 where t19: "fe_pow a t19 (2 ^ 250 - 1)" "t19 = fe_mul (pow2k t17 50) t13"
    using fe_pow_mul[OF fe_pow_pow2k[OF t17(1), of 50] t13(1)] by simp
  have "pow22501 x = (t19, t3)"
    unfolding pow22501_def Let_def t2(2)[symmetric] t3(2)[symmetric] t5(2)[symmetric] t7(2)[symmetric] t9(2)[symmetric]
      t11(2)[symmetric] t13(2)[symmetric] t15(2)[symmetric] t17(2)[symmetric] t19(2)[symmetric] ..
  then show "fe_pow a u (2 ^ 250 - 1)" "fe_pow a v 11" using assms(2) t19(1) t3(1) by simp_all
qed

lemma fe_invert_rep:
  assumes "fe_ok x" "fe_rep x a"
  shows "fe_tight (fe_invert x) \<and> fe_rep (fe_invert x) (a ^ (P25519 - 2))"
proof -
  have p: "fe_pow a x 1" using assms by (simp add: fe_pow_def)
  obtain u v where uv: "pow22501 x = (u, v)" by (cases "pow22501 x")
  note w = pow22501_pow[OF p uv]
  have u: "fe_ok (pow2k u 5)" "fe_rep (pow2k u 5) (a ^ (2 ^ 5 * (2 ^ 250 - 1)))"
    using fe_pow_pow2k[OF w(1), of 5] by (simp_all only: fe_pow_def)
  have v: "fe_ok v" "fe_rep v (a ^ 11)" using w(2) by (simp_all only: fe_pow_def)
  have "fe_tight (fe_invert x) \<and> fe_rep (fe_invert x) (a ^ (2 ^ 5 * (2 ^ 250 - 1)) * a ^ 11)"
    using fe_mul_ok[OF u(1) v(1) u(2) v(2)] by (simp only: fe_invert_def uv case_prod_conv Let_def)
  moreover have "2 ^ 5 * (2 ^ 250 - 1) + 11 = P25519 - 2" by (simp add: P25519_def)
  ultimately show ?thesis by (simp only: power_add[symmetric])
qed


end
