(* ===== verification/Field_Encoding.thy ===== *)
theory Field_Encoding
  imports Field25519
begin

text \<open>
  The canonical encoding of \<open>shared/crypto/src/field.rs\<close>: \<open>to_bytes\<close> gives the bytes of the residue modulo
  \<open>2^255 - 19\<close> for the limbs its callers pass, \<open>from_bytes\<close> reads 255 bits, and the tests on an element
  (\<open>is_negative\<close>, \<open>is_zero\<close>, \<open>ct_eq\<close>) decide by that encoding.
\<close>

section \<open>The canonical encoding\<close>

text \<open>Limbs for which one carry pass is enough: those of a product, also with 1 added.\<close>

definition fe_near :: "fe \<Rightarrow> bool" where
  "fe_near x \<longleftrightarrow> length x = 5 \<and> unat (x ! 0) < 2 ^ 52 \<and> unat (x ! 1) < 2 ^ 51 + 2 ^ 19 \<and>
     unat (x ! 2) < 2 ^ 51 \<and> unat (x ! 3) < 2 ^ 51 \<and> unat (x ! 4) < 2 ^ 51"

lemma fe_tight_near: "fe_tight x \<Longrightarrow> fe_near x"
  by (simp add: fe_tight_def fe_near_def)

lemma carry_pass_limbs:
  "carry_pass [x0, x1, x2, x3, x4] =
     (let e1 = x1 + drop_bit 51 x0; e2 = x2 + drop_bit 51 e1; e3 = x3 + drop_bit 51 e2; e4 = x4 + drop_bit 51 e3;
          f = (x0 AND MASK51) + drop_bit 51 e4 * 19
      in [f AND MASK51, (e1 AND MASK51) + drop_bit 51 f, e2 AND MASK51, e3 AND MASK51, e4 AND MASK51])"
  by (simp add: carry_pass_def Let_def)

lemma carry_total51:
  fixes D0 D1 D2 D3 D4 :: nat
  assumes "D0 = m0 + 2^51 * c0" "D1 + c0 = m1 + 2^51 * c1" "D2 + c1 = m2 + 2^51 * c2"
    "D3 + c2 = m3 + 2^51 * c3" "D4 + c3 = m4 + 2^51 * c4" "m0 + c4 * 19 = f + 2^51 * c"
  shows "D0 + 2^51 * (D1 + 2^51 * (D2 + 2^51 * (D3 + 2^51 * D4))) =
    (f + 2^51 * ((m1 + c) + 2^51 * (m2 + 2^51 * (m3 + 2^51 * m4)))) + P25519 * c4"
  using assms by (simp add: P25519_def)

text \<open>When the carry runs round, it came through the second limb, which is small then.\<close>

lemma carry_pass_value:
  assumes "fe_near x"
  shows "fe_below (2 ^ 51) (carry_pass x) \<and> fe_val (carry_pass x) mod P25519 = fe_val x mod P25519"
proof -
  obtain x0 x1 x2 x3 x4 where X: "x = [x0, x1, x2, x3, x4]" using assms by (auto simp: fe_near_def elim: list5E)
  have b: "unat x0 < 2 ^ 52" "unat x1 < 2 ^ 51 + 2 ^ 19" "unat x2 < 2 ^ 51" "unat x3 < 2 ^ 51" "unat x4 < 2 ^ 51"
    using assms unfolding fe_near_def X by simp_all
  have one: "n div 2 ^ 51 \<le> 1" if "n < 2 * 2 ^ 51" for n :: nat
    using that by (metis One_nat_def div_less_iff_less_mult less_Suc_eq_le numeral_2_eq_2 zero_less_numeral zero_less_power)
  have step: "unat (v + drop_bit 51 w) = unat v + unat w div 2 ^ 51 \<and> unat w div 2 ^ 51 \<le> 1"
    if "unat v < 2 * 2 ^ 51 - 1" "unat w < 2 * 2 ^ 51" for v w :: u64
    using that one[of "unat w"] unat_plus_exact[of v "drop_bit 51 w"] by (simp add: unat_drop_bit)
  define e1 where "e1 = x1 + drop_bit 51 x0"
  define e2 where "e2 = x2 + drop_bit 51 e1"
  define e3 where "e3 = x3 + drop_bit 51 e2"
  define e4 where "e4 = x4 + drop_bit 51 e3"
  define f where "f = (x0 AND MASK51) + drop_bit 51 e4 * 19"
  have E1: "unat e1 = unat x1 + unat x0 div 2 ^ 51" "unat x0 div 2 ^ 51 \<le> 1" using step[of x1 x0] b by (simp_all add: e1_def)
  have E2: "unat e2 = unat x2 + unat e1 div 2 ^ 51" "unat e1 div 2 ^ 51 \<le> 1" using step[of x2 e1] b E1 by (simp_all add: e2_def)
  have E3: "unat e3 = unat x3 + unat e2 div 2 ^ 51" "unat e2 div 2 ^ 51 \<le> 1" using step[of x3 e2] b E2 by (simp_all add: e3_def)
  have E4: "unat e4 = unat x4 + unat e3 div 2 ^ 51" "unat e3 div 2 ^ 51 \<le> 1" using step[of x4 e3] b E3 by (simp_all add: e4_def)
  have q4: "unat e4 div 2 ^ 51 \<le> 1" using one[of "unat e4"] E4 b by simp
  have "unat (drop_bit 51 e4 * 19) = unat e4 div 2 ^ 51 * 19"
    using q4 by (subst unat_times_exact) (simp_all add: unat_drop_bit)
  moreover have "unat x0 mod 2 ^ 51 < 2 ^ 51" by simp
  ultimately have F: "unat f = unat x0 mod 2 ^ 51 + unat e4 div 2 ^ 51 * 19" and fb: "unat f < 2 * 2 ^ 51"
    unfolding f_def using q4 by (subst unat_plus_exact; simp add: unat_MASK51)+
  have small: "unat e1 mod 2 ^ 51 + unat f div 2 ^ 51 < 2 ^ 51"
  proof (cases "unat e4 div 2 ^ 51 = 0")
    case True
    then have "unat f < 2 ^ 51" unfolding F by simp
    then show ?thesis by simp
  next
    case False
    have ge: "2 ^ 51 \<le> n" if "n div 2 ^ 51 \<noteq> 0" for n :: nat using that by (metis div_less linorder_not_less)
    have "unat e3 div 2 ^ 51 \<noteq> 0" using ge[OF False] E4 b by (cases "unat e3 div 2 ^ 51 = 0") simp_all
    then have "unat e2 div 2 ^ 51 \<noteq> 0" using ge[of "unat e3"] E3 b by (cases "unat e2 div 2 ^ 51 = 0") simp_all
    then have "unat e1 div 2 ^ 51 \<noteq> 0" using ge[of "unat e2"] E2 b by (cases "unat e1 div 2 ^ 51 = 0") simp_all
    from ge[OF this] have "unat e1 mod 2 ^ 51 \<le> 2 ^ 19" using E1 b by (simp add: le_mod_geq)
    then show ?thesis using one[OF fb] by simp
  qed
  then have G: "unat ((e1 AND MASK51) + drop_bit 51 f) = unat e1 mod 2 ^ 51 + unat f div 2 ^ 51"
    by (subst unat_plus_exact) (simp_all add: unat_MASK51 unat_drop_bit)
  have c: "carry_pass x = [f AND MASK51, (e1 AND MASK51) + drop_bit 51 f, e2 AND MASK51, e3 AND MASK51, e4 AND MASK51]"
    unfolding X carry_pass_limbs by (simp add: Let_def e1_def e2_def e3_def e4_def f_def)
  have "fe_below (2 ^ 51) (carry_pass x)" unfolding c fe_below_limbs using small by (simp add: unat_MASK51 G)
  moreover have "fe_val x = fe_val (carry_pass x) + P25519 * (unat e4 div 2 ^ 51)"
    unfolding c unfolding X limb_value_Cons limb_value_Nil mult_0_right add_0_right unat_MASK51 G
    by (rule carry_total51[where ?c0.0 = "unat x0 div 2 ^ 51" and ?c1.0 = "unat e1 div 2 ^ 51" and ?c2.0 = "unat e2 div 2 ^ 51" and ?c3.0 = "unat e3 div 2 ^ 51" and ?m0.0 = "unat x0 mod 2 ^ 51"])
      (simp_all only: E1(1)[symmetric] E2(1)[symmetric] E3(1)[symmetric] E4(1)[symmetric] F[symmetric] mod_mult_div_eq)
  ultimately show ?thesis by simp
qed

lemma borrow_sub_1: "snd (borrow_sub ls ps 1) = 1"
proof (induction ls ps "1 :: u64" rule: borrow_sub.induct)
  case (1 l ls p ps)
  have "1 OR (of_bool b OR of_bool c) = (1 :: u64)" for b c by (cases b; cases c) simp_all
  with 1 show ?case by (cases "borrow_sub ls ps 1") (simp add: Let_def)
qed simp_all

lemma borrow_sub_0:
  "length ls = length ps \<Longrightarrow>
   if list_all2 (\<le>) ps ls then borrow_sub ls ps 0 = (map2 (-) ls ps, 0) else snd (borrow_sub ls ps 0) = 1"
proof (induction ls ps rule: list_induct2)
  case (Cons l ls p ps)
  obtain ds b where r: "borrow_sub ls ps 0 = (ds, b)" by (cases "borrow_sub ls ps 0")
  obtain ds' b' where r': "borrow_sub ls ps 1 = (ds', b')" by (cases "borrow_sub ls ps 1")
  show ?case
  proof (cases "p \<le> l")
    case True
    then have "borrow_sub (l # ls) (p # ps) 0 = ((l - p) # ds, b)" using r by (simp add: Let_def not_less[symmetric])
    then show ?thesis using Cons.IH True unfolding r by (simp del: borrow_sub.simps split: if_splits)
  next
    case False
    then have "borrow_sub (l # ls) (p # ps) 0 = ((l - p) # ds', b')" using r' by (simp add: Let_def not_le)
    then show ?thesis using borrow_sub_1[of ls ps] False unfolding r' by (simp del: borrow_sub.simps)
  qed
qed simp

lemma canonical_limbs_value:
  assumes "fe_near x"
  shows "fe_below (2 ^ 51) (canonical_limbs x) \<and> fe_val (canonical_limbs x) = fe_val x mod P25519"
proof -
  note c = carry_pass_value[OF assms]
  obtain l0 l1 l2 l3 l4 where L: "carry_pass x = [l0, l1, l2, l3, l4]" using c by (blast elim: fe_belowE)
  have b: "unat l0 < 2 ^ 51" "unat l1 < 2 ^ 51" "unat l2 < 2 ^ 51" "unat l3 < 2 ^ 51" "unat l4 < 2 ^ 51"
    using c unfolding L fe_below_limbs by simp_all
  let ?P = "list_all2 (\<le>) P_LIMBS (carry_pass x)"
  have ge: "?P \<longleftrightarrow> unat l0 \<ge> 2251799813685229 \<and> unat l1 = 2251799813685247 \<and> unat l2 = 2251799813685247 \<and>
      unat l3 = 2251799813685247 \<and> unat l4 = 2251799813685247"
    using b unfolding L by (auto simp: P_LIMBS_def word_le_nat_alt)
  have sub: "if ?P then borrow_sub (carry_pass x) P_LIMBS 0 = (map2 (-) (carry_pass x) P_LIMBS, 0)
      else snd (borrow_sub (carry_pass x) P_LIMBS 0) = 1"
    by (rule borrow_sub_0) (simp add: L P_LIMBS_def)
  show ?thesis
  proof (cases ?P)
    case True
    then have full: "l1 = 2251799813685247" "l2 = 2251799813685247" "l3 = 2251799813685247" "l4 = 2251799813685247"
      using ge by (simp_all add: word_unat_eq_iff)
    have "borrow_sub [l0, l1, l2, l3, l4] P_LIMBS 0 = ([l0 - 2251799813685229, 0, 0, 0, 0], 0)"
      using sub True unfolding L by (simp add: P_LIMBS_def full)
    then have "canonical_limbs x = [l0 - 2251799813685229, 0, 0, 0, 0]"
      unfolding canonical_limbs_def L map_upt5 by (simp add: Let_def xor.assoc[symmetric])
    moreover have "unat (l0 - 2251799813685229) = unat l0 - 2251799813685229"
      using True ge by (simp add: unat_sub word_le_nat_alt)
    moreover have "fe_val (carry_pass x) = unat l0 - 2251799813685229 + P25519"
      using True ge unfolding L by (simp add: P25519_def)
    moreover have "unat l0 - 2251799813685229 < P25519" using b by (simp add: P25519_def)
    moreover have "unat l0 - 2251799813685229 < 2 ^ 51" using b by simp
    ultimately show ?thesis using c by (simp add: fe_below_limbs)
  next
    case False
    then obtain d where "borrow_sub [l0, l1, l2, l3, l4] P_LIMBS 0 = (d, 1)"
      using sub unfolding L by (metis prod.collapse)
    then have e: "canonical_limbs x = carry_pass x"
      unfolding canonical_limbs_def L map_upt5 by (simp add: Let_def)
    have "fe_val (carry_pass x) < P25519"
      using False b unfolding ge unfolding L P25519_def by auto
    then show ?thesis using c e by simp
  qed
qed

lemma pack64_sum:
  fixes l0 m1 k1 m2 k2 m3 k3 l4 :: nat
  shows "(l0 + 2^51 * m1) + 2^64 * ((k1 + 2^38 * m2) + 2^64 * ((k2 + 2^25 * m3) + 2^64 * (k3 + 2^12 * l4))) =
    l0 + 2^51 * ((m1 + 2^13 * k1) + 2^51 * ((m2 + 2^26 * k2) + 2^51 * ((m3 + 2^39 * k3) + 2^51 * l4)))"
  by simp

lemma to_bytes_value:
  assumes "fe_near x"
  shows "to_bytes x = nat_le_bytes 32 (fe_val x mod P25519)"
proof -
  note c = canonical_limbs_value[OF assms]
  obtain l0 l1 l2 l3 l4 where L: "canonical_limbs x = [l0, l1, l2, l3, l4]" using c by (blast elim: fe_belowE)
  have b: "unat l0 < 2 ^ 51" "unat l1 < 2 ^ 51" "unat l2 < 2 ^ 51" "unat l3 < 2 ^ 51" "unat l4 < 2 ^ 51"
    using c unfolding L fe_below_limbs by simp_all
  have w: "unat (l0 OR push_bit 51 l1) = unat l0 + 2 ^ 51 * (unat l1 mod 2 ^ 13)"
      "unat (drop_bit 13 l1 OR push_bit 38 l2) = unat l1 div 2 ^ 13 + 2 ^ 38 * (unat l2 mod 2 ^ 26)"
      "unat (drop_bit 26 l2 OR push_bit 25 l3) = unat l2 div 2 ^ 26 + 2 ^ 25 * (unat l3 mod 2 ^ 39)"
      "unat (drop_bit 39 l3 OR push_bit 12 l4) = unat l3 div 2 ^ 39 + 2 ^ 12 * unat l4"
    using pack_limbs[of l0 0 51 l1] pack_limbs[of l1 13 38 l2] pack_limbs[of l2 26 25 l3] pack_limbs[of l3 39 12 l4] b
    by simp_all
  have "unat w mod 2 ^ (8 * 8) = unat w" for w :: u64 using unat_less_power[of w] by simp
  then have "le_nat (to_bytes x) = unat (l0 OR push_bit 51 l1) + 2^64 * (unat (drop_bit 13 l1 OR push_bit 38 l2) +
      2^64 * (unat (drop_bit 26 l2 OR push_bit 25 l3) + 2^64 * unat (drop_bit 39 l3 OR push_bit 12 l4)))"
    by (simp add: to_bytes_def Let_def L le_nat_append le_nat_to_le_bytes)
  also have "\<dots> = fe_val (canonical_limbs x)"
    using pack64_sum[of "unat l0" "unat l1 mod 2^13" "unat l1 div 2^13" "unat l2 mod 2^26" "unat l2 div 2^26" "unat l3 mod 2^39" "unat l3 div 2^39" "unat l4"]
    unfolding L w mod_mult_div_eq by simp
  finally show ?thesis
    using c by (intro nat_le_bytesI) (simp_all add: to_bytes_def Let_def)
qed

text \<open>
  \<open>from_bytes\<close> drops the top bit and keeps the other 255, so encodings of \<open>2^255 - 19\<close> and above are
  read modulo \<open>2^255 - 19\<close>.
\<close>

lemma le64_slice:
  assumes "i + 8 \<le> length b"
  shows "unat (le64 (sub_slice b i (i + 8))) = le_nat b div 2 ^ (8 * i) mod 2 ^ 64"
proof -
  have "(256 :: nat) ^ i = 2 ^ (8 * i)" by (simp add: power_mult)
  moreover have "unat (le64 (sub_slice b i (i + 8))) = le_nat (sub_slice b i (i + 8))"
    using assms by (intro unat_from_le_bytes) simp
  ultimately show ?thesis using assms le_nat_slice[of i "i + 8" b] by simp
qed

lemma fe_from_bytes_value:
  assumes "length b = 32"
  shows "fe_below (2 ^ 51) (fe_from_bytes b) \<and> fe_val (fe_from_bytes b) = le_nat b mod 2 ^ 255"
proof -
  let ?t = "le_nat b"
  have w: "unat (drop_bit k (le64 (sub_slice b i (i + 8))) AND MASK51) = ?t div 2 ^ (8 * i + k) mod 2 ^ 51"
    if "i + 8 \<le> 32" "k + 51 \<le> 64" for i k
    using that assms div_mod_window[of k 51 64 ?t "8 * i"] unfolding unat_MASK51 unat_drop_bit
    by (simp only: le64_slice)
  have l: "unat (le64 (sub_slice b 0 8) AND MASK51) = ?t mod 2 ^ 51"
      "unat (drop_bit 3 (le64 (sub_slice b 6 14)) AND MASK51) = ?t div 2 ^ 51 mod 2 ^ 51"
      "unat (drop_bit 6 (le64 (sub_slice b 12 20)) AND MASK51) = ?t div 2 ^ 102 mod 2 ^ 51"
      "unat (drop_bit 1 (le64 (sub_slice b 19 27)) AND MASK51) = ?t div 2 ^ 153 mod 2 ^ 51"
      "unat (drop_bit 12 (le64 (sub_slice b 24 32)) AND MASK51) = ?t div 2 ^ 204 mod 2 ^ 51"
    by (use w[of 0 0] in simp, use w[of 6 3] in simp, use w[of 12 6] in simp, use w[of 19 1] in simp, use w[of 24 12] in simp)
  have "fe_below (2 ^ 51) (fe_from_bytes b)" unfolding fe_from_bytes_def fe_below_limbs l by simp
  moreover have "fe_val (fe_from_bytes b) = ?t mod 2 ^ 255"
    unfolding fe_from_bytes_def limb_value_Cons limb_value_Nil mult_0_right add_0_right l
    using div_mod_join[of ?t 153 51 51] div_mod_join[of ?t 102 51 102] div_mod_join[of ?t 51 51 153] div_mod_join[of ?t 0 51 204]
    by simp
  ultimately show ?thesis ..
qed

lemma fe_below_tight: "fe_below (2 ^ 51) x \<Longrightarrow> fe_tight x"
  by (rule fe_belowE, assumption) (auto simp: fe_below_limbs fe_tight_limbs)

lemma fe_roundtrip:
  assumes "length b = 32" "le_nat b < P25519"
  shows "to_bytes (fe_from_bytes b) = b"
proof -
  note f = fe_from_bytes_value[OF assms(1)]
  have "fe_val (fe_from_bytes b) mod P25519 = le_nat b" using f assms(2) by (simp add: P25519_def)
  then have "to_bytes (fe_from_bytes b) = nat_le_bytes 32 (le_nat b)"
    using to_bytes_value[OF fe_tight_near[OF fe_below_tight]] f by simp
  then show ?thesis using nat_le_bytes_le_nat[of b] assms(1) by simp
qed

section \<open>Elements of the field\<close>

text \<open>
  An element as an operation returns it, and as one addition or subtraction leaves it. The rules follow
  the way the curve code is written: never more than one uncarried operation before a product.
\<close>

definition fe_is :: "fe \<Rightarrow> int \<Rightarrow> bool" where
  "fe_is x a \<longleftrightarrow> fe_tight x \<and> fe_rep x a"

definition fe_mid :: "fe \<Rightarrow> int \<Rightarrow> bool" where
  "fe_mid x a \<longleftrightarrow> fe_below (2 ^ 53) x \<and> fe_rep x a"

named_theorems fe_rules

lemma fe_tight_52: "fe_tight x \<Longrightarrow> fe_below (2 ^ 52) x"
  by (rule fe_ok_below[OF fe_tight_ok])

lemma fe_is_mid: "fe_is x a \<Longrightarrow> fe_mid x a"
  using fe_below_mono[OF fe_tight_52, of x "2 ^ 53"] by (simp add: fe_is_def fe_mid_def)

lemma fe_is_add [fe_rules]: "fe_is x a \<Longrightarrow> fe_is y b \<Longrightarrow> fe_mid (fe_add x y) (a + b)"
  using fe_add_rep[OF fe_tight_52 fe_tight_52, of x y a b] by (simp add: fe_is_def fe_mid_def)

lemma fe_is_sub [fe_rules]: "fe_is x a \<Longrightarrow> fe_is y b \<Longrightarrow> fe_mid (fe_sub x y) (a - b)"
  using fe_sub_rep[OF fe_tight_52 fe_tight_ok, of x y a b] by (simp add: fe_is_def fe_mid_def)

lemma fe_mid_mul [fe_rules]: "fe_mid x a \<Longrightarrow> fe_mid y b \<Longrightarrow> fe_is (fe_mul x y) (a * b)"
  unfolding fe_is_def fe_mid_def by (rule fe_mul_rep) (auto elim: fe_below_mono)

lemma fe_mid_square [fe_rules]: "fe_mid x a \<Longrightarrow> fe_is (fe_square x) (a * a)"
  unfolding fe_square_def by (rule fe_mid_mul)

lemma fe_is_invert [fe_rules]: "fe_is x a \<Longrightarrow> fe_is (fe_invert x) (a ^ (P25519 - 2))"
  unfolding fe_is_def by (intro fe_invert_rep) (simp_all add: fe_tight_ok)

lemma fe_is_mod: "fe_is x (a mod int P25519) \<longleftrightarrow> fe_is x a"
  by (simp add: fe_is_def fe_rep_def)

lemma fe_is_tight: "fe_is x a \<Longrightarrow> fe_tight x"
  by (simp add: fe_is_def)

lemma fe_is_zero_one [fe_rules]: "fe_is FE_ZERO 0" "fe_is FE_ONE 1"
  by (simp_all add: fe_is_def fe_rep_def FE_ZERO_def FE_ONE_def fe_tight_def)

lemma fe_is_from_bytes: "length b = 32 \<Longrightarrow> fe_is (fe_from_bytes b) (int (le_nat b mod 2 ^ 255))"
  using fe_from_bytes_value[of b] by (simp add: fe_is_def fe_rep_def fe_below_tight)

lemma fe_is_bytes:
  assumes "fe_is x a"
  shows "to_bytes x = nat_le_bytes 32 (nat (a mod int P25519))"
proof -
  have "fe_val x mod P25519 = nat (a mod int P25519)"
    using assms unfolding fe_is_def fe_rep_def by (metis nat_int zmod_int)
  then show ?thesis using to_bytes_value[OF fe_tight_near[OF fe_is_tight[OF assms]]] by simp
qed

section \<open>Selection and tests\<close>

lemma fe_select_value:
  "length a = 5 \<Longrightarrow> length b = 5 \<Longrightarrow> fe_select a b choice = (if choice AND 1 = 1 then a else b)"
proof -
  assume l: "length a = 5" "length b = 5"
  have c: "choice AND 1 = 0 \<or> choice AND 1 = 1" by (simp add: and_one_eq mod_2_eq_odd)
  have "fe_select a b choice ! i = (if choice AND 1 = 1 then a else b) ! i" if "i < 5" for i
    using c that by (auto simp: fe_select_def Let_def xor_select)
  then show ?thesis by (intro nth_equalityI) (simp_all add: l fe_select_def Let_def)
qed

lemma residue_bytes_eq:
  "nat_le_bytes 32 (m mod P25519) = nat_le_bytes 32 (n mod P25519) \<longleftrightarrow> m mod P25519 = n mod P25519"
proof
  have l: "m mod P25519 < 256 ^ 32" for m
    by (rule less_trans[of _ P25519]) (simp_all add: P25519_def)
  assume "nat_le_bytes 32 (m mod P25519) = nat_le_bytes 32 (n mod P25519)"
  then have "le_nat (nat_le_bytes 32 (m mod P25519)) = le_nat (nat_le_bytes 32 (n mod P25519))" by (rule arg_cong)
  then show "m mod P25519 = n mod P25519" unfolding le_nat_nat_le_bytes using l by simp
qed simp

lemma fold_or_zero:
  fixes f :: "'b \<Rightarrow> 'a::len word"
  shows "fold (\<lambda>i acc. acc OR f i) xs a = 0 \<longleftrightarrow> a = 0 \<and> list_all (\<lambda>i. f i = 0) xs"
proof (induction xs arbitrary: a)
  case (Cons x xs)
  have "a OR f x = 0 \<longleftrightarrow> a = 0 \<and> f x = 0" by (auto simp: bit_eq_iff bit_simps)
  with Cons show ?case by simp
qed simp

lemma constant_time_eq_iff: "length a = length b \<Longrightarrow> constant_time_eq a b \<longleftrightarrow> a = b"
  unfolding constant_time_eq_def fold_or_zero xor_eq_0_word list_all_iff list_eq_iff_nth_eq by auto

lemma fe_ct_eq_iff:
  assumes "fe_near x" "fe_near y"
  shows "fe_ct_eq x y \<longleftrightarrow> fe_val x mod P25519 = fe_val y mod P25519"
  using assms by (simp add: fe_ct_eq_def constant_time_eq_iff to_bytes_value residue_bytes_eq)

lemma is_zero_iff:
  assumes "fe_near x"
  shows "is_zero x \<longleftrightarrow> fe_val x mod P25519 = 0"
proof -
  have "replicate 32 0 = nat_le_bytes 32 (0 mod P25519)" by (rule nat_le_bytesI) simp_all
  then have "is_zero x \<longleftrightarrow> fe_val x mod P25519 = 0 mod P25519"
    unfolding is_zero_def to_bytes_value[OF assms] by (simp only: residue_bytes_eq)
  then show ?thesis by simp
qed

lemma is_negative_iff:
  assumes "fe_near x"
  shows "is_negative x \<longleftrightarrow> odd (fe_val x mod P25519)"
  unfolding is_negative_def to_bytes_value[OF assms]
  by (simp add: nat_le_bytes_def and_one_eq mod_2_eq_odd even_of_nat_iff)

text \<open>
  The carry pass is enough only for limbs that are nearly reduced. On a sum of two reduced elements the
  carry that runs round can leave the second limb at \<open>2^51\<close>; its top bit is then lost when the limbs are
  packed, and the encoding is not the one of the residue. No caller passes such a sum: each encodes a
  product, or a product with 1 added.
\<close>

lemma to_bytes_loose_sum:
  defines "x \<equiv> fe_add [2251799813685247, 2251799813685247, 1, 0, 1125899906842624] [0, 0, 0, 0, 1125899906842624]"
  shows "to_bytes x \<noteq> nat_le_bytes 32 (fe_val x mod P25519)"
proof -
  have x: "x = [2251799813685247, 2251799813685247, 1, 0, 2251799813685248]" by (simp add: x_def fe_add_def map_upt5)
  have "carry_pass x = [18, 2251799813685248, 1, 0, 0]"
    unfolding x carry_pass_limbs by (simp add: Let_def MASK51_def drop_bit_eq_div)
  then have c: "canonical_limbs x = [18, 2251799813685248, 1, 0, 0]"
    by (simp add: canonical_limbs_def Let_def P_LIMBS_def map_upt5)
  have "le_nat (to_bytes x) = 18 + 2 ^ 102"
    unfolding to_bytes_def c by (simp add: Let_def le_nat_append le_nat_to_le_bytes)
  moreover have "fe_val x mod P25519 = 18 + 2 ^ 103" unfolding x P25519_def by simp
  then have "le_nat (nat_le_bytes 32 (fe_val x mod P25519)) = 18 + 2 ^ 103" by (simp add: le_nat_nat_le_bytes)
  ultimately show ?thesis by auto
qed

end
