(* ===== verification/X25519.thy ===== *)
theory X25519
  imports Field_Encoding
begin

text \<open>
  X25519 (\<open>shared/crypto/src/x25519.rs\<close>): the Montgomery ladder of RFC 7748 over the limbs of \<open>field.rs\<close>,
  with one deferred swap per bit. The specification is the ladder over integers modulo \<open>2^255 - 19\<close> that
  swaps before and after each step.
\<close>

section \<open>The code\<close>

definition BASEPOINT_U :: "u8 list" where
  "BASEPOINT_U = (replicate 32 0)[0 := 9]"

definition A24 :: u64 where "A24 = 121665"

definition x_clamp :: "u8 list \<Rightarrow> u8 list" where
  "x_clamp scalar =
     (let k = scalar;
          k = k[0 := k ! 0 AND 248];
          k = k[31 := k ! 31 AND 127];
          k = k[31 := k ! 31 OR 64]
      in k)"

definition cswap :: "u64 \<Rightarrow> fe \<Rightarrow> fe \<Rightarrow> fe \<times> fe" where
  "cswap swap a b =
     (let msk = - swap; t = map (\<lambda>i. msk AND (a ! i XOR b ! i)) [0..<5]
      in (map (\<lambda>i. a ! i XOR t ! i) [0..<5], map (\<lambda>i. b ! i XOR t ! i) [0..<5]))"

text \<open>The variables of the loop: \<open>x2, z2, x3, z3, swap\<close>.\<close>

type_synonym ladder = "fe \<times> fe \<times> fe \<times> fe \<times> u64"

definition ladder_step :: "u8 list \<Rightarrow> fe \<Rightarrow> nat \<Rightarrow> ladder \<Rightarrow> ladder" where
  "ladder_step k x1 t s =
     (let (x2, z2, x3, z3, swap) = s;
          kt = ucast (drop_bit (t AND 7) (k ! drop_bit 3 t) AND 1);
          swap = swap XOR kt;
          (x2, x3) = cswap swap x2 x3;
          (z2, z3) = cswap swap z2 z3;
          swap = kt;
          a = fe_add x2 z2;
          aa = fe_square a;
          b = fe_sub x2 z2;
          bb = fe_square b;
          e = fe_sub aa bb;
          c = fe_add x3 z3;
          d = fe_sub x3 z3;
          da = fe_mul d a;
          cb = fe_mul c b;
          x3 = fe_square (fe_add da cb);
          z3 = fe_mul x1 (fe_square (fe_sub da cb));
          x2 = fe_mul aa bb;
          a24_e = fe_mul (fe_from_u64 A24) e;
          z2 = fe_mul e (fe_add aa a24_e)
      in (x2, z2, x3, z3, swap))"

definition scalar_mult :: "u8 list \<Rightarrow> u8 list \<Rightarrow> u8 list" where
  "scalar_mult k u =
     (let u_masked = u[31 := u ! 31 AND 127];
          x1 = fe_from_bytes u_masked;
          (x2, z2, x3, z3, swap) = fold (ladder_step k x1) (rev [0..<255]) (FE_ONE, FE_ZERO, x1, FE_ONE, 0);
          (x2, x3) = cswap swap x2 x3;
          (z2, z3) = cswap swap z2 z3
      in to_bytes (fe_mul x2 (fe_invert z2)))"

definition x25519_public :: "u8 list \<Rightarrow> u8 list" where
  "x25519_public seed = scalar_mult (x_clamp seed) BASEPOINT_U"

definition x25519 :: "u8 list \<Rightarrow> u8 list \<Rightarrow> u8 list" where
  "x25519 secret peer_public = scalar_mult (x_clamp secret) peer_public"

section \<open>RFC 7748 over the integers\<close>

type_synonym mont_pair = "int \<times> int \<times> int \<times> int"

text \<open>One doubling of \<open>(x2 : z2)\<close> and one differential addition, section 5.\<close>

definition mont_step :: "int \<Rightarrow> mont_pair \<Rightarrow> mont_pair" where
  "mont_step x1 = (\<lambda>(x2, z2, x3, z3).
     let p = int P25519; AA = (x2 + z2) * (x2 + z2); BB = (x2 - z2) * (x2 - z2); E = AA - BB;
         DA = (x3 - z3) * (x2 + z2); CB = (x3 + z3) * (x2 - z2)
     in (AA * BB mod p, E * (AA + 121665 * E) mod p,
         (DA + CB) * (DA + CB) mod p, x1 * ((DA - CB) * (DA - CB)) mod p))"

definition mont_swap :: "bool \<Rightarrow> mont_pair \<Rightarrow> mont_pair" where
  "mont_swap b = (\<lambda>(x2, z2, x3, z3). if b then (x3, z3, x2, z2) else (x2, z2, x3, z3))"

text \<open>The ladder from the top bit of \<open>k\<close> down: \<open>n\<close> bits.\<close>

fun mont_ladder :: "nat \<Rightarrow> int \<Rightarrow> nat \<Rightarrow> mont_pair \<Rightarrow> mont_pair" where
  "mont_ladder k x1 0 s = s"
| "mont_ladder k x1 (Suc n) s =
     mont_ladder k x1 n (mont_swap (bit k n) (mont_step x1 (mont_swap (bit k n) s)))"

text \<open>\<open>decodeScalar25519\<close>: the three low bits cleared, the bits from 255 up cleared, bit 254 set.\<close>

definition rfc_decode_scalar :: "u8 list \<Rightarrow> nat" where
  "rfc_decode_scalar s = set_bit 254 (push_bit 3 (drop_bit 3 (take_bit 254 (le_nat s))))"

definition rfc_x25519 :: "nat \<Rightarrow> nat \<Rightarrow> nat" where
  "rfc_x25519 k u =
     (case mont_ladder k (int u) 255 (1, 0, int u, 1) of
        (x2, z2, _, _) \<Rightarrow> nat (x2 * z2 ^ (P25519 - 2) mod int P25519))"

section \<open>One step of the ladder\<close>

lemma cswap_if:
  assumes "length a = 5" "length b = 5"
  shows "cswap (of_bool c) a b = (if c then (b, a) else (a, b))"
proof -
  have m: "- (of_bool c :: u64) AND v = (if c then v else 0)" for v by simp
  have "v XOR (v XOR w) = w" "w XOR (v XOR w) = v" for v w :: u64
    by (auto simp: bit_eq_iff bit_simps)
  then show ?thesis
    unfolding cswap_def m using list5[OF assms(1)] list5[OF assms(2)] by (simp add: Let_def map_upt5)
qed

definition mont_is :: "fe \<times> fe \<times> fe \<times> fe \<Rightarrow> mont_pair \<Rightarrow> bool" where
  "mont_is = (\<lambda>(x2, z2, x3, z3) (X2, Z2, X3, Z3). fe_is x2 X2 \<and> fe_is z2 Z2 \<and> fe_is x3 X3 \<and> fe_is z3 Z3)"

lemma fe_is_length: "fe_is x a \<Longrightarrow> length x = 5"
  by (simp add: fe_is_def fe_tight_def)

text \<open>The state of the code, with the swap that is still to be done.\<close>

definition ladder_is :: "ladder \<Rightarrow> mont_pair \<Rightarrow> bool" where
  "ladder_is = (\<lambda>(x2, z2, x3, z3, swap) s. \<exists>b. swap = of_bool b \<and> mont_is (x2, z2, x3, z3) (mont_swap b s))"

lemma mont_swap_swap: "mont_swap (b \<noteq> c) (mont_swap b s) = mont_swap c s"
  by (cases s) (auto simp: mont_swap_def)

lemma mont_swap_twice: "mont_swap b (mont_swap b s) = s"
  by (cases s) (simp add: mont_swap_def)

lemma mont_is_cswap:
  assumes "mont_is (x2, z2, x3, z3) s"
  obtains y2 w2 y3 w3 where "cswap (of_bool b) x2 x3 = (y2, y3)" "cswap (of_bool b) z2 z3 = (w2, w3)"
    "mont_is (y2, w2, y3, w3) (mont_swap b s)"
proof
  obtain X2 Z2 X3 Z3 where s: "s = (X2, Z2, X3, Z3)" by (cases s)
  then have "fe_is x2 X2" "fe_is z2 Z2" "fe_is x3 X3" "fe_is z3 Z3" using assms by (simp_all add: mont_is_def)
  then show "cswap (of_bool b) x2 x3 = (if b then x3 else x2, if b then x2 else x3)"
    "cswap (of_bool b) z2 z3 = (if b then z3 else z2, if b then z2 else z3)"
    "mont_is (if b then x3 else x2, if b then z3 else z2, if b then x2 else x3, if b then z2 else z3) (mont_swap b s)"
    by (simp_all add: s cswap_if fe_is_length mont_is_def mont_swap_def)
qed

lemma fe_is_A24: "fe_is (fe_from_u64 A24) 121665"
  by (simp add: fe_is_def fe_rep_def fe_from_u64_def A24_def MASK51_def fe_tight_def)

lemma ladder_step_is:
  fixes k :: "u8 list" and t :: nat
  assumes "ladder_is l s" "fe_is x1 u"
  defines "c \<equiv> bit (k ! drop_bit 3 t) (t AND 7)"
  shows "ladder_is (ladder_step k x1 t l) (mont_swap c (mont_step u (mont_swap c s)))"
proof -
  obtain x2 z2 x3 z3 swap where l: "l = (x2, z2, x3, z3, swap)" by (cases l)
  obtain b where b: "swap = of_bool b" "mont_is (x2, z2, x3, z3) (mont_swap b s)"
    using assms(1) unfolding ladder_is_def l by auto
  have kt: "(ucast (drop_bit (t AND 7) (k ! drop_bit 3 t) AND 1) :: u64) = of_bool c"
    unfolding c_def by (simp add: and_one_eq mod_2_eq_odd bit_iff_odd_drop_bit)
  have sw: "swap XOR of_bool c = of_bool (b \<noteq> c)" unfolding b(1) by (cases b; cases c) simp_all
  obtain y2 w2 y3 w3 where y: "cswap (of_bool (b \<noteq> c)) x2 x3 = (y2, y3)" "cswap (of_bool (b \<noteq> c)) z2 z3 = (w2, w3)"
    "mont_is (y2, w2, y3, w3) (mont_swap c s)" by (rule mont_is_cswap[OF b(2), of "b \<noteq> c", unfolded mont_swap_swap])
  obtain Y2 W2 Y3 W3 where S: "mont_swap c s = (Y2, W2, Y3, W3)" by (cases "mont_swap c s")
  note Y = y(3)[unfolded S mont_is_def, simplified]
  have a: "fe_mid (fe_add y2 w2) (Y2 + W2)" and b': "fe_mid (fe_sub y2 w2) (Y2 - W2)"
    and c: "fe_mid (fe_add y3 w3) (Y3 + W3)" and d: "fe_mid (fe_sub y3 w3) (Y3 - W3)"
    using Y by (blast intro: fe_rules)+
  note aa = fe_mid_square[OF a] and bb = fe_mid_square[OF b'] and da = fe_mid_mul[OF d a] and cb = fe_mid_mul[OF c b']
  note e = fe_is_sub[OF aa bb]
  note x3' = fe_mid_square[OF fe_is_add[OF da cb]]
    and z3' = fe_mid_mul[OF fe_is_mid[OF assms(2)] fe_is_mid[OF fe_mid_square[OF fe_is_sub[OF da cb]]]]
    and x2' = fe_mid_mul[OF fe_is_mid[OF aa] fe_is_mid[OF bb]]
    and z2' = fe_mid_mul[OF e fe_is_add[OF aa fe_mid_mul[OF fe_is_mid[OF fe_is_A24] e]]]
  obtain n2 v2 n3 v3 where step: "ladder_step k x1 t l = (n2, v2, n3, v3, of_bool c)"
    and N: "mont_is (n2, v2, n3, v3) (mont_step u (mont_swap c s))"
  proof
    show "ladder_step k x1 t l =
      (fe_mul (fe_square (fe_add y2 w2)) (fe_square (fe_sub y2 w2)),
       fe_mul (fe_sub (fe_square (fe_add y2 w2)) (fe_square (fe_sub y2 w2)))
         (fe_add (fe_square (fe_add y2 w2)) (fe_mul (fe_from_u64 A24) (fe_sub (fe_square (fe_add y2 w2)) (fe_square (fe_sub y2 w2))))),
       fe_square (fe_add (fe_mul (fe_sub y3 w3) (fe_add y2 w2)) (fe_mul (fe_add y3 w3) (fe_sub y2 w2))),
       fe_mul x1 (fe_square (fe_sub (fe_mul (fe_sub y3 w3) (fe_add y2 w2)) (fe_mul (fe_add y3 w3) (fe_sub y2 w2)))), of_bool c)"
      unfolding ladder_step_def l kt sw Let_def case_prod_conv y ..
    show "mont_is (fe_mul (fe_square (fe_add y2 w2)) (fe_square (fe_sub y2 w2)),
       fe_mul (fe_sub (fe_square (fe_add y2 w2)) (fe_square (fe_sub y2 w2)))
         (fe_add (fe_square (fe_add y2 w2)) (fe_mul (fe_from_u64 A24) (fe_sub (fe_square (fe_add y2 w2)) (fe_square (fe_sub y2 w2))))),
       fe_square (fe_add (fe_mul (fe_sub y3 w3) (fe_add y2 w2)) (fe_mul (fe_add y3 w3) (fe_sub y2 w2))),
       fe_mul x1 (fe_square (fe_sub (fe_mul (fe_sub y3 w3) (fe_add y2 w2)) (fe_mul (fe_add y3 w3) (fe_sub y2 w2)))))
       (mont_step u (mont_swap c s))"
      unfolding S mont_step_def Let_def mont_is_def case_prod_conv fe_is_mod using x2' z2' x3' z3' by blast
  qed
  show ?thesis
    unfolding ladder_is_def step case_prod_conv using N by (intro exI[of _ c]) (simp only: mont_swap_twice simp_thms)
qed

section \<open>The bits of the scalar\<close>

lemma bit_le_nat: "bit (le_nat bs) n \<longleftrightarrow> n < 8 * length bs \<and> bit (bs ! (n div 8)) (n mod 8)"
proof (induction bs arbitrary: n)
  case (Cons b bs)
  have "unat b < 2 ^ 8" using unat_less_power[of b] by simp
  from or_disjoint_add[OF this, of "le_nat bs"]
  have "le_nat (b # bs) = unat b OR push_bit 8 (le_nat bs)" by simp
  then have "bit (le_nat (b # bs)) n \<longleftrightarrow> bit b n \<or> 8 \<le> n \<and> bit (le_nat bs) (n - 8)"
    by (simp add: bit_simps)
  moreover have "\<not> bit b n" if "8 \<le> n" using that bit_imp_le_length[of b n] by auto
  moreover have "(n - 8) div 8 = n div 8 - 1" "(n - 8) mod 8 = n mod 8" if "8 \<le> n"
    using that by (simp_all add: le_div_geq le_mod_geq)
  ultimately show ?case
    by (cases "8 \<le> n") (auto simp: Cons.IH nth_Cons' div_eq_0_iff)
qed simp

lemma eight_cases:
  assumes "m < (8 :: nat)" "P 0" "P 1" "P 2" "P 3" "P 4" "P 5" "P 6" "P 7"
  shows "P m"
proof -
  have "m = 0 \<or> m = 1 \<or> m = 2 \<or> m = 3 \<or> m = 4 \<or> m = 5 \<or> m = 6 \<or> m = 7" using assms(1) by arith
  then show ?thesis using assms(2-) by blast
qed

lemma bits_u8:
  assumes "m < 8"
  shows "bit (248 :: u8) m \<longleftrightarrow> 3 \<le> m" "bit (127 :: u8) m \<longleftrightarrow> m < 7" "bit (64 :: u8) m \<longleftrightarrow> m = 6"
  by (rule eight_cases[OF assms]; simp)+

text \<open>The bits of a byte string in which one byte was changed.\<close>

lemma bit_le_nat_update:
  "i < length bs \<Longrightarrow> bit (le_nat (bs[i := w])) n \<longleftrightarrow> (if n div 8 = i then bit w (n mod 8) else bit (le_nat bs) n)"
  by (auto simp: bit_le_nat nth_list_update)

lemma bit_le_nat_last:
  assumes "length bs = 32" "248 \<le> n"
  shows "bit (le_nat bs) n \<longleftrightarrow> n < 256 \<and> bit (bs ! 31) (n - 248)"
proof (cases "n < 256")
  case True
  then have "n div 8 = 31" "n mod 8 = n - 248" using assms(2) by arith+
  then show ?thesis using True assms(1) by (simp add: bit_le_nat)
qed (simp add: bit_le_nat assms(1))

lemma masked_u:
  assumes "length u = 32"
  shows "le_nat (u[31 := u ! 31 AND 127]) = le_nat u mod 2 ^ 255"
proof -
  have "bit (le_nat (u[31 := u ! 31 AND 127])) n \<longleftrightarrow> n < 255 \<and> bit (le_nat u) n" for n
  proof (cases "n < 248")
    case True
    then have "n div 8 \<noteq> 31" by arith
    then show ?thesis using True assms by (simp add: bit_le_nat_update)
  next
    case False
    then show ?thesis using assms bits_u8(2)[of "n - 248"] by (cases "n < 256") (auto simp: bit_le_nat_last bit_and_iff)
  qed
  then have "le_nat (u[31 := u ! 31 AND 127]) = take_bit 255 (le_nat u)" by (simp add: bit_eq_iff bit_take_bit_iff)
  then show ?thesis by (simp add: take_bit_eq_mod)
qed

lemma le_nat_clamp:
  assumes "length s = 32"
  shows "le_nat (x_clamp s) = rfc_decode_scalar s"
proof (rule bit_eqI)
  fix n
  have c: "x_clamp s = s[0 := s ! 0 AND 248, 31 := s ! 31 AND 127 OR 64]" using assms by (simp add: x_clamp_def)
  have r: "bit (rfc_decode_scalar s) n \<longleftrightarrow> n = 254 \<or> 3 \<le> n \<and> n < 254 \<and> bit (le_nat s) n"
    by (auto simp: rfc_decode_scalar_def bit_set_bit_iff bit_push_bit_iff bit_drop_bit_eq bit_take_bit_iff)
  consider "n < 8" | "8 \<le> n" "n < 248" | "248 \<le> n" "n < 256" | "256 \<le> n" by linarith
  then show "bit (le_nat (x_clamp s)) n \<longleftrightarrow> bit (rfc_decode_scalar s) n"
  proof cases
    case 1
    then show ?thesis unfolding r c using assms bits_u8(1)[of n] by (simp add: bit_le_nat bit_and_iff conj_commute)
  next
    case 2
    then have "n div 8 \<noteq> 31" "n div 8 \<noteq> 0" by arith+
    with 2 show ?thesis unfolding r c using assms by (simp add: bit_le_nat_update)
  next
    case 3
    then have "n - 248 < 7 \<and> n - 248 \<noteq> 6 \<longleftrightarrow> n < 254" "n - 248 = 6 \<longleftrightarrow> n = 254" by arith+
    with 3 show ?thesis unfolding r c using assms bits_u8(2,3)[of "n - 248"]
      by (auto simp: bit_le_nat_last bit_and_iff bit_or_iff)
  next
    case 4
    then show ?thesis unfolding r c using assms by (simp add: bit_le_nat)
  qed
qed

lemma ladder_fold:
  assumes "ladder_is l s" "fe_is x1 u" "n \<le> 8 * length k"
  shows "ladder_is (fold (ladder_step k x1) (rev [0..<n]) l) (mont_ladder (le_nat k) u n s)"
  using assms
proof (induction n arbitrary: l s)
  case (Suc n)
  have "bit (k ! drop_bit 3 n) (n AND 7) \<longleftrightarrow> bit (le_nat k) n"
    using Suc.prems(3) take_bit_eq_mask[of 3 n] by (simp add: bit_le_nat drop_bit_eq_div take_bit_eq_mod mask_eq_exp_minus_1)
  then show ?case using Suc.IH[OF ladder_step_is[OF Suc.prems(1,2), of k n] Suc.prems(2)] Suc.prems(3) by simp
qed simp

lemma scalar_mult_is:
  assumes "32 \<le> length k" "length u = 32"
  shows "scalar_mult k u = nat_le_bytes 32 (rfc_x25519 (le_nat k) (le_nat u mod 2 ^ 255))"
proof -
  let ?U = "le_nat u mod 2 ^ 255"
  define x1 where "x1 = fe_from_bytes (u[31 := u ! 31 AND 127])"
  have x1: "fe_is x1 (int ?U)"
    using fe_is_from_bytes[of "u[31 := u ! 31 AND 127]"] assms(2) by (simp add: x1_def masked_u)
  have "ladder_is (FE_ONE, FE_ZERO, x1, FE_ONE, 0) (1, 0, int ?U, 1)"
    using x1 unfolding ladder_is_def by (auto intro!: exI[of _ False] fe_rules simp: mont_is_def mont_swap_def)
  note F = ladder_fold[OF this x1, of 255 k]
  obtain x2 z2 x3 z3 swap where f: "fold (ladder_step k x1) (rev [0..<255]) (FE_ONE, FE_ZERO, x1, FE_ONE, 0) =
    (x2, z2, x3, z3, swap)" by (cases "fold (ladder_step k x1) (rev [0..<255]) (FE_ONE, FE_ZERO, x1, FE_ONE, 0)")
  obtain X2 Z2 X3 Z3 where S: "mont_ladder (le_nat k) (int ?U) 255 (1, 0, int ?U, 1) = (X2, Z2, X3, Z3)"
    by (cases "mont_ladder (le_nat k) (int ?U) 255 (1, 0, int ?U, 1)")
  obtain b where b: "swap = of_bool b" "mont_is (x2, z2, x3, z3) (mont_swap b (X2, Z2, X3, Z3))"
    using F assms(1) unfolding f S ladder_is_def by auto
  obtain y2 w2 y3 w3 where y: "cswap swap x2 x3 = (y2, y3)" "cswap swap z2 z3 = (w2, w3)"
    "mont_is (y2, w2, y3, w3) (mont_swap False (X2, Z2, X3, Z3))"
    using mont_swap_swap[of b False] unfolding b(1) by (auto intro: mont_is_cswap[OF b(2), of b])
  have "fe_is (fe_mul y2 (fe_invert w2)) (X2 * Z2 ^ (P25519 - 2))"
    using y(3) by (auto simp: mont_is_def mont_swap_def intro: fe_rules fe_is_mid)
  then have "to_bytes (fe_mul y2 (fe_invert w2)) = nat_le_bytes 32 (rfc_x25519 (le_nat k) ?U)"
    unfolding rfc_x25519_def S by (simp add: fe_is_bytes)
  then show ?thesis unfolding scalar_mult_def Let_def x1_def[symmetric] f case_prod_conv y .
qed

text \<open>C8. X25519 is RFC 7748: for a 32-byte secret and a 32-byte peer coordinate, \<open>x25519\<close> returns the bytes of the
  integer ladder on the decoded scalar and the coordinate with its top bit masked, and \<open>x25519_public\<close> returns
  them for the base coordinate 9. The limbs of the code are never reduced between an addition and a product, its
  swap is carried over from one bit to the next and its inverse is a chain of squarings; none of these changes
  the result or overflows a word.
\<close>

theorem x25519_is_rfc7748:
  assumes "length secret = 32" "length peer = 32"
  shows "x25519 secret peer = nat_le_bytes 32 (rfc_x25519 (rfc_decode_scalar secret) (le_nat peer mod 2 ^ 255)) \<and>
    x25519_public secret = nat_le_bytes 32 (rfc_x25519 (rfc_decode_scalar secret) 9)"
proof -
  have l: "32 \<le> length (x_clamp secret)" by (simp add: x_clamp_def assms(1))
  have b: "BASEPOINT_U = 9 # replicate 31 0" using replicate_Suc[of 31 "0 :: u8"] by (simp add: BASEPOINT_U_def)
  have "le_nat BASEPOINT_U = 9" "length BASEPOINT_U = 32" unfolding b by simp_all
  then show ?thesis
    unfolding x25519_def x25519_public_def using scalar_mult_is[OF l] assms by (simp add: le_nat_clamp)
qed

theorem x25519_is_rfc7748_witness:
  "x25519 (replicate 32 1) (replicate 32 2) =
     nat_le_bytes 32 (rfc_x25519 (rfc_decode_scalar (replicate 32 1)) (le_nat (replicate 32 2) mod 2 ^ 255)) \<and>
   x25519_public (replicate 32 1) = nat_le_bytes 32 (rfc_x25519 (rfc_decode_scalar (replicate 32 1)) 9)"
  by (rule x25519_is_rfc7748) simp_all

end
