(* ===== verification/Image_Formats.thy ===== *)
theory Image_Formats
  imports Memory_Manager Memory_Object Byte_Words
begin

text \<open>
  The executable formats of \<open>kernel/core/src/user/loader.rs\<close> and \<open>types.rs\<close>: the flat img with its
  extended header, and the program headers of an ELF64 image. Sizes and addresses are natural numbers below
  \<open>2^64\<close>; the sums and products the source writes with plain \<open>+\<close>, \<open>-\<close> and \<open>*\<close> wrap, as they do in the
  release profile (in the development profile the same sums stop the kernel with a panic).
\<close>

section \<open>Results and slices\<close>

definition and_then :: "'e + 'a \<Rightarrow> ('a \<Rightarrow> 'e + 'b) \<Rightarrow> 'e + 'b" where
  "and_then r f = (case r of Inl e \<Rightarrow> Inl e | Inr a \<Rightarrow> f a)"

lemma and_then_simps [simp]: "and_then (Inl e) f = Inl e" "and_then (Inr a) f = f a"
  by (simp_all add: and_then_def)

lemma and_then_Inr: "and_then r f = Inr b \<longleftrightarrow> (\<exists>a. r = Inr a \<and> f a = Inr b)"
  by (cases r) simp_all

definition ok_or :: "'e \<Rightarrow> 'a option \<Rightarrow> 'e + 'a" where
  "ok_or e r = (case r of None \<Rightarrow> Inl e | Some a \<Rightarrow> Inr a)"

lemma ok_or_Inr [simp]: "ok_or e r = Inr a \<longleftrightarrow> r = Some a"
  by (simp add: ok_or_def split: option.splits)

fun traverse :: "('a \<Rightarrow> 'e + 'b) \<Rightarrow> 'a list \<Rightarrow> 'e + 'b list" where
  "traverse f [] = Inr []"
| "traverse f (x # xs) = and_then (f x) (\<lambda>y. and_then (traverse f xs) (\<lambda>ys. Inr (y # ys)))"

abbreviation plus64 :: "nat \<Rightarrow> nat \<Rightarrow> nat" where "plus64 \<equiv> wrapping_add u64_max"

definition minus64 :: "nat \<Rightarrow> nat \<Rightarrow> nat" where
  "minus64 a b = (a + (Suc u64_max - b)) mod Suc u64_max"

definition times64 :: "nat \<Rightarrow> nat \<Rightarrow> nat" where
  "times64 a b = a * b mod Suc u64_max"

lemma plus64_exact: "a + b \<le> u64_max \<Longrightarrow> plus64 a b = a + b"
  by (simp add: wrapping_add_def)

lemma minus64_exact: "b \<le> a \<Longrightarrow> a \<le> u64_max \<Longrightarrow> minus64 a b = a - b"
proof -
  assume "b \<le> a" "a \<le> u64_max"
  then have "a + (Suc u64_max - b) = (a - b) + Suc u64_max" "a - b < Suc u64_max" by simp_all
  then show ?thesis unfolding minus64_def by (metis mod_add_self2 mod_less)
qed

lemma times64_exact: "a * b \<le> u64_max \<Longrightarrow> times64 a b = a * b"
  by (simp add: times64_def)

text \<open>\<open>xs.get(a..b)\<close>, and \<open>xs.get(a..).and_then(|tail| tail.get(..n))\<close>.\<close>

definition slice_get :: "'a list \<Rightarrow> nat \<Rightarrow> nat \<Rightarrow> 'a list option" where
  "slice_get xs a b = (if a \<le> b \<and> b \<le> length xs then Some (sub_slice xs a b) else None)"

definition slice_get_len :: "'a list \<Rightarrow> nat \<Rightarrow> nat \<Rightarrow> 'a list option" where
  "slice_get_len xs a n = (if a \<le> length xs \<and> n \<le> length xs - a then Some (sub_slice xs a (a + n)) else None)"

section \<open>Errors and reads\<close>

datatype load_error =
    Truncated | InvalidMagic | UnsupportedFormat | UnsupportedAbi | UnsupportedHeader | UnsupportedMachine
  | UnsupportedRelocation | LoadAddressAlignment | FrameExhausted | KernelAbiTooNew | DependencyUnavailable
  | DependencyInvalid | UnresolvedSymbol "u8 list" nat | SymbolSpaceExhausted | InterpreterUnsupported
  | LoadMapping mapping_error

type_synonym 'a load_result = "load_error + 'a"

definition read_u16_le :: "u8 list \<Rightarrow> nat \<Rightarrow> nat load_result" where
  "read_u16_le img offset =
     and_then (ok_or Truncated (slice_get img offset (plus64 offset 2)))
       (\<lambda>b. Inr (unat (from_le_bytes b :: 16 word)))"

definition read_u32_le :: "u8 list \<Rightarrow> nat \<Rightarrow> u32 load_result" where
  "read_u32_le img offset =
     and_then (ok_or Truncated (slice_get img offset (plus64 offset 4))) (\<lambda>b. Inr (from_le_bytes b))"

definition read_u64_le :: "u8 list \<Rightarrow> nat \<Rightarrow> nat load_result" where
  "read_u64_le img offset =
     and_then (ok_or Truncated (slice_get img offset (plus64 offset 8)))
       (\<lambda>b. Inr (unat (from_le_bytes b :: u64)))"

definition align_up_u64 :: "nat \<Rightarrow> nat \<Rightarrow> nat" where
  "align_up_u64 value alignment = times64 (div_ceil value alignment) alignment"

section \<open>The user image window\<close>

definition USER_IMAGE_WINDOW_START :: nat where "USER_IMAGE_WINDOW_START = 0x0000400000000000"
definition USER_STACK_PAGES :: nat where "USER_STACK_PAGES = 256"
definition USER_ENTRY_STACK_BIAS :: nat where "USER_ENTRY_STACK_BIAS = 8"

definition image_window_contains :: "nat \<Rightarrow> nat \<Rightarrow> bool" where
  "image_window_contains start len \<longleftrightarrow>
     USER_IMAGE_WINDOW_START \<le> start \<and> start < USER_SPACE_END \<and>
     (case checked_add u64_max start len of None \<Rightarrow> False | Some end_address \<Rightarrow> end_address \<le> USER_SPACE_END)"

section \<open>Flat images\<close>

definition FLAT_IMAGE_MAGIC :: "u8 list" where
  "FLAT_IMAGE_MAGIC = [0x53, 0x4f, 0x53, 0x55, 0x49, 0x4d, 0x47, 0]"
definition FLAT_IMAGE_HEADER_LEN :: nat where "FLAT_IMAGE_HEADER_LEN = 72"
definition FLAT_IMAGE_HEADER_LEN_V2 :: nat where "FLAT_IMAGE_HEADER_LEN_V2 = 280"
definition KERNEL_ABI_VERSION :: u32 where "KERNEL_ABI_VERSION = 1"
definition MAX_FLAT_DEPENDENCIES :: nat where "MAX_FLAT_DEPENDENCIES = 4"
definition MAX_FLAT_SEGMENTS :: nat where "MAX_FLAT_SEGMENTS = 4"
definition REQUIRE_STACK_GUARD :: u32 where "REQUIRE_STACK_GUARD = push_bit 0 1"
definition NO_ASLR :: u32 where "NO_ASLR = push_bit 1 1"
definition SEGMENT_TABLE :: u32 where "SEGMENT_TABLE = push_bit 2 1"
definition VALID_MASK :: u32 where "VALID_MASK = REQUIRE_STACK_GUARD OR NO_ASLR OR SEGMENT_TABLE"

record flat_dependency_record =
  fd_image_id :: nat
  fd_base_offset_hint :: nat

record flat_segment_record =
  fs_virtual_offset :: nat
  fs_file_offset :: nat
  fs_file_size :: nat
  fs_memory_size :: nat
  fs_executable :: bool
  fs_writable :: bool

text \<open>The dependency and segment arrays are their first \<open>dependency_count\<close> and \<open>segment_count\<close> entries.\<close>

record flat_image_header =
  fh_abi_version :: u32
  fh_header_len :: nat
  fh_image_base :: nat
  fh_entry_offset :: nat
  fh_file_size :: nat
  fh_executable_limit :: nat
  fh_writable_offset :: nat
  fh_memory_size :: nat
  fh_user_stack_top :: nat
  fh_format_flags :: u32
  fh_min_kernel_abi :: u32
  fh_dependencies :: "flat_dependency_record list"
  fh_segments :: "flat_segment_record list"

definition requires_stack_guard :: "flat_image_header \<Rightarrow> bool" where
  "requires_stack_guard h \<longleftrightarrow> fh_format_flags h AND REQUIRE_STACK_GUARD \<noteq> 0"

definition uses_segment_table_flag :: "u32 \<Rightarrow> bool" where
  "uses_segment_table_flag format_flags \<longleftrightarrow> format_flags AND SEGMENT_TABLE \<noteq> 0"

definition uses_segment_table :: "flat_image_header \<Rightarrow> bool" where
  "uses_segment_table h \<longleftrightarrow> fh_format_flags h AND SEGMENT_TABLE \<noteq> 0"

definition segment_out_of_range :: "nat \<Rightarrow> nat \<Rightarrow> flat_segment_record \<Rightarrow> bool" where
  "segment_out_of_range memory_size file_size s \<longleftrightarrow>
     fs_virtual_offset s mod PAGE_SIZE_BYTES \<noteq> 0 \<or> fs_memory_size s = 0 \<or> fs_file_size s > fs_memory_size s \<or>
     plus64 (fs_virtual_offset s) (fs_memory_size s) > memory_size \<or>
     plus64 (fs_file_offset s) (fs_file_size s) > file_size"

definition segment_pages_overlap :: "flat_segment_record \<Rightarrow> flat_segment_record \<Rightarrow> bool" where
  "segment_pages_overlap a b =
     (let a_page_start = fs_virtual_offset a;
          a_page_end = align_up_u64 (plus64 (fs_virtual_offset a) (fs_memory_size a)) PAGE_SIZE_BYTES;
          b_page_start = fs_virtual_offset b;
          b_page_end = align_up_u64 (plus64 (fs_virtual_offset b) (fs_memory_size b)) PAGE_SIZE_BYTES
      in a_page_start < b_page_end \<and> b_page_start < a_page_end)"

text \<open>The two nested loops over pairs \<open>left < right\<close>.\<close>

fun some_pages_overlap :: "flat_segment_record list \<Rightarrow> bool" where
  "some_pages_overlap [] = False"
| "some_pages_overlap (a # rest) = (list_ex (segment_pages_overlap a) rest \<or> some_pages_overlap rest)"

definition validate_segment_table :: "flat_segment_record list \<Rightarrow> nat \<Rightarrow> nat \<Rightarrow> unit load_result" where
  "validate_segment_table segments memory_size file_size =
     (if list_ex (segment_out_of_range memory_size file_size) segments then Inl UnsupportedHeader
      else if some_pages_overlap segments then Inl UnsupportedHeader
      else Inr ())"

definition read_dependency :: "u8 list \<Rightarrow> nat \<Rightarrow> flat_dependency_record load_result" where
  "read_dependency img index =
     (let base = 88 + index * 16
      in and_then (read_u32_le img base) (\<lambda>image_id.
         and_then (read_u64_le img (base + 8)) (\<lambda>base_offset_hint.
           Inr \<lparr>fd_image_id = unat image_id, fd_base_offset_hint = base_offset_hint\<rparr>)))"

definition read_segment :: "u8 list \<Rightarrow> nat \<Rightarrow> flat_segment_record load_result" where
  "read_segment img index =
     (let base = 152 + index * 32
      in and_then (read_u32_le img (base + 28)) (\<lambda>flags.
         and_then (read_u64_le img base) (\<lambda>virtual_offset.
         and_then (read_u64_le img (base + 8)) (\<lambda>file_offset.
         and_then (read_u64_le img (base + 16)) (\<lambda>file_size.
         and_then (read_u32_le img (base + 24)) (\<lambda>memory_size.
           Inr \<lparr>fs_virtual_offset = virtual_offset, fs_file_offset = file_offset, fs_file_size = file_size,
                fs_memory_size = unat memory_size, fs_executable = (flags AND 1 \<noteq> 0),
                fs_writable = (flags AND 2 \<noteq> 0)\<rparr>))))))"

text \<open>The fields of the extended header: policy flags, minimum ABI, dependencies, segments.\<close>

definition parse_flat_extension ::
  "u8 list \<Rightarrow> nat \<Rightarrow> nat \<Rightarrow> (u32 \<times> u32 \<times> flat_dependency_record list \<times> flat_segment_record list) load_result" where
  "parse_flat_extension img memory_size file_size =
     and_then (read_u32_le img 72) (\<lambda>format_flags.
     and_then (read_u32_le img 76) (\<lambda>min_kernel_abi.
     and_then (read_u32_le img 80) (\<lambda>dependency_count.
     and_then (read_u32_le img 84) (\<lambda>segment_count.
       if format_flags AND NOT VALID_MASK \<noteq> 0 then Inl UnsupportedHeader
       else if min_kernel_abi > KERNEL_ABI_VERSION then Inl KernelAbiTooNew
       else if unat dependency_count > MAX_FLAT_DEPENDENCIES \<or> unat segment_count > MAX_FLAT_SEGMENTS
       then Inl UnsupportedHeader
       else if uses_segment_table_flag format_flags \<and> segment_count = 0 then Inl UnsupportedHeader
       else
         and_then (traverse (read_dependency img) [0..<unat dependency_count]) (\<lambda>dependencies.
         and_then (traverse (read_segment img) [0..<unat segment_count]) (\<lambda>segments.
         and_then (if uses_segment_table_flag format_flags
                   then validate_segment_table segments memory_size file_size else Inr ()) (\<lambda>_.
           Inr (format_flags, min_kernel_abi, dependencies, segments))))))))"

definition parse_flat_image :: "u8 list \<Rightarrow> flat_image_header load_result" where
  "parse_flat_image img =
     (if length img < FLAT_IMAGE_HEADER_LEN then Inl Truncated
      else if take (length FLAT_IMAGE_MAGIC) img \<noteq> FLAT_IMAGE_MAGIC then Inl InvalidMagic
      else
        and_then (read_u32_le img 8) (\<lambda>abi_version.
        and_then (read_u32_le img 12) (\<lambda>header_len_word.
        let header_len = unat header_len_word in
        if abi_version \<noteq> 1 then Inl UnsupportedAbi
        else if header_len \<noteq> FLAT_IMAGE_HEADER_LEN \<and> header_len \<noteq> FLAT_IMAGE_HEADER_LEN_V2
        then Inl UnsupportedHeader
        else
          and_then (read_u64_le img 16) (\<lambda>image_base.
          and_then (read_u64_le img 24) (\<lambda>entry_offset.
          and_then (read_u64_le img 32) (\<lambda>file_size.
          and_then (read_u64_le img 40) (\<lambda>executable_limit.
          and_then (read_u64_le img 48) (\<lambda>writable_offset.
          and_then (read_u64_le img 56) (\<lambda>memory_size.
          and_then (read_u64_le img 64) (\<lambda>user_stack_top.
          if image_base mod PAGE_SIZE_BYTES \<noteq> 0 \<or> user_stack_top mod PAGE_SIZE_BYTES \<noteq> 0
          then Inl LoadAddressAlignment
          else if \<not> image_window_contains image_base memory_size \<or>
                  \<not> image_window_contains (user_stack_top - USER_STACK_PAGES * PAGE_SIZE_BYTES)
                      (USER_STACK_PAGES * PAGE_SIZE_BYTES)
          then Inl UnsupportedHeader
          else if length img < plus64 header_len file_size then Inl Truncated
          else if file_size = 0 \<or> executable_limit = 0 \<or> executable_limit > file_size \<or>
                  writable_offset > memory_size \<or> file_size > memory_size
          then Inl Truncated
          else
            and_then (if header_len = FLAT_IMAGE_HEADER_LEN_V2
                      then parse_flat_extension img memory_size file_size
                      else Inr (0, 0, [], [])) (\<lambda>(format_flags, min_kernel_abi, dependencies, segments).
            Inr \<lparr>fh_abi_version = abi_version, fh_header_len = header_len, fh_image_base = image_base,
                 fh_entry_offset = entry_offset, fh_file_size = file_size,
                 fh_executable_limit = executable_limit, fh_writable_offset = writable_offset,
                 fh_memory_size = memory_size, fh_user_stack_top = user_stack_top,
                 fh_format_flags = format_flags, fh_min_kernel_abi = min_kernel_abi,
                 fh_dependencies = dependencies, fh_segments = segments\<rparr>)))))))))))"

end
