(* ===== verification/Elf_Linking.thy ===== *)
theory Elf_Linking
  imports Image_Formats
begin

text \<open>
  The ELF64 part of \<open>kernel/core/src/user/loader.rs\<close> that maps nothing: program headers, the dynamic
  section, the symbol tables of an image, the symbol namespace a load shares, and the relocations, which
  write through a function the caller gives.
\<close>

section \<open>Constants\<close>

definition ELF_MAGIC :: "u8 list" where "ELF_MAGIC = [0x7f, 0x45, 0x4c, 0x46]"
definition ELF_CLASS_64 :: u8 where "ELF_CLASS_64 = 2"
definition ELF_DATA_LSB :: u8 where "ELF_DATA_LSB = 1"
definition ELF_VERSION_CURRENT :: u8 where "ELF_VERSION_CURRENT = 1"
definition ELF_TYPE_EXEC :: nat where "ELF_TYPE_EXEC = 2"
definition ELF_TYPE_DYN :: nat where "ELF_TYPE_DYN = 3"
definition ELF_MACHINE_X86_64 :: nat where "ELF_MACHINE_X86_64 = 62"
definition ELF_MACHINE_AARCH64 :: nat where "ELF_MACHINE_AARCH64 = 183"
definition ELF_PROGRAM_HEADER_LEN :: nat where "ELF_PROGRAM_HEADER_LEN = 56"
definition ELF_SEGMENT_LOAD :: u32 where "ELF_SEGMENT_LOAD = 1"
definition ELF_SEGMENT_DYNAMIC :: u32 where "ELF_SEGMENT_DYNAMIC = 2"
definition ELF_SEGMENT_INTERP :: u32 where "ELF_SEGMENT_INTERP = 3"
definition ELF_SEGMENT_GNU_STACK :: u32 where "ELF_SEGMENT_GNU_STACK = 0x6474e551"
definition ELF_FLAG_EXECUTE :: u32 where "ELF_FLAG_EXECUTE = 1"
definition ELF_FLAG_WRITE :: u32 where "ELF_FLAG_WRITE = 2"
definition DYNAMIC_TAG_NULL :: nat where "DYNAMIC_TAG_NULL = 0"
definition DYNAMIC_TAG_PLTRELSZ :: nat where "DYNAMIC_TAG_PLTRELSZ = 2"
definition DYNAMIC_TAG_PLTGOT :: nat where "DYNAMIC_TAG_PLTGOT = 3"
definition DYNAMIC_TAG_HASH :: nat where "DYNAMIC_TAG_HASH = 4"
definition DYNAMIC_TAG_STRTAB :: nat where "DYNAMIC_TAG_STRTAB = 5"
definition DYNAMIC_TAG_SYMTAB :: nat where "DYNAMIC_TAG_SYMTAB = 6"
definition DYNAMIC_TAG_RELA :: nat where "DYNAMIC_TAG_RELA = 7"
definition DYNAMIC_TAG_RELASZ :: nat where "DYNAMIC_TAG_RELASZ = 8"
definition DYNAMIC_TAG_STRSZ :: nat where "DYNAMIC_TAG_STRSZ = 10"
definition DYNAMIC_TAG_JMPREL :: nat where "DYNAMIC_TAG_JMPREL = 23"
definition DYNAMIC_TAG_PLTREL :: nat where "DYNAMIC_TAG_PLTREL = 20"
definition DT_PLTREL_RELA :: nat where "DT_PLTREL_RELA = 7"
definition DYNAMIC_ENTRY_LEN :: nat where "DYNAMIC_ENTRY_LEN = 16"
definition ELF_RELOC_GLOB_DAT :: nat where "ELF_RELOC_GLOB_DAT = 6"
definition ELF_RELOC_JUMP_SLOT :: nat where "ELF_RELOC_JUMP_SLOT = 7"
definition ELF_RELOC_RELATIVE :: nat where "ELF_RELOC_RELATIVE = 8"
definition ELF_RELA_ENTRY_LEN :: nat where "ELF_RELA_ENTRY_LEN = 24"
definition ELF_SYMBOL_ENTRY_LEN :: nat where "ELF_SYMBOL_ENTRY_LEN = 24"
definition STB_GLOBAL :: u8 where "STB_GLOBAL = 1"
definition STB_WEAK :: u8 where "STB_WEAK = 2"
definition SHN_UNDEF :: nat where "SHN_UNDEF = 0"
definition MAX_ELF_LOAD_SEGMENTS :: nat where "MAX_ELF_LOAD_SEGMENTS = 16"
definition BUILTIN_INTERP_MARKER :: "u8 list" where
  "BUILTIN_INTERP_MARKER = [0x73, 0x65, 0x72, 0x76, 0x69, 0x63, 0x65, 0x6f, 0x73, 0x2d, 0x6c, 0x64]"
definition LAZY_PLT_GOT_RESERVED_SLOTS :: nat where "LAZY_PLT_GOT_RESERVED_SLOTS = 3"
definition LAZY_PLT_STUB_STRIDE_BYTES :: nat where "LAZY_PLT_STUB_STRIDE_BYTES = 16"
definition SYMBOL_NAMESPACE_CAPACITY :: nat where "SYMBOL_NAMESPACE_CAPACITY = 64"
definition SYMBOL_NAME_MAX :: nat where "SYMBOL_NAME_MAX = 40"

definition lazy_plt_got_slot_address :: "nat \<Rightarrow> nat \<Rightarrow> nat" where
  "lazy_plt_got_slot_address plt_got_vaddr index =
     plus64 plt_got_vaddr (times64 (plus64 LAZY_PLT_GOT_RESERVED_SLOTS index) 8)"

definition lazy_plt_stub_offset :: "nat \<Rightarrow> nat" where
  "lazy_plt_stub_offset index = times64 index LAZY_PLT_STUB_STRIDE_BYTES"

datatype elf_machine = X86_64 | Aarch64

fun elf_machine_as_u16 :: "elf_machine \<Rightarrow> nat" where
  "elf_machine_as_u16 X86_64 = ELF_MACHINE_X86_64"
| "elf_machine_as_u16 Aarch64 = ELF_MACHINE_AARCH64"

section \<open>Program headers\<close>

record elf_load_segment =
  seg_flags :: u32
  seg_file_offset :: nat
  seg_virtual_address :: nat
  seg_file_size :: nat
  seg_memory_size :: nat

text \<open>The variables of the loops over program headers; \<open>loads\<close> is its first \<open>load_count\<close> entries.\<close>

record program_scan =
  ps_loads :: "elf_load_segment list"
  ps_dynamic_range :: "(nat \<times> nat) option"
  ps_interp_range :: "(nat \<times> nat) option"
  ps_gnu_stack_executable :: bool

definition program_scan_new :: program_scan where
  "program_scan_new =
     \<lparr>ps_loads = [], ps_dynamic_range = None, ps_interp_range = None, ps_gnu_stack_executable = False\<rparr>"

definition scan_interp :: "u8 list \<Rightarrow> u8 list \<Rightarrow> program_scan \<Rightarrow> program_scan load_result" where
  "scan_interp img program scan =
     (if ps_interp_range scan \<noteq> None then Inl UnsupportedHeader
      else
        and_then (read_u64_le program 8) (\<lambda>offset.
        and_then (read_u64_le program 32) (\<lambda>sz.
        and_then (ok_or Truncated (slice_get_len img offset sz)) (\<lambda>_.
          Inr (scan\<lparr>ps_interp_range := Some (offset, sz)\<rparr>)))))"

definition scan_dynamic :: "u8 list \<Rightarrow> u8 list \<Rightarrow> program_scan \<Rightarrow> program_scan load_result" where
  "scan_dynamic img program scan =
     (if ps_dynamic_range scan \<noteq> None then Inl UnsupportedHeader
      else
        and_then (read_u64_le program 8) (\<lambda>dyn_offset.
        and_then (read_u64_le program 32) (\<lambda>dyn_size.
        and_then (ok_or Truncated (checked_add u64_max dyn_offset dyn_size)) (\<lambda>dyn_end.
        and_then (ok_or Truncated (slice_get img dyn_offset dyn_end)) (\<lambda>_.
          Inr (scan\<lparr>ps_dynamic_range := Some (dyn_offset, dyn_size)\<rparr>))))))"

definition scan_load :: "u8 list \<Rightarrow> program_scan \<Rightarrow> program_scan load_result" where
  "scan_load program scan =
     (if length (ps_loads scan) = MAX_ELF_LOAD_SEGMENTS then Inl UnsupportedHeader
      else
        and_then (read_u32_le program 4) (\<lambda>flags.
        and_then (read_u64_le program 8) (\<lambda>file_offset.
        and_then (read_u64_le program 16) (\<lambda>virtual_address.
        and_then (read_u64_le program 32) (\<lambda>file_size.
        and_then (read_u64_le program 40) (\<lambda>memory_size.
          Inr (scan\<lparr>ps_loads := ps_loads scan @
            [\<lparr>seg_flags = flags, seg_file_offset = file_offset, seg_virtual_address = virtual_address,
              seg_file_size = file_size, seg_memory_size = memory_size\<rparr>]\<rparr>)))))))"

definition scan_gnu_stack :: "u8 list \<Rightarrow> program_scan \<Rightarrow> program_scan load_result" where
  "scan_gnu_stack program scan =
     and_then (read_u32_le program 4) (\<lambda>flags.
       Inr (scan\<lparr>ps_gnu_stack_executable := (flags AND ELF_FLAG_EXECUTE \<noteq> 0)\<rparr>))"

text \<open>The three loops differ in the headers they look at.\<close>

definition image_program :: "u8 list \<Rightarrow> u8 list \<Rightarrow> program_scan \<Rightarrow> program_scan load_result" where
  "image_program img program scan =
     and_then (read_u32_le program 0) (\<lambda>segment_type.
       if segment_type = ELF_SEGMENT_INTERP then scan_interp img program scan
       else if segment_type = ELF_SEGMENT_GNU_STACK then scan_gnu_stack program scan
       else if segment_type = ELF_SEGMENT_DYNAMIC then scan_dynamic img program scan
       else if segment_type = ELF_SEGMENT_LOAD then scan_load program scan
       else Inr scan)"

definition dependency_program :: "u8 list \<Rightarrow> u8 list \<Rightarrow> program_scan \<Rightarrow> program_scan load_result" where
  "dependency_program img program scan =
     and_then (read_u32_le program 0) (\<lambda>segment_type.
       if segment_type = ELF_SEGMENT_INTERP then scan_interp img program scan
       else if segment_type = ELF_SEGMENT_DYNAMIC then scan_dynamic img program scan
       else if segment_type = ELF_SEGMENT_LOAD then scan_load program scan
       else Inr scan)"

definition export_program :: "u8 list \<Rightarrow> u8 list \<Rightarrow> program_scan \<Rightarrow> program_scan load_result" where
  "export_program img program scan =
     and_then (read_u32_le program 0) (\<lambda>segment_type.
       if segment_type = ELF_SEGMENT_DYNAMIC then scan_dynamic img program scan
       else if segment_type = ELF_SEGMENT_LOAD then scan_load program scan
       else Inr scan)"

fun scan_programs ::
  "(u8 list \<Rightarrow> u8 list \<Rightarrow> program_scan \<Rightarrow> program_scan load_result) \<Rightarrow> u8 list \<Rightarrow> nat \<Rightarrow> nat \<Rightarrow> nat \<Rightarrow> nat
   \<Rightarrow> program_scan \<Rightarrow> program_scan load_result" where
  "scan_programs step img phoff phentsize index 0 scan = Inr scan"
| "scan_programs step img phoff phentsize index (Suc n) scan =
     and_then (ok_or Truncated (checked_add u64_max phoff (index * phentsize))) (\<lambda>header.
     and_then (ok_or Truncated (slice_get img header (plus64 header phentsize))) (\<lambda>program.
     and_then (step img program scan) (\<lambda>scan.
       scan_programs step img phoff phentsize (Suc index) n scan)))"

definition check_interpreter_policy :: "u8 list \<Rightarrow> (nat \<times> nat) option \<Rightarrow> unit load_result" where
  "check_interpreter_policy img interp_range =
     (case interp_range of
        None \<Rightarrow> Inr ()
      | Some (offset, sz) \<Rightarrow>
          and_then (ok_or Truncated (slice_get_len img offset sz)) (\<lambda>bytes.
            if takeWhile (\<lambda>byte. byte \<noteq> 0) bytes \<noteq> BUILTIN_INTERP_MARKER then Inl InterpreterUnsupported
            else Inr ()))"

definition choose_pie_load_base :: "nat \<Rightarrow> nat \<Rightarrow> nat load_result" where
  "choose_pie_load_base highest_image_end stack_bottom =
     (if highest_image_end = 0 then Inl UnsupportedHeader
      else let base = USER_IMAGE_WINDOW_START; limit = stack_bottom - base
           in if highest_image_end > limit then Inl UnsupportedHeader else Inr base)"

definition is_elf64_image :: "u8 list \<Rightarrow> bool" where
  "is_elf64_image bytes \<longleftrightarrow> length bytes \<ge> length ELF_MAGIC \<and> take (length ELF_MAGIC) bytes = ELF_MAGIC"

section \<open>Dependencies\<close>

record elf_dependency_plan =
  dp_loads :: "elf_load_segment list"
  dp_dynamic_range :: "(nat \<times> nat) option"
  dp_span :: nat

definition mapping_span_bytes :: "elf_dependency_plan \<Rightarrow> nat" where
  "mapping_span_bytes plan = align_up_u64 (dp_span plan) PAGE_SIZE_BYTES"

text \<open>The check of the segments, with the footprint from the lowest start to the highest end.\<close>

fun dependency_span :: "u8 list \<Rightarrow> elf_load_segment list \<Rightarrow> nat \<Rightarrow> nat \<Rightarrow> (nat \<times> nat) load_result" where
  "dependency_span bytes [] span_low span_high = Inr (span_low, span_high)"
| "dependency_span bytes (segment # rest) span_low span_high =
     (if seg_virtual_address segment mod PAGE_SIZE_BYTES \<noteq> 0 \<or> seg_file_size segment > seg_memory_size segment \<or>
         slice_get bytes (seg_file_offset segment) (plus64 (seg_file_offset segment) (seg_file_size segment)) = None
      then Inl UnsupportedHeader
      else dependency_span bytes rest (min span_low (seg_virtual_address segment))
             (max span_high (saturating_add u64_max (seg_virtual_address segment) (seg_memory_size segment))))"

definition plan_elf_dependency_inner :: "u8 list \<Rightarrow> elf_machine \<Rightarrow> elf_dependency_plan load_result" where
  "plan_elf_dependency_inner bytes expected_machine =
     (if length bytes < 64 then Inl Truncated
      else if bytes ! 4 \<noteq> ELF_CLASS_64 \<or> bytes ! 5 \<noteq> ELF_DATA_LSB \<or> bytes ! 6 \<noteq> ELF_VERSION_CURRENT
      then Inl UnsupportedAbi
      else
        and_then (read_u16_le bytes 16) (\<lambda>elf_type.
        if elf_type \<noteq> ELF_TYPE_DYN then Inl UnsupportedAbi
        else
          and_then (read_u16_le bytes 18) (\<lambda>machine.
          if machine \<noteq> elf_machine_as_u16 expected_machine then Inl UnsupportedMachine
          else
            and_then (read_u64_le bytes 32) (\<lambda>phoff.
            and_then (read_u16_le bytes 54) (\<lambda>phentsize.
            and_then (read_u16_le bytes 56) (\<lambda>phnum.
            if phentsize \<noteq> ELF_PROGRAM_HEADER_LEN \<or> phnum = 0 then Inl UnsupportedHeader
            else
              and_then (scan_programs dependency_program bytes phoff phentsize 0 phnum program_scan_new) (\<lambda>scan.
              and_then (check_interpreter_policy bytes (ps_interp_range scan)) (\<lambda>_.
              if ps_loads scan = [] then Inl UnsupportedHeader
              else
                and_then (dependency_span bytes (ps_loads scan) u64_max 0) (\<lambda>(span_low, span_high).
                  Inr \<lparr>dp_loads = ps_loads scan, dp_dynamic_range = ps_dynamic_range scan,
                       dp_span = span_high - span_low\<rparr>)))))))))"

definition plan_elf_dependency :: "u8 list \<Rightarrow> elf_machine \<Rightarrow> elf_dependency_plan load_result" where
  "plan_elf_dependency bytes expected_machine =
     (case plan_elf_dependency_inner bytes expected_machine of
        Inr plan \<Rightarrow> Inr plan
      | Inl error \<Rightarrow>
          Inl (case error of
                 FrameExhausted \<Rightarrow> error
               | LoadMapping _ \<Rightarrow> error
               | InterpreterUnsupported \<Rightarrow> error
               | _ \<Rightarrow> DependencyInvalid))"

section \<open>The dynamic section\<close>

record elf_dynamic_info =
  di_rela :: "(nat \<times> nat) option"
  di_jmprel :: "(nat \<times> nat) option"
  di_plt_got :: "nat option"
  di_pltrel :: "nat option"
  di_symtab_vaddr :: "nat option"
  di_strtab_vaddr :: "nat option"
  di_strtab_size :: "nat option"
  di_hash_vaddr :: "nat option"

definition dynamic_info_default :: elf_dynamic_info where
  "dynamic_info_default =
     \<lparr>di_rela = None, di_jmprel = None, di_plt_got = None, di_pltrel = None, di_symtab_vaddr = None,
      di_strtab_vaddr = None, di_strtab_size = None, di_hash_vaddr = None\<rparr>"

definition dynamic_entry ::
  "nat \<Rightarrow> nat \<Rightarrow> elf_dynamic_info \<Rightarrow> nat option \<Rightarrow> elf_dynamic_info \<times> nat option" where
  "dynamic_entry tag v info pltrelsz =
     (if tag = DYNAMIC_TAG_RELA
      then (info\<lparr>di_rela := Some (v, case di_rela info of None \<Rightarrow> 0 | Some (_, sz) \<Rightarrow> sz)\<rparr>, pltrelsz)
      else if tag = DYNAMIC_TAG_RELASZ
      then (info\<lparr>di_rela := Some (case di_rela info of None \<Rightarrow> 0 | Some (address, _) \<Rightarrow> address, v)\<rparr>, pltrelsz)
      else if tag = DYNAMIC_TAG_JMPREL
      then (info\<lparr>di_jmprel := Some (v, case pltrelsz of None \<Rightarrow> 0 | Some sz \<Rightarrow> sz)\<rparr>, pltrelsz)
      else if tag = DYNAMIC_TAG_PLTRELSZ
      then (info\<lparr>di_jmprel := Some (case di_jmprel info of None \<Rightarrow> 0 | Some (address, _) \<Rightarrow> address, v)\<rparr>, Some v)
      else if tag = DYNAMIC_TAG_SYMTAB then (info\<lparr>di_symtab_vaddr := Some v\<rparr>, pltrelsz)
      else if tag = DYNAMIC_TAG_STRTAB then (info\<lparr>di_strtab_vaddr := Some v\<rparr>, pltrelsz)
      else if tag = DYNAMIC_TAG_STRSZ then (info\<lparr>di_strtab_size := Some v\<rparr>, pltrelsz)
      else if tag = DYNAMIC_TAG_HASH then (info\<lparr>di_hash_vaddr := Some v\<rparr>, pltrelsz)
      else if tag = DYNAMIC_TAG_PLTGOT then (info\<lparr>di_plt_got := Some v\<rparr>, pltrelsz)
      else if tag = DYNAMIC_TAG_PLTREL then (info\<lparr>di_pltrel := Some v\<rparr>, pltrelsz)
      else (info, pltrelsz))"

text \<open>The loop over the entries; it ends at the null tag and says whether it met one.\<close>

fun dynamic_entries ::
  "u8 list \<Rightarrow> nat \<Rightarrow> nat \<Rightarrow> elf_dynamic_info \<Rightarrow> nat option \<Rightarrow> (elf_dynamic_info \<times> bool) load_result" where
  "dynamic_entries dynamic entry_index 0 info pltrelsz = Inr (info, False)"
| "dynamic_entries dynamic entry_index (Suc n) info pltrelsz =
     (let base = entry_index * DYNAMIC_ENTRY_LEN
      in and_then (read_u64_le dynamic base) (\<lambda>tag.
         if tag = DYNAMIC_TAG_NULL then Inr (info, True)
         else
           and_then (read_u64_le dynamic (base + 8)) (\<lambda>v.
             case dynamic_entry tag v info pltrelsz of
               (info, pltrelsz) \<Rightarrow> dynamic_entries dynamic (Suc entry_index) n info pltrelsz)))"

definition table_malformed :: "(nat \<times> nat) option \<Rightarrow> bool" where
  "table_malformed table =
     (case table of
        None \<Rightarrow> False
      | Some (address, sz) \<Rightarrow> address = 0 \<or> sz = 0 \<or> sz mod ELF_RELA_ENTRY_LEN \<noteq> 0)"

definition parse_dynamic_info :: "u8 list \<Rightarrow> elf_dynamic_info load_result" where
  "parse_dynamic_info dynamic =
     (if length dynamic mod DYNAMIC_ENTRY_LEN \<noteq> 0 then Inl UnsupportedHeader
      else
        and_then (dynamic_entries dynamic 0 (length dynamic div DYNAMIC_ENTRY_LEN) dynamic_info_default None)
          (\<lambda>(info, terminated).
            if list_ex table_malformed [di_rela info, di_jmprel info] then Inl UnsupportedHeader
            else if (case di_pltrel info of None \<Rightarrow> False | Some f \<Rightarrow> f \<noteq> DT_PLTREL_RELA)
            then Inl UnsupportedHeader
            else if \<not> terminated \<and> dynamic \<noteq> [] then Inl UnsupportedHeader
            else Inr info))"

fun locate_file_range :: "u8 list \<Rightarrow> elf_load_segment list \<Rightarrow> nat \<Rightarrow> nat \<Rightarrow> u8 list option" where
  "locate_file_range img [] virtual_address len = None"
| "locate_file_range img (segment # rest) virtual_address len =
     (let seg_start = seg_virtual_address segment
      in case checked_add u64_max seg_start (seg_file_size segment) of
           None \<Rightarrow> None
         | Some seg_end \<Rightarrow>
             if seg_start \<le> virtual_address \<and> virtual_address < seg_end then
               let offset_in_segment = virtual_address - seg_start
               in case checked_add u64_max (seg_file_offset segment) offset_in_segment of
                    None \<Rightarrow> None
                  | Some file_start \<Rightarrow>
                      (case checked_add u64_max file_start len of
                         None \<Rightarrow> None
                       | Some file_end \<Rightarrow>
                           if file_end \<le> plus64 (seg_file_offset segment) (seg_file_size segment)
                           then slice_get img file_start file_end
                           else locate_file_range img rest virtual_address len)
             else locate_file_range img rest virtual_address len)"

section \<open>Symbol tables\<close>

record sysv_hash_view =
  hv_buckets :: "u8 list"
  hv_chains :: "u8 list"
  hv_bucket_count :: nat

definition hash_bucket :: "sysv_hash_view \<Rightarrow> nat \<Rightarrow> nat option" where
  "hash_bucket view index =
     (if index * 4 \<le> u64_max
      then (case read_u32_le (hv_buckets view) (index * 4) of Inl _ \<Rightarrow> None | Inr v \<Rightarrow> Some (unat v))
      else None)"

definition hash_chain :: "sysv_hash_view \<Rightarrow> nat \<Rightarrow> nat" where
  "hash_chain view index =
     (case slice_get (hv_chains view) (times64 index 4) (plus64 (times64 index 4) 4) of
        None \<Rightarrow> 0
      | Some bytes \<Rightarrow> (case read_u32_le bytes 0 of Inl _ \<Rightarrow> 0 | Inr v \<Rightarrow> unat v))"

record elf_symbol_table =
  st_symbols :: "u8 list"
  st_symbol_count :: nat
  st_strings :: "u8 list"
  st_hash :: "sysv_hash_view option"

record elf_symbol =
  sym_name_offset :: nat
  sym_binding :: u8
  sym_shndx :: nat
  sym_value :: nat

definition read_symbol_entry :: "u8 list \<Rightarrow> nat \<Rightarrow> elf_symbol load_result" where
  "read_symbol_entry symbols index =
     (if index * ELF_SYMBOL_ENTRY_LEN > u64_max then Inl UnsupportedHeader
      else
        let base = index * ELF_SYMBOL_ENTRY_LEN
        in if plus64 base ELF_SYMBOL_ENTRY_LEN > length symbols then Inl UnsupportedHeader
           else
             and_then (read_u32_le symbols base) (\<lambda>name_offset.
             and_then (read_u16_le symbols (base + 6)) (\<lambda>shndx.
             and_then (read_u64_le symbols (base + 8)) (\<lambda>v.
               Inr \<lparr>sym_name_offset = unat name_offset, sym_binding = drop_bit 4 (symbols ! (base + 4)),
                    sym_shndx = shndx, sym_value = v\<rparr>))))"

definition symbol_name_bytes :: "u8 list \<Rightarrow> nat \<Rightarrow> u8 list load_result" where
  "symbol_name_bytes strings name_offset =
     (if name_offset \<ge> length strings then Inl UnsupportedHeader
      else
        let tail = drop name_offset strings
        in if 0 \<in> set tail then Inr (takeWhile (\<lambda>byte. byte \<noteq> 0) tail) else Inl UnsupportedHeader)"

definition elf_hash :: "u8 list \<Rightarrow> u32" where
  "elf_hash name =
     fold (\<lambda>byte hash.
       let hash = push_bit 4 hash + ucast byte;
           high = hash AND 0xf0000000;
           hash = (if high \<noteq> 0 then hash XOR drop_bit 24 high else hash)
       in hash AND NOT high) name 0"

definition resolve_symbol_tables ::
  "u8 list \<Rightarrow> elf_load_segment list \<Rightarrow> elf_dynamic_info \<Rightarrow> elf_symbol_table option load_result" where
  "resolve_symbol_tables img loads info =
     (case (di_symtab_vaddr info, di_strtab_vaddr info, di_strtab_size info, di_hash_vaddr info) of
        (Some symtab_vaddr, Some strtab_vaddr, Some strtab_size, Some hash_vaddr) \<Rightarrow>
          and_then (ok_or UnsupportedRelocation (locate_file_range img loads strtab_vaddr strtab_size)) (\<lambda>strings.
          and_then (ok_or UnsupportedRelocation (locate_file_range img loads hash_vaddr 8)) (\<lambda>header.
          and_then (read_u32_le header 0) (\<lambda>nbucket_word.
          and_then (read_u32_le header 4) (\<lambda>nchain_word.
          let nbucket = unat nbucket_word; nchain = unat nchain_word in
          if nbucket = 0 \<or> nchain = 0 then Inl UnsupportedHeader
          else
            and_then (ok_or UnsupportedRelocation
                        (locate_file_range img loads hash_vaddr (8 + (nbucket + nchain) * 4))) (\<lambda>hash_bytes.
            let buckets_end = 8 + nbucket * 4 in
            and_then (ok_or UnsupportedRelocation
                        (locate_file_range img loads symtab_vaddr (nchain * ELF_SYMBOL_ENTRY_LEN))) (\<lambda>symbols.
              Inr (Some \<lparr>st_symbols = symbols, st_symbol_count = nchain, st_strings = strings,
                         st_hash = Some \<lparr>hv_buckets = sub_slice hash_bytes 8 buckets_end,
                                         hv_chains = drop buckets_end hash_bytes,
                                         hv_bucket_count = nbucket\<rparr>\<rparr>)))))))
      | _ \<Rightarrow> Inr None)"

text \<open>The lookup by hash chain; \<open>None\<close> outside is a chain walk that does not end.\<close>

partial_function (option) sysv_chain_lookup ::
  "elf_symbol_table \<Rightarrow> sysv_hash_view \<Rightarrow> u8 list \<Rightarrow> nat \<Rightarrow> nat option option" where
  "sysv_chain_lookup table view name index =
     (if index = 0 then Some None
      else if index \<ge> st_symbol_count table then Some None
      else case read_symbol_entry (st_symbols table) index of
             Inl _ \<Rightarrow> Some None
           | Inr symbol \<Rightarrow>
               if sym_shndx symbol \<noteq> SHN_UNDEF \<and> symbol_name_bytes (st_strings table) (sym_name_offset symbol) = Inr name
               then Some (Some (sym_value symbol))
               else sysv_chain_lookup table view name (hash_chain view index))"

definition sysv_lookup :: "elf_symbol_table \<Rightarrow> u8 list \<Rightarrow> nat option option" where
  "sysv_lookup table name =
     (case st_hash table of
        None \<Rightarrow> Some None
      | Some view \<Rightarrow>
          if name = [] \<or> hv_bucket_count view = 0 then Some None
          else case hash_bucket view (unat (elf_hash name) mod hv_bucket_count view) of
                 None \<Rightarrow> Some None
               | Some start \<Rightarrow> sysv_chain_lookup table view name start)"

section \<open>The symbol namespace\<close>

record symbol_entry =
  se_name_len :: nat
  se_name :: "u8 list"
  se_address :: nat
  se_weak :: bool

record symbol_namespace =
  ns_entries :: "symbol_entry list"
  ns_count :: nat

definition namespace_empty :: symbol_namespace where
  "namespace_empty =
     \<lparr>ns_entries = replicate SYMBOL_NAMESPACE_CAPACITY
        \<lparr>se_name_len = 0, se_name = replicate SYMBOL_NAME_MAX 0, se_address = 0, se_weak = False\<rparr>,
      ns_count = 0\<rparr>"

text \<open>\<open>position\<close> over the first \<open>count\<close> entries.\<close>

fun position :: "('a \<Rightarrow> bool) \<Rightarrow> 'a list \<Rightarrow> nat option" where
  "position P [] = None"
| "position P (x # xs) = (if P x then Some 0 else map_option Suc (position P xs))"

definition entry_has_name :: "u8 list \<Rightarrow> symbol_entry \<Rightarrow> bool" where
  "entry_has_name name entry \<longleftrightarrow> se_name_len entry = length name \<and> take (length name) (se_name entry) = name"

definition namespace_find :: "symbol_namespace \<Rightarrow> u8 list \<Rightarrow> nat option" where
  "namespace_find ns name = position (entry_has_name name) (take (ns_count ns) (ns_entries ns))"

definition namespace_insert ::
  "symbol_namespace \<Rightarrow> u8 list \<Rightarrow> bool \<Rightarrow> nat \<Rightarrow> unit load_result \<times> symbol_namespace" where
  "namespace_insert ns name weak address =
     (if name = [] \<or> length name > SYMBOL_NAME_MAX then (Inr (), ns)
      else case namespace_find ns name of
             Some index \<Rightarrow>
               let entry = ns_entries ns ! index;
                   entry = (if se_weak entry \<and> \<not> weak then entry\<lparr>se_weak := False, se_address := address\<rparr>
                            else if se_weak entry = weak then entry\<lparr>se_address := address\<rparr>
                            else entry)
               in (Inr (), ns\<lparr>ns_entries := (ns_entries ns)[index := entry]\<rparr>)
           | None \<Rightarrow>
               if ns_count ns = SYMBOL_NAMESPACE_CAPACITY then (Inl SymbolSpaceExhausted, ns)
               else
                 let entry = ns_entries ns ! ns_count ns;
                     entry = entry\<lparr>se_name_len := length name, se_name := name @ drop (length name) (se_name entry),
                                   se_address := address, se_weak := weak\<rparr>
                 in (Inr (), ns\<lparr>ns_entries := (ns_entries ns)[ns_count ns := entry], ns_count := ns_count ns + 1\<rparr>))"

definition namespace_lookup :: "symbol_namespace \<Rightarrow> u8 list \<Rightarrow> nat option" where
  "namespace_lookup ns name = map_option (\<lambda>index. se_address (ns_entries ns ! index)) (namespace_find ns name)"

text \<open>The walk of one bucket's chain; \<open>None\<close> is a walk that does not end.\<close>

partial_function (option) register_chain ::
  "elf_symbol_table \<Rightarrow> sysv_hash_view \<Rightarrow> nat \<Rightarrow> nat \<Rightarrow> symbol_namespace
   \<Rightarrow> (unit load_result \<times> symbol_namespace) option" where
  "register_chain table view load_base index ns =
     (if index = 0 then Some (Inr (), ns)
      else if index \<ge> st_symbol_count table then Some (Inl UnsupportedHeader, ns)
      else case read_symbol_entry (st_symbols table) index of
             Inl e \<Rightarrow> Some (Inl e, ns)
           | Inr symbol \<Rightarrow>
               if sym_shndx symbol \<noteq> SHN_UNDEF \<and> (sym_binding symbol = STB_GLOBAL \<or> sym_binding symbol = STB_WEAK)
               then (case symbol_name_bytes (st_strings table) (sym_name_offset symbol) of
                       Inl e \<Rightarrow> Some (Inl e, ns)
                     | Inr name \<Rightarrow>
                         (case namespace_insert ns name (sym_binding symbol = STB_WEAK)
                                 (plus64 load_base (sym_value symbol)) of
                            (Inl e, ns) \<Rightarrow> Some (Inl e, ns)
                          | (Inr _, ns) \<Rightarrow> register_chain table view load_base (hash_chain view index) ns))
               else register_chain table view load_base (hash_chain view index) ns)"

fun register_buckets ::
  "elf_symbol_table \<Rightarrow> sysv_hash_view \<Rightarrow> nat \<Rightarrow> nat \<Rightarrow> nat \<Rightarrow> symbol_namespace
   \<Rightarrow> (unit load_result \<times> symbol_namespace) option" where
  "register_buckets table view load_base bucket_index 0 ns = Some (Inr (), ns)"
| "register_buckets table view load_base bucket_index (Suc n) ns =
     (case register_chain table view load_base
             (case hash_bucket view bucket_index of None \<Rightarrow> 0 | Some index \<Rightarrow> index) ns of
        None \<Rightarrow> None
      | Some (Inl e, ns) \<Rightarrow> Some (Inl e, ns)
      | Some (Inr _, ns) \<Rightarrow> register_buckets table view load_base (Suc bucket_index) n ns)"

definition register_module_exports ::
  "elf_symbol_table \<Rightarrow> nat \<Rightarrow> symbol_namespace \<Rightarrow> (unit load_result \<times> symbol_namespace) option" where
  "register_module_exports table load_base ns =
     (case st_hash table of
        None \<Rightarrow> Some (Inr (), ns)
      | Some view \<Rightarrow> register_buckets table view load_base 0 (hv_bucket_count view) ns)"

section \<open>Relocations\<close>

record plt_latch_entry =
  pl_got_address :: nat
  pl_resolved_value :: nat
  pl_symbol_index :: nat

definition unresolved_symbol :: "u8 list \<Rightarrow> load_error" where
  "unresolved_symbol name =
     (let len = min (length name) 32
      in UnresolvedSymbol (take len name @ replicate (32 - len) 0) len)"

definition simulate_lazy_patch ::
  "plt_latch_entry \<Rightarrow> nat \<Rightarrow> elf_symbol_table \<Rightarrow> symbol_namespace \<Rightarrow> nat load_result" where
  "simulate_lazy_patch latch load_base consumer ns =
     (if pl_symbol_index latch \<ge> st_symbol_count consumer then Inl UnsupportedRelocation
      else
        and_then (read_symbol_entry (st_symbols consumer) (pl_symbol_index latch)) (\<lambda>symbol.
        and_then (symbol_name_bytes (st_strings consumer) (sym_name_offset symbol)) (\<lambda>name.
          if sym_shndx symbol \<noteq> SHN_UNDEF then Inr (plus64 load_base (sym_value symbol))
          else case namespace_lookup ns name of
                 Some address \<Rightarrow> Inr address
               | None \<Rightarrow> if sym_binding symbol = STB_WEAK then Inr 0 else Inl (unresolved_symbol name))))"

text \<open>The value of a symbol relocation, inside the loop of \<open>apply_dynamic_relocations\<close>.\<close>

definition relocation_value ::
  "elf_symbol_table option \<Rightarrow> nat \<Rightarrow> nat \<Rightarrow> symbol_namespace \<Rightarrow> nat load_result" where
  "relocation_value consumer load_base symbol_index ns =
     and_then (ok_or UnsupportedRelocation consumer) (\<lambda>table.
     if symbol_index \<ge> st_symbol_count table then Inl UnsupportedRelocation
     else
       and_then (read_symbol_entry (st_symbols table) symbol_index) (\<lambda>symbol.
       and_then (symbol_name_bytes (st_strings table) (sym_name_offset symbol)) (\<lambda>name.
         if sym_shndx symbol \<noteq> SHN_UNDEF then Inr (plus64 load_base (sym_value symbol))
         else case namespace_lookup ns name of
                Some address \<Rightarrow> Inr address
              | None \<Rightarrow> if sym_binding symbol = STB_WEAK then Inr 0 else Inl (unresolved_symbol name))))"

type_synonym 'w word_writer = "nat \<Rightarrow> nat \<Rightarrow> 'w \<Rightarrow> unit load_result \<times> 'w"

fun apply_relocation_entries ::
  "u8 list \<Rightarrow> nat \<Rightarrow> elf_symbol_table option \<Rightarrow> symbol_namespace \<Rightarrow> 'w word_writer \<Rightarrow> nat \<Rightarrow> nat
   \<Rightarrow> plt_latch_entry list \<Rightarrow> 'w \<Rightarrow> unit load_result \<times> plt_latch_entry list \<times> 'w" where
  "apply_relocation_entries rela_table load_base consumer ns write_word entry_index 0 plt_latch w =
     (Inr (), plt_latch, w)"
| "apply_relocation_entries rela_table load_base consumer ns write_word entry_index (Suc n) plt_latch w =
     (let base = entry_index * ELF_RELA_ENTRY_LEN
      in case and_then (read_u64_le rela_table base) (\<lambda>r_offset.
              and_then (read_u64_le rela_table (base + 8)) (\<lambda>r_info.
              and_then (read_u64_le rela_table (base + 16)) (\<lambda>addend. Inr (r_offset, r_info, addend)))) of
           Inl e \<Rightarrow> (Inl e, plt_latch, w)
         | Inr (r_offset, r_info, addend) \<Rightarrow>
             let reloc_type = r_info mod 2 ^ 32; symbol_index = r_info div 2 ^ 32 in
             if reloc_type = ELF_RELOC_RELATIVE then
               (case write_word (plus64 r_offset load_base) (plus64 load_base addend) w of
                  (Inl e, w) \<Rightarrow> (Inl e, plt_latch, w)
                | (Inr _, w) \<Rightarrow>
                    apply_relocation_entries rela_table load_base consumer ns write_word (Suc entry_index) n plt_latch w)
             else if reloc_type = ELF_RELOC_GLOB_DAT \<or> reloc_type = ELF_RELOC_JUMP_SLOT then
               (case relocation_value consumer load_base symbol_index ns of
                  Inl e \<Rightarrow> (Inl e, plt_latch, w)
                | Inr v \<Rightarrow>
                    let got_address = plus64 r_offset load_base in
                    (case write_word got_address v w of
                       (Inl e, w) \<Rightarrow> (Inl e, plt_latch, w)
                     | (Inr _, w) \<Rightarrow>
                         apply_relocation_entries rela_table load_base consumer ns write_word (Suc entry_index) n
                           (plt_latch @ [\<lparr>pl_got_address = got_address, pl_resolved_value = v,
                                         pl_symbol_index = symbol_index\<rparr>]) w))
             else (Inl UnsupportedRelocation, plt_latch, w))"

definition apply_dynamic_relocations ::
  "u8 list \<Rightarrow> nat \<Rightarrow> elf_symbol_table option \<Rightarrow> symbol_namespace \<Rightarrow> plt_latch_entry list \<Rightarrow> 'w word_writer \<Rightarrow> 'w
   \<Rightarrow> nat load_result \<times> plt_latch_entry list \<times> 'w" where
  "apply_dynamic_relocations rela_table load_base consumer ns plt_latch write_word w =
     (if length rela_table mod ELF_RELA_ENTRY_LEN \<noteq> 0 then (Inl UnsupportedHeader, plt_latch, w)
      else
        let entry_count = length rela_table div ELF_RELA_ENTRY_LEN
        in case apply_relocation_entries rela_table load_base consumer ns write_word 0 entry_count plt_latch w of
             (Inl e, plt_latch, w) \<Rightarrow> (Inl e, plt_latch, w)
           | (Inr _, plt_latch, w) \<Rightarrow> (Inr entry_count, plt_latch, w))"

end
