(* ===== verification/Image_Loader.thy ===== *)
theory Image_Loader
  imports Elf_Linking
begin

text \<open>
  Loading an image into a new address space (\<open>kernel/core/src/user/loader.rs\<close>): frames are taken from the
  frame allocator, filled through physical memory and mapped with the page mapper, which is an architecture
  trait and a parameter here. The companion images of a flat image come from the image resolver the kernel
  registers, also a parameter. A load that runs into a hash chain without end does not return; that is the
  value \<open>None\<close>.
\<close>

section \<open>The state of a load\<close>

record 'm loader =
  ld_mapper :: 'm
  ld_frames :: early_frame_allocator
  ld_memory :: phys_memory

type_synonym ('m, 'a) load = "'m loader \<Rightarrow> ('a load_result \<times> 'm loader) option"

definition ld_return :: "'a load_result \<Rightarrow> ('m, 'a) load" where
  "ld_return r s = Some (r, s)"

definition ld_then :: "('m, 'a) load \<Rightarrow> ('a \<Rightarrow> ('m, 'b) load) \<Rightarrow> ('m, 'b) load" where
  "ld_then m f s =
     (case m s of
        None \<Rightarrow> None
      | Some (Inl e, s) \<Rightarrow> Some (Inl e, s)
      | Some (Inr a, s) \<Rightarrow> f a s)"

definition allocate_zeroed_frame :: "('m, frame) load" where
  "allocate_zeroed_frame s =
     (case allocate_4kib (ld_frames s) of
        (None, a) \<Rightarrow> Some (Inl FrameExhausted, s\<lparr>ld_frames := a\<rparr>)
      | (Some f, a) \<Rightarrow>
          Some (Inr f, s\<lparr>ld_frames := a,
            ld_memory := write_bytes_at (ld_memory s) (frame_base f) (replicate PAGE_SIZE_BYTES 0)\<rparr>))"

definition copy_into_frame :: "physical_address \<Rightarrow> u8 list \<Rightarrow> ('m, unit) load" where
  "copy_into_frame base bytes s = Some (Inr (), s\<lparr>ld_memory := write_bytes_at (ld_memory s) base bytes\<rparr>)"

definition map_frame :: "'m map_page \<Rightarrow> nat \<Rightarrow> frame \<Rightarrow> u8 \<Rightarrow> ('m, unit) load" where
  "map_frame map_page page_start f flags s =
     (case map_page (ld_mapper s) page_start f flags (ld_frames s) of
        (Inl e, m, a) \<Rightarrow> Some (Inl (LoadMapping e), s\<lparr>ld_mapper := m, ld_frames := a\<rparr>)
      | (Inr _, m, a) \<Rightarrow> Some (Inr (), s\<lparr>ld_mapper := m, ld_frames := a\<rparr>))"

text \<open>One turn of the page loops: a zeroed frame, the page's part of the payload, the mapping.\<close>

definition place_page :: "'m map_page \<Rightarrow> u8 list \<Rightarrow> nat \<Rightarrow> u8 \<Rightarrow> nat \<Rightarrow> ('m, frame) load" where
  "place_page map_page payload page_start flags page_index =
     (let page_offset = page_index * PAGE_SIZE_BYTES;
          page_end = saturating_add u64_max page_offset PAGE_SIZE_BYTES
      in ld_then allocate_zeroed_frame (\<lambda>f.
         ld_then (if page_offset < length payload
                  then copy_into_frame (frame_base f) (sub_slice payload page_offset (min page_end (length payload)))
                  else ld_return (Inr ())) (\<lambda>_.
         ld_then (map_frame map_page page_start f flags) (\<lambda>_.
         ld_return (Inr f)))))"

text \<open>
  The loop over \<open>n\<close> pages from \<open>page_index\<close> on, at \<open>base\<close>, with the flags of each page. It answers with
  the frame of its first page.
\<close>

fun place_pages ::
  "'m map_page \<Rightarrow> u8 list \<Rightarrow> nat \<Rightarrow> (nat \<Rightarrow> u8) \<Rightarrow> nat \<Rightarrow> nat \<Rightarrow> frame option \<Rightarrow> ('m, frame option) load" where
  "place_pages map_page payload base flags page_index 0 first = ld_return (Inr first)"
| "place_pages map_page payload base flags page_index (Suc n) first =
     ld_then (place_page map_page payload (plus64 base (page_index * PAGE_SIZE_BYTES)) (flags page_index) page_index)
       (\<lambda>f. place_pages map_page payload base flags (Suc page_index) n (if page_index = 0 then Some f else first))"

definition page_flags :: "bool \<Rightarrow> bool \<Rightarrow> u8" where
  "page_flags executable writable =
     (let flags = MAP_USER_ACCESSIBLE;
          flags = (if executable then flags OR MAP_EXECUTABLE else flags);
          flags = (if writable then flags OR MAP_WRITABLE else flags)
      in flags)"

section \<open>Mapped segments and relocation writes\<close>

record mapped_load_segment =
  ms_virtual_start :: nat
  ms_memory_size :: nat
  ms_frame_base :: physical_address

fun write_mapped_word :: "mapped_load_segment list \<Rightarrow> nat \<Rightarrow> nat \<Rightarrow> phys_memory \<Rightarrow> unit load_result \<times> phys_memory" where
  "write_mapped_word [] target v phys = (Inl UnsupportedRelocation, phys)"
| "write_mapped_word (segment # rest) target v phys =
     (if ms_virtual_start segment \<le> target \<and> target - ms_virtual_start segment < ms_memory_size segment \<and>
         (case checked_add u64_max (target - ms_virtual_start segment) 8 of
            None \<Rightarrow> False | Some word_end \<Rightarrow> word_end \<le> ms_memory_size segment)
      then (Inr (), write_bytes_at phys (ms_frame_base segment + (target - ms_virtual_start segment))
                      (to_le_bytes 8 (of_nat v :: u64)))
      else write_mapped_word rest target v phys)"

text \<open>The relocation tables of one image, \<open>.rela.dyn\<close> first.\<close>

fun relocate_tables ::
  "u8 list \<Rightarrow> elf_load_segment list \<Rightarrow> nat \<Rightarrow> elf_symbol_table option \<Rightarrow> symbol_namespace \<Rightarrow> 'w word_writer
   \<Rightarrow> (nat \<times> nat) list \<Rightarrow> 'w \<Rightarrow> unit load_result \<times> 'w" where
  "relocate_tables img loads load_base tables ns write_word [] w = (Inr (), w)"
| "relocate_tables img loads load_base tables ns write_word ((table_vaddr, table_size) # rest) w =
     (case locate_file_range img loads table_vaddr table_size of
        None \<Rightarrow> (Inl UnsupportedRelocation, w)
      | Some bytes \<Rightarrow>
          (case apply_dynamic_relocations bytes load_base tables ns [] write_word w of
             (Inl e, _, w) \<Rightarrow> (Inl e, w)
           | (Inr _, _, w) \<Rightarrow> relocate_tables img loads load_base tables ns write_word rest w))"

definition relocation_tables :: "elf_dynamic_info \<Rightarrow> (nat \<times> nat) list" where
  "relocation_tables info = List.map_filter id [di_rela info, di_jmprel info]"

record pending_elf_module =
  pm_image :: "u8 list"
  pm_loads :: "elf_load_segment list"
  pm_mapped :: "mapped_load_segment list"
  pm_load_base :: nat
  pm_info :: elf_dynamic_info
  pm_tables :: "elf_symbol_table option"

definition apply_relocations :: "pending_elf_module \<Rightarrow> symbol_namespace \<Rightarrow> ('m, unit) load" where
  "apply_relocations module ns s =
     (case relocate_tables (pm_image module) (pm_loads module) (pm_load_base module) (pm_tables module) ns
             (write_mapped_word (pm_mapped module)) (relocation_tables (pm_info module)) (ld_memory s) of
        (r, phys) \<Rightarrow> Some (r, s\<lparr>ld_memory := phys\<rparr>))"

section \<open>ELF companions\<close>

definition segment_flags :: "elf_load_segment \<Rightarrow> u8" where
  "segment_flags segment =
     (let mapping = MAP_USER_ACCESSIBLE;
          mapping = (if seg_flags segment AND ELF_FLAG_WRITE \<noteq> 0 then mapping OR MAP_WRITABLE else mapping);
          mapping = (if seg_flags segment AND ELF_FLAG_EXECUTE \<noteq> 0 then mapping OR MAP_EXECUTABLE else mapping)
      in mapping)"

fun map_dependency_segments ::
  "'m map_page \<Rightarrow> u8 list \<Rightarrow> nat \<Rightarrow> elf_load_segment list \<Rightarrow> mapped_load_segment list
   \<Rightarrow> ('m, mapped_load_segment list) load" where
  "map_dependency_segments map_page bytes base [] mapped = ld_return (Inr mapped)"
| "map_dependency_segments map_page bytes base (segment # rest) mapped =
     ld_then (ld_return (ok_or DependencyInvalid (checked_add u64_max base (seg_virtual_address segment)))) (\<lambda>virtual_start.
     ld_then (ld_return (ok_or DependencyInvalid
                (slice_get bytes (seg_file_offset segment) (plus64 (seg_file_offset segment) (seg_file_size segment))))) (\<lambda>payload.
     let segment_pages = div_ceil (seg_memory_size segment) PAGE_SIZE_BYTES in
     ld_then (place_pages map_page payload virtual_start (\<lambda>_. segment_flags segment) 0 segment_pages None) (\<lambda>segment_frames.
       map_dependency_segments map_page bytes base rest
         (case segment_frames of
            None \<Rightarrow> mapped
          | Some f \<Rightarrow> mapped @ [\<lparr>ms_virtual_start = virtual_start, ms_memory_size = segment_pages * PAGE_SIZE_BYTES,
                               ms_frame_base = frame_base f\<rparr>]))))"

definition dependency_tables ::
  "u8 list \<Rightarrow> elf_load_segment list \<Rightarrow> (nat \<times> nat) option \<Rightarrow> (elf_dynamic_info \<times> elf_symbol_table option) load_result" where
  "dependency_tables bytes loads dynamic_range =
     (case dynamic_range of
        None \<Rightarrow> Inr (dynamic_info_default, None)
      | Some (dyn_offset, dyn_size) \<Rightarrow>
          (case parse_dynamic_info (sub_slice bytes dyn_offset (dyn_offset + dyn_size)) of
             Inl _ \<Rightarrow> Inl DependencyInvalid
           | Inr info \<Rightarrow>
               (case resolve_symbol_tables bytes loads info of
                  Inl _ \<Rightarrow> Inl DependencyInvalid
                | Inr tables \<Rightarrow> Inr (info, tables))))"

definition map_elf_dependency ::
  "'m map_page \<Rightarrow> u8 list \<Rightarrow> elf_dependency_plan \<Rightarrow> nat \<Rightarrow> symbol_namespace
   \<Rightarrow> ('m, pending_elf_module \<times> symbol_namespace) load" where
  "map_elf_dependency map_page bytes plan base ns =
     ld_then (map_dependency_segments map_page bytes base (dp_loads plan) []) (\<lambda>mapped.
     ld_then (ld_return (dependency_tables bytes (dp_loads plan) (dp_dynamic_range plan))) (\<lambda>(info, tables).
     ld_then (\<lambda>s. case tables of
                    None \<Rightarrow> Some (Inr ns, s)
                  | Some table \<Rightarrow>
                      (case register_module_exports table base ns of
                         None \<Rightarrow> None
                       | Some (Inl e, _) \<Rightarrow> Some (Inl e, s)
                       | Some (Inr _, ns) \<Rightarrow> Some (Inr ns, s))) (\<lambda>ns.
       ld_return (Inr (\<lparr>pm_image = bytes, pm_loads = dp_loads plan, pm_mapped = mapped, pm_load_base = base,
                        pm_info = info, pm_tables = tables\<rparr>, ns)))))"

section \<open>Flat images\<close>

record loaded_library_record =
  ll_image_id :: nat
  ll_base :: nat
  ll_mapped_bytes :: nat

record loaded_user_image =
  li_entry_point :: nat
  li_image_base :: nat
  li_file_size :: nat
  li_mapped_image_bytes :: nat
  li_user_stack_top :: nat
  li_mapped_stack_bytes :: nat
  li_stack_executable :: bool
  li_libraries :: "loaded_library_record list"

definition initial_stack_pointer :: "loaded_user_image \<Rightarrow> nat" where
  "initial_stack_pointer img = li_user_stack_top img - USER_ENTRY_STACK_BIAS"

type_synonym image_resolver = "nat \<Rightarrow> u8 list option"

definition flat_page_flags :: "flat_image_header \<Rightarrow> nat \<Rightarrow> u8" where
  "flat_page_flags header page_index =
     page_flags (page_index * PAGE_SIZE_BYTES < fh_executable_limit header)
       (saturating_add u64_max (page_index * PAGE_SIZE_BYTES) PAGE_SIZE_BYTES > fh_writable_offset header)"

definition flat_dependency_page_flags :: "flat_image_header \<Rightarrow> nat \<Rightarrow> u8" where
  "flat_dependency_page_flags header page_index =
     page_flags (page_index * PAGE_SIZE_BYTES < fh_executable_limit header)
       (page_index * PAGE_SIZE_BYTES \<ge> fh_writable_offset header)"

text \<open>A placed companion must be page aligned, inside the window and below the stack.\<close>

definition dependency_misplaced :: "flat_image_header \<Rightarrow> nat \<Rightarrow> nat \<Rightarrow> bool" where
  "dependency_misplaced header base bytes \<longleftrightarrow>
     base mod PAGE_SIZE_BYTES \<noteq> 0 \<or> \<not> image_window_contains base bytes \<or>
     plus64 base bytes > minus64 (fh_user_stack_top header) (USER_STACK_PAGES * PAGE_SIZE_BYTES)"

definition load_elf_companion ::
  "'m map_page \<Rightarrow> elf_machine \<Rightarrow> flat_image_header \<Rightarrow> flat_dependency_record \<Rightarrow> u8 list \<Rightarrow> nat \<Rightarrow> symbol_namespace
   \<Rightarrow> ('m, nat \<times> nat \<times> pending_elf_module list \<times> symbol_namespace) load" where
  "load_elf_companion map_page expected_machine header dep bytes cursor ns =
     ld_then (ld_return (plan_elf_dependency bytes expected_machine)) (\<lambda>plan.
     let base = (if fd_base_offset_hint dep \<noteq> 0 then plus64 (fd_base_offset_hint dep) (fh_image_base header) else cursor) in
     if dependency_misplaced header base (dp_span plan) then ld_return (Inl DependencyInvalid)
     else ld_then (map_elf_dependency map_page bytes plan base ns) (\<lambda>(module, ns).
            ld_return (Inr (base, dp_span plan, [module], ns))))"

definition load_flat_companion ::
  "'m map_page \<Rightarrow> flat_image_header \<Rightarrow> flat_dependency_record \<Rightarrow> u8 list \<Rightarrow> nat \<Rightarrow> symbol_namespace
   \<Rightarrow> ('m, nat \<times> nat \<times> pending_elf_module list \<times> symbol_namespace) load" where
  "load_flat_companion map_page header dep bytes cursor ns =
     ld_then (ld_return (case parse_flat_image bytes of Inl _ \<Rightarrow> Inl DependencyInvalid | Inr h \<Rightarrow> Inr h)) (\<lambda>dep_header.
     let base = (if fd_base_offset_hint dep \<noteq> 0 then plus64 (fh_image_base header) (fd_base_offset_hint dep) else cursor) in
     if dependency_misplaced header base (fh_memory_size dep_header) then ld_return (Inl DependencyInvalid)
     else
       let dep_payload = sub_slice bytes (fh_header_len dep_header)
             (plus64 (fh_header_len dep_header) (fh_file_size dep_header)) in
       ld_then (place_pages map_page dep_payload base (flat_dependency_page_flags dep_header) 0
                  (div_ceil (fh_memory_size dep_header) PAGE_SIZE_BYTES) None) (\<lambda>_.
         ld_return (Inr (base, fh_memory_size dep_header, [], ns))))"

fun load_companions ::
  "'m map_page \<Rightarrow> elf_machine \<Rightarrow> image_resolver \<Rightarrow> flat_image_header \<Rightarrow> flat_dependency_record list \<Rightarrow> nat
   \<Rightarrow> loaded_library_record list \<Rightarrow> pending_elf_module list \<Rightarrow> symbol_namespace
   \<Rightarrow> ('m, loaded_library_record list \<times> pending_elf_module list \<times> symbol_namespace) load" where
  "load_companions map_page expected_machine resolve header [] cursor libraries pending ns =
     ld_return (Inr (libraries, pending, ns))"
| "load_companions map_page expected_machine resolve header (dep # deps) cursor libraries pending ns =
     ld_then (ld_return (ok_or DependencyUnavailable (resolve (fd_image_id dep)))) (\<lambda>bytes.
     ld_then (if length bytes \<ge> length ELF_MAGIC \<and> take (length ELF_MAGIC) bytes = ELF_MAGIC
              then load_elf_companion map_page expected_machine header dep bytes cursor ns
              else load_flat_companion map_page header dep bytes cursor ns) (\<lambda>(base, mapped_bytes, modules, ns).
       load_companions map_page expected_machine resolve header deps
         (align_up_u64 (plus64 base mapped_bytes) PAGE_SIZE_BYTES)
         (libraries @ [\<lparr>ll_image_id = fd_image_id dep, ll_base = base, ll_mapped_bytes = mapped_bytes\<rparr>])
         (pending @ modules) ns))"

fun apply_pending :: "pending_elf_module list \<Rightarrow> symbol_namespace \<Rightarrow> ('m, unit) load" where
  "apply_pending [] ns = ld_return (Inr ())"
| "apply_pending (module # rest) ns = ld_then (apply_relocations module ns) (\<lambda>_. apply_pending rest ns)"

definition map_stack :: "'m map_page \<Rightarrow> nat \<Rightarrow> ('m, unit) load" where
  "map_stack map_page stack_bottom =
     ld_then (place_pages map_page [] stack_bottom (\<lambda>_. MAP_WRITABLE OR MAP_USER_ACCESSIBLE) 0 USER_STACK_PAGES None)
       (\<lambda>_. ld_return (Inr ()))"

definition load_flat_image ::
  "'m map_page \<Rightarrow> image_resolver option \<Rightarrow> elf_machine \<Rightarrow> u8 list \<Rightarrow> ('m, loaded_user_image) load" where
  "load_flat_image map_page resolver expected_machine img =
     ld_then (ld_return (parse_flat_image img)) (\<lambda>header.
     let payload = sub_slice img (fh_header_len header) (plus64 (fh_header_len header) (fh_file_size header)) in
     ld_then (place_pages map_page payload (fh_image_base header) (flat_page_flags header) 0
                (div_ceil (fh_memory_size header) PAGE_SIZE_BYTES) None) (\<lambda>_.
     ld_then (if fh_dependencies header = [] then ld_return (Inr ([], [], namespace_empty))
              else ld_then (ld_return (ok_or DependencyUnavailable resolver)) (\<lambda>resolve.
                     load_companions map_page expected_machine resolve header (fh_dependencies header)
                       (align_up_u64 (plus64 (fh_image_base header) (fh_memory_size header)) PAGE_SIZE_BYTES)
                       [] [] namespace_empty)) (\<lambda>(libraries, pending, ns).
     ld_then (apply_pending pending ns) (\<lambda>_.
     ld_then (map_stack map_page (minus64 (fh_user_stack_top header) (USER_STACK_PAGES * PAGE_SIZE_BYTES))) (\<lambda>_.
       ld_return (Inr \<lparr>li_entry_point = plus64 (fh_image_base header) (fh_entry_offset header),
         li_image_base = fh_image_base header, li_file_size = fh_file_size header,
         li_mapped_image_bytes = fh_memory_size header, li_user_stack_top = fh_user_stack_top header,
         li_mapped_stack_bytes = USER_STACK_PAGES * PAGE_SIZE_BYTES, li_stack_executable = False,
         li_libraries = libraries\<rparr>))))))"

section \<open>ELF64 images\<close>

text \<open>The checks of the segments before anything is mapped.\<close>

fun check_image_segments :: "u8 list \<Rightarrow> elf_load_segment list \<Rightarrow> unit load_result" where
  "check_image_segments img [] = Inr ()"
| "check_image_segments img (segment # rest) =
     (if seg_virtual_address segment mod PAGE_SIZE_BYTES \<noteq> 0 \<or> seg_file_size segment > seg_memory_size segment
      then Inl LoadAddressAlignment
      else if slice_get img (seg_file_offset segment) (plus64 (seg_file_offset segment) (seg_file_size segment)) = None
      then Inl Truncated
      else check_image_segments img rest)"

definition highest_segment_end :: "elf_load_segment list \<Rightarrow> nat" where
  "highest_segment_end loads =
     fold max (map (\<lambda>s. saturating_add u64_max (seg_virtual_address s) (seg_memory_size s)) loads) 0"

text \<open>The mapping loop of \<open>load_elf64_image\<close>; it also tracks the lowest start and the highest end.\<close>

fun map_image_segments ::
  "'m map_page \<Rightarrow> u8 list \<Rightarrow> bool \<Rightarrow> nat \<Rightarrow> nat \<Rightarrow> elf_load_segment list \<Rightarrow> mapped_load_segment list \<Rightarrow> nat \<Rightarrow> nat
   \<Rightarrow> ('m, mapped_load_segment list \<times> nat \<times> nat) load" where
  "map_image_segments map_page img position_independent load_base stack_bottom [] mapped image_base image_end =
     ld_return (Inr (mapped, image_base, image_end))"
| "map_image_segments map_page img position_independent load_base stack_bottom (segment # rest) mapped image_base image_end =
     ld_then (ld_return (if position_independent
                         then ok_or UnsupportedHeader (checked_add u64_max load_base (seg_virtual_address segment))
                         else Inr (seg_virtual_address segment))) (\<lambda>virtual_start.
     if \<not> image_window_contains virtual_start (seg_memory_size segment) then ld_return (Inl UnsupportedHeader)
     else if position_independent \<and> plus64 virtual_start (seg_memory_size segment) > stack_bottom
     then ld_return (Inl UnsupportedHeader)
     else
       ld_then (ld_return (ok_or Truncated
                  (slice_get img (seg_file_offset segment) (plus64 (seg_file_offset segment) (seg_file_size segment))))) (\<lambda>payload.
       let segment_pages = div_ceil (seg_memory_size segment) PAGE_SIZE_BYTES in
       ld_then (place_pages map_page payload virtual_start (\<lambda>_. segment_flags segment) 0 segment_pages None) (\<lambda>segment_frames.
         map_image_segments map_page img position_independent load_base stack_bottom rest
           (mapped @
            [case segment_frames of
               None \<Rightarrow> \<lparr>ms_virtual_start = 0, ms_memory_size = 0, ms_frame_base = 0\<rparr>
             | Some f \<Rightarrow> \<lparr>ms_virtual_start = virtual_start, ms_memory_size = segment_pages * PAGE_SIZE_BYTES,
                          ms_frame_base = frame_base f\<rparr>])
           (min image_base virtual_start) (max image_end (plus64 virtual_start (seg_memory_size segment))))))"

text \<open>Exports, then relocations, of an image with a dynamic section.\<close>

definition link_image ::
  "u8 list \<Rightarrow> elf_load_segment list \<Rightarrow> (nat \<times> nat) option \<Rightarrow> nat \<Rightarrow> mapped_load_segment list \<Rightarrow> ('m, unit) load" where
  "link_image img loads dynamic_range load_base mapped s =
     (case dynamic_range of
        None \<Rightarrow> Some (Inr (), s)
      | Some (dyn_offset, dyn_size) \<Rightarrow>
          (case parse_dynamic_info (sub_slice img dyn_offset (dyn_offset + dyn_size)) of
             Inl e \<Rightarrow> Some (Inl e, s)
           | Inr info \<Rightarrow>
               (case resolve_symbol_tables img loads info of
                  Inl e \<Rightarrow> Some (Inl e, s)
                | Inr tables \<Rightarrow>
                    (case (case tables of
                             None \<Rightarrow> Some (Inr (), namespace_empty)
                           | Some table \<Rightarrow> register_module_exports table load_base namespace_empty) of
                       None \<Rightarrow> None
                     | Some (Inl e, _) \<Rightarrow> Some (Inl e, s)
                     | Some (Inr _, ns) \<Rightarrow>
                         (case relocate_tables img loads load_base tables ns (write_mapped_word mapped)
                                 (relocation_tables info) (ld_memory s) of
                            (r, phys) \<Rightarrow> Some (r, s\<lparr>ld_memory := phys\<rparr>))))))"

definition load_elf64_image ::
  "'m map_page \<Rightarrow> elf_machine \<Rightarrow> nat \<Rightarrow> u8 list \<Rightarrow> ('m, loaded_user_image) load" where
  "load_elf64_image map_page expected_machine user_stack_top img =
     (if length img < 64 then ld_return (Inl Truncated)
      else if take 4 img \<noteq> ELF_MAGIC then ld_return (Inl InvalidMagic)
      else if img ! 4 \<noteq> ELF_CLASS_64 \<or> img ! 5 \<noteq> ELF_DATA_LSB \<or> img ! 6 \<noteq> ELF_VERSION_CURRENT
      then ld_return (Inl UnsupportedAbi)
      else
        ld_then (ld_return (read_u16_le img 16)) (\<lambda>elf_type.
        ld_then (ld_return (read_u16_le img 18)) (\<lambda>machine.
        ld_then (ld_return (read_u64_le img 24)) (\<lambda>entry.
        ld_then (ld_return (read_u64_le img 32)) (\<lambda>phoff.
        ld_then (ld_return (read_u16_le img 54)) (\<lambda>phentsize.
        ld_then (ld_return (read_u16_le img 56)) (\<lambda>phnum.
        if machine \<noteq> elf_machine_as_u16 expected_machine then ld_return (Inl UnsupportedMachine)
        else if elf_type \<noteq> ELF_TYPE_EXEC \<and> elf_type \<noteq> ELF_TYPE_DYN then ld_return (Inl UnsupportedAbi)
        else
          let position_independent = (elf_type = ELF_TYPE_DYN);
              stack_bottom = minus64 user_stack_top (USER_STACK_PAGES * PAGE_SIZE_BYTES) in
          if phentsize \<noteq> ELF_PROGRAM_HEADER_LEN \<or> phnum = 0 then ld_return (Inl UnsupportedHeader)
          else if \<not> image_window_contains stack_bottom (USER_STACK_PAGES * PAGE_SIZE_BYTES)
          then ld_return (Inl UnsupportedHeader)
          else
            ld_then (ld_return (scan_programs image_program img phoff phentsize 0 phnum program_scan_new)) (\<lambda>scan.
            ld_then (ld_return (check_interpreter_policy img (ps_interp_range scan))) (\<lambda>_.
            if ps_loads scan = [] then ld_return (Inl UnsupportedHeader)
            else
              ld_then (ld_return (check_image_segments img (ps_loads scan))) (\<lambda>_.
              ld_then (ld_return (if position_independent
                                  then choose_pie_load_base (highest_segment_end (ps_loads scan)) stack_bottom
                                  else Inr 0)) (\<lambda>load_base.
              ld_then (map_image_segments map_page img position_independent load_base stack_bottom (ps_loads scan)
                         [] u64_max 0) (\<lambda>(mapped, image_base, image_end).
              ld_then (link_image img (ps_loads scan) (ps_dynamic_range scan) load_base mapped) (\<lambda>_.
              ld_then (ld_return (if position_independent
                                  then ok_or UnsupportedHeader (checked_add u64_max load_base entry)
                                  else Inr entry)) (\<lambda>entry_point.
              ld_then (map_stack map_page stack_bottom) (\<lambda>_.
                ld_return (Inr \<lparr>li_entry_point = entry_point,
                  li_image_base = (if position_independent then load_base else image_base),
                  li_file_size = length img, li_mapped_image_bytes = minus64 image_end image_base,
                  li_user_stack_top = user_stack_top, li_mapped_stack_bytes = USER_STACK_PAGES * PAGE_SIZE_BYTES,
                  li_stack_executable = ps_gnu_stack_executable scan, li_libraries = []\<rparr>))))))))))))))))"

definition load_image ::
  "'m map_page \<Rightarrow> image_resolver option \<Rightarrow> elf_machine \<Rightarrow> nat \<Rightarrow> u8 list \<Rightarrow> ('m, loaded_user_image) load" where
  "load_image map_page resolver expected_machine user_stack_top img =
     (if length img \<ge> length FLAT_IMAGE_MAGIC \<and> take (length FLAT_IMAGE_MAGIC) img = FLAT_IMAGE_MAGIC
      then load_flat_image map_page resolver expected_machine img
      else if length img \<ge> length ELF_MAGIC \<and> take (length ELF_MAGIC) img = ELF_MAGIC
      then load_elf64_image map_page expected_machine user_stack_top img
      else ld_return (Inl UnsupportedFormat))"

end
