(* ===== verification/Runtime_Library.thy ===== *)
theory Runtime_Library
  imports Image_Loader Object_Model
begin

text \<open>
  Loading a library into a running task: the exports of a task (\<open>TaskSymbolTable\<close>,
  \<open>collect_elf_exports\<close>, \<open>build_task_export_seed\<close>) and the staging of a library in \<open>user/loader.rs\<close>, the
  user runtime of \<open>user/runtime.rs\<close> and the system call \<open>task_load_library\<close> of
  \<open>syscall/handlers/task.rs\<close>, with the mapping hooks of \<open>arch/x86_64/src/user.rs\<close> over a page mapper.
  A \<open>TaskSymbolTable\<close> is its namespace.
\<close>

section \<open>Exports of a task\<close>

definition HOST_ELF_MACHINE :: elf_machine where "HOST_ELF_MACHINE = X86_64"

text \<open>An image of fewer than seven bytes is a panic: the outer \<open>None\<close>, which is also a walk without end.\<close>

definition collect_elf_exports ::
  "u8 list \<Rightarrow> nat \<Rightarrow> symbol_namespace \<Rightarrow> (bool load_result \<times> symbol_namespace) option" where
  "collect_elf_exports img load_base table =
     (if \<not> is_elf64_image img then Some (Inr False, table)
      else if length img < 7 then None
      else if img ! 4 \<noteq> ELF_CLASS_64 \<or> img ! 5 \<noteq> ELF_DATA_LSB \<or> img ! 6 \<noteq> ELF_VERSION_CURRENT
      then Some (Inl UnsupportedAbi, table)
      else case
        (and_then (read_u64_le img 32) (\<lambda>phoff.
         and_then (read_u16_le img 54) (\<lambda>phentsize.
         and_then (read_u16_le img 56) (\<lambda>phnum.
         if phentsize \<noteq> ELF_PROGRAM_HEADER_LEN \<or> phnum = 0 then Inl UnsupportedHeader
         else
           and_then (scan_programs export_program img phoff phentsize 0 phnum program_scan_new) (\<lambda>scan.
           case ps_dynamic_range scan of
             None \<Rightarrow> Inr None
           | Some (dyn_offset, dyn_size) \<Rightarrow>
               and_then (parse_dynamic_info (sub_slice img dyn_offset (dyn_offset + dyn_size))) (\<lambda>info.
               and_then (resolve_symbol_tables img (ps_loads scan) info) (\<lambda>tables. Inr (Some tables)))))))) of
          Inl e \<Rightarrow> Some (Inl e, table)
        | Inr None \<Rightarrow> Some (Inr False, table)
        | Inr (Some None) \<Rightarrow> Some (Inr True, table)
        | Inr (Some (Some tables)) \<Rightarrow>
            (case register_module_exports tables load_base table of
               None \<Rightarrow> None
             | Some (Inl e, table) \<Rightarrow> Some (Inl e, table)
             | Some (Inr _, table) \<Rightarrow> Some (Inr True, table)))"

fun seed_libraries ::
  "image_resolver \<Rightarrow> loaded_library_record list \<Rightarrow> symbol_namespace \<Rightarrow> (unit load_result \<times> symbol_namespace) option" where
  "seed_libraries resolve_image [] table = Some (Inr (), table)"
| "seed_libraries resolve_image (record # rest) table =
     (case resolve_image (ll_image_id record) of
        None \<Rightarrow> seed_libraries resolve_image rest table
      | Some bytes \<Rightarrow>
          if is_elf64_image bytes then
            (case collect_elf_exports bytes (ll_base record) table of
               None \<Rightarrow> None
             | Some (Inl e, table) \<Rightarrow> Some (Inl e, table)
             | Some (Inr _, table) \<Rightarrow> seed_libraries resolve_image rest table)
          else seed_libraries resolve_image rest table)"

definition build_task_export_seed ::
  "image_resolver option \<Rightarrow> u8 list \<Rightarrow> loaded_user_image \<Rightarrow> symbol_namespace load_result option" where
  "build_task_export_seed resolver img loaded =
     (case (if is_elf64_image img then
              (case read_u16_le img 16 of
                 Inl e \<Rightarrow> Some (Inl e, namespace_empty)
               | Inr elf_type \<Rightarrow>
                   collect_elf_exports img (if elf_type = ELF_TYPE_DYN then li_image_base loaded else 0) namespace_empty)
            else Some (Inr False, namespace_empty)) of
        None \<Rightarrow> None
      | Some (Inl e, _) \<Rightarrow> Some (Inl e)
      | Some (Inr _, table) \<Rightarrow>
          if li_libraries loaded = [] then Some (Inr table)
          else case resolver of
                 None \<Rightarrow> Some (Inl DependencyUnavailable)
               | Some resolve_image \<Rightarrow>
                   (case seed_libraries resolve_image (li_libraries loaded) table of
                      None \<Rightarrow> None
                    | Some (Inl e, _) \<Rightarrow> Some (Inl e)
                    | Some (Inr _, table) \<Rightarrow> Some (Inr table)))"

section \<open>Staging a library\<close>

record runtime_segment_frames =
  rs_virtual_start :: nat
  rs_executable :: bool
  rs_writable :: bool
  rs_pages :: "physical_address list"

record staged_runtime_library =
  sl_image :: "u8 list"
  sl_loads :: "elf_load_segment list"
  sl_load_base :: nat
  sl_info :: elf_dynamic_info
  sl_tables :: "elf_symbol_table option"
  sl_segments :: "runtime_segment_frames list"

definition mapping_bytes :: "staged_runtime_library \<Rightarrow> nat" where
  "mapping_bytes staged =
     fold max (map (\<lambda>segment. minus64 (plus64 (rs_virtual_start segment) (length (rs_pages segment) * PAGE_SIZE_BYTES))
                                (sl_load_base staged)) (sl_segments staged)) 0"

definition register_exports ::
  "staged_runtime_library \<Rightarrow> symbol_namespace \<Rightarrow> (unit load_result \<times> symbol_namespace) option" where
  "register_exports staged table =
     (case sl_tables staged of
        None \<Rightarrow> Some (Inr (), table)
      | Some tables \<Rightarrow> register_module_exports tables (sl_load_base staged) table)"

fun write_staged_word :: "runtime_segment_frames list \<Rightarrow> nat \<Rightarrow> nat \<Rightarrow> phys_memory \<Rightarrow> unit load_result \<times> phys_memory" where
  "write_staged_word [] target v phys = (Inl UnsupportedRelocation, phys)"
| "write_staged_word (segment # rest) target v phys =
     (let offset = target - rs_virtual_start segment;
          page = offset div PAGE_SIZE_BYTES;
          in_page = offset mod PAGE_SIZE_BYTES
      in if rs_virtual_start segment \<le> target \<and> page < length (rs_pages segment) \<and> in_page + 8 \<le> PAGE_SIZE_BYTES
         then (Inr (), write_bytes_at phys (rs_pages segment ! page + in_page) (to_le_bytes 8 (of_nat v :: u64)))
         else write_staged_word rest target v phys)"

definition staged_apply_relocations ::
  "staged_runtime_library \<Rightarrow> symbol_namespace \<Rightarrow> phys_memory \<Rightarrow> unit load_result \<times> phys_memory" where
  "staged_apply_relocations staged ns phys =
     relocate_tables (sl_image staged) (sl_loads staged) (sl_load_base staged) (sl_tables staged) ns
       (write_staged_word (sl_segments staged)) (relocation_tables (sl_info staged)) phys"

fun free_frames :: "physical_address list \<Rightarrow> early_frame_allocator \<Rightarrow> early_frame_allocator" where
  "free_frames [] a = a"
| "free_frames (f # fs) a = free_frames fs (snd (free_4kib a f))"

definition release_frames :: "runtime_segment_frames list \<Rightarrow> early_frame_allocator \<Rightarrow> early_frame_allocator" where
  "release_frames segments a = fold (\<lambda>segment. free_frames (rs_pages segment)) segments a"

text \<open>The pages of one segment; \<open>pages\<close> is the local vector of the loop.\<close>

fun stage_pages :: "u8 list \<Rightarrow> nat \<Rightarrow> nat \<Rightarrow> physical_address list \<Rightarrow> ('m, physical_address list) load" where
  "stage_pages payload page_index 0 pages = ld_return (Inr pages)"
| "stage_pages payload page_index (Suc n) pages =
     (let page_offset = page_index * PAGE_SIZE_BYTES;
          page_end = saturating_add u64_max page_offset PAGE_SIZE_BYTES
      in ld_then allocate_zeroed_frame (\<lambda>f.
         ld_then (if page_offset < length payload
                  then copy_into_frame (frame_base f) (sub_slice payload page_offset (min page_end (length payload)))
                  else ld_return (Inr ())) (\<lambda>_.
         stage_pages payload (Suc page_index) n (pages @ [frame_base f]))))"

text \<open>The loop over the segments answers with the segments staged so far, also when it fails.\<close>

fun stage_segments ::
  "u8 list \<Rightarrow> nat \<Rightarrow> elf_load_segment list \<Rightarrow> runtime_segment_frames list \<Rightarrow> 'm loader
   \<Rightarrow> (unit load_result \<times> runtime_segment_frames list \<times> 'm loader) option" where
  "stage_segments img base [] segments s = Some (Inr (), segments, s)"
| "stage_segments img base (segment # rest) segments s =
     (case checked_add u64_max base (seg_virtual_address segment) of
        None \<Rightarrow> Some (Inl UnsupportedHeader, segments, s)
      | Some virtual_start \<Rightarrow>
          (case slice_get img (seg_file_offset segment) (plus64 (seg_file_offset segment) (seg_file_size segment)) of
             None \<Rightarrow> Some (Inl UnsupportedHeader, segments, s)
           | Some payload \<Rightarrow>
               (case stage_pages payload 0 (div_ceil (seg_memory_size segment) PAGE_SIZE_BYTES) [] s of
                  None \<Rightarrow> None
                | Some (Inl e, s) \<Rightarrow> Some (Inl e, segments, s)
                | Some (Inr pages, s) \<Rightarrow>
                    stage_segments img base rest
                      (segments @ [\<lparr>rs_virtual_start = virtual_start,
                                    rs_executable = (seg_flags segment AND ELF_FLAG_EXECUTE \<noteq> 0),
                                    rs_writable = (seg_flags segment AND ELF_FLAG_WRITE \<noteq> 0),
                                    rs_pages = pages\<rparr>]) s)))"

definition stage_runtime_library ::
  "u8 list \<Rightarrow> elf_machine \<Rightarrow> nat \<Rightarrow> ('m, staged_runtime_library) load" where
  "stage_runtime_library img expected_machine base =
     (if \<not> is_elf64_image img then ld_return (Inl UnsupportedFormat)
      else
        ld_then (ld_return (plan_elf_dependency_inner img expected_machine)) (\<lambda>plan.
        ld_then (ld_return (dependency_tables img (dp_loads plan) (dp_dynamic_range plan))) (\<lambda>(info, tables).
        \<lambda>s. case stage_segments img base (dp_loads plan) [] s of
               None \<Rightarrow> None
             | Some (Inl e, segments, s) \<Rightarrow> Some (Inl e, s\<lparr>ld_frames := release_frames segments (ld_frames s)\<rparr>)
             | Some (Inr _, segments, s) \<Rightarrow>
                 Some (Inr \<lparr>sl_image = img, sl_loads = dp_loads plan, sl_load_base = base, sl_info = info,
                            sl_tables = tables, sl_segments = segments\<rparr>, s))))"

section \<open>The user runtime\<close>

definition FIRST_SHARED_MAPPING_BASE :: nat where "FIRST_SHARED_MAPPING_BASE = 0x0000600000000000"
definition MAX_RUNTIME_LIBRARIES :: nat where "MAX_RUNTIME_LIBRARIES = 4"

record runtime_library_record =
  rl_handle :: nat
  rl_base :: nat
  rl_mapped_bytes :: nat

record task_library_state =
  tl_next_handle :: nat
  tl_table :: symbol_namespace
  tl_libraries :: "runtime_library_record list"

definition task_library_state_new :: "symbol_namespace \<Rightarrow> task_library_state" where
  "task_library_state_new seed = \<lparr>tl_next_handle = 1, tl_table = seed, tl_libraries = []\<rparr>"

record address_space_runtime =
  as_root :: physical_address
  as_next_mapping_base :: nat

datatype guest_syscall_abi = NativeAbi | LinuxAbi

record user_runtime_state =
  ur_next_address_space_id :: nat
  ur_tasks :: "task_id \<rightharpoonup> task_exit_status"
  ur_threads :: "thread_id \<rightharpoonup> task_id"
  ur_address_spaces :: "address_space_id \<rightharpoonup> address_space_runtime"
  ur_loaded_images :: "address_space_id \<rightharpoonup> loaded_user_image"
  ur_task_libraries :: "address_space_id \<rightharpoonup> task_library_state"
  ur_syscall_abis :: "address_space_id \<rightharpoonup> guest_syscall_abi"

definition user_runtime_new :: user_runtime_state where
  "user_runtime_new =
     \<lparr>ur_next_address_space_id = 1, ur_tasks = Map.empty, ur_threads = Map.empty, ur_address_spaces = Map.empty,
      ur_loaded_images = Map.empty, ur_task_libraries = Map.empty, ur_syscall_abis = Map.empty\<rparr>"

definition allocate_address_space_id :: "user_runtime_state \<Rightarrow> address_space_id \<times> user_runtime_state" where
  "allocate_address_space_id st =
     (ur_next_address_space_id st,
      st\<lparr>ur_next_address_space_id := saturating_add u64_max (ur_next_address_space_id st) 1\<rparr>)"

definition track_task :: "user_runtime_state \<Rightarrow> task_id \<Rightarrow> thread_id \<Rightarrow> user_runtime_state" where
  "track_task st task_id thread_id =
     st\<lparr>ur_tasks := (ur_tasks st)(task_id \<mapsto> TaskRunning), ur_threads := (ur_threads st)(thread_id \<mapsto> task_id)\<rparr>"

definition register_address_space ::
  "user_runtime_state \<Rightarrow> address_space_id \<Rightarrow> physical_address \<Rightarrow> user_runtime_state" where
  "register_address_space st i root =
     st\<lparr>ur_address_spaces := (ur_address_spaces st)
          (i \<mapsto> \<lparr>as_root = root, as_next_mapping_base = FIRST_SHARED_MAPPING_BASE\<rparr>)\<rparr>"

definition address_space_root :: "user_runtime_state \<Rightarrow> address_space_id \<Rightarrow> physical_address option" where
  "address_space_root st i = map_option as_root (ur_address_spaces st i)"

definition reserve_mapping_range ::
  "user_runtime_state \<Rightarrow> address_space_id \<Rightarrow> nat \<Rightarrow> nat option \<times> user_runtime_state" where
  "reserve_mapping_range st i size_bytes =
     (let size_bytes = max size_bytes PAGE_SIZE_BYTES;
          aligned = times64 (div_ceil size_bytes PAGE_SIZE_BYTES) PAGE_SIZE_BYTES
      in case ur_address_spaces st i of
           None \<Rightarrow> (None, st)
         | Some entry \<Rightarrow>
             let base = as_next_mapping_base entry
             in (Some base,
                 st\<lparr>ur_address_spaces := (ur_address_spaces st)
                      (i \<mapsto> entry\<lparr>as_next_mapping_base := plus64 base aligned\<rparr>)\<rparr>))"

definition contains_reserved_mapping_range ::
  "user_runtime_state \<Rightarrow> address_space_id \<Rightarrow> nat \<Rightarrow> nat \<Rightarrow> bool" where
  "contains_reserved_mapping_range st i start size_bytes =
     (case ur_address_spaces st i of
        None \<Rightarrow> False
      | Some entry \<Rightarrow>
          (case checked_add u64_max start size_bytes of
             None \<Rightarrow> False
           | Some range_end \<Rightarrow> FIRST_SHARED_MAPPING_BASE \<le> start \<and> range_end \<le> as_next_mapping_base entry))"

definition runtime_task_exit_status :: "user_runtime_state \<Rightarrow> task_id \<Rightarrow> task_exit_status option" where
  "runtime_task_exit_status st i = ur_tasks st i"

definition mark_thread_exit :: "user_runtime_state \<Rightarrow> thread_id \<Rightarrow> nat \<Rightarrow> user_runtime_state" where
  "mark_thread_exit st thread_id code =
     (case ur_threads st thread_id of
        None \<Rightarrow> st
      | Some task_id \<Rightarrow> st\<lparr>ur_threads := (ur_threads st)(thread_id := None),
                          ur_tasks := (ur_tasks st)(task_id \<mapsto> Exited code)\<rparr>)"

definition mark_thread_faulted :: "user_runtime_state \<Rightarrow> thread_id \<Rightarrow> nat \<Rightarrow> user_runtime_state" where
  "mark_thread_faulted st thread_id code =
     (case ur_threads st thread_id of
        None \<Rightarrow> st
      | Some task_id \<Rightarrow> st\<lparr>ur_threads := (ur_threads st)(thread_id := None),
                          ur_tasks := (ur_tasks st)(task_id \<mapsto> Faulted code)\<rparr>)"

definition release_address_space :: "user_runtime_state \<Rightarrow> address_space_id \<Rightarrow> user_runtime_state" where
  "release_address_space st i =
     st\<lparr>ur_address_spaces := (ur_address_spaces st)(i := None), ur_loaded_images := (ur_loaded_images st)(i := None),
        ur_task_libraries := (ur_task_libraries st)(i := None), ur_syscall_abis := (ur_syscall_abis st)(i := None)\<rparr>"

definition seed_library_state :: "user_runtime_state \<Rightarrow> address_space_id \<Rightarrow> symbol_namespace \<Rightarrow> user_runtime_state" where
  "seed_library_state st i seed =
     (case ur_task_libraries st i of
        Some _ \<Rightarrow> st
      | None \<Rightarrow> st\<lparr>ur_task_libraries := (ur_task_libraries st)(i \<mapsto> task_library_state_new seed)\<rparr>)"

definition begin_runtime_load ::
  "user_runtime_state \<Rightarrow> address_space_id \<Rightarrow> (nat \<times> symbol_namespace) option \<times> user_runtime_state" where
  "begin_runtime_load st i =
     (case ur_task_libraries st i of
        None \<Rightarrow> (None, st)
      | Some entry \<Rightarrow>
          if length (tl_libraries entry) \<ge> MAX_RUNTIME_LIBRARIES then (None, st)
          else if tl_next_handle entry = u32_max then (None, st)
          else (Some (tl_next_handle entry, tl_table entry),
                st\<lparr>ur_task_libraries := (ur_task_libraries st)(i \<mapsto> entry\<lparr>tl_next_handle := tl_next_handle entry + 1\<rparr>)\<rparr>))"

definition commit_runtime_load ::
  "user_runtime_state \<Rightarrow> address_space_id \<Rightarrow> nat \<Rightarrow> nat \<Rightarrow> nat \<Rightarrow> symbol_namespace \<Rightarrow> bool \<times> user_runtime_state" where
  "commit_runtime_load st i handle base mapped_bytes table =
     (case ur_task_libraries st i of
        None \<Rightarrow> (False, st)
      | Some entry \<Rightarrow>
          (True, st\<lparr>ur_task_libraries := (ur_task_libraries st)
             (i \<mapsto> entry\<lparr>tl_table := table,
                tl_libraries := tl_libraries entry @ [\<lparr>rl_handle = handle, rl_base = base, rl_mapped_bytes = mapped_bytes\<rparr>]\<rparr>)\<rparr>))"

definition runtime_library_known :: "user_runtime_state \<Rightarrow> address_space_id \<Rightarrow> nat \<Rightarrow> bool" where
  "runtime_library_known st i handle =
     (case ur_task_libraries st i of
        None \<Rightarrow> False | Some entry \<Rightarrow> list_ex (\<lambda>record. rl_handle record = handle) (tl_libraries entry))"

definition lookup_task_symbol :: "user_runtime_state \<Rightarrow> address_space_id \<Rightarrow> u8 list \<Rightarrow> nat option" where
  "lookup_task_symbol st i name =
     (case ur_task_libraries st i of None \<Rightarrow> None | Some entry \<Rightarrow> namespace_lookup (tl_table entry) name)"

definition runtime_library_records :: "user_runtime_state \<Rightarrow> address_space_id \<Rightarrow> runtime_library_record list" where
  "runtime_library_records st i = (case ur_task_libraries st i of None \<Rightarrow> [] | Some entry \<Rightarrow> tl_libraries entry)"

definition record_loaded_image :: "user_runtime_state \<Rightarrow> address_space_id \<Rightarrow> loaded_user_image \<Rightarrow> user_runtime_state" where
  "record_loaded_image st i img = st\<lparr>ur_loaded_images := (ur_loaded_images st)(i \<mapsto> img)\<rparr>"

definition loaded_image :: "user_runtime_state \<Rightarrow> address_space_id \<Rightarrow> loaded_user_image option" where
  "loaded_image st i = ur_loaded_images st i"

definition set_syscall_abi :: "user_runtime_state \<Rightarrow> address_space_id \<Rightarrow> guest_syscall_abi \<Rightarrow> user_runtime_state" where
  "set_syscall_abi st i abi = st\<lparr>ur_syscall_abis := (ur_syscall_abis st)(i \<mapsto> abi)\<rparr>"

definition syscall_abi :: "user_runtime_state \<Rightarrow> address_space_id \<Rightarrow> guest_syscall_abi" where
  "syscall_abi st i = (case ur_syscall_abis st i of None \<Rightarrow> NativeAbi | Some abi \<Rightarrow> abi)"

section \<open>The mapping hooks\<close>

text \<open>
  The hooks of \<open>arch/x86_64/src/user.rs\<close> for an address space that is registered, over the operations of
  its page table.
\<close>

record 'm page_table_ops =
  pt_map_page :: "'m map_page"
  pt_unmap_page :: "'m \<Rightarrow> nat \<Rightarrow> (mapping_error + unit) \<times> 'm"
  pt_update_protection :: "'m \<Rightarrow> nat \<Rightarrow> u8 \<Rightarrow> (mapping_error + unit) \<times> 'm"

fun map_memory_object ::
  "'m page_table_ops \<Rightarrow> nat \<Rightarrow> nat \<Rightarrow> physical_address list \<Rightarrow> bool \<Rightarrow> 'm loader \<Rightarrow> (mapping_error + unit) \<times> 'm loader" where
  "map_memory_object ops virtual_start index [] writable s = (Inr (), s)"
| "map_memory_object ops virtual_start index (frame # frames) writable s =
     (case pt_map_page ops (ld_mapper s) (plus64 virtual_start (index * 4096))
             \<lparr>frame_base = frame, frame_size = Size4KiB\<rparr> (page_flags False writable) (ld_frames s) of
        (Inl e, m, a) \<Rightarrow> (Inl e, s\<lparr>ld_mapper := m, ld_frames := a\<rparr>)
      | (Inr _, m, a) \<Rightarrow>
          map_memory_object ops virtual_start (Suc index) frames writable (s\<lparr>ld_mapper := m, ld_frames := a\<rparr>))"

fun unmap_memory_range ::
  "'m page_table_ops \<Rightarrow> nat \<Rightarrow> nat \<Rightarrow> nat \<Rightarrow> 'm loader \<Rightarrow> (mapping_error + unit) \<times> 'm loader" where
  "unmap_memory_range ops virtual_start i 0 s = (Inr (), s)"
| "unmap_memory_range ops virtual_start i (Suc n) s =
     (case pt_unmap_page ops (ld_mapper s) (plus64 virtual_start (i * 4096)) of
        (Inl e, m) \<Rightarrow> (Inl e, s\<lparr>ld_mapper := m\<rparr>)
      | (Inr _, m) \<Rightarrow> unmap_memory_range ops virtual_start (Suc i) n (s\<lparr>ld_mapper := m\<rparr>))"

fun update_memory_protection ::
  "'m page_table_ops \<Rightarrow> nat \<Rightarrow> nat \<Rightarrow> nat \<Rightarrow> u8 \<Rightarrow> 'm loader \<Rightarrow> (mapping_error + unit) \<times> 'm loader" where
  "update_memory_protection ops virtual_start i 0 flags s = (Inr (), s)"
| "update_memory_protection ops virtual_start i (Suc n) flags s =
     (case pt_update_protection ops (ld_mapper s) (plus64 virtual_start (i * 4096))
             (page_flags (mapping_contains flags MAP_EXECUTABLE) (mapping_contains flags MAP_WRITABLE)) of
        (Inl e, m) \<Rightarrow> (Inl e, s\<lparr>ld_mapper := m\<rparr>)
      | (Inr _, m) \<Rightarrow> update_memory_protection ops virtual_start (Suc i) n flags (s\<lparr>ld_mapper := m\<rparr>))"

section \<open>The system call\<close>

datatype syscall_error =
    SysUnsupported | InvalidCall | SysPermissionDenied | SysNotInitialized | InvalidArgument | BufferTooSmall
  | SysQueueEmpty | SysNotFound | SysBusy | SysCapacityExceeded | SysBrokenPipe

definition MAX_RUNTIME_LIBRARY_IMAGE_BYTES :: nat where
  "MAX_RUNTIME_LIBRARY_IMAGE_BYTES = 8 * 1024 * 1024"
definition MAX_RUNTIME_LIBRARY_MAPPING_BYTES :: nat where
  "MAX_RUNTIME_LIBRARY_MAPPING_BYTES = 64 * 1024 * 1024"

fun map_library_load_error :: "load_error \<Rightarrow> syscall_error" where
  "map_library_load_error FrameExhausted = SysCapacityExceeded"
| "map_library_load_error DependencyUnavailable = SysNotFound"
| "map_library_load_error Truncated = InvalidArgument"
| "map_library_load_error InvalidMagic = InvalidArgument"
| "map_library_load_error LoadAddressAlignment = InvalidArgument"
| "map_library_load_error (LoadMapping e) = (if e = mapping_error.Unsupported then InvalidArgument else SysBusy)"
| "map_library_load_error _ = SysUnsupported"

text \<open>Mapping the staged segments; the list of the segments that were mapped is kept on failure too.\<close>

fun map_staged_segments ::
  "'m page_table_ops \<Rightarrow> runtime_segment_frames list \<Rightarrow> (nat \<times> nat) list \<Rightarrow> 'm loader
   \<Rightarrow> (mapping_error + unit) \<times> (nat \<times> nat) list \<times> 'm loader" where
  "map_staged_segments ops [] mapped s = (Inr (), mapped, s)"
| "map_staged_segments ops (segment # rest) mapped s =
     (case map_memory_object ops (rs_virtual_start segment) 0 (rs_pages segment) (rs_writable segment) s of
        (Inl e, s) \<Rightarrow> (Inl e, mapped, s)
      | (Inr _, s) \<Rightarrow>
          let mapped = mapped @ [(rs_virtual_start segment, length (rs_pages segment))] in
          if rs_executable segment then
            (case update_memory_protection ops (rs_virtual_start segment) 0 (length (rs_pages segment)) MAP_EXECUTABLE s of
               (Inl e, s) \<Rightarrow> (Inl e, mapped, s)
             | (Inr _, s) \<Rightarrow> map_staged_segments ops rest mapped s)
          else map_staged_segments ops rest mapped s)"

definition unmap_segments :: "'m page_table_ops \<Rightarrow> (nat \<times> nat) list \<Rightarrow> 'm loader \<Rightarrow> 'm loader" where
  "unmap_segments ops mapped s =
     fold (\<lambda>(virtual_start, pages) s. snd (unmap_memory_range ops virtual_start 0 pages s)) (rev mapped) s"

definition release_staged :: "staged_runtime_library \<Rightarrow> 'm loader \<Rightarrow> 'm loader" where
  "release_staged staged s = s\<lparr>ld_frames := release_frames (sl_segments staged) (ld_frames s)\<rparr>"

text \<open>The end of \<open>handle_task_load_library\<close>, from a staged library on.\<close>

definition link_staged_library ::
  "'m page_table_ops \<Rightarrow> address_space_id \<Rightarrow> nat \<Rightarrow> staged_runtime_library \<Rightarrow> user_runtime_state \<Rightarrow> 'm loader
   \<Rightarrow> ((syscall_error + nat) \<times> user_runtime_state \<times> 'm loader) option" where
  "link_staged_library ops address_space_id base staged runtime s =
     (case begin_runtime_load runtime address_space_id of
        (None, runtime) \<Rightarrow> Some (Inl SysCapacityExceeded, runtime, release_staged staged s)
      | (Some (handle, staging_table), runtime) \<Rightarrow>
          (case register_exports staged staging_table of
             None \<Rightarrow> None
           | Some (Inl error, _) \<Rightarrow> Some (Inl (map_library_load_error error), runtime, release_staged staged s)
           | Some (Inr _, staging_table) \<Rightarrow>
               (case staged_apply_relocations staged staging_table (ld_memory s) of
                  (Inl error, phys) \<Rightarrow>
                    Some (Inl (map_library_load_error error), runtime, release_staged staged (s\<lparr>ld_memory := phys\<rparr>))
                | (Inr _, phys) \<Rightarrow>
                    (case map_staged_segments ops (sl_segments staged) [] (s\<lparr>ld_memory := phys\<rparr>) of
                       (Inl _, mapped, s) \<Rightarrow>
                         Some (Inl SysBusy, runtime, release_staged staged (unmap_segments ops mapped s))
                     | (Inr _, mapped, s) \<Rightarrow>
                         (case commit_runtime_load runtime address_space_id handle base
                                 (mapping_bytes staged) staging_table of
                            (True, runtime) \<Rightarrow> Some (Inr handle, runtime, s)
                          | (False, runtime) \<Rightarrow>
                              Some (Inl SysNotInitialized, runtime,
                                    release_staged staged (unmap_segments ops mapped s)))))))"

text \<open>
  \<open>handle_task_load_library\<close> for a caller with an address space, from the bytes of the memory object on. It
  answers with the handle of the library or an error.
\<close>

definition task_load_library ::
  "'m page_table_ops \<Rightarrow> address_space_id \<Rightarrow> u8 list \<Rightarrow> user_runtime_state \<Rightarrow> 'm loader
   \<Rightarrow> ((syscall_error + nat) \<times> user_runtime_state \<times> 'm loader) option" where
  "task_load_library ops address_space_id image_bytes runtime s =
     (if image_bytes = [] \<or> length image_bytes > MAX_RUNTIME_LIBRARY_IMAGE_BYTES
      then Some (Inl InvalidArgument, runtime, s)
      else if \<not> is_elf64_image image_bytes then Some (Inl InvalidArgument, runtime, s)
      else case plan_elf_dependency image_bytes HOST_ELF_MACHINE of
        Inl error \<Rightarrow> Some (Inl (map_library_load_error error), runtime, s)
      | Inr plan \<Rightarrow>
          let span_bytes = mapping_span_bytes plan in
          if span_bytes = 0 \<or> span_bytes > MAX_RUNTIME_LIBRARY_MAPPING_BYTES
          then Some (Inl InvalidArgument, runtime, s)
          else (case reserve_mapping_range runtime address_space_id span_bytes of
            (None, runtime) \<Rightarrow> Some (Inl SysBusy, runtime, s)
          | (Some base, runtime) \<Rightarrow>
              (case stage_runtime_library image_bytes HOST_ELF_MACHINE base s of
                 None \<Rightarrow> None
               | Some (Inl error, s) \<Rightarrow> Some (Inl (map_library_load_error error), runtime, s)
               | Some (Inr staged, s) \<Rightarrow> link_staged_library ops address_space_id base staged runtime s)))"

definition task_symbol_lookup ::
  "address_space_id \<Rightarrow> nat \<Rightarrow> u8 list \<Rightarrow> user_runtime_state \<Rightarrow> syscall_error + nat" where
  "task_symbol_lookup address_space_id handle name runtime =
     (if handle = 0 \<or> name = [] \<or> length name > SYMBOL_NAME_MAX then Inl InvalidArgument
      else if \<not> runtime_library_known runtime address_space_id handle then Inl SysNotFound
      else ok_or SysNotFound (lookup_task_symbol runtime address_space_id name))"

end
