(* ===== verification/Elf_Link_Props.thy ===== *)
theory Elf_Link_Props
  imports Elf_Linking
begin

text \<open>
  What the linking code of \<open>user/loader.rs\<close> guarantees: when the registration of exports returns, what the
  symbol namespace resolves to after a sequence of registrations, and that the bindings recorded at load time
  are those a call-time resolver would make.
\<close>

section \<open>Hash chains\<close>

lemma register_chain_returns:
  fixes rank :: "nat \<Rightarrow> nat"
  assumes down: "\<And>i. 0 < i \<Longrightarrow> i < st_symbol_count table \<Longrightarrow> hash_chain view i \<noteq> 0 \<Longrightarrow> rank (hash_chain view i) < rank i"
  shows "\<exists>r. register_chain table view load_base index ns = Some r"
proof (induction "rank index" arbitrary: index ns rule: less_induct)
  case less
  have step: "\<exists>a b. register_chain table view load_base (hash_chain view index) ns' = Some (a, b)"
    if "0 < index" "\<not> st_symbol_count table \<le> index" for ns'
  proof (cases "hash_chain view index = 0")
    case True
    then show ?thesis by (simp add: register_chain.simps)
  next
    case False
    then have "rank (hash_chain view index) < rank index" using down that by simp
    from less[OF this] show ?thesis by auto
  qed
  show ?case
    by (subst register_chain.simps) (auto intro!: step split: sum.splits prod.splits)
qed

definition exported :: "elf_symbol \<Rightarrow> bool" where
  "exported symbol \<longleftrightarrow>
     sym_shndx symbol \<noteq> SHN_UNDEF \<and> (sym_binding symbol = STB_GLOBAL \<or> sym_binding symbol = STB_WEAK)"

text \<open>Induction over a walk that returns.\<close>

lemma register_chain_induct [consumes 1, case_names stop unread unnamed full export skip]:
  assumes "register_chain table view load_base i ns = Some (r, ns')"
    and "\<And>ns. P 0 ns (Inr ()) ns"
    and "\<And>i ns e. 0 < i \<Longrightarrow> st_symbol_count table \<le> i \<or> isl (read_symbol_entry (st_symbols table) i) \<Longrightarrow> P i ns (Inl e) ns"
    and "\<And>i ns symbol e. 0 < i \<Longrightarrow> read_symbol_entry (st_symbols table) i = Inr symbol \<Longrightarrow> exported symbol \<Longrightarrow> P i ns (Inl e) ns"
    and "\<And>i ns symbol name e ns1. 0 < i \<Longrightarrow> i < st_symbol_count table \<Longrightarrow> read_symbol_entry (st_symbols table) i = Inr symbol
      \<Longrightarrow> exported symbol \<Longrightarrow> symbol_name_bytes (st_strings table) (sym_name_offset symbol) = Inr name
      \<Longrightarrow> namespace_insert ns name (sym_binding symbol = STB_WEAK) (plus64 load_base (sym_value symbol)) = (Inl e, ns1)
      \<Longrightarrow> P i ns (Inl e) ns1"
    and "\<And>i ns symbol name ns1 r ns'. 0 < i \<Longrightarrow> i < st_symbol_count table \<Longrightarrow> read_symbol_entry (st_symbols table) i = Inr symbol
      \<Longrightarrow> exported symbol \<Longrightarrow> symbol_name_bytes (st_strings table) (sym_name_offset symbol) = Inr name
      \<Longrightarrow> namespace_insert ns name (sym_binding symbol = STB_WEAK) (plus64 load_base (sym_value symbol)) = (Inr (), ns1)
      \<Longrightarrow> P (hash_chain view i) ns1 r ns' \<Longrightarrow> P i ns r ns'"
    and "\<And>i ns symbol r ns'. 0 < i \<Longrightarrow> i < st_symbol_count table \<Longrightarrow> read_symbol_entry (st_symbols table) i = Inr symbol
      \<Longrightarrow> \<not> exported symbol \<Longrightarrow> P (hash_chain view i) ns r ns' \<Longrightarrow> P i ns r ns'"
  shows "P i ns r ns'"
proof -
  have "table = table \<longrightarrow> view = view \<longrightarrow> load_base = load_base \<longrightarrow> P i ns (fst (r, ns')) (snd (r, ns'))"
    by (rule register_chain.raw_induct[where P = "\<lambda>t v b i n y. t = table \<longrightarrow> v = view \<longrightarrow> b = load_base \<longrightarrow> P i n (fst y) (snd y)",
          OF _ assms(1)])
      (use assms(2-) in \<open>auto simp: exported_def not_le split: if_splits sum.splits prod.splits\<close>)
  then show ?thesis by simp
qed

text \<open>A set of symbols the chains never leave.\<close>

definition chain_trap :: "elf_symbol_table \<Rightarrow> sysv_hash_view \<Rightarrow> nat set \<Rightarrow> bool" where
  "chain_trap table view C \<longleftrightarrow>
     (\<forall>i\<in>C. 0 < i \<and> i < st_symbol_count table \<and> hash_chain view i \<in> C \<and>
       (\<exists>symbol. read_symbol_entry (st_symbols table) i = Inr symbol \<and> \<not> exported symbol))"

lemma register_chain_trapped:
  assumes trap: "chain_trap table view C" and "i \<in> C"
  shows "register_chain table view load_base i ns = None"
proof (rule ccontr)
  assume "register_chain table view load_base i ns \<noteq> None"
  then obtain r ns' where "register_chain table view load_base i ns = Some (r, ns')" by auto
  then have "i \<notin> C"
    by (induction rule: register_chain_induct) (use trap in \<open>fastforce simp: chain_trap_def\<close>)+
  with assms show False by blast
qed

definition bucket_start :: "sysv_hash_view \<Rightarrow> nat \<Rightarrow> nat" where
  "bucket_start view b = (case hash_bucket view b of None \<Rightarrow> 0 | Some i \<Rightarrow> i)"

lemma register_chain_0: "register_chain table view load_base 0 ns = Some (Inr (), ns)"
  by (simp add: register_chain.simps)

lemma sysv_chain_returns:
  fixes rank :: "nat \<Rightarrow> nat"
  assumes down: "\<And>i. 0 < i \<Longrightarrow> i < st_symbol_count table \<Longrightarrow> hash_chain view i \<noteq> 0 \<Longrightarrow> rank (hash_chain view i) < rank i"
  shows "\<exists>r. sysv_chain_lookup table view name index = Some r"
proof (induction "rank index" arbitrary: index rule: less_induct)
  case less
  have "\<exists>r. sysv_chain_lookup table view name (hash_chain view index) = Some r"
    if "0 < index" "\<not> st_symbol_count table \<le> index"
  proof (cases "hash_chain view index = 0")
    case True
    then show ?thesis by (simp add: sysv_chain_lookup.simps)
  next
    case False
    then have "rank (hash_chain view index) < rank index" using down that by simp
    from less[OF this] show ?thesis .
  qed
  then show ?case by (subst sysv_chain_lookup.simps) (auto split: sum.splits)
qed

lemma register_buckets_trapped:
  assumes "chain_trap table view C" "bucket_start view (b + k) \<in> C" "\<And>j. j < k \<Longrightarrow> bucket_start view (b + j) = 0" "k < n"
  shows "register_buckets table view load_base b n ns = None"
  using assms(2-4)
proof (induction n arbitrary: b k)
  case (Suc n)
  show ?case
  proof (cases k)
    case 0
    then have "register_chain table view load_base (bucket_start view b) ns = None"
      using register_chain_trapped[OF assms(1)] Suc.prems(1) by simp
    then show ?thesis by (simp add: bucket_start_def)
  next
    case (Suc k')
    have "bucket_start view b = 0" using Suc.prems(2)[of 0] Suc by simp
    then have "register_chain table view load_base (case hash_bucket view b of None \<Rightarrow> 0 | Some i \<Rightarrow> i) ns = Some (Inr (), ns)"
      by (simp add: bucket_start_def register_chain_0)
    moreover have "register_buckets table view load_base (Suc b) n ns = None"
      using Suc.IH[of "Suc b" k'] Suc.prems Suc by (metis Suc_less_eq add_Suc_shift)
    ultimately show ?thesis by simp
  qed
qed simp

lemma register_buckets_returns:
  assumes "\<And>i ns. \<exists>r. register_chain table view load_base i ns = Some r"
  shows "\<exists>r. register_buckets table view load_base b n ns = Some r"
proof (induction n arbitrary: b ns)
  case (Suc n)
  obtain r ns' where "register_chain table view load_base (case hash_bucket view b of None \<Rightarrow> 0 | Some i \<Rightarrow> i) ns = Some (r, ns')"
    using assms by (metis surj_pair)
  then show ?case using Suc by (auto split: sum.splits)
qed simp

section \<open>The symbol namespace as a map\<close>

text \<open>A registration is a name, whether it is weak, and an address.\<close>

type_synonym registration = "u8 list \<times> bool \<times> nat"

definition symbol_name_fits :: "u8 list \<Rightarrow> bool" where
  "symbol_name_fits name \<longleftrightarrow> name \<noteq> [] \<and> length name \<le> SYMBOL_NAME_MAX"

text \<open>The specification: the last strong registration of a name, or else the last weak one.\<close>

definition strongest :: "registration list \<Rightarrow> u8 list \<Rightarrow> (bool \<times> nat) option" where
  "strongest rs name =
     (let own = filter (\<lambda>(n, _, _). n = name) rs; strong = filter (\<lambda>(_, weak, _). \<not> weak) own
      in if strong \<noteq> [] then Some (False, snd (snd (last strong)))
         else if own \<noteq> [] then Some (True, snd (snd (last own)))
         else None)"

text \<open>How one registration changes the definition a name has.\<close>

fun supersede :: "(bool \<times> nat) option \<Rightarrow> bool \<Rightarrow> nat \<Rightarrow> bool \<times> nat" where
  "supersede None weak address = (weak, address)"
| "supersede (Some (old_weak, old)) weak address =
     (if old_weak \<and> \<not> weak then (False, address) else if old_weak = weak then (weak, address) else (old_weak, old))"

fun register_all ::
  "('t \<Rightarrow> u8 list \<Rightarrow> bool \<Rightarrow> nat \<Rightarrow> unit load_result \<times> 't) \<Rightarrow> 't \<Rightarrow> registration list \<Rightarrow> unit load_result \<times> 't" where
  "register_all add t [] = (Inr (), t)"
| "register_all add t ((name, weak, address) # rs) =
     (case add t name weak address of
        (Inl e, t) \<Rightarrow> (Inl e, t)
      | (Inr _, t) \<Rightarrow> register_all add t rs)"

lemma register_all_append:
  "register_all add t (rs @ rs') =
     (case register_all add t rs of (Inl e, t) \<Rightarrow> (Inl e, t) | (Inr _, t) \<Rightarrow> register_all add t rs')"
  by (induction add t rs rule: register_all.induct) (auto split: sum.splits prod.splits)

lemma strongest_Nil [simp]: "strongest [] name = None"
  by (simp add: strongest_def)

lemma strongest_snoc:
  "strongest (rs @ [(n, weak, address)]) name =
     (if n = name then Some (supersede (strongest rs name) weak address) else strongest rs name)"
  by (auto simp: strongest_def Let_def filter_empty_conv)

text \<open>The contract of a table of exports, and what follows from it for a sequence of registrations.\<close>

locale export_table =
  fixes ok :: "'t \<Rightarrow> bool"
    and defs :: "'t \<Rightarrow> u8 list \<rightharpoonup> bool \<times> nat"
    and add :: "'t \<Rightarrow> u8 list \<Rightarrow> bool \<Rightarrow> nat \<Rightarrow> unit load_result \<times> 't"
    and capacity :: nat
  assumes add_ok: "ok t \<Longrightarrow> ok (snd (add t name weak address))"
    and add_ignored: "\<not> symbol_name_fits name \<Longrightarrow> add t name weak address = (Inr (), t)"
    and add_defs: "ok t \<Longrightarrow> symbol_name_fits name \<Longrightarrow> add t name weak address = (Inr (), t')
          \<Longrightarrow> defs t' = (defs t)(name \<mapsto> supersede (defs t name) weak address)"
    and add_fails: "ok t \<Longrightarrow> symbol_name_fits name
          \<Longrightarrow> fst (add t name weak address) = Inr () \<longleftrightarrow> name \<in> dom (defs t) \<or> card (dom (defs t)) < capacity"
    and add_failed: "add t name weak address = (Inl e, t') \<Longrightarrow> t' = t"
    and defs_finite: "ok t \<Longrightarrow> finite (dom (defs t))"
begin

lemma register_all_ok: "ok t \<Longrightarrow> ok (snd (register_all add t rs))"
proof (induction rs arbitrary: t)
  case (Cons r rs)
  obtain name weak address where r: "r = (name, weak, address)" by (cases r)
  obtain res t' where i: "add t name weak address = (res, t')" by fastforce
  have "ok t'" using add_ok[OF Cons.prems, of name weak address] i by simp
  then show ?case using Cons.IH[of t'] r i by (auto split: sum.splits)
qed simp

lemma register_all_resolves:
  assumes "ok t" "defs t = Map.empty" "register_all add t rs = (Inr (), t')" "symbol_name_fits name"
  shows "defs t' name = strongest rs name"
  using assms(3)
proof (induction rs arbitrary: t' rule: rev_induct)
  case Nil
  then show ?case using assms(2) by simp
next
  case (snoc r rs)
  obtain n weak address where r: "r = (n, weak, address)" by (cases r)
  obtain res t1 where t1: "register_all add t rs = (res, t1)" by fastforce
  have res: "res = Inr ()" and last: "add t1 n weak address = (Inr (), t')"
    using snoc.prems t1 r by (auto simp: register_all_append split: sum.splits prod.splits)
  have IH: "defs t1 name = strongest rs name" using snoc.IH t1 res by simp
  have ok1: "ok t1" using register_all_ok[OF assms(1), of rs] t1 by simp
  show ?case
  proof (cases "symbol_name_fits n")
    case True
    then show ?thesis using add_defs[OF ok1 True last] IH r by (auto simp: strongest_snoc)
  next
    case False
    then show ?thesis using add_ignored[OF False, of t1 weak address] last IH r assms(4)
      by (auto simp: strongest_snoc)
  qed
qed

lemma register_all_dom:
  assumes "ok t" "register_all add t rs = (res, t')"
  shows "dom (defs t') \<subseteq> dom (defs t) \<union> (fst ` set rs \<inter> Collect symbol_name_fits)"
  using assms
proof (induction rs arbitrary: t)
  case (Cons r rs)
  obtain n weak address where r: "r = (n, weak, address)" by (cases r)
  obtain res1 t1 where t1: "add t n weak address = (res1, t1)" by fastforce
  have ok1: "ok t1" using add_ok[OF Cons.prems(1), of n weak address] t1 by simp
  show ?case
  proof (cases res1)
    case (Inl e)
    then show ?thesis using Cons.prems(2) r t1 add_failed[OF t1[unfolded Inl]] by auto
  next
    case (Inr u)
    have d1: "dom (defs t1) \<subseteq> dom (defs t) \<union> ({n} \<inter> Collect symbol_name_fits)"
    proof (cases "symbol_name_fits n")
      case True
      have "add t n weak address = (Inr (), t1)" using t1 Inr by simp
      from add_defs[OF Cons.prems(1) True this] True show ?thesis by auto
    next
      case False
      then show ?thesis using add_ignored[OF False, of t weak address] t1 by simp
    qed
    have "register_all add t1 rs = (res, t')" using Cons.prems(2) r t1 Inr by simp
    from Cons.IH[OF ok1 this] d1 r show ?thesis by auto
  qed
qed auto

lemma register_all_succeeds:
  assumes "ok t" "card (dom (defs t) \<union> (fst ` set rs \<inter> Collect symbol_name_fits)) \<le> capacity"
  shows "fst (register_all add t rs) = Inr ()"
  using assms
proof (induction rs arbitrary: t)
  case (Cons r rs)
  obtain n weak address where r: "r = (n, weak, address)" by (cases r)
  obtain res1 t1 where t1: "add t n weak address = (res1, t1)" by fastforce
  have ok1: "ok t1" using add_ok[OF Cons.prems(1), of n weak address] t1 by simp
  have fin: "finite (dom (defs t) \<union> (fst ` set (r # rs) \<inter> Collect symbol_name_fits))"
    using defs_finite[OF Cons.prems(1)] by simp
  have res1: "res1 = Inr ()"
  proof (cases "symbol_name_fits n \<and> n \<notin> dom (defs t)")
    case True
    have "dom (defs t) \<subset> dom (defs t) \<union> (fst ` set (r # rs) \<inter> Collect symbol_name_fits)"
      using True r by auto
    from psubset_card_mono[OF fin this] have "card (dom (defs t)) < capacity" using Cons.prems(2) by simp
    then show ?thesis using add_fails[OF Cons.prems(1)] True t1 by (metis fst_conv)
  next
    case False
    then show ?thesis using add_fails[OF Cons.prems(1)] add_ignored t1 by (metis fst_conv)
  qed
  have "register_all add t [r] = (Inr (), t1)" using r t1 res1 by simp
  from register_all_dom[OF Cons.prems(1) this] r
  have "dom (defs t1) \<union> (fst ` set rs \<inter> Collect symbol_name_fits)
      \<subseteq> dom (defs t) \<union> (fst ` set (r # rs) \<inter> Collect symbol_name_fits)"
    by auto
  then have "card (dom (defs t1) \<union> (fst ` set rs \<inter> Collect symbol_name_fits)) \<le> capacity"
    using card_mono[OF fin] Cons.prems(2) by (meson le_trans)
  from Cons.IH[OF ok1 this] show ?case using r t1 res1 by simp
qed simp

end

text \<open>The namespace of the loader: its first \<open>count\<close> entries are the definitions.\<close>

definition entry_name :: "symbol_entry \<Rightarrow> u8 list" where
  "entry_name entry = take (se_name_len entry) (se_name entry)"

definition namespace_ok :: "symbol_namespace \<Rightarrow> bool" where
  "namespace_ok ns \<longleftrightarrow>
     length (ns_entries ns) = SYMBOL_NAMESPACE_CAPACITY \<and> ns_count ns \<le> SYMBOL_NAMESPACE_CAPACITY \<and>
     list_all (\<lambda>e. length (se_name e) = SYMBOL_NAME_MAX \<and> se_name_len e \<le> SYMBOL_NAME_MAX) (ns_entries ns) \<and>
     distinct (map entry_name (take (ns_count ns) (ns_entries ns)))"

definition namespace_map :: "symbol_namespace \<Rightarrow> u8 list \<rightharpoonup> bool \<times> nat" where
  "namespace_map ns =
     map_of (map (\<lambda>e. (entry_name e, se_weak e, se_address e)) (take (ns_count ns) (ns_entries ns)))"

lemma position_None: "position P xs = None \<longleftrightarrow> (\<forall>x\<in>set xs. \<not> P x)"
  by (induction xs) auto

lemma position_Some: "position P xs = Some i \<Longrightarrow> i < length xs \<and> P (xs ! i)"
  by (induction xs arbitrary: i) (auto split: if_splits)

lemma entry_has_name_iff:
  assumes "length (se_name e) = SYMBOL_NAME_MAX" "se_name_len e \<le> SYMBOL_NAME_MAX"
  shows "entry_has_name name e \<longleftrightarrow> entry_name e = name"
  using assms by (auto simp: entry_has_name_def entry_name_def)

lemma namespace_entry_name:
  assumes "namespace_ok ns" "i < ns_count ns"
  shows "entry_has_name name (ns_entries ns ! i) \<longleftrightarrow> entry_name (ns_entries ns ! i) = name"
  using assms by (intro entry_has_name_iff) (auto simp: namespace_ok_def list_all_length)

lemma namespace_live:
  assumes "namespace_ok ns"
  shows "length (take (ns_count ns) (ns_entries ns)) = ns_count ns"
    "x \<in> set (take (ns_count ns) (ns_entries ns)) \<longleftrightarrow> (\<exists>i < ns_count ns. x = ns_entries ns ! i)"
proof -
  show l: "length (take (ns_count ns) (ns_entries ns)) = ns_count ns"
    using assms by (simp add: namespace_ok_def)
  show "x \<in> set (take (ns_count ns) (ns_entries ns)) \<longleftrightarrow> (\<exists>i < ns_count ns. x = ns_entries ns ! i)"
    unfolding in_set_conv_nth l by auto
qed

lemma namespace_dom: "dom (namespace_map ns) = entry_name ` set (take (ns_count ns) (ns_entries ns))"
  by (simp add: namespace_map_def dom_map_of_conv_image_fst image_image)

lemma namespace_map_nth:
  assumes "namespace_ok ns" "i < ns_count ns"
  shows "namespace_map ns (entry_name (ns_entries ns ! i)) = Some (se_weak (ns_entries ns ! i), se_address (ns_entries ns ! i))"
  unfolding namespace_map_def
proof (rule map_of_is_SomeI)
  show "distinct (map fst (map (\<lambda>e. (entry_name e, se_weak e, se_address e)) (take (ns_count ns) (ns_entries ns))))"
    using assms(1) by (simp add: namespace_ok_def comp_def)
  have "ns_entries ns ! i \<in> set (take (ns_count ns) (ns_entries ns))"
    using namespace_live(2)[OF assms(1)] assms(2) by blast
  then show "(entry_name (ns_entries ns ! i), se_weak (ns_entries ns ! i), se_address (ns_entries ns ! i))
      \<in> set (map (\<lambda>e. (entry_name e, se_weak e, se_address e)) (take (ns_count ns) (ns_entries ns)))"
    by (simp add: rev_image_eqI)
qed

lemma namespace_find_Some:
  assumes "namespace_ok ns" "namespace_find ns name = Some i"
  shows "i < ns_count ns" "entry_name (ns_entries ns ! i) = name"
    "namespace_map ns name = Some (se_weak (ns_entries ns ! i), se_address (ns_entries ns ! i))"
proof -
  show i: "i < ns_count ns" and n: "entry_name (ns_entries ns ! i) = name"
    using assms position_Some[of "entry_has_name name" "take (ns_count ns) (ns_entries ns)" i]
    by (auto simp: namespace_find_def namespace_entry_name)
  show "namespace_map ns name = Some (se_weak (ns_entries ns ! i), se_address (ns_entries ns ! i))"
    using namespace_map_nth[OF assms(1) i] n by simp
qed

lemma namespace_find_None:
  assumes "namespace_ok ns"
  shows "namespace_find ns name = None \<longleftrightarrow> namespace_map ns name = None"
proof -
  have "namespace_map ns name = None \<longleftrightarrow> name \<notin> dom (namespace_map ns)" by auto
  also have "\<dots> \<longleftrightarrow> (\<forall>i < ns_count ns. entry_name (ns_entries ns ! i) \<noteq> name)"
    unfolding namespace_dom image_iff using namespace_live(2)[OF assms] by metis
  also have "\<dots> \<longleftrightarrow> (\<forall>i < ns_count ns. \<not> entry_has_name name (ns_entries ns ! i))"
    using namespace_entry_name[OF assms] by blast
  also have "\<dots> \<longleftrightarrow> namespace_find ns name = None"
    unfolding namespace_find_def position_None using namespace_live(2)[OF assms] by metis
  finally show ?thesis ..
qed

lemma namespace_lookup_map:
  assumes "namespace_ok ns"
  shows "namespace_lookup ns name = map_option snd (namespace_map ns name)"
  using namespace_find_None[OF assms, of name] namespace_find_Some[OF assms, of name]
  by (cases "namespace_find ns name") (auto simp: namespace_lookup_def)

lemma namespace_card:
  assumes "namespace_ok ns"
  shows "card (dom (namespace_map ns)) = ns_count ns"
proof -
  have "card (set (map entry_name (take (ns_count ns) (ns_entries ns)))) = length (map entry_name (take (ns_count ns) (ns_entries ns)))"
    using assms by (intro distinct_card) (simp add: namespace_ok_def)
  then show ?thesis using namespace_live(1)[OF assms] by (simp add: namespace_dom)
qed

lemma namespace_map_eqI:
  assumes "namespace_ok ns"
    and "\<And>i. i < ns_count ns \<Longrightarrow> m (entry_name (ns_entries ns ! i)) = Some (se_weak (ns_entries ns ! i), se_address (ns_entries ns ! i))"
    and "\<And>name. name \<in> dom m \<Longrightarrow> \<exists>i < ns_count ns. name = entry_name (ns_entries ns ! i)"
  shows "namespace_map ns = m"
proof
  fix name
  show "namespace_map ns name = m name"
  proof (cases "\<exists>i < ns_count ns. name = entry_name (ns_entries ns ! i)")
    case True
    then show ?thesis using assms(2) namespace_map_nth[OF assms(1)] by auto
  next
    case False
    then have "name \<notin> dom m" "name \<notin> dom (namespace_map ns)"
      using assms(3) namespace_live(2)[OF assms(1)] by (auto simp: namespace_dom image_iff)
    then show ?thesis by (metis domIff)
  qed
qed

lemma namespace_names_inj:
  assumes "namespace_ok ns" "i < ns_count ns" "j < ns_count ns"
  shows "entry_name (ns_entries ns ! i) = entry_name (ns_entries ns ! j) \<longleftrightarrow> i = j"
  using assms namespace_live(1)[OF assms(1)] nth_eq_iff_index_eq[of "map entry_name (take (ns_count ns) (ns_entries ns))" i j]
  by (simp add: namespace_ok_def)

text \<open>What an insertion does to the map.\<close>

lemma namespace_replace:
  assumes ok: "namespace_ok ns" and i: "i < ns_count ns" and name: "entry_name e = entry_name (ns_entries ns ! i)"
    and len: "length (se_name e) = SYMBOL_NAME_MAX" "se_name_len e \<le> SYMBOL_NAME_MAX"
    and ns': "ns' = ns\<lparr>ns_entries := (ns_entries ns)[i := e]\<rparr>"
  shows "namespace_ok ns'" "namespace_map ns' = (namespace_map ns)(entry_name e \<mapsto> (se_weak e, se_address e))"
proof -
  have li: "i < length (ns_entries ns)" using ok i by (simp add: namespace_ok_def)
  have "map entry_name (take (ns_count ns) ((ns_entries ns)[i := e])) = (map entry_name (take (ns_count ns) (ns_entries ns)))[i := entry_name e]"
    using i by (simp add: take_update_swap map_update)
  also have "\<dots> = map entry_name (take (ns_count ns) (ns_entries ns))"
    using i li name by (intro list_update_same_conv[THEN iffD2]) auto
  finally have names: "map entry_name (take (ns_count ns') (ns_entries ns')) = map entry_name (take (ns_count ns) (ns_entries ns))"
    by (simp add: ns')
  show ok': "namespace_ok ns'"
    using ok len li unfolding namespace_ok_def names by (auto simp: ns' list_all_length nth_list_update)
  show "namespace_map ns' = (namespace_map ns)(entry_name e \<mapsto> (se_weak e, se_address e))"
  proof (rule namespace_map_eqI[OF ok'])
    fix j assume "j < ns_count ns'"
    then have j: "j < ns_count ns" by (simp add: ns')
    show "((namespace_map ns)(entry_name e \<mapsto> (se_weak e, se_address e))) (entry_name (ns_entries ns' ! j)) =
        Some (se_weak (ns_entries ns' ! j), se_address (ns_entries ns' ! j))"
      using namespace_map_nth[OF ok j] namespace_names_inj[OF ok j i] name li
      by (auto simp: ns' nth_list_update)
  next
    fix n assume "n \<in> dom ((namespace_map ns)(entry_name e \<mapsto> (se_weak e, se_address e)))"
    then have "n \<in> set (map entry_name (take (ns_count ns) (ns_entries ns)))"
      using name namespace_live(2)[OF ok] i by (auto simp: namespace_dom)
    then show "\<exists>i < ns_count ns'. n = entry_name (ns_entries ns' ! i)"
      using namespace_live(2)[OF ok'] unfolding names[symmetric] by auto
  qed
qed

lemma namespace_extend:
  assumes ok: "namespace_ok ns" and room: "ns_count ns < SYMBOL_NAMESPACE_CAPACITY" and fresh: "entry_name e \<notin> dom (namespace_map ns)"
    and len: "length (se_name e) = SYMBOL_NAME_MAX" "se_name_len e \<le> SYMBOL_NAME_MAX"
    and ns': "ns' = ns\<lparr>ns_entries := (ns_entries ns)[ns_count ns := e], ns_count := ns_count ns + 1\<rparr>"
  shows "namespace_ok ns'" "namespace_map ns' = (namespace_map ns)(entry_name e \<mapsto> (se_weak e, se_address e))"
proof -
  have li: "ns_count ns < length (ns_entries ns)" using ok room by (simp add: namespace_ok_def)
  have live: "take (ns_count ns') (ns_entries ns') = take (ns_count ns) (ns_entries ns) @ [e]"
    using li by (simp add: ns' take_Suc_conv_app_nth)
  have "distinct (map entry_name (take (ns_count ns') (ns_entries ns')))"
    unfolding live using ok fresh by (auto simp: namespace_ok_def namespace_dom)
  then show ok': "namespace_ok ns'"
    using ok len li room unfolding namespace_ok_def by (auto simp: ns' list_all_length nth_list_update)
  show "namespace_map ns' = (namespace_map ns)(entry_name e \<mapsto> (se_weak e, se_address e))"
  proof (rule namespace_map_eqI[OF ok'])
    fix j assume "j < ns_count ns'"
    then have "j < ns_count ns \<or> j = ns_count ns" by (auto simp: ns')
    then show "((namespace_map ns)(entry_name e \<mapsto> (se_weak e, se_address e))) (entry_name (ns_entries ns' ! j)) =
        Some (se_weak (ns_entries ns' ! j), se_address (ns_entries ns' ! j))"
    proof
      assume j: "j < ns_count ns"
      then have "entry_name (ns_entries ns ! j) \<noteq> entry_name e"
        using namespace_map_nth[OF ok j] fresh by (metis domI)
      then show ?thesis using namespace_map_nth[OF ok j] j by (simp add: ns')
    qed (simp add: ns' li)
  next
    fix n assume "n \<in> dom ((namespace_map ns)(entry_name e \<mapsto> (se_weak e, se_address e)))"
    then have "n \<in> entry_name ` set (take (ns_count ns') (ns_entries ns'))"
      unfolding live by (auto simp: namespace_dom)
    then show "\<exists>i < ns_count ns'. n = entry_name (ns_entries ns' ! i)"
      using namespace_live(2)[OF ok'] by auto
  qed
qed

lemma namespace_insert_effect:
  assumes ok: "namespace_ok ns" and fits: "symbol_name_fits name" and ins: "namespace_insert ns name weak address = (r, ns')"
  shows "namespace_ok ns'"
    "r = Inr () \<longleftrightarrow> name \<in> dom (namespace_map ns) \<or> ns_count ns < SYMBOL_NAMESPACE_CAPACITY"
    "r = Inr () \<Longrightarrow> namespace_map ns' = (namespace_map ns)(name \<mapsto> supersede (namespace_map ns name) weak address)"
    "r \<noteq> Inr () \<Longrightarrow> ns' = ns"
proof -
  have "namespace_ok ns' \<and> (r = Inr () \<longleftrightarrow> name \<in> dom (namespace_map ns) \<or> ns_count ns < SYMBOL_NAMESPACE_CAPACITY) \<and>
      (r = Inr () \<longrightarrow> namespace_map ns' = (namespace_map ns)(name \<mapsto> supersede (namespace_map ns name) weak address)) \<and>
      (r \<noteq> Inr () \<longrightarrow> ns' = ns)"
  proof (cases "namespace_find ns name")
    case None
    then have fresh: "name \<notin> dom (namespace_map ns)" using namespace_find_None[OF ok] by (auto simp: domIff)
    show ?thesis
    proof (cases "ns_count ns = SYMBOL_NAMESPACE_CAPACITY")
      case True
      then show ?thesis using None fresh fits ins ok by (auto simp: namespace_insert_def symbol_name_fits_def)
    next
      case False
      define old where "old = ns_entries ns ! ns_count ns"
      define e where "e = old\<lparr>se_name_len := length name, se_name := name @ drop (length name) (se_name old),
        se_address := address, se_weak := weak\<rparr>"
      have room: "ns_count ns < SYMBOL_NAMESPACE_CAPACITY" using False ok by (simp add: namespace_ok_def)
      have "length (se_name old) = SYMBOL_NAME_MAX" using ok room by (simp add: old_def namespace_ok_def list_all_length)
      then have e: "entry_name e = name" "length (se_name e) = SYMBOL_NAME_MAX" "se_name_len e \<le> SYMBOL_NAME_MAX"
        using fits by (auto simp: e_def entry_name_def symbol_name_fits_def)
      have r: "r = Inr ()" and ns': "ns' = ns\<lparr>ns_entries := (ns_entries ns)[ns_count ns := e], ns_count := ns_count ns + 1\<rparr>"
        using ins None False fits by (auto simp: namespace_insert_def symbol_name_fits_def Let_def e_def old_def)
      have "namespace_map ns name = None" using fresh by (metis domIff)
      then show ?thesis using namespace_extend[OF ok room _ e(2,3) ns'] e(1) fresh r room by (simp add: e_def)
    qed
  next
    case (Some i)
    note i = namespace_find_Some[OF ok Some]
    define old where "old = ns_entries ns ! i"
    define e where "e = (if se_weak old \<and> \<not> weak then old\<lparr>se_weak := False, se_address := address\<rparr>
      else if se_weak old = weak then old\<lparr>se_address := address\<rparr> else old)"
    have "length (se_name old) = SYMBOL_NAME_MAX" "se_name_len old \<le> SYMBOL_NAME_MAX"
      using ok i(1) by (auto simp: old_def namespace_ok_def list_all_length)
    then have e: "entry_name e = entry_name (ns_entries ns ! i)" "length (se_name e) = SYMBOL_NAME_MAX" "se_name_len e \<le> SYMBOL_NAME_MAX"
      by (auto simp: e_def entry_name_def old_def)
    have r: "r = Inr ()" and ns': "ns' = ns\<lparr>ns_entries := (ns_entries ns)[i := e]\<rparr>"
      using ins Some fits by (auto simp: namespace_insert_def symbol_name_fits_def Let_def e_def old_def)
    have "(se_weak e, se_address e) = supersede (namespace_map ns name) weak address"
      using i(3) by (auto simp: e_def old_def)
    then show ?thesis using namespace_replace[OF ok i(1) e ns'] e(1) i(2,3) r by auto
  qed
  then show "namespace_ok ns'"
    "r = Inr () \<longleftrightarrow> name \<in> dom (namespace_map ns) \<or> ns_count ns < SYMBOL_NAMESPACE_CAPACITY"
    "r = Inr () \<Longrightarrow> namespace_map ns' = (namespace_map ns)(name \<mapsto> supersede (namespace_map ns name) weak address)"
    "r \<noteq> Inr () \<Longrightarrow> ns' = ns"
    by auto
qed

lemma namespace_insert_ignored: "\<not> symbol_name_fits name \<Longrightarrow> namespace_insert ns name weak address = (Inr (), ns)"
  by (auto simp: symbol_name_fits_def namespace_insert_def)

lemma namespace_insert_failed: "namespace_insert ns name weak address = (Inl e, ns') \<Longrightarrow> ns' = ns"
  by (auto simp: namespace_insert_def Let_def split: if_splits option.splits)

interpretation exports: export_table namespace_ok namespace_map namespace_insert SYMBOL_NAMESPACE_CAPACITY
proof
  fix ns name weak address
  assume ok: "namespace_ok ns"
  show "namespace_ok (snd (namespace_insert ns name weak address))"
    using namespace_insert_effect(1)[OF ok] namespace_insert_ignored ok by (metis prod.collapse snd_conv)
  show "finite (dom (namespace_map ns))" by (simp add: namespace_dom)
  assume fits: "symbol_name_fits name"
  show "fst (namespace_insert ns name weak address) = Inr () \<longleftrightarrow>
      name \<in> dom (namespace_map ns) \<or> card (dom (namespace_map ns)) < SYMBOL_NAMESPACE_CAPACITY"
    using namespace_insert_effect(2)[OF ok fits] namespace_card[OF ok] by (metis prod.collapse)
qed (use namespace_insert_effect(3) namespace_insert_ignored namespace_insert_failed in blast)+

lemma namespace_empty_ok: "namespace_ok namespace_empty" "namespace_map namespace_empty = Map.empty"
  by (auto simp: namespace_ok_def namespace_empty_def namespace_map_def list_all_length)

section \<open>What a module registers\<close>

text \<open>The symbols on the chain that starts at an index, in chain order.\<close>

inductive chain_walk :: "elf_symbol_table \<Rightarrow> sysv_hash_view \<Rightarrow> nat \<Rightarrow> nat list \<Rightarrow> bool" for table view where
  chain_end: "chain_walk table view 0 []"
| chain_link: "0 < i \<Longrightarrow> i < st_symbol_count table \<Longrightarrow> chain_walk table view (hash_chain view i) is
    \<Longrightarrow> chain_walk table view i (i # is)"

definition export_of :: "elf_symbol_table \<Rightarrow> nat \<Rightarrow> nat \<Rightarrow> registration option" where
  "export_of table load_base i =
     (case read_symbol_entry (st_symbols table) i of
        Inl _ \<Rightarrow> None
      | Inr symbol \<Rightarrow>
          if exported symbol then
            (case symbol_name_bytes (st_strings table) (sym_name_offset symbol) of
               Inl _ \<Rightarrow> None
             | Inr name \<Rightarrow> Some (name, sym_binding symbol = STB_WEAK, plus64 load_base (sym_value symbol)))
          else None)"

definition exports_of :: "elf_symbol_table \<Rightarrow> nat \<Rightarrow> nat list \<Rightarrow> registration list" where
  "exports_of table load_base is = List.map_filter (export_of table load_base) is"

lemma exports_of_simps [simp]:
  "exports_of table load_base [] = []"
  "exports_of table load_base (i # is) =
     (case export_of table load_base i of None \<Rightarrow> [] | Some r \<Rightarrow> [r]) @ exports_of table load_base is"
  "exports_of table load_base (is @ js) = exports_of table load_base is @ exports_of table load_base js"
  by (auto simp: exports_of_def map_filter_simps map_filter_def split: option.splits)

lemma register_chain_walks:
  assumes "register_chain table view load_base i ns = Some (Inr (), ns')"
  shows "\<exists>is. chain_walk table view i is \<and> register_all namespace_insert ns (exports_of table load_base is) = (Inr (), ns')"
proof -
  have "r = Inr () \<longrightarrow> (\<exists>is. chain_walk table view i is \<and> register_all namespace_insert ns (exports_of table load_base is) = (Inr (), ns'))"
    if "register_chain table view load_base i ns = Some (r, ns')" for r
    using that
  proof (induction rule: register_chain_induct)
    case (stop ns)
    then show ?case by (auto intro: chain_end)
  next
    case (export i ns symbol name ns1 r ns')
    show ?case
    proof
      assume "r = Inr ()"
      then obtain walk where "chain_walk table view (hash_chain view i) walk"
          "register_all namespace_insert ns1 (exports_of table load_base walk) = (Inr (), ns')"
        using export.IH by blast
      with export.hyps show "\<exists>is. chain_walk table view i is \<and> register_all namespace_insert ns (exports_of table load_base is) = (Inr (), ns')"
        by (intro exI[of _ "i # walk"]) (auto intro: chain_link simp: export_of_def)
    qed
  next
    case (skip i ns symbol r ns')
    show ?case
    proof
      assume "r = Inr ()"
      then obtain walk where "chain_walk table view (hash_chain view i) walk"
          "register_all namespace_insert ns (exports_of table load_base walk) = (Inr (), ns')"
        using skip.IH by blast
      with skip.hyps show "\<exists>is. chain_walk table view i is \<and> register_all namespace_insert ns (exports_of table load_base is) = (Inr (), ns')"
        by (intro exI[of _ "i # walk"]) (auto intro: chain_link simp: export_of_def)
    qed
  qed auto
  with assms show ?thesis by blast
qed

lemma register_chain_ok:
  assumes "register_chain table view load_base i ns = Some (r, ns')" "namespace_ok ns"
  shows "namespace_ok ns'"
  using assms
proof (induction rule: register_chain_induct)
  case (full i ns symbol name e ns1)
  then show ?case using exports.add_ok by (metis snd_conv)
next
  case (export i ns symbol name ns1 r ns')
  then show ?case using exports.add_ok by (metis snd_conv)
qed auto

lemma register_buckets_walks:
  assumes "register_buckets table view load_base b n ns = Some (Inr (), ns')"
  shows "\<exists>walks. list_all2 (chain_walk table view) (map (bucket_start view) [b..<b + n]) walks \<and>
    register_all namespace_insert ns (exports_of table load_base (concat walks)) = (Inr (), ns')"
  using assms
proof (induction n arbitrary: b ns)
  case (Suc n)
  obtain ns1 where c: "register_chain table view load_base (bucket_start view b) ns = Some (Inr (), ns1)"
    and rest: "register_buckets table view load_base (Suc b) n ns1 = Some (Inr (), ns')"
    using Suc.prems by (auto simp: bucket_start_def split: option.splits sum.splits prod.splits)
  obtain w where w: "chain_walk table view (bucket_start view b) w"
      "register_all namespace_insert ns (exports_of table load_base w) = (Inr (), ns1)"
    using register_chain_walks[OF c] by blast
  obtain ws where ws: "list_all2 (chain_walk table view) (map (bucket_start view) [Suc b..<Suc b + n]) ws"
      "register_all namespace_insert ns1 (exports_of table load_base (concat ws)) = (Inr (), ns')"
    using Suc.IH[OF rest] by blast
  have "[b..<b + Suc n] = b # [Suc b..<Suc b + n]" by (simp add: upt_conv_Cons)
  then show ?case using w ws by (intro exI[of _ "w # ws"]) (simp add: register_all_append)
qed auto

lemma register_buckets_ok:
  assumes "register_buckets table view load_base b n ns = Some (r, ns')" "namespace_ok ns"
  shows "namespace_ok ns'"
  using assms
  by (induction table view load_base b n ns rule: register_buckets.induct)
    (auto dest: register_chain_ok split: option.splits sum.splits prod.splits)

lemma register_module_exports_ok:
  assumes "register_module_exports table load_base ns = Some (r, ns')" "namespace_ok ns"
  shows "namespace_ok ns'"
  using assms by (auto simp: register_module_exports_def dest: register_buckets_ok split: option.splits)

definition well_named :: "elf_symbol_table \<Rightarrow> nat \<Rightarrow> bool" where
  "well_named table i \<longleftrightarrow>
     (case read_symbol_entry (st_symbols table) i of
        Inl _ \<Rightarrow> False
      | Inr symbol \<Rightarrow> exported symbol \<longrightarrow> \<not> isl (symbol_name_bytes (st_strings table) (sym_name_offset symbol)))"

lemma register_chain_along:
  assumes "chain_walk table view i walk" "list_all (well_named table) walk"
    "register_all namespace_insert ns (exports_of table load_base walk) = (Inr (), ns')"
  shows "register_chain table view load_base i ns = Some (Inr (), ns')"
  using assms
proof (induction arbitrary: ns rule: chain_walk.induct)
  case chain_end
  then show ?case by (simp add: register_chain_0)
next
  case (chain_link i "is")
  obtain symbol where symbol: "read_symbol_entry (st_symbols table) i = Inr symbol"
    "exported symbol \<Longrightarrow> \<not> isl (symbol_name_bytes (st_strings table) (sym_name_offset symbol))"
    using chain_link.prems(1) by (auto simp: well_named_def split: sum.splits)
  show ?case
  proof (cases "exported symbol")
    case False
    then have "register_chain table view load_base (hash_chain view i) ns = Some (Inr (), ns')"
      using chain_link symbol by (simp add: export_of_def)
    then show ?thesis using chain_link.hyps symbol(1) False
      by (subst register_chain.simps) (auto simp: exported_def)
  next
    case True
    then obtain name where name: "symbol_name_bytes (st_strings table) (sym_name_offset symbol) = Inr name"
      using symbol(2) by (cases "symbol_name_bytes (st_strings table) (sym_name_offset symbol)") auto
    obtain ns1 where ns1: "namespace_insert ns name (sym_binding symbol = STB_WEAK) (plus64 load_base (sym_value symbol)) = (Inr (), ns1)"
        "register_all namespace_insert ns1 (exports_of table load_base is) = (Inr (), ns')"
      using chain_link.prems(2) symbol(1) name True by (auto simp: export_of_def split: sum.splits prod.splits)
    have "register_chain table view load_base (hash_chain view i) ns1 = Some (Inr (), ns')"
      using chain_link.IH[OF _ ns1(2)] chain_link.prems(1) by simp
    then show ?thesis using chain_link.hyps symbol(1) name True ns1(1)
      by (subst register_chain.simps) (simp add: exported_def)
  qed
qed

section \<open>Properties\<close>



text \<open>Three symbols: the null symbol, a weak and a strong definition of the name \<open>f\<close>, on one chain.\<close>

definition sample_view :: "u8 list \<Rightarrow> sysv_hash_view" where
  "sample_view links = \<lparr>hv_buckets = [1, 0, 0, 0], hv_chains = links, hv_bucket_count = 1\<rparr>"

definition sample_table :: "u8 list \<Rightarrow> u8 \<Rightarrow> elf_symbol_table" where
  "sample_table links shndx =
     \<lparr>st_symbols =
        [0, 0, 0, 0, 0, 0, 0, 0, 0, 0, 0, 0, 0, 0, 0, 0, 0, 0, 0, 0, 0, 0, 0, 0,
         1, 0, 0, 0, 0x20, 0, shndx, 0, 5, 0, 0, 0, 0, 0, 0, 0, 0, 0, 0, 0, 0, 0, 0, 0,
         1, 0, 0, 0, 0x10, 0, shndx, 0, 9, 0, 0, 0, 0, 0, 0, 0, 0, 0, 0, 0, 0, 0, 0, 0],
      st_symbol_count = 3, st_strings = [0, 0x66, 0], st_hash = Some (sample_view links)\<rparr>"

definition straight_chain :: "u8 list" where
  "straight_chain = [0, 0, 0, 0, 2, 0, 0, 0, 0, 0, 0, 0]"

definition cyclic_chain :: "u8 list" where
  "cyclic_chain = [0, 0, 0, 0, 2, 0, 0, 0, 1, 0, 0, 0]"

lemmas image_eval = slice_get_def sub_slice_def times64_def wrapping_add_def u64_max_def read_u16_le_def read_u32_le_def
  read_u64_le_def from_le_bytes_def ok_or_def

lemma sample_chain:
  "hash_chain (sample_view straight_chain) 1 = 2" "hash_chain (sample_view straight_chain) 2 = 0"
  "hash_chain (sample_view cyclic_chain) 1 = 2" "hash_chain (sample_view cyclic_chain) 2 = 1"
  "bucket_start (sample_view links) 0 = 1"
  by (simp_all add: hash_chain_def hash_bucket_def bucket_start_def sample_view_def straight_chain_def cyclic_chain_def image_eval)

lemma sample_symbols:
  "read_symbol_entry (st_symbols (sample_table links 1)) 1 = Inr \<lparr>sym_name_offset = 1, sym_binding = 2, sym_shndx = 1, sym_value = 5\<rparr>"
  "read_symbol_entry (st_symbols (sample_table links 1)) 2 = Inr \<lparr>sym_name_offset = 1, sym_binding = 1, sym_shndx = 1, sym_value = 9\<rparr>"
  "read_symbol_entry (st_symbols (sample_table links 0)) 1 = Inr \<lparr>sym_name_offset = 1, sym_binding = 2, sym_shndx = 0, sym_value = 5\<rparr>"
  "read_symbol_entry (st_symbols (sample_table links 0)) 2 = Inr \<lparr>sym_name_offset = 1, sym_binding = 1, sym_shndx = 0, sym_value = 9\<rparr>"
  by (simp_all add: read_symbol_entry_def sample_table_def ELF_SYMBOL_ENTRY_LEN_def image_eval)

lemma sample_name: "symbol_name_bytes (st_strings (sample_table links shndx)) 1 = Inr [0x66]"
  by (simp add: sample_table_def symbol_name_bytes_def)

lemma sample_exports: "exports_of (sample_table straight_chain 1) 4096 [1, 2] = [([0x66], True, 4101), ([0x66], False, 4105)]"
  using sample_symbols(1,2)[of straight_chain] sample_name[of straight_chain 1]
  by (simp add: export_of_def exported_def SHN_UNDEF_def STB_WEAK_def STB_GLOBAL_def wrapping_add_def u64_max_def)

lemma sample_registered:
  "\<exists>ns. register_module_exports (sample_table straight_chain 1) 4096 namespace_empty = Some (Inr (), ns)"
proof -
  let ?t = "sample_table straight_chain 1" and ?v = "sample_view straight_chain"
  have count: "st_symbol_count ?t = 3" by (simp add: sample_table_def)
  have walk: "chain_walk ?t ?v 1 [1, 2]"
    using chain_link[of 1 ?t ?v "[2]"] chain_link[of 2 ?t ?v "[]"] chain_end[of ?t ?v] sample_chain(1,2) count by simp
  have named: "list_all (well_named ?t) [1, 2]"
    using sample_symbols(1,2) sample_name by (simp add: well_named_def)
  have "fst (register_all namespace_insert namespace_empty (exports_of ?t 4096 [1, 2])) = Inr ()"
    unfolding sample_exports
    by (rule exports.register_all_succeeds[OF namespace_empty_ok(1)])
      (simp add: namespace_empty_ok(2) symbol_name_fits_def SYMBOL_NAMESPACE_CAPACITY_def SYMBOL_NAME_MAX_def)
  then obtain ns where "register_all namespace_insert namespace_empty (exports_of ?t 4096 [1, 2]) = (Inr (), ns)"
    by (metis prod.collapse)
  from register_chain_along[OF walk named this] have "register_chain ?t ?v 4096 1 namespace_empty = Some (Inr (), ns)" .
  moreover have "(case hash_bucket ?v 0 of None \<Rightarrow> 0 | Some index \<Rightarrow> index) = 1"
    using sample_chain(5) by (simp add: bucket_start_def)
  moreover have "st_hash ?t = Some ?v" "hv_bucket_count ?v = Suc 0" by (simp_all add: sample_table_def sample_view_def)
  ultimately show ?thesis by (simp add: register_module_exports_def)
qed



section \<open>Relocation entries\<close>

definition word_at :: "u8 list \<Rightarrow> nat \<Rightarrow> nat" where
  "word_at bytes offset = (case read_u64_le bytes offset of Inl _ \<Rightarrow> 0 | Inr v \<Rightarrow> v)"

definition rela_entry :: "u8 list \<Rightarrow> nat \<Rightarrow> nat \<times> nat \<times> nat" where
  "rela_entry rela k =
     (word_at rela (k * ELF_RELA_ENTRY_LEN), word_at rela (k * ELF_RELA_ENTRY_LEN + 8), word_at rela (k * ELF_RELA_ENTRY_LEN + 16))"

definition binds_symbol :: "nat \<times> nat \<times> nat \<Rightarrow> bool" where
  "binds_symbol entry \<longleftrightarrow>
     fst (snd entry) mod 2 ^ 32 = ELF_RELOC_GLOB_DAT \<or> fst (snd entry) mod 2 ^ 32 = ELF_RELOC_JUMP_SLOT"

lemma relocation_stepE:
  assumes "apply_relocation_entries rela load_base consumer ns write_word k (Suc n) latch w = (r, latch', w')"
  obtains (stopped) e where "r = Inl e" "latch' = latch" "w' = w \<or> (\<exists>target v. w' = snd (write_word target v w))"
  | (relative) target v w1 where "write_word target v w = (Inr (), w1)" "\<not> binds_symbol (rela_entry rela k)"
      "apply_relocation_entries rela load_base consumer ns write_word (Suc k) n latch w1 = (r, latch', w')"
  | (symbol) r_offset r_info addend v w1 where "rela_entry rela k = (r_offset, r_info, addend)" "binds_symbol (rela_entry rela k)"
      "relocation_value consumer load_base (r_info div 2 ^ 32) ns = Inr v"
      "write_word (plus64 r_offset load_base) v w = (Inr (), w1)"
      "apply_relocation_entries rela load_base consumer ns write_word (Suc k) n
        (latch @ [\<lparr>pl_got_address = plus64 r_offset load_base, pl_resolved_value = v, pl_symbol_index = r_info div 2 ^ 32\<rparr>]) w1 = (r, latch', w')"
proof (cases "and_then (read_u64_le rela (k * ELF_RELA_ENTRY_LEN)) (\<lambda>r_offset.
              and_then (read_u64_le rela (k * ELF_RELA_ENTRY_LEN + 8)) (\<lambda>r_info.
              and_then (read_u64_le rela (k * ELF_RELA_ENTRY_LEN + 16)) (\<lambda>addend. Inr (r_offset, r_info, addend))))")
  case (Inl e)
  then have "Inl e = r" "latch = latch'" "w = w'" using assms by simp_all
  then show thesis using stopped by blast
next
  case (Inr entry)
  obtain r_offset r_info addend where entry: "entry = (r_offset, r_info, addend)" by (cases entry)
  have rela: "rela_entry rela k = (r_offset, r_info, addend)"
    using Inr entry by (auto simp: rela_entry_def word_at_def and_then_Inr)
  have step: "(r, latch', w') =
      (if r_info mod 2 ^ 32 = ELF_RELOC_RELATIVE then
         (case write_word (plus64 r_offset load_base) (plus64 load_base addend) w of
            (Inl e, w) \<Rightarrow> (Inl e, latch, w)
          | (Inr _, w) \<Rightarrow> apply_relocation_entries rela load_base consumer ns write_word (Suc k) n latch w)
       else if r_info mod 2 ^ 32 = ELF_RELOC_GLOB_DAT \<or> r_info mod 2 ^ 32 = ELF_RELOC_JUMP_SLOT then
         (case relocation_value consumer load_base (r_info div 2 ^ 32) ns of
            Inl e \<Rightarrow> (Inl e, latch, w)
          | Inr v \<Rightarrow>
              (case write_word (plus64 r_offset load_base) v w of
                 (Inl e, w) \<Rightarrow> (Inl e, latch, w)
               | (Inr _, w) \<Rightarrow>
                   apply_relocation_entries rela load_base consumer ns write_word (Suc k) n
                     (latch @ [\<lparr>pl_got_address = plus64 r_offset load_base, pl_resolved_value = v,
                                   pl_symbol_index = r_info div 2 ^ 32\<rparr>]) w))
       else (Inl UnsupportedRelocation, latch, w))"
    using assms Inr by (simp only: apply_relocation_entries.simps Let_def entry prod.case sum.case)
  obtain res1 w1 where rel: "write_word (plus64 r_offset load_base) (plus64 load_base addend) w = (res1, w1)" by fastforce
  show thesis
  proof (cases "r_info mod 2 ^ 32 = ELF_RELOC_RELATIVE")
    case True
    then have "\<not> binds_symbol (rela_entry rela k)"
      by (simp add: rela binds_symbol_def ELF_RELOC_RELATIVE_def ELF_RELOC_GLOB_DAT_def ELF_RELOC_JUMP_SLOT_def)
    then show thesis using step True rel relative[of "plus64 r_offset load_base" "plus64 load_base addend" w1] stopped
      by (cases res1) (auto, metis snd_conv)
  next
    case False
    show thesis
    proof (cases "binds_symbol (rela_entry rela k)")
      case True
      show thesis
      proof (cases "relocation_value consumer load_base (r_info div 2 ^ 32) ns")
        case (Inl e)
        then show thesis using step False True stopped by (auto simp: rela binds_symbol_def)
      next
        case (Inr v)
        obtain res2 w2 where "write_word (plus64 r_offset load_base) v w = (res2, w2)" by fastforce
        then show thesis using step False True Inr stopped symbol[OF rela True Inr]
          by (cases res2) (auto simp: rela binds_symbol_def, (metis snd_conv)+)
      qed
    next
      case False
      then show thesis using step \<open>r_info mod 2 ^ 32 \<noteq> ELF_RELOC_RELATIVE\<close> stopped by (auto simp: rela binds_symbol_def)
    qed
  qed
qed

text \<open>
  What the relocation loop needs from the function it writes words with: a preorder on what it writes to, which every
  write respects. The loop then respects it as well.
\<close>

locale word_target =
  fixes write_word :: "'w word_writer"
    and kept :: "'w \<Rightarrow> 'w \<Rightarrow> bool"
  assumes kept_refl: "kept w w"
    and kept_trans: "kept w w' \<Longrightarrow> kept w' w'' \<Longrightarrow> kept w w''"
    and write_kept: "write_word target v w = (r, w') \<Longrightarrow> kept w w'"
begin

lemma relocation_entries_kept:
  "apply_relocation_entries rela load_base consumer ns write_word k n latch w = (r, latch', w') \<Longrightarrow> kept w w'"
proof (induction n arbitrary: k latch w)
  case (Suc n)
  from Suc.prems show ?case
  proof (cases rule: relocation_stepE)
    case (stopped e)
    then show ?thesis using kept_refl write_kept by (metis prod.collapse)
  next
    case (relative target v w1)
    then show ?thesis using Suc.IH write_kept kept_trans by blast
  next
    case (symbol r_offset r_info addend v w1)
    then show ?thesis using Suc.IH write_kept kept_trans by blast
  qed
qed (simp add: kept_refl)

lemma relocations_kept:
  "apply_dynamic_relocations rela load_base consumer ns latch write_word w = (r, latch', w') \<Longrightarrow> kept w w'"
  by (auto simp: apply_dynamic_relocations_def Let_def kept_refl dest: relocation_entries_kept split: if_splits prod.splits sum.splits)

end

text \<open>The bindings the loop records.\<close>

definition lazy_binding :: "nat \<Rightarrow> elf_symbol_table \<Rightarrow> symbol_namespace \<Rightarrow> plt_latch_entry \<Rightarrow> bool" where
  "lazy_binding load_base table ns e \<longleftrightarrow> simulate_lazy_patch e load_base table ns = Inr (pl_resolved_value e)"

definition latch_slot :: "nat \<Rightarrow> nat \<times> nat \<times> nat \<Rightarrow> nat \<times> nat" where
  "latch_slot load_base entry = (plus64 (fst entry) load_base, fst (snd entry) div 2 ^ 32)"

lemma relocation_value_lazy:
  assumes "relocation_value (Some table) load_base (pl_symbol_index e) ns = Inr v"
  shows "simulate_lazy_patch e load_base table ns = Inr v"
  using assms unfolding relocation_value_def simulate_lazy_patch_def by (simp add: ok_or_def split: if_splits)

lemma relocation_entries_latch:
  assumes "apply_relocation_entries rela load_base (Some table) ns write_word k n latch w = (r, latch', w')"
  shows "\<exists>more. latch' = latch @ more \<and> list_all (lazy_binding load_base table ns) more \<and>
    (r = Inr () \<longrightarrow> map (\<lambda>e. (pl_got_address e, pl_symbol_index e)) more =
       map (latch_slot load_base) (filter binds_symbol (map (rela_entry rela) [k..<k + n])))"
  using assms
proof (induction n arbitrary: k latch w)
  case (Suc n)
  have upt: "[k..<k + Suc n] = k # [Suc k..<Suc k + n]" by (simp add: upt_conv_Cons)
  from Suc.prems show ?case
  proof (cases rule: relocation_stepE)
    case (relative target v w1)
    then show ?thesis using Suc.IH[OF relative(3)] unfolding upt by simp
  next
    case (symbol r_offset r_info addend v w1)
    let ?e = "\<lparr>pl_got_address = plus64 r_offset load_base, pl_resolved_value = v, pl_symbol_index = r_info div 2 ^ 32\<rparr>"
    have "lazy_binding load_base table ns ?e"
      using symbol(3) relocation_value_lazy by (simp add: lazy_binding_def)
    moreover obtain more where "latch' = (latch @ [?e]) @ more" "list_all (lazy_binding load_base table ns) more"
      "r = Inr () \<longrightarrow> map (\<lambda>e. (pl_got_address e, pl_symbol_index e)) more =
         map (latch_slot load_base) (filter binds_symbol (map (rela_entry rela) [Suc k..<Suc k + n]))"
      using Suc.IH[OF symbol(5)] by blast
    ultimately show ?thesis using symbol(1,2) unfolding upt
      by (intro exI[of _ "?e # more"]) (simp add: latch_slot_def)
  qed simp
qed simp

text \<open>C37. The bindings recorded while relocations are applied are those of a call-time resolver: every recorded
  entry names the value \<open>simulate_lazy_patch\<close> would patch in, and after a success the entries are the
  symbol relocations of the table, all of them and in order, with their slots and symbols.\<close>

theorem eager_binding_is_lazy_binding:
  assumes "apply_dynamic_relocations rela load_base (Some table) ns [] write_word w = (r, latch, w')"
  shows "(\<forall>e. e \<in> set latch \<longrightarrow> simulate_lazy_patch e load_base table ns = Inr (pl_resolved_value e)) \<and>
    (\<forall>n. r = Inr n \<longrightarrow> n = length rela div ELF_RELA_ENTRY_LEN \<and>
       map (\<lambda>e. (pl_got_address e, pl_symbol_index e)) latch =
       map (latch_slot load_base) (filter binds_symbol (map (rela_entry rela) [0..<n])))"
proof (cases "length rela mod ELF_RELA_ENTRY_LEN = 0")
  case True
  define n where "n = length rela div ELF_RELA_ENTRY_LEN"
  obtain r' l' w1 where run: "apply_relocation_entries rela load_base (Some table) ns write_word 0 n [] w = (r', l', w1)"
    by (metis prod_cases3)
  have "latch = l'" "r = Inr m \<Longrightarrow> r' = Inr () \<and> m = n" for m
    using assms run True by (auto simp: apply_dynamic_relocations_def Let_def n_def split: sum.splits)
  then show ?thesis using relocation_entries_latch[OF run] by (auto simp: lazy_binding_def list_all_iff n_def)
next
  case False
  then show ?thesis using assms by (auto simp: apply_dynamic_relocations_def)
qed

text \<open>One \<open>GLOB_DAT\<close> entry for the second symbol of the sample table.\<close>

definition sample_rela :: "u8 list" where
  "sample_rela = [64, 0, 0, 0, 0, 0, 0, 0, 6, 0, 0, 0, 2, 0, 0, 0, 0, 0, 0, 0, 0, 0, 0, 0]"

definition log_word :: "(nat \<times> nat) list word_writer" where
  "log_word target v w = (Inr (), w @ [(target, v)])"

lemma sample_relocation:
  "apply_dynamic_relocations sample_rela 4096 (Some (sample_table straight_chain 1)) namespace_empty [] log_word [] =
     (Inr 1, [\<lparr>pl_got_address = 4160, pl_resolved_value = 4105, pl_symbol_index = 2\<rparr>], [(4160, 4105)])"
proof -
  have entry: "read_u64_le sample_rela 0 = Inr 64" "read_u64_le sample_rela 8 = Inr (2 * 2 ^ 32 + 6)" "read_u64_le sample_rela 16 = Inr 0"
    by (simp_all add: sample_rela_def image_eval)
  have v: "relocation_value (Some (sample_table straight_chain 1)) 4096 2 namespace_empty = Inr 4105"
    using sample_symbols(2)[of straight_chain] sample_name[of straight_chain 1]
    by (simp add: relocation_value_def ok_or_def sample_table_def[THEN arg_cong, of st_symbol_count] SHN_UNDEF_def wrapping_add_def u64_max_def)
  show ?thesis
    using entry v
    by (simp add: apply_dynamic_relocations_def sample_rela_def[THEN arg_cong, of length] ELF_RELA_ENTRY_LEN_def
        ELF_RELOC_RELATIVE_def ELF_RELOC_GLOB_DAT_def log_word_def wrapping_add_def u64_max_def)
qed

theorem eager_binding_is_lazy_binding_witness:
  "simulate_lazy_patch \<lparr>pl_got_address = 4160, pl_resolved_value = 4105, pl_symbol_index = 2\<rparr> 4096
     (sample_table straight_chain 1) namespace_empty = Inr 4105"
  using eager_binding_is_lazy_binding[OF sample_relocation] by simp

end
