(* ===== verification/Loader_Props.thy ===== *)
theory Loader_Props
  imports Image_Loader Elf_Link_Props
begin

text \<open>
  What a load guarantees: the pages it maps lie in the user image window as long as no companion is an ELF image,
  and relocation words are written to the ranges the loader computes for the mapped segments, which are not always
  the frames it allocated.
\<close>

section \<open>Page placement\<close>

definition user_page :: "nat \<Rightarrow> bool" where
  "user_page v \<longleftrightarrow> v mod PAGE_SIZE_BYTES = 0 \<and> USER_IMAGE_WINDOW_START \<le> v \<and> v + PAGE_SIZE_BYTES \<le> USER_SPACE_END"

text \<open>Every mapping the page mapper is asked for at a page \<open>ok\<close> accepts, for user access, keeps \<open>I\<close>.\<close>

definition maps_within :: "(nat \<Rightarrow> bool) \<Rightarrow> ('m \<Rightarrow> bool) \<Rightarrow> 'm map_page \<Rightarrow> bool" where
  "maps_within ok I map_page \<longleftrightarrow>
     (\<forall>m v f flags a. ok v \<and> mapping_contains flags MAP_USER_ACCESSIBLE \<and> I m \<longrightarrow> I (fst (snd (map_page m v f flags a))))"

definition ld_keeps :: "('m \<Rightarrow> bool) \<Rightarrow> ('m, 'a) load \<Rightarrow> bool" where
  "ld_keeps I m \<longleftrightarrow> (\<forall>s r s'. I (ld_mapper s) \<longrightarrow> m s = Some (r, s') \<longrightarrow> I (ld_mapper s'))"

named_theorems keeps_rules

lemma ld_keeps_return [keeps_rules]: "ld_keeps I (ld_return r)"
  by (simp add: ld_keeps_def ld_return_def)

lemma ld_keeps_then:
  assumes "ld_keeps I m" "\<And>s a s'. m s = Some (Inr a, s') \<Longrightarrow> ld_keeps I (f a)"
  shows "ld_keeps I (ld_then m f)"
  using assms unfolding ld_keeps_def ld_then_def by (fastforce split: option.splits sum.splits)

lemma ld_keeps_then' [keeps_rules]: "ld_keeps I m \<Longrightarrow> (\<And>a. ld_keeps I (f a)) \<Longrightarrow> ld_keeps I (ld_then m f)"
  by (rule ld_keeps_then)

lemma ld_keeps_ret_then:
  assumes "\<And>a. r = Inr a \<Longrightarrow> ld_keeps I (f a)"
  shows "ld_keeps I (ld_then (ld_return r) f)"
  by (rule ld_keeps_then) (use assms in \<open>auto simp: ld_keeps_def ld_return_def\<close>)

lemma ld_keeps_if: "(P \<Longrightarrow> ld_keeps I m) \<Longrightarrow> (\<not> P \<Longrightarrow> ld_keeps I m') \<Longrightarrow> ld_keeps I (if P then m else m')"
  by simp

lemma ld_keeps_allocate [keeps_rules]: "ld_keeps I allocate_zeroed_frame"
  by (auto simp: ld_keeps_def allocate_zeroed_frame_def split: prod.splits option.splits)

lemma ld_keeps_copy [keeps_rules]: "ld_keeps I (copy_into_frame base bytes)"
  by (simp add: ld_keeps_def copy_into_frame_def)

lemma ld_keeps_map_frame:
  assumes "maps_within ok I map_page" "ok v" "mapping_contains flags MAP_USER_ACCESSIBLE"
  shows "ld_keeps I (map_frame map_page v f flags)"
proof -
  have "I (fst (snd (map_page m v f flags a)))" if "I m" for m a
    using assms that unfolding maps_within_def by blast
  then show ?thesis
    unfolding ld_keeps_def map_frame_def by (auto split: prod.splits sum.splits) (metis fst_conv snd_conv)+
qed

lemma ld_keeps_place_page:
  assumes "maps_within ok I map_page" "ok v" "mapping_contains flags MAP_USER_ACCESSIBLE"
  shows "ld_keeps I (place_page map_page payload v flags i)"
  unfolding place_page_def Let_def by (auto intro!: keeps_rules ld_keeps_map_frame[OF assms])

lemma ld_keeps_place_pages:
  assumes "maps_within ok I map_page" "\<And>i. k \<le> i \<Longrightarrow> i < k + n \<Longrightarrow> ok (plus64 base (i * PAGE_SIZE_BYTES))"
    "\<And>i. mapping_contains (flags i) MAP_USER_ACCESSIBLE"
  shows "ld_keeps I (place_pages map_page payload base flags k n first)"
  using assms(2)
proof (induction n arbitrary: k first)
  case (Suc n)
  have "ok (plus64 base (k * PAGE_SIZE_BYTES))" using Suc.prems[of k] by simp
  moreover have "ld_keeps I (place_pages map_page payload base flags (Suc k) n first')" for first'
    using Suc.prems by (intro Suc.IH) auto
  ultimately show ?case by (auto intro!: ld_keeps_then' ld_keeps_place_page[OF assms(1)] assms(3))
qed (simp add: keeps_rules)

lemma ld_keeps_memory:
  assumes "\<And>s r s'. m s = Some (r, s') \<Longrightarrow> ld_mapper s' = ld_mapper s"
  shows "ld_keeps I m"
  using assms by (auto simp: ld_keeps_def)

lemma user_access_flags:
  "mapping_contains (page_flags x w) MAP_USER_ACCESSIBLE"
  "mapping_contains (segment_flags segment) MAP_USER_ACCESSIBLE"
  "mapping_contains (MAP_WRITABLE OR MAP_USER_ACCESSIBLE) MAP_USER_ACCESSIBLE"
  by (auto simp: mapping_contains_def page_flags_def segment_flags_def Let_def MAP_USER_ACCESSIBLE_def MAP_WRITABLE_def MAP_EXECUTABLE_def)

section \<open>The user image window\<close>

lemma div_ceil_page: "i < div_ceil n p \<Longrightarrow> 0 < p \<Longrightarrow> i * p < n"
proof -
  assume i: "i < div_ceil n p" and p: "0 < p"
  show ?thesis
  proof (cases "n mod p = 0")
    case True
    then have "Suc i * p \<le> n div p * p" using i by (intro mult_le_mono1) (simp add: div_ceil_def)
    also have "\<dots> \<le> n" by simp
    finally show ?thesis using p by simp
  next
    case False
    then have "i * p \<le> n div p * p" using i by (intro mult_le_mono1) (simp add: div_ceil_def)
    also have "\<dots> < n" using False div_mult_mod_eq[of n p] by linarith
    finally show ?thesis .
  qed
qed

lemma aligned_less: "a < b \<Longrightarrow> a mod p = 0 \<Longrightarrow> b mod p = 0 \<Longrightarrow> a + p \<le> (b::nat)"
  using dvd_imp_le[of p "b - a"] by (auto simp: dvd_diff_nat mod_eq_0_iff_dvd)

lemma window_bounds:
  assumes "image_window_contains base len"
  shows "USER_IMAGE_WINDOW_START \<le> base" "base + len \<le> USER_SPACE_END"
  using assms by (auto simp: image_window_contains_def checked_add_def split: if_splits)

lemma window_page:
  assumes "image_window_contains base len" "base mod PAGE_SIZE_BYTES = 0" "i < div_ceil len PAGE_SIZE_BYTES"
  shows "user_page (plus64 base (i * PAGE_SIZE_BYTES))"
proof -
  have "base + i * PAGE_SIZE_BYTES < USER_SPACE_END"
    using window_bounds[OF assms(1)] div_ceil_page[OF assms(3)] by (simp add: PAGE_SIZE_BYTES_def)
  moreover have "(base + i * PAGE_SIZE_BYTES) mod PAGE_SIZE_BYTES = 0" using assms(2) by simp
  ultimately have "base + i * PAGE_SIZE_BYTES + PAGE_SIZE_BYTES \<le> USER_SPACE_END"
    by (intro aligned_less) (simp_all add: USER_SPACE_END_def PAGE_SIZE_BYTES_def)
  moreover from this have "plus64 base (i * PAGE_SIZE_BYTES) = base + i * PAGE_SIZE_BYTES"
    by (intro plus64_exact) (simp add: USER_SPACE_END_def u64_max_def)
  ultimately show ?thesis using assms(2) window_bounds(1)[OF assms(1)] by (simp add: user_page_def)
qed

lemma window_pages_keep:
  assumes "maps_within user_page I map_page" "image_window_contains base len" "base mod PAGE_SIZE_BYTES = 0"
    "\<And>i. mapping_contains (flags i) MAP_USER_ACCESSIBLE"
  shows "ld_keeps I (place_pages map_page payload base flags 0 (div_ceil len PAGE_SIZE_BYTES) first)"
  by (rule ld_keeps_place_pages[OF assms(1) window_page[OF assms(2,3)] assms(4)]) simp

lemma stack_pages_keep:
  assumes "maps_within user_page I map_page" "image_window_contains bottom (USER_STACK_PAGES * PAGE_SIZE_BYTES)"
    "bottom mod PAGE_SIZE_BYTES = 0"
  shows "ld_keeps I (map_stack map_page bottom)"
proof -
  have "div_ceil (USER_STACK_PAGES * PAGE_SIZE_BYTES) PAGE_SIZE_BYTES = USER_STACK_PAGES"
    by (simp add: div_ceil_def PAGE_SIZE_BYTES_def)
  from window_pages_keep[OF assms, of "\<lambda>_. MAP_WRITABLE OR MAP_USER_ACCESSIBLE", unfolded this] show ?thesis
    unfolding map_stack_def by (intro keeps_rules) (simp add: user_access_flags)
qed

lemma minus64_aligned: "a mod PAGE_SIZE_BYTES = 0 \<Longrightarrow> b mod PAGE_SIZE_BYTES = 0 \<Longrightarrow> minus64 a b mod PAGE_SIZE_BYTES = 0"
proof -
  assume "a mod PAGE_SIZE_BYTES = 0" "b mod PAGE_SIZE_BYTES = 0"
  then have "PAGE_SIZE_BYTES dvd a + (Suc u64_max - b)"
    by (auto simp: mod_eq_0_iff_dvd PAGE_SIZE_BYTES_def u64_max_def intro!: dvd_add dvd_diff_nat)
  moreover have "PAGE_SIZE_BYTES dvd Suc u64_max" by (simp add: PAGE_SIZE_BYTES_def u64_max_def)
  ultimately show ?thesis by (simp add: minus64_def dvd_mod mod_eq_0_iff_dvd)
qed

section \<open>Flat images\<close>

lemma parse_flat_image_Inr:
  assumes "parse_flat_image img = Inr header"
  shows "fh_image_base header mod PAGE_SIZE_BYTES = 0" "fh_user_stack_top header mod PAGE_SIZE_BYTES = 0"
    "image_window_contains (fh_image_base header) (fh_memory_size header)"
    "image_window_contains (fh_user_stack_top header - USER_STACK_PAGES * PAGE_SIZE_BYTES) (USER_STACK_PAGES * PAGE_SIZE_BYTES)"
proof -
  have guard: "(if P then Inl e else m) = Inr x \<longleftrightarrow> \<not> P \<and> m = Inr x" for P e and m :: "'x load_result" and x by simp
  have "fh_image_base header mod PAGE_SIZE_BYTES = 0 \<and> fh_user_stack_top header mod PAGE_SIZE_BYTES = 0 \<and>
    image_window_contains (fh_image_base header) (fh_memory_size header) \<and>
    image_window_contains (fh_user_stack_top header - USER_STACK_PAGES * PAGE_SIZE_BYTES) (USER_STACK_PAGES * PAGE_SIZE_BYTES)"
    using assms unfolding parse_flat_image_def Let_def guard and_then_Inr
    apply (elim conjE exE)
    subgoal by (clarsimp simp only: prod.case split: prod.splits) simp
    done
  then show "fh_image_base header mod PAGE_SIZE_BYTES = 0" "fh_user_stack_top header mod PAGE_SIZE_BYTES = 0"
    "image_window_contains (fh_image_base header) (fh_memory_size header)"
    "image_window_contains (fh_user_stack_top header - USER_STACK_PAGES * PAGE_SIZE_BYTES) (USER_STACK_PAGES * PAGE_SIZE_BYTES)"
    by blast+
qed

lemma flat_stack_bottom:
  assumes "image_window_contains (st - USER_STACK_PAGES * PAGE_SIZE_BYTES) (USER_STACK_PAGES * PAGE_SIZE_BYTES)"
  shows "minus64 st (USER_STACK_PAGES * PAGE_SIZE_BYTES) = st - USER_STACK_PAGES * PAGE_SIZE_BYTES"
  using window_bounds[OF assms]
  by (intro minus64_exact) (simp_all add: USER_IMAGE_WINDOW_START_def USER_SPACE_END_def u64_max_def USER_STACK_PAGES_def PAGE_SIZE_BYTES_def)

lemma flat_companion_keeps:
  assumes "maps_within user_page I map_page"
  shows "ld_keeps I (load_flat_companion map_page header dep bytes cursor ns)"
  unfolding load_flat_companion_def Let_def
  by (intro ld_keeps_ret_then) (auto intro!: keeps_rules window_pages_keep[OF assms] simp: dependency_misplaced_def flat_dependency_page_flags_def user_access_flags)

definition elf_magic :: "u8 list \<Rightarrow> bool" where
  "elf_magic bytes \<longleftrightarrow> length bytes \<ge> length ELF_MAGIC \<and> take (length ELF_MAGIC) bytes = ELF_MAGIC"

lemma companions_keep:
  assumes "maps_within user_page I map_page" "\<And>i bytes. resolve_image i = Some bytes \<Longrightarrow> \<not> elf_magic bytes"
  shows "ld_keeps I (load_companions map_page machine resolve_image header deps cursor libraries pending ns)"
proof (induction deps arbitrary: cursor libraries pending ns)
  case (Cons dep deps)
  show ?case unfolding load_companions.simps
  proof (rule ld_keeps_ret_then, goal_cases)
    case (1 bytes)
    then have "\<not> elf_magic bytes" using assms(2) by simp
    then show ?case
      using Cons.IH flat_companion_keeps[OF assms(1)] by (auto intro!: ld_keeps_then' simp: elf_magic_def)
  qed
qed (simp add: keeps_rules)

lemma apply_pending_keeps: "ld_keeps I (apply_pending pending ns)"
proof (induction pending)
  case (Cons module rest)
  have "ld_keeps I (apply_relocations module ns)"
    by (rule ld_keeps_memory) (auto simp: apply_relocations_def split: prod.splits)
  with Cons show ?case by (auto intro: ld_keeps_then')
qed (simp add: keeps_rules)

lemma flat_image_keeps:
  assumes "maps_within user_page I map_page" "\<And>resolve_image i bytes. resolver = Some resolve_image \<Longrightarrow> resolve_image i = Some bytes \<Longrightarrow> \<not> elf_magic bytes"
  shows "ld_keeps I (load_flat_image map_page resolver machine img)"
  unfolding load_flat_image_def
proof (rule ld_keeps_ret_then, goal_cases)
  case (1 header)
  note h = parse_flat_image_Inr[OF 1]
  have "ld_keeps I (load_companions map_page machine resolve_image header (fh_dependencies header) cursor [] [] namespace_empty)"
    if "resolver = Some resolve_image" for cursor resolve_image
    by (rule companions_keep[OF assms(1)]) (use assms(2) that in blast)
  moreover have "ld_keeps I (map_stack map_page (minus64 (fh_user_stack_top header) (USER_STACK_PAGES * PAGE_SIZE_BYTES)))"
    unfolding flat_stack_bottom[OF h(4)]
    by (rule stack_pages_keep[OF assms(1) h(4)])
      (use h(2) in \<open>simp add: USER_STACK_PAGES_def PAGE_SIZE_BYTES_def mod_eq_0_iff_dvd dvd_diff_nat\<close>)
  moreover have "ld_keeps I (place_pages map_page payload (fh_image_base header) (flat_page_flags header) 0
      (div_ceil (fh_memory_size header) PAGE_SIZE_BYTES) None)" for payload
    by (rule window_pages_keep[OF assms(1) h(3,1)]) (simp add: flat_page_flags_def user_access_flags)
  ultimately show ?case
    unfolding Let_def
    by (auto intro!: ld_keeps_then' ld_keeps_ret_then ld_keeps_return apply_pending_keeps)
qed

section \<open>ELF images\<close>

lemma check_image_segments_aligned:
  "check_image_segments img loads = Inr () \<Longrightarrow> list_all (\<lambda>segment. seg_virtual_address segment mod PAGE_SIZE_BYTES = 0) loads"
  by (induction img loads rule: check_image_segments.induct) (auto split: if_splits)

lemma map_image_segments_keep:
  assumes "maps_within user_page I map_page" "list_all (\<lambda>segment. seg_virtual_address segment mod PAGE_SIZE_BYTES = 0) loads"
    "load_base mod PAGE_SIZE_BYTES = 0"
  shows "ld_keeps I (map_image_segments map_page img position_independent load_base stack_bottom loads mapped image_base image_end)"
  using assms(2)
proof (induction loads arbitrary: mapped image_base image_end)
  case (Cons segment rest)
  show ?case unfolding map_image_segments.simps
  proof (rule ld_keeps_ret_then, goal_cases)
    case (1 virtual_start)
    then have "virtual_start mod PAGE_SIZE_BYTES = 0"
      using Cons.prems assms(3) by (auto simp: checked_add_def ok_or_def split: if_splits)
    moreover have "ld_keeps I (map_image_segments map_page img position_independent load_base stack_bottom rest mapped image_base image_end)"
      for mapped image_base image_end
      using Cons by simp
    ultimately show ?case
      by (auto intro!: ld_keeps_return ld_keeps_ret_then ld_keeps_then' window_pages_keep[OF assms(1)] simp: Let_def user_access_flags)
  qed
qed (simp add: keeps_rules)

lemma link_image_keeps: "ld_keeps I (link_image img loads dynamic_range load_base mapped)"
  by (rule ld_keeps_memory) (auto simp: link_image_def split: option.splits prod.splits sum.splits)

lemma pie_base_aligned:
  "(if pie then choose_pie_load_base highest bottom else Inr 0) = Inr load_base \<Longrightarrow> load_base mod PAGE_SIZE_BYTES = 0"
  by (auto simp: choose_pie_load_base_def Let_def USER_IMAGE_WINDOW_START_def PAGE_SIZE_BYTES_def split: if_splits)

lemma elf_image_keeps:
  assumes "maps_within user_page I map_page" "user_stack_top mod PAGE_SIZE_BYTES = 0"
  shows "ld_keeps I (load_elf64_image map_page machine user_stack_top img)"
proof -
  have bottom: "minus64 user_stack_top (USER_STACK_PAGES * PAGE_SIZE_BYTES) mod PAGE_SIZE_BYTES = 0"
    using assms(2) by (intro minus64_aligned) simp_all
  have map: "ld_keeps I (map_image_segments map_page img pie load_base bottom loads mapped image_base image_end)"
    if "check_image_segments img loads = Inr ()" "(if pie then choose_pie_load_base highest bottom else Inr 0) = Inr load_base"
    for pie load_base bottom loads mapped image_base image_end highest
    using map_image_segments_keep[OF assms(1) check_image_segments_aligned[OF that(1)] pie_base_aligned[OF that(2)]] .
  show ?thesis
    unfolding load_elf64_image_def Let_def
    by (intro ld_keeps_if ld_keeps_return ld_keeps_ret_then)
      (auto intro!: ld_keeps_then' ld_keeps_ret_then ld_keeps_return stack_pages_keep[OF assms(1) _ bottom] link_image_keeps intro: map)
qed

section \<open>Properties\<close>

text \<open>C7. Loading an image never maps a page outside the user image window: whatever the bytes of the image and of
  its companions, and whether the load succeeds or fails, every mapping the page mapper is asked for is of an aligned
  page inside the window and for user access, so a property of the page table that such mappings keep is kept. The
  companions are taken to be flat images; the window check of ELF companions does not bound them.\<close>

theorem load_image_stays_in_user_window:
  assumes "maps_within user_page I map_page" "user_stack_top mod PAGE_SIZE_BYTES = 0"
    "\<And>resolve_image i bytes. resolver = Some resolve_image \<Longrightarrow> resolve_image i = Some bytes \<Longrightarrow> \<not> elf_magic bytes"
    "load_image map_page resolver machine user_stack_top img s = Some (r, s')" "I (ld_mapper s)"
  shows "I (ld_mapper s')"
proof -
  have "ld_keeps I (load_image map_page resolver machine user_stack_top img)"
    unfolding load_image_def
    using flat_image_keeps[OF assms(1), of resolver machine img] assms(3) elf_image_keeps[OF assms(1,2), of machine img]
    by (auto intro: ld_keeps_return)
  with assms(4,5) show ?thesis by (auto simp: ld_keeps_def)
qed

text \<open>A flat image of one byte, loaded with a single free frame: its page is mapped and the stack finds no frame.\<close>

definition sample_image :: "u8 list" where
  "sample_image =
     [0x53, 0x4f, 0x53, 0x55, 0x49, 0x4d, 0x47, 0, 1, 0, 0, 0, 72, 0, 0, 0,
      0, 0, 0, 0, 0, 0x40, 0, 0, 0, 0, 0, 0, 0, 0, 0, 0,
      1, 0, 0, 0, 0, 0, 0, 0, 1, 0, 0, 0, 0, 0, 0, 0,
      1, 0, 0, 0, 0, 0, 0, 0, 1, 0, 0, 0, 0, 0, 0, 0,
      0, 0, 0xff, 0xff, 0xff, 0x7f, 0, 0, 0x90]"

definition free_pool :: "nat list \<Rightarrow> early_frame_allocator" where
  "free_pool frames = \<lparr>regions = [], active_region = 0, allocated_frames = 0, reclaimed_boot_service_frames = 0,
     reclaimed = map (\<lambda>n. \<lparr>start_frame = n, end_frame_exclusive = n + 1, next_frame = n\<rparr>) frames,
     freed_frames_recorded = 0, dropped_free_frames = 0\<rparr>"

definition log_page :: "nat list map_page" where
  "log_page m v f flags a = (Inr (), m @ [v], a)"

lemma sample_parse:
  "parse_flat_image sample_image =
     Inr \<lparr>fh_abi_version = 1, fh_header_len = 72, fh_image_base = 0x400000000000, fh_entry_offset = 0, fh_file_size = 1,
          fh_executable_limit = 1, fh_writable_offset = 1, fh_memory_size = 1, fh_user_stack_top = 0x7fffffff0000,
          fh_format_flags = 0, fh_min_kernel_abi = 0, fh_dependencies = [], fh_segments = []\<rparr>"
proof -
  have "length sample_image = 73" "take 8 sample_image = FLAT_IMAGE_MAGIC" "length FLAT_IMAGE_MAGIC = 8"
    "read_u32_le sample_image 8 = Inr 1" "read_u32_le sample_image 12 = Inr 72"
    "read_u64_le sample_image 16 = Inr 0x400000000000" "read_u64_le sample_image 24 = Inr 0" "read_u64_le sample_image 32 = Inr 1"
    "read_u64_le sample_image 40 = Inr 1" "read_u64_le sample_image 48 = Inr 1" "read_u64_le sample_image 56 = Inr 1"
    "read_u64_le sample_image 64 = Inr 0x7fffffff0000"
    by (simp_all add: sample_image_def FLAT_IMAGE_MAGIC_def image_eval)
  then show ?thesis
    by (simp add: parse_flat_image_def FLAT_IMAGE_HEADER_LEN_def FLAT_IMAGE_HEADER_LEN_V2_def PAGE_SIZE_BYTES_def USER_STACK_PAGES_def
        image_window_contains_def checked_add_def u64_max_def USER_IMAGE_WINDOW_START_def USER_SPACE_END_def wrapping_add_def)
qed

lemma pool_allocate:
  "allocate_4kib (free_pool (n # ns)) =
     (Some (frame_at n), (free_pool (n # ns))\<lparr>reclaimed := \<lparr>start_frame = n, end_frame_exclusive = n + 1, next_frame = n + 1\<rparr> # reclaimed (free_pool ns),
        allocated_frames := 1\<rparr>)"
  by (simp add: allocate_4kib_def free_pool_def)

lemma place_pages_exhausted:
  assumes "allocate_4kib (ld_frames s) = (None, a)" "0 < n"
  shows "place_pages map_page payload base flags i n first s = Some (Inl FrameExhausted, s\<lparr>ld_frames := a\<rparr>)"
  using assms by (cases n) (simp_all add: ld_then_def place_page_def Let_def allocate_zeroed_frame_def)

lemma sample_load:
  "\<exists>s'. load_image log_page None X86_64 0x7fffffff0000 sample_image \<lparr>ld_mapper = [], ld_frames = free_pool [7], ld_memory = \<lambda>_. 0\<rparr> =
     Some (Inl FrameExhausted, s') \<and> ld_mapper s' = [0x400000000000]"
proof -
  have magic: "take 8 sample_image = FLAT_IMAGE_MAGIC" "length FLAT_IMAGE_MAGIC = 8" "length sample_image = 73"
    by (simp_all add: sample_image_def FLAT_IMAGE_MAGIC_def)
  let ?a = "(free_pool [7])\<lparr>reclaimed := [\<lparr>start_frame = 7, end_frame_exclusive = 8, next_frame = 8\<rparr>], allocated_frames := 1\<rparr>"
  have page: "\<exists>phys. \<forall>flags. place_pages log_page payload 0x400000000000 flags 0 1 None \<lparr>ld_mapper = [], ld_frames = free_pool [7], ld_memory = \<lambda>_. 0\<rparr> =
      Some (Inr (Some (frame_at 7)), \<lparr>ld_mapper = [0x400000000000], ld_frames = ?a, ld_memory = phys\<rparr>)" for payload
    by (simp add: ld_then_def ld_return_def place_page_def Let_def allocate_zeroed_frame_def copy_into_frame_def map_frame_def log_page_def
        allocate_4kib_def free_pool_def wrapping_add_def u64_max_def)
  have "allocate_4kib ?a = (None, ?a)"
    by (simp add: allocate_4kib_def free_pool_def take_fresh.simps)
  then have stack: "place_pages map_page payload base flags 0 256 None \<lparr>ld_mapper = m, ld_frames = ?a, ld_memory = phys\<rparr> =
      Some (Inl FrameExhausted, \<lparr>ld_mapper = m, ld_frames = ?a, ld_memory = phys\<rparr>)" for map_page payload base flags m phys
    by (subst place_pages_exhausted) simp_all
  have one: "div_ceil 1 PAGE_SIZE_BYTES = 1" by (simp add: div_ceil_def PAGE_SIZE_BYTES_def)
  have "load_image log_page None X86_64 0x7fffffff0000 sample_image = load_flat_image log_page None X86_64 sample_image"
    by (simp add: load_image_def magic)
  moreover obtain phys where "\<And>flags. place_pages log_page (sub_slice sample_image 72 (plus64 72 1)) 0x400000000000 flags 0 1 None
      \<lparr>ld_mapper = [], ld_frames = free_pool [7], ld_memory = \<lambda>_. 0\<rparr> =
      Some (Inr (Some (frame_at 7)), \<lparr>ld_mapper = [0x400000000000], ld_frames = ?a, ld_memory = phys\<rparr>)"
    using page by blast
  ultimately show ?thesis
    by (simp add: load_flat_image_def sample_parse Let_def one map_stack_def USER_STACK_PAGES_def ld_then_def ld_return_def stack del: One_nat_def)
qed

theorem load_image_stays_in_user_window_witness:
  "\<exists>s'. load_image log_page None X86_64 0x7fffffff0000 sample_image \<lparr>ld_mapper = [], ld_frames = free_pool [7], ld_memory = \<lambda>_. 0\<rparr> =
     Some (Inl FrameExhausted, s') \<and> ld_mapper s' = [0x400000000000] \<and> list_all user_page (ld_mapper s')"
proof -
  obtain s' where s': "load_image log_page None X86_64 0x7fffffff0000 sample_image
      \<lparr>ld_mapper = [], ld_frames = free_pool [7], ld_memory = \<lambda>_. 0\<rparr> = Some (Inl FrameExhausted, s')"
      "ld_mapper s' = [0x400000000000]"
    using sample_load by blast
  have "maps_within user_page (list_all user_page) log_page"
    by (simp add: maps_within_def log_page_def)
  from load_image_stays_in_user_window[OF this _ _ s'(1)] s' show ?thesis
    by (auto simp: PAGE_SIZE_BYTES_def)
qed


section \<open>Where relocation words go\<close>

definition kept_outside :: "nat set \<Rightarrow> phys_memory \<Rightarrow> phys_memory \<Rightarrow> bool" where
  "kept_outside A phys phys' \<longleftrightarrow> (\<forall>a. a \<notin> A \<longrightarrow> phys' a = phys a)"

lemma kept_outside_refl [simp]: "kept_outside A phys phys"
  by (simp add: kept_outside_def)

lemma kept_outside_trans: "kept_outside A phys phys' \<Longrightarrow> kept_outside A phys' phys'' \<Longrightarrow> kept_outside A phys phys''"
  by (simp add: kept_outside_def)

lemma kept_outside_mono: "kept_outside A phys phys' \<Longrightarrow> A \<subseteq> B \<Longrightarrow> kept_outside B phys phys'"
  by (auto simp: kept_outside_def)

lemma kept_outside_write: "{base..<base + length bytes} \<subseteq> A \<Longrightarrow> kept_outside A phys (write_bytes_at phys base bytes)"
  by (auto simp: kept_outside_def write_bytes_at_def)

definition mapped_range :: "mapped_load_segment list \<Rightarrow> nat set" where
  "mapped_range mapped = (\<Union>m\<in>set mapped. {ms_frame_base m..<ms_frame_base m + ms_memory_size m})"

lemma write_mapped_word_kept:
  "write_mapped_word mapped target v phys = (r, phys') \<Longrightarrow> kept_outside (mapped_range mapped) phys phys'"
proof (induction mapped target v phys rule: write_mapped_word.induct)
  case (2 segment rest target v phys)
  let ?hit = "ms_virtual_start segment \<le> target \<and> target - ms_virtual_start segment < ms_memory_size segment \<and>
         (case checked_add u64_max (target - ms_virtual_start segment) 8 of
            None \<Rightarrow> False | Some word_end \<Rightarrow> word_end \<le> ms_memory_size segment)"
  show ?case
  proof (cases ?hit)
    case True
    then have "target - ms_virtual_start segment + 8 \<le> ms_memory_size segment"
      by (auto simp: checked_add_def split: if_splits)
    then have "{ms_frame_base segment + (target - ms_virtual_start segment)..<
        ms_frame_base segment + (target - ms_virtual_start segment) + length (to_le_bytes 8 (of_nat v :: u64))} \<subseteq> mapped_range (segment # rest)"
      by (auto simp: mapped_range_def)
    then show ?thesis using 2(2) True kept_outside_write by auto
  next
    case False
    then have "write_mapped_word rest target v phys = (r, phys')" using 2(2) by auto
    from 2(1)[OF False this] show ?thesis by (rule kept_outside_mono) (auto simp: mapped_range_def)
  qed
qed simp

interpretation mapped_words: word_target "write_mapped_word mapped" "kept_outside (mapped_range mapped)" for mapped
  by unfold_locales (auto intro: kept_outside_trans write_mapped_word_kept)

text \<open>The tables of an image, through the same contract.\<close>

context word_target
begin

lemma relocate_tables_kept: "relocate_tables img loads load_base tables ns write_word rs w = (r, w') \<Longrightarrow> kept w w'"
proof (induction rs arbitrary: w)
  case Nil
  then show ?case using kept_refl by auto
next
  case (Cons t rs)
  obtain v sz where t: "t = (v, sz)" by (cases t)
  show ?case
  proof (cases "locate_file_range img loads v sz")
    case None
    then show ?thesis using Cons.prems t kept_refl by auto
  next
    case (Some bytes)
    obtain r1 latch w1 where run: "apply_dynamic_relocations bytes load_base tables ns [] write_word w = (r1, latch, w1)"
      by (metis prod_cases3)
    have k1: "kept w w1" using relocations_kept[OF run] .
    show ?thesis
    proof (cases r1)
      case (Inl e)
      then show ?thesis using Cons.prems t Some run k1 by auto
    next
      case (Inr n)
      then show ?thesis using Cons.IH[of w1] Cons.prems t Some run k1 kept_trans by auto
    qed
  qed
qed

end

text \<open>A companion with one segment of two pages, without initialised bytes.\<close>

definition two_page_segment :: elf_load_segment where
  "two_page_segment = \<lparr>seg_flags = 6, seg_file_offset = 0, seg_virtual_address = 0, seg_file_size = 0, seg_memory_size = 8192\<rparr>"

definition log_frame :: "(nat \<times> nat) list map_page" where
  "log_frame m v f flags a = (Inr (), m @ [(v, frame_base f)], a)"

lemma two_pages_mapped:
  assumes "base + 8192 \<le> u64_max"
  shows "\<exists>frames' phys'. map_dependency_segments log_frame bytes base [two_page_segment] [] \<lparr>ld_mapper = [], ld_frames = free_pool [a, b], ld_memory = phys\<rparr> =
    Some (Inr [\<lparr>ms_virtual_start = base, ms_memory_size = 8192, ms_frame_base = a * 4096\<rparr>],
      \<lparr>ld_mapper = [(base, a * 4096), (base + 4096, b * 4096)], ld_frames = frames', ld_memory = phys'\<rparr>)"
proof -
  have "div_ceil 8192 PAGE_SIZE_BYTES = Suc (Suc 0)" by (simp add: div_ceil_def PAGE_SIZE_BYTES_def)
  moreover have "checked_add u64_max base 0 = Some base" "plus64 base 0 = base" "plus64 base 4096 = base + 4096"
    using assms by (simp_all add: checked_add_def wrapping_add_def)
  ultimately show ?thesis
    by (simp add: two_page_segment_def ok_or_def slice_get_def sub_slice_def wrapping_add_def ld_then_def ld_return_def place_page_def Let_def
        allocate_zeroed_frame_def copy_into_frame_def map_frame_def log_frame_def allocate_4kib_def free_pool_def frame_at_def PAGE_SIZE_BYTES_def)
qed

text \<open>C38. The loader takes the frames of a segment to be consecutive when it writes a relocation: with two free frames
  that are not neighbours, it maps the second page of a segment to the second frame, and then writes a word for the
  start of that page into the frame after the first one, which it does not own, and leaves the mapped frame as it
  was.\<close>

theorem relocation_write_misses_frame:
  assumes "base + 8192 \<le> u64_max" "b \<noteq> a + 1"
  shows "\<exists>mapped s' phys'. map_dependency_segments log_frame bytes base [two_page_segment] []
        \<lparr>ld_mapper = [], ld_frames = free_pool [a, b], ld_memory = phys\<rparr> = Some (Inr mapped, s') \<and>
      ld_mapper s' = [(base, a * 4096), (base + 4096, b * 4096)] \<and>
      write_mapped_word mapped (base + 4096) v (ld_memory s') = (Inr (), phys') \<and>
      read_bytes_at phys' ((a + 1) * 4096) 8 = to_le_bytes 8 (of_nat v :: u64) \<and>
      read_bytes_at phys' (b * 4096) 4096 = read_bytes_at (ld_memory s') (b * 4096) 4096"
proof -
  obtain frames' phys1 where run: "map_dependency_segments log_frame bytes base [two_page_segment] []
      \<lparr>ld_mapper = [], ld_frames = free_pool [a, b], ld_memory = phys\<rparr> =
    Some (Inr [\<lparr>ms_virtual_start = base, ms_memory_size = 8192, ms_frame_base = a * 4096\<rparr>],
      \<lparr>ld_mapper = [(base, a * 4096), (base + 4096, b * 4096)], ld_frames = frames', ld_memory = phys1\<rparr>)"
    using two_pages_mapped[OF assms(1)] by blast
  define phys2 where "phys2 = write_bytes_at phys1 (a * 4096 + 4096) (to_le_bytes 8 (of_nat v :: u64))"
  have "write_mapped_word [\<lparr>ms_virtual_start = base, ms_memory_size = 8192, ms_frame_base = a * 4096\<rparr>] (base + 4096) v phys1 = (Inr (), phys2)"
    by (simp add: checked_add_def u64_max_def phys2_def)
  moreover have "read_bytes_at phys2 ((a + 1) * 4096) 8 = to_le_bytes 8 (of_nat v :: u64)"
    by (intro nth_equalityI) (auto simp: read_bytes_at_def phys2_def write_bytes_at_def)
  moreover have "\<not> (a * 4096 + 4096 \<le> b * 4096 + i \<and> b * 4096 + i < 4104 + a * 4096)" if "i < 4096" for i
  proof
    assume h: "a * 4096 + 4096 \<le> b * 4096 + i \<and> b * 4096 + i < 4104 + a * 4096"
    have "(b * 4096 + i) div 4096 = b" using that by simp
    moreover have "(b * 4096 + i) div 4096 = a + 1"
      using h by (intro div_nat_eqI) simp_all
    ultimately show False using assms(2) by simp
  qed
  then have "read_bytes_at phys2 (b * 4096) 4096 = read_bytes_at phys1 (b * 4096) 4096"
    by (auto simp: read_bytes_at_def phys2_def write_bytes_at_def)
  ultimately show ?thesis using run by auto
qed

theorem relocation_write_misses_frame_witness:
  "\<exists>mapped s' phys'. map_dependency_segments log_frame [] 0x400000000000 [two_page_segment] []
        \<lparr>ld_mapper = [], ld_frames = free_pool [7, 9], ld_memory = \<lambda>_. 0\<rparr> = Some (Inr mapped, s') \<and>
      ld_mapper s' = [(0x400000000000, 7 * 4096), (0x400000001000, 9 * 4096)] \<and>
      write_mapped_word mapped 0x400000001000 5 (ld_memory s') = (Inr (), phys') \<and>
      read_bytes_at phys' (8 * 4096) 8 = to_le_bytes 8 (5 :: u64) \<and>
      read_bytes_at phys' (9 * 4096) 4096 = read_bytes_at (ld_memory s') (9 * 4096) 4096"
  using relocation_write_misses_frame[where base = "0x400000000000" and b = 9 and a = 7 and bytes = "[]" and phys = "\<lambda>_. 0" and v = 5] by (simp add: u64_max_def)


end
