(* ===== verification/Runtime_Props.thy ===== *)
theory Runtime_Props
  imports Runtime_Library Loader_Props
begin

text \<open>
  The outcomes of the system call that loads a library at run time, with the memory each of them writes and the
  state of the user runtime it leaves, and the well-formedness of that state under every call.
\<close>

section \<open>Memory written while staging\<close>

definition unused_bytes :: "early_frame_allocator \<Rightarrow> nat set" where
  "unused_bytes a = {x. x div PAGE_SIZE_BYTES \<in># available a}"

definition page_bytes :: "physical_address list \<Rightarrow> nat set" where
  "page_bytes pages = (\<Union>p\<in>set pages. {p..<p + PAGE_SIZE_BYTES})"

lemma page_bytes_simps [simp]:
  "page_bytes [] = {}" "page_bytes (xs @ ys) = page_bytes xs \<union> page_bytes ys" "page_bytes [p] = {p..<p + PAGE_SIZE_BYTES}"
  by (auto simp: page_bytes_def)

definition staged_bytes :: "runtime_segment_frames list \<Rightarrow> nat set" where
  "staged_bytes segments = (\<Union>segment\<in>set segments. page_bytes (rs_pages segment))"

text \<open>A step that writes only to frames that were free, and takes frames from the allocator only.\<close>

definition takes_free :: "'m loader \<Rightarrow> 'm loader \<Rightarrow> bool" where
  "takes_free s s' \<longleftrightarrow> allocator_inv (ld_frames s') \<and> available (ld_frames s') \<subseteq># available (ld_frames s) \<and>
     kept_outside (unused_bytes (ld_frames s)) (ld_memory s) (ld_memory s')"

lemma takes_free_refl: "allocator_inv (ld_frames s) \<Longrightarrow> takes_free s s"
  by (simp add: takes_free_def)

lemma unused_bytes_mono: "available a' \<subseteq># available a \<Longrightarrow> unused_bytes a' \<subseteq> unused_bytes a"
  by (auto simp: unused_bytes_def dest: mset_subset_eqD)

lemma takes_free_trans: "takes_free s s' \<Longrightarrow> takes_free s' s'' \<Longrightarrow> takes_free s s''"
  unfolding takes_free_def
  by (meson unused_bytes_mono kept_outside_mono kept_outside_trans subset_mset.order_trans)

lemma takes_unused_bytes: "takes_free s s' \<Longrightarrow> unused_bytes (ld_frames s') \<subseteq> unused_bytes (ld_frames s)"
  by (auto simp: takes_free_def intro: unused_bytes_mono[THEN subsetD])

lemma frame_unused_bytes: "n \<in># available a \<Longrightarrow> {n * PAGE_SIZE_BYTES..<n * PAGE_SIZE_BYTES + PAGE_SIZE_BYTES} \<subseteq> unused_bytes a"
proof
  fix x assume "n \<in># available a" "x \<in> {n * PAGE_SIZE_BYTES..<n * PAGE_SIZE_BYTES + PAGE_SIZE_BYTES}"
  moreover from this have "x div PAGE_SIZE_BYTES = n" by (intro div_nat_eqI) (auto simp: mult.commute)
  ultimately show "x \<in> unused_bytes a" by (simp add: unused_bytes_def)
qed

lemma allocate_zeroed_takes_free:
  assumes "allocator_inv (ld_frames s)" "allocate_zeroed_frame s = Some (r, s')"
  shows "takes_free s s'" "r = Inr f \<Longrightarrow> {frame_base f..<frame_base f + PAGE_SIZE_BYTES} \<subseteq> unused_bytes (ld_frames s)"
proof -
  obtain fo a where al: "allocate_4kib (ld_frames s) = (fo, a)" by fastforce
  have "takes_free s s' \<and> (r = Inr f \<longrightarrow> {frame_base f..<frame_base f + PAGE_SIZE_BYTES} \<subseteq> unused_bytes (ld_frames s))"
  proof (cases fo)
    case None
    with allocate_None[OF assms(1)] al have "available (ld_frames s) = {#}" "available a = {#}" "allocator_inv a" by auto
    moreover have "r = Inl FrameExhausted" "s' = s\<lparr>ld_frames := a\<rparr>"
      using assms(2) al None by (auto simp: allocate_zeroed_frame_def)
    ultimately show ?thesis by (simp add: takes_free_def)
  next
    case (Some g)
    with allocate_Some[OF assms(1)] al obtain n where n: "g = frame_at n" "available (ld_frames s) = add_mset n (available a)" "allocator_inv a"
      by blast
    have base: "frame_base g = n * PAGE_SIZE_BYTES" by (simp add: n(1) frame_at_def)
    have "{frame_base g..<frame_base g + PAGE_SIZE_BYTES} \<subseteq> unused_bytes (ld_frames s)"
      unfolding base by (rule frame_unused_bytes) (simp add: n(2))
    moreover have "r = Inr g" "s' = s\<lparr>ld_frames := a, ld_memory := write_bytes_at (ld_memory s) (frame_base g) (replicate PAGE_SIZE_BYTES 0)\<rparr>"
      using assms(2) al Some by (auto simp: allocate_zeroed_frame_def)
    ultimately show ?thesis using n(2,3) by (auto simp: takes_free_def intro!: kept_outside_write)
  qed
  then show "takes_free s s'" "r = Inr f \<Longrightarrow> {frame_base f..<frame_base f + PAGE_SIZE_BYTES} \<subseteq> unused_bytes (ld_frames s)"
    by auto
qed

lemma page_payload_short:
  "length (sub_slice payload (i * PAGE_SIZE_BYTES) (min (saturating_add u64_max (i * PAGE_SIZE_BYTES) PAGE_SIZE_BYTES) (length payload))) \<le> PAGE_SIZE_BYTES"
  by (auto simp: sub_slice_def saturating_add_def)

lemma ld_then_Some:
  assumes "ld_then m f s = Some (r, s')"
  obtains (stopped) e where "m s = Some (Inl e, s')" "r = Inl e"
  | (further) x s1 where "m s = Some (Inr x, s1)" "f x s1 = Some (r, s')"
  using assms unfolding ld_then_def by (cases "m s") (auto split: sum.splits)

lemma stage_pages_takes_free:
  assumes "allocator_inv (ld_frames s)" "stage_pages payload i n pages s = Some (r, s')"
  shows "takes_free s s' \<and> (\<forall>pages'. r = Inr pages' \<longrightarrow> page_bytes pages' \<subseteq> page_bytes pages \<union> unused_bytes (ld_frames s))"
  using assms
proof (induction n arbitrary: i pages s)
  case 0
  then show ?case by (auto simp: ld_return_def takes_free_refl)
next
  case (Suc n)
  let ?chunk = "sub_slice payload (i * PAGE_SIZE_BYTES) (min (saturating_add u64_max (i * PAGE_SIZE_BYTES) PAGE_SIZE_BYTES) (length payload))"
  from Suc.prems(2) show ?case unfolding stage_pages.simps Let_def
  proof (cases rule: ld_then_Some)
    case (stopped e)
    then show ?thesis using allocate_zeroed_takes_free(1)[OF Suc.prems(1)] by auto
  next
    case (further f s1)
    note t1 = allocate_zeroed_takes_free[OF Suc.prems(1) further(1)]
    from further(2) show ?thesis
    proof (cases rule: ld_then_Some)
      case (stopped e)
      then show ?thesis by (auto simp: copy_into_frame_def ld_return_def split: if_splits)
    next
      case (further u s2)
      have frame: "{frame_base f..<frame_base f + PAGE_SIZE_BYTES} \<subseteq> unused_bytes (ld_frames s)" using t1(2) by simp
      have "{frame_base f..<frame_base f + length ?chunk} \<subseteq> unused_bytes (ld_frames s)"
        using frame page_payload_short[of payload i] by (meson atLeastLessThan_subset_iff add_left_mono ivl_subset order_trans order_refl)
      then have t2: "takes_free s s2"
        using further(1) t1(1) kept_outside_trans kept_outside_write
        by (auto simp: copy_into_frame_def ld_return_def takes_free_def split: if_splits)
      then have inv2: "allocator_inv (ld_frames s2)" by (simp add: takes_free_def)
      from Suc.IH[OF inv2 further(2)] t2 takes_unused_bytes[OF t2] frame show ?thesis
        by (auto intro: takes_free_trans)
    qed
  qed
qed

lemma stage_segments_takes_free:
  assumes "allocator_inv (ld_frames s)" "stage_segments img base loads segments s = Some (r, segments', s')"
  shows "takes_free s s' \<and> staged_bytes segments' \<subseteq> staged_bytes segments \<union> unused_bytes (ld_frames s)"
  using assms
proof (induction loads arbitrary: segments s)
  case Nil
  then show ?case by (auto simp: takes_free_refl)
next
  case (Cons segment rest)
  show ?case
  proof (cases "checked_add u64_max base (seg_virtual_address segment)")
    case None
    then show ?thesis using Cons.prems by (auto simp: takes_free_refl)
  next
    case (Some virtual_start)
    note vs = this
    show ?thesis
    proof (cases "slice_get img (seg_file_offset segment) (plus64 (seg_file_offset segment) (seg_file_size segment))")
      case None
      then show ?thesis using Cons.prems vs by (auto simp: takes_free_refl)
    next
      case (Some payload)
      obtain r1 s1 where st: "stage_pages payload 0 (div_ceil (seg_memory_size segment) PAGE_SIZE_BYTES) [] s = Some (r1, s1)"
        using Cons.prems(2) vs Some by (auto split: option.splits)
      note t1 = stage_pages_takes_free[OF Cons.prems(1) st]
      show ?thesis
      proof (cases r1)
        case (Inl e)
        then show ?thesis using Cons.prems(2) vs Some st t1 by auto
      next
        case (Inr pages)
        let ?seg = "\<lparr>rs_virtual_start = virtual_start, rs_executable = (seg_flags segment AND ELF_FLAG_EXECUTE \<noteq> 0),
          rs_writable = (seg_flags segment AND ELF_FLAG_WRITE \<noteq> 0), rs_pages = pages\<rparr>"
        have rest: "stage_segments img base rest (segments @ [?seg]) s1 = Some (r, segments', s')"
          using Cons.prems(2) vs Some st Inr by simp
        have inv1: "allocator_inv (ld_frames s1)" using t1 by (simp add: takes_free_def)
        have "page_bytes pages \<subseteq> unused_bytes (ld_frames s)" using t1 Inr by (auto simp: page_bytes_def)
        with Cons.IH[OF inv1 rest] t1 takes_unused_bytes[of s s1] show ?thesis
          by (auto simp: staged_bytes_def intro: takes_free_trans)
      qed
    qed
  qed
qed

lemma stage_runtime_library_cases:
  assumes "stage_runtime_library img machine base s = Some (r, s')"
  obtains (refused) e where "r = Inl e" "s' = s"
  | (failed) loads e segments s1 where "r = Inl e" "stage_segments img base loads [] s = Some (Inl e, segments, s1)"
      "s' = s1\<lparr>ld_frames := release_frames segments (ld_frames s1)\<rparr>"
  | (staged) plan info tables segments where "plan_elf_dependency_inner img machine = Inr plan"
      "dependency_tables img (dp_loads plan) (dp_dynamic_range plan) = Inr (info, tables)"
      "stage_segments img base (dp_loads plan) [] s = Some (Inr (), segments, s')"
      "r = Inr \<lparr>sl_image = img, sl_loads = dp_loads plan, sl_load_base = base, sl_info = info, sl_tables = tables, sl_segments = segments\<rparr>"
  using assms unfolding stage_runtime_library_def
  by (auto simp: ld_return_def ld_then_def split: if_splits option.splits sum.splits prod.splits)

lemma stage_library_takes_free:
  assumes "allocator_inv (ld_frames s)" "stage_runtime_library img machine base s = Some (r, s')"
  shows "kept_outside (unused_bytes (ld_frames s)) (ld_memory s) (ld_memory s')"
    "\<And>staged. r = Inr staged \<Longrightarrow> staged_bytes (sl_segments staged) \<subseteq> unused_bytes (ld_frames s)"
proof -
  have "kept_outside (unused_bytes (ld_frames s)) (ld_memory s) (ld_memory s') \<and>
    (\<forall>staged. r = Inr staged \<longrightarrow> staged_bytes (sl_segments staged) \<subseteq> unused_bytes (ld_frames s))"
    using assms(2)
  proof (cases rule: stage_runtime_library_cases)
    case (failed loads e segments s1)
    then show ?thesis using stage_segments_takes_free[OF assms(1) failed(2)] by (simp add: takes_free_def)
  next
    case (staged plan info tables segments)
    then show ?thesis using stage_segments_takes_free[OF assms(1) staged(3)] by (auto simp: takes_free_def staged_bytes_def)
  qed simp
  then show "kept_outside (unused_bytes (ld_frames s)) (ld_memory s) (ld_memory s')"
    "\<And>staged. r = Inr staged \<Longrightarrow> staged_bytes (sl_segments staged) \<subseteq> unused_bytes (ld_frames s)"
    by auto
qed

lemma write_staged_word_kept:
  "write_staged_word segments target v phys = (r, phys') \<Longrightarrow> kept_outside (staged_bytes segments) phys phys'"
proof (induction segments target v phys rule: write_staged_word.induct)
  case (2 segment rest target v phys)
  let ?offset = "target - rs_virtual_start segment"
  let ?page = "?offset div PAGE_SIZE_BYTES" and ?in_page = "?offset mod PAGE_SIZE_BYTES"
  show ?case
  proof (cases "rs_virtual_start segment \<le> target \<and> ?page < length (rs_pages segment) \<and> ?in_page + 8 \<le> PAGE_SIZE_BYTES")
    case True
    then have "rs_pages segment ! ?page \<in> set (rs_pages segment)" by simp
    then have "{rs_pages segment ! ?page + ?in_page..<rs_pages segment ! ?page + ?in_page + length (to_le_bytes 8 (of_nat v :: u64))}
        \<subseteq> staged_bytes (segment # rest)"
    proof -
      assume page: "rs_pages segment ! ?page \<in> set (rs_pages segment)"
      have "{rs_pages segment ! ?page + ?in_page..<rs_pages segment ! ?page + ?in_page + length (to_le_bytes 8 (of_nat v :: u64))}
          \<subseteq> {rs_pages segment ! ?page..<rs_pages segment ! ?page + PAGE_SIZE_BYTES}"
        using True by auto
      also have "\<dots> \<subseteq> page_bytes (rs_pages segment)" using page by (auto simp: page_bytes_def)
      also have "\<dots> \<subseteq> staged_bytes (segment # rest)" by (auto simp: staged_bytes_def)
      finally show ?thesis .
    qed
    then show ?thesis using 2(2) True kept_outside_write by (auto simp: Let_def)
  next
    case False
    have "write_staged_word rest target v phys = (r, phys')" using 2(2) unfolding write_staged_word.simps Let_def if_not_P[OF False] .
    from 2(1)[OF refl refl refl False this] show ?thesis by (rule kept_outside_mono) (auto simp: staged_bytes_def)
  qed
qed simp

interpretation staged_words: word_target "write_staged_word segments" "kept_outside (staged_bytes segments)" for segments
  by unfold_locales (auto intro: kept_outside_trans write_staged_word_kept)

lemma staged_relocations_kept:
  "staged_apply_relocations staged ns phys = (r, phys') \<Longrightarrow> kept_outside (staged_bytes (sl_segments staged)) phys phys'"
  unfolding staged_apply_relocations_def by (rule staged_words.relocate_tables_kept)

section \<open>The mapping hooks\<close>

lemma map_memory_object_memory: "ld_memory (snd (map_memory_object ops v i frames w s)) = ld_memory s"
  by (induction ops v i frames w s rule: map_memory_object.induct) (auto split: prod.splits sum.splits)

lemma unmap_memory_range_memory: "ld_memory (snd (unmap_memory_range ops v i n s)) = ld_memory s"
  by (induction ops v i n s rule: unmap_memory_range.induct) (auto split: prod.splits sum.splits)

lemma update_memory_protection_memory: "ld_memory (snd (update_memory_protection ops v i n flags s)) = ld_memory s"
  by (induction ops v i n flags s rule: update_memory_protection.induct) (auto split: prod.splits sum.splits)

lemma map_staged_segments_memory: "ld_memory (snd (snd (map_staged_segments ops segments mapped s))) = ld_memory s"
proof (induction ops segments mapped s rule: map_staged_segments.induct)
  case (2 ops segment rest mapped s)
  then show ?case
    using map_memory_object_memory[of ops "rs_virtual_start segment" 0 "rs_pages segment" "rs_writable segment" s]
      update_memory_protection_memory[of ops "rs_virtual_start segment" 0 "length (rs_pages segment)" MAP_EXECUTABLE]
    by (auto simp: Let_def split: prod.splits sum.splits if_splits) (metis snd_conv)+
qed simp

lemma unmap_segments_memory: "ld_memory (unmap_segments ops mapped s) = ld_memory s"
proof -
  have "ld_memory (fold (\<lambda>(v, n) s. snd (unmap_memory_range ops v 0 n s)) xs s) = ld_memory s" for xs s
    by (induction xs arbitrary: s) (auto simp: unmap_memory_range_memory split: prod.splits)
  then show ?thesis by (simp add: unmap_segments_def)
qed

section \<open>The system call\<close>

lemma reserve_keeps_libraries: "reserve_mapping_range rt i n = (r, rt') \<Longrightarrow> ur_task_libraries rt' = ur_task_libraries rt"
  by (auto simp: reserve_mapping_range_def Let_def split: option.splits)

lemma begin_runtime_load_None: "begin_runtime_load rt i = (None, rt') \<Longrightarrow> rt' = rt"
  by (auto simp: begin_runtime_load_def split: option.splits if_splits)

lemma begin_runtime_load_Some:
  assumes "begin_runtime_load rt i = (Some (handle, ns), rt')"
  obtains entry where "ur_task_libraries rt i = Some entry" "handle = tl_next_handle entry" "ns = tl_table entry"
    "length (tl_libraries entry) < MAX_RUNTIME_LIBRARIES" "tl_next_handle entry \<noteq> u32_max"
    "rt' = rt\<lparr>ur_task_libraries := (ur_task_libraries rt)(i \<mapsto> entry\<lparr>tl_next_handle := tl_next_handle entry + 1\<rparr>)\<rparr>"
  using assms by (auto simp: begin_runtime_load_def split: option.splits if_splits)

text \<open>The outcomes of linking a staged library.\<close>

lemma link_staged_library_cases:
  assumes "link_staged_library ops i base staged rt s = Some (r, rt', s')"
  obtains
    (full) "r = Inl SysCapacityExceeded" "s' = release_staged staged s" "rt' = rt"
  | (unlinked) e entry phys where "r = Inl e" "ur_task_libraries rt i = Some entry" "tl_next_handle entry \<noteq> u32_max"
      "ur_task_libraries rt' = (ur_task_libraries rt)(i \<mapsto> entry\<lparr>tl_next_handle := tl_next_handle entry + 1\<rparr>)"
      "s' = release_staged staged (s\<lparr>ld_memory := phys\<rparr>)"
      "phys = ld_memory s \<or> (\<exists>ns r'. staged_apply_relocations staged ns (ld_memory s) = (r', phys))"
  | (unmapped) entry ns phys e mapped s1 where "r = Inl SysBusy"
      "ur_task_libraries rt i = Some entry" "tl_next_handle entry \<noteq> u32_max"
      "ur_task_libraries rt' = (ur_task_libraries rt)(i \<mapsto> entry\<lparr>tl_next_handle := tl_next_handle entry + 1\<rparr>)"
      "staged_apply_relocations staged ns (ld_memory s) = (Inr (), phys)"
      "map_staged_segments ops (sl_segments staged) [] (s\<lparr>ld_memory := phys\<rparr>) = (Inl e, mapped, s1)"
      "s' = release_staged staged (unmap_segments ops mapped s1)"
  | (loaded) entry ns phys mapped where "r = Inr (tl_next_handle entry)"
      "ur_task_libraries rt i = Some entry" "length (tl_libraries entry) < MAX_RUNTIME_LIBRARIES" "tl_next_handle entry \<noteq> u32_max"
      "register_exports staged (tl_table entry) = Some (Inr (), ns)"
      "staged_apply_relocations staged ns (ld_memory s) = (Inr (), phys)"
      "map_staged_segments ops (sl_segments staged) [] (s\<lparr>ld_memory := phys\<rparr>) = (Inr (), mapped, s')"
      "ur_task_libraries rt' = (ur_task_libraries rt)(i \<mapsto> entry\<lparr>tl_next_handle := tl_next_handle entry + 1, tl_table := ns,
        tl_libraries := tl_libraries entry @ [\<lparr>rl_handle = tl_next_handle entry, rl_base = base, rl_mapped_bytes = mapping_bytes staged\<rparr>]\<rparr>)"
proof -
  obtain ho rt1 where b: "begin_runtime_load rt i = (ho, rt1)" by fastforce
  show thesis
  proof (cases ho)
    case None
    then show thesis using assms b full begin_runtime_load_None[of rt i rt1] by (auto simp: link_staged_library_def)
  next
    case (Some h)
    then obtain entry where e: "ur_task_libraries rt i = Some entry" "h = (tl_next_handle entry, tl_table entry)"
      "length (tl_libraries entry) < MAX_RUNTIME_LIBRARIES" "tl_next_handle entry \<noteq> u32_max"
      "rt1 = rt\<lparr>ur_task_libraries := (ur_task_libraries rt)(i \<mapsto> entry\<lparr>tl_next_handle := tl_next_handle entry + 1\<rparr>)\<rparr>"
      using begin_runtime_load_Some[of rt i _ _ rt1] b by (metis surj_pair)
    obtain r1 ns where reg: "register_exports staged (tl_table entry) = Some (r1, ns)"
      using assms b Some e(2) by (auto simp: link_staged_library_def split: option.splits)
    obtain r2 phys where rel: "staged_apply_relocations staged ns (ld_memory s) = (r2, phys)" by fastforce
    obtain r3 mapped s1 where map: "map_staged_segments ops (sl_segments staged) [] (s\<lparr>ld_memory := phys\<rparr>) = (r3, mapped, s1)"
      by (metis prod_cases3)
    note run = assms[unfolded link_staged_library_def b Some e(2) prod.case option.case reg]
    show thesis
    proof (cases r1)
      case (Inl x)
      have "s = s\<lparr>ld_memory := ld_memory s\<rparr>" by simp
      then show thesis using run Inl e unlinked[of _ entry "ld_memory s"] by auto
    next
      case (Inr u)
      note ok1 = this
      show thesis
      proof (cases r2)
        case (Inl x)
        have "\<exists>ns r'. staged_apply_relocations staged ns (ld_memory s) = (r', phys)" using rel by blast
        then show thesis using run ok1 rel Inl e unlinked[of _ entry phys] by auto
      next
        case (Inr u)
        note run3 = run[unfolded ok1 sum.case prod.case rel Inr map]
        have libs: "ur_task_libraries rt1 i = Some (entry\<lparr>tl_next_handle := tl_next_handle entry + 1\<rparr>)" by (simp add: e(5))
        show thesis
        proof (cases r3)
          case (Inl x)
          have "r = Inl SysBusy" "rt' = rt1" "s' = release_staged staged (unmap_segments ops mapped s1)"
            using run3[unfolded Inl sum.case] by simp_all
          then show thesis
            using unmapped[of entry ns phys x mapped s1, OF _ e(1,4)] e(5) rel Inr map Inl by simp
        next
          case (Inr u')
          have r: "r = Inr (tl_next_handle entry)" "s1 = s'" "rt' = snd (commit_runtime_load rt1 i (tl_next_handle entry) base (mapping_bytes staged) ns)"
            using run3[unfolded Inr sum.case] by (simp_all add: commit_runtime_load_def libs)
          then show thesis
            using loaded[of entry ns phys mapped, OF _ e(1,3,4)] e(5) reg ok1 rel \<open>r2 = Inr u\<close> map Inr by (simp add: commit_runtime_load_def libs)
        qed
      qed
    qed
  qed
qed

text \<open>The outcomes of the system call.\<close>

lemma task_load_library_cases:
  assumes "task_load_library ops i bytes rt s = Some (r, rt', s')"
  obtains
    (refused) e where "r = Inl e" "s' = s" "ur_task_libraries rt' = ur_task_libraries rt"
  | (unstaged) e e' base where "r = Inl e" "stage_runtime_library bytes HOST_ELF_MACHINE base s = Some (Inl e', s')"
      "ur_task_libraries rt' = ur_task_libraries rt"
  | (linked) staged base rt1 s1 where "stage_runtime_library bytes HOST_ELF_MACHINE base s = Some (Inr staged, s1)"
      "ur_task_libraries rt1 = ur_task_libraries rt" "link_staged_library ops i base staged rt1 s1 = Some (r, rt', s')"
proof (cases "(bytes = [] \<or> length bytes > MAX_RUNTIME_LIBRARY_IMAGE_BYTES) \<or> \<not> is_elf64_image bytes")
  case True
  then show thesis using assms refused by (auto simp: task_load_library_def split: if_splits)
next
  case False
  then have c: "\<not> (bytes = [] \<or> length bytes > MAX_RUNTIME_LIBRARY_IMAGE_BYTES)" "\<not> \<not> is_elf64_image bytes" by auto
  note run = assms[unfolded task_load_library_def if_not_P[OF c(1)] if_not_P[OF c(2)] Let_def]
  show thesis
  proof (cases "plan_elf_dependency bytes HOST_ELF_MACHINE")
    case (Inl e)
    then show thesis using run refused by auto
  next
    case (Inr plan)
    obtain ro rt1 where res: "reserve_mapping_range rt i (mapping_span_bytes plan) = (ro, rt1)" by fastforce
    note libs1 = reserve_keeps_libraries[OF res]
    show thesis
    proof (cases "mapping_span_bytes plan = 0 \<or> mapping_span_bytes plan > MAX_RUNTIME_LIBRARY_MAPPING_BYTES")
      case True
      then show thesis using run refused Inr by auto
    next
      case False
      then show thesis using run Inr res libs1 refused unstaged linked
        by (auto split: option.splits sum.splits)
    qed
  qed
qed

lemma same_symbols_eq:
  assumes "ur_task_libraries rt' = ur_task_libraries rt"
  shows "lookup_task_symbol rt' j name = lookup_task_symbol rt j name" "runtime_library_records rt' j = runtime_library_records rt j"
  using assms by (simp_all add: lookup_task_symbol_def runtime_library_records_def)

lemma same_symbols_bump:
  assumes "ur_task_libraries rt i = Some entry" "ur_task_libraries rt' = (ur_task_libraries rt)(i \<mapsto> entry\<lparr>tl_next_handle := n\<rparr>)"
  shows "lookup_task_symbol rt' j name = lookup_task_symbol rt j name" "runtime_library_records rt' j = runtime_library_records rt j"
  using assms by (simp_all add: lookup_task_symbol_def runtime_library_records_def)

section \<open>Memory and symbols across a load\<close>

lemma link_staged_library_kept:
  assumes "link_staged_library ops i base staged rt s = Some (r, rt', s')"
  shows "kept_outside (staged_bytes (sl_segments staged)) (ld_memory s) (ld_memory s')"
  using assms
proof (cases rule: link_staged_library_cases)
  case (unlinked e entry phys)
  then show ?thesis using staged_relocations_kept by (auto simp: release_staged_def)
next
  case (unmapped entry ns phys e mapped s1)
  have "ld_memory s' = phys"
    using unmapped(7) map_staged_segments_memory[of ops "sl_segments staged" "[]" "s\<lparr>ld_memory := phys\<rparr>"] unmapped(6)
    by (simp add: release_staged_def unmap_segments_memory)
  then show ?thesis using staged_relocations_kept unmapped(5) by blast
next
  case (loaded entry ns phys mapped)
  have "ld_memory s' = phys"
    using map_staged_segments_memory[of ops "sl_segments staged" "[]" "s\<lparr>ld_memory := phys\<rparr>"] loaded(7) by simp
  then show ?thesis using staged_relocations_kept loaded(6) by blast
qed (simp add: release_staged_def)

section \<open>Well-formed runtime states\<close>

definition library_state_ok :: "task_library_state \<Rightarrow> bool" where
  "library_state_ok entry \<longleftrightarrow>
     namespace_ok (tl_table entry) \<and> length (tl_libraries entry) \<le> MAX_RUNTIME_LIBRARIES \<and>
     0 < tl_next_handle entry \<and> tl_next_handle entry \<le> u32_max \<and>
     sorted_wrt (<) (0 # map rl_handle (tl_libraries entry) @ [tl_next_handle entry])"

definition runtime_ok :: "user_runtime_state \<Rightarrow> bool" where
  "runtime_ok rt \<longleftrightarrow>
     (\<forall>i entry. ur_task_libraries rt i = Some entry \<longrightarrow> library_state_ok entry) \<and>
     (\<forall>i entry. ur_address_spaces rt i = Some entry \<longrightarrow> as_next_mapping_base entry mod PAGE_SIZE_BYTES = 0 \<and> as_next_mapping_base entry \<le> u64_max) \<and>
     ran (ur_threads rt) \<subseteq> dom (ur_tasks rt)"

text \<open>The calls into the user runtime, with the seed of a task built by \<open>build_task_export_seed\<close>.\<close>

inductive runtime_step :: "'m page_table_ops \<Rightarrow> image_resolver option \<Rightarrow> user_runtime_state \<times> 'm loader \<Rightarrow> user_runtime_state \<times> 'm loader \<Rightarrow> bool"
  for ops resolver where
  "runtime_step ops resolver (rt, s) (snd (allocate_address_space_id rt), s)"
| "runtime_step ops resolver (rt, s) (track_task rt task thread, s)"
| "runtime_step ops resolver (rt, s) (register_address_space rt i root, s)"
| "runtime_step ops resolver (rt, s) (snd (reserve_mapping_range rt i n), s)"
| "runtime_step ops resolver (rt, s) (mark_thread_exit rt thread code, s)"
| "runtime_step ops resolver (rt, s) (mark_thread_faulted rt thread code, s)"
| "runtime_step ops resolver (rt, s) (release_address_space rt i, s)"
| "build_task_export_seed resolver img loaded = Some (Inr seed) \<Longrightarrow> runtime_step ops resolver (rt, s) (seed_library_state rt i seed, s)"
| "runtime_step ops resolver (rt, s) (record_loaded_image rt i loaded, s)"
| "runtime_step ops resolver (rt, s) (set_syscall_abi rt i abi, s)"
| "task_load_library ops i bytes rt s = Some (r, rt', s') \<Longrightarrow> runtime_step ops resolver (rt, s) (rt', s')"

lemma collect_exports_ok:
  "collect_elf_exports img base ns = Some (r, ns') \<Longrightarrow> namespace_ok ns \<Longrightarrow> namespace_ok ns'"
  unfolding collect_elf_exports_def
  by (auto split: if_splits sum.splits option.splits dest: register_module_exports_ok)

lemma seed_libraries_ok:
  "seed_libraries resolve_image records ns = Some (r, ns') \<Longrightarrow> namespace_ok ns \<Longrightarrow> namespace_ok ns'"
  by (induction resolve_image records ns rule: seed_libraries.induct)
    (auto split: if_splits sum.splits option.splits, (metis collect_exports_ok)+)

lemma task_seed_ok:
  assumes "build_task_export_seed resolver img loaded = Some (Inr seed)"
  shows "namespace_ok seed"
proof -
  define first where "first = (if is_elf64_image img then
              (case read_u16_le img 16 of
                 Inl e \<Rightarrow> Some (Inl e, namespace_empty)
               | Inr elf_type \<Rightarrow>
                   collect_elf_exports img (if elf_type = ELF_TYPE_DYN then li_image_base loaded else 0) namespace_empty)
            else Some (Inr False, namespace_empty))"
  have ok: "namespace_ok ns" if "first = Some (r, ns)" for r ns
    using that namespace_empty_ok(1) by (auto simp: first_def split: if_splits sum.splits dest: collect_exports_ok)
  show ?thesis using assms unfolding build_task_export_seed_def first_def[symmetric]
    by (auto split: option.splits sum.splits if_splits) (metis ok seed_libraries_ok)+
qed

lemma library_state_bump:
  "library_state_ok entry \<Longrightarrow> tl_next_handle entry \<noteq> u32_max \<Longrightarrow> library_state_ok (entry\<lparr>tl_next_handle := tl_next_handle entry + 1\<rparr>)"
  by (auto simp: library_state_ok_def sorted_wrt_append)

lemma library_state_commit:
  assumes "library_state_ok entry" "tl_next_handle entry \<noteq> u32_max" "length (tl_libraries entry) < MAX_RUNTIME_LIBRARIES" "namespace_ok ns"
    "rl_handle record = tl_next_handle entry"
  shows "library_state_ok (entry\<lparr>tl_next_handle := tl_next_handle entry + 1, tl_table := ns, tl_libraries := tl_libraries entry @ [record]\<rparr>)"
  using assms by (auto simp: library_state_ok_def sorted_wrt_append)

lemma link_library_ok:
  assumes "runtime_ok rt" "link_staged_library ops i base staged rt s = Some (r, rt', s')" "ur_task_libraries rt' j = Some entry'"
  shows "library_state_ok entry'"
proof -
  have old: "library_state_ok entry" if "ur_task_libraries rt k = Some entry" for k entry
    using assms(1) that by (auto simp: runtime_ok_def)
  from assms(2) show ?thesis
  proof (cases rule: link_staged_library_cases)
    case full
    then show ?thesis using assms(3) old by auto
  next
    case (unlinked e entry phys)
    then show ?thesis using assms(3) old library_state_bump[OF old[OF unlinked(2)]] by (auto split: if_splits)
  next
    case (unmapped entry ns phys e mapped s1)
    then show ?thesis using assms(3) old library_state_bump[OF old[OF unmapped(2)]] by (auto split: if_splits)
  next
    case (loaded entry ns phys mapped)
    have "namespace_ok ns" using loaded(5) old[OF loaded(2)] register_module_exports_ok
      by (auto simp: register_exports_def library_state_ok_def split: option.splits)
    from library_state_commit[OF old[OF loaded(2)] loaded(4,3) this] show ?thesis
      using loaded(8) assms(3) old by (auto split: if_splits)
  qed
qed

lemma link_library_frame:
  assumes "link_staged_library ops i base staged rt s = Some (r, rt', s')"
  shows "ur_address_spaces rt' = ur_address_spaces rt \<and> ur_threads rt' = ur_threads rt \<and> ur_tasks rt' = ur_tasks rt"
  using assms unfolding link_staged_library_def begin_runtime_load_def commit_runtime_load_def
  by (auto split: option.splits if_splits sum.splits prod.splits)

lemma load_library_runtime:
  assumes "task_load_library ops i bytes rt s = Some (r, rt', s')"
  shows "rt' = rt \<or> (\<exists>n. rt' = snd (reserve_mapping_range rt i n)) \<or>
    (\<exists>n base staged s1. link_staged_library ops i base staged (snd (reserve_mapping_range rt i n)) s1 = Some (r, rt', s'))"
  using assms unfolding task_load_library_def Let_def
  by (auto split: option.splits if_splits sum.splits prod.splits) (metis snd_conv)+

lemma runtime_okI:
  assumes "\<And>i entry. ur_task_libraries rt i = Some entry \<Longrightarrow> library_state_ok entry"
    "\<And>i entry. ur_address_spaces rt i = Some entry \<Longrightarrow> as_next_mapping_base entry mod PAGE_SIZE_BYTES = 0 \<and> as_next_mapping_base entry \<le> u64_max"
    "ran (ur_threads rt) \<subseteq> dom (ur_tasks rt)"
  shows "runtime_ok rt"
  using assms by (auto simp: runtime_ok_def)

lemma plus64_aligned: "a mod PAGE_SIZE_BYTES = 0 \<Longrightarrow> b mod PAGE_SIZE_BYTES = 0 \<Longrightarrow> plus64 a b mod PAGE_SIZE_BYTES = 0 \<and> plus64 a b \<le> u64_max"
proof -
  assume "a mod PAGE_SIZE_BYTES = 0" "b mod PAGE_SIZE_BYTES = 0"
  then have "PAGE_SIZE_BYTES dvd a + b" by (simp add: mod_eq_0_iff_dvd dvd_add)
  moreover have "PAGE_SIZE_BYTES dvd Suc u64_max" by (simp add: PAGE_SIZE_BYTES_def u64_max_def)
  moreover have "(a + b) mod Suc u64_max \<le> u64_max" by (metis less_Suc_eq_le mod_less_divisor zero_less_Suc)
  ultimately show ?thesis by (simp add: wrapping_add_def dvd_mod mod_eq_0_iff_dvd)
qed

lemma reserve_ok: "runtime_ok rt \<Longrightarrow> runtime_ok (snd (reserve_mapping_range rt i n))"
proof -
  assume ok: "runtime_ok rt"
  have "times64 k PAGE_SIZE_BYTES mod PAGE_SIZE_BYTES = 0" for k
    by (simp add: times64_def PAGE_SIZE_BYTES_def u64_max_def mod_eq_0_iff_dvd dvd_mod)
  then show ?thesis
    using ok plus64_aligned by (auto simp: reserve_mapping_range_def runtime_ok_def Let_def split: option.splits)
qed

lemma load_library_ok:
  assumes "runtime_ok rt" "task_load_library ops i bytes rt s = Some (r, rt', s')"
  shows "runtime_ok rt'"
  using load_library_runtime[OF assms(2)]
proof (elim disjE exE)
  fix n base staged s1
  let ?rt1 = "snd (reserve_mapping_range rt i n)"
  assume link: "link_staged_library ops i base staged ?rt1 s1 = Some (r, rt', s')"
  have ok1: "runtime_ok ?rt1" using reserve_ok[OF assms(1)] .
  show ?thesis
    by (rule runtime_okI[OF link_library_ok[OF ok1 link]])
      (use ok1 link_library_frame[OF link] in \<open>auto simp: runtime_ok_def\<close>)
qed (use assms(1) reserve_ok in auto)

lemma runtime_step_ok:
  assumes "runtime_step ops resolver rts rts'" "runtime_ok (fst rts)"
  shows "runtime_ok (fst rts')"
  using assms
proof (induction rule: runtime_step.induct)
  case (2 rt s task thread)
  then show ?case by (auto simp: track_task_def runtime_ok_def ran_def)
next
  case (4 rt s i n)
  then show ?case by (simp add: reserve_ok)
next
  case (5 rt s thread code)
  then show ?case by (auto simp: mark_thread_exit_def runtime_ok_def ran_def split: option.splits)
next
  case (6 rt s thread code)
  then show ?case by (auto simp: mark_thread_faulted_def runtime_ok_def ran_def split: option.splits)
next
  case (8 img loaded seed rt s i)
  have "library_state_ok (task_library_state_new seed)"
    using task_seed_ok[OF 8(1)] by (simp add: library_state_ok_def task_library_state_new_def u32_max_def)
  then show ?case using 8(2) by (auto simp: seed_library_state_def runtime_ok_def split: option.splits)
next
  case (11 i bytes rt s r rt' s')
  then show ?case using load_library_ok by auto
qed (auto simp: runtime_ok_def allocate_address_space_id_def register_address_space_def release_address_space_def
    record_loaded_image_def set_syscall_abi_def FIRST_SHARED_MAPPING_BASE_def PAGE_SIZE_BYTES_def u64_max_def split: if_splits)

text \<open>C17. The user runtime stays well formed under every sequence of its calls, library loads included: every task
  has a well-formed symbol table and at most four libraries, whose handles are positive, increasing and below the
  next handle, which fits 32 bits; the next mapping base is page aligned; every tracked thread belongs to a tracked
  task.\<close>

theorem runtime_states_well_formed:
  assumes "(runtime_step ops resolver)\<^sup>*\<^sup>* (user_runtime_new, s) (rt, s')"
  shows "runtime_ok rt"
proof -
  have "runtime_ok (fst rts)" if "(runtime_step ops resolver)\<^sup>*\<^sup>* (user_runtime_new, s) rts" for rts
    using that
  proof (induction rule: rtranclp_induct)
    case base
    then show ?case by (simp add: runtime_ok_def user_runtime_new_def)
  qed (rule runtime_step_ok)
  from this[OF assms] show ?thesis by simp
qed

definition sample_loaded :: loaded_user_image where
  "sample_loaded = \<lparr>li_entry_point = 0x400000000000, li_image_base = 0x400000000000, li_file_size = 1, li_mapped_image_bytes = 1,
     li_user_stack_top = 0x7fffffff0000, li_mapped_stack_bytes = 0x100000, li_stack_executable = False, li_libraries = []\<rparr>"

text \<open>The runtime with one address space, seeded for an image without exports.\<close>

definition sample_runtime :: user_runtime_state where
  "sample_runtime = seed_library_state (register_address_space user_runtime_new 5 0x1000) 5 namespace_empty"

lemma sample_runtime_reachable: "(runtime_step ops None)\<^sup>*\<^sup>* (user_runtime_new, s) (sample_runtime, s)"
proof -
  have "build_task_export_seed None [] sample_loaded = Some (Inr namespace_empty)"
    by (simp add: build_task_export_seed_def is_elf64_image_def ELF_MAGIC_def sample_loaded_def)
  then have "runtime_step ops None (register_address_space user_runtime_new 5 0x1000, s) (sample_runtime, s)"
    unfolding sample_runtime_def by (rule runtime_step.intros(8))
  moreover have "runtime_step ops None (user_runtime_new, s) (register_address_space user_runtime_new 5 0x1000, s)"
    by (rule runtime_step.intros(3))
  ultimately show ?thesis by (meson r_into_rtranclp rtranclp.rtrancl_into_rtrancl)
qed

theorem runtime_states_well_formed_witness: "runtime_ok sample_runtime"
  using runtime_states_well_formed[OF sample_runtime_reachable] .

end
