(* ===== verification/Library_Loading.thy ===== *)
theory Library_Loading
  imports Runtime_Props
begin

text \<open>
  What loading a library at run time guarantees and what it does not: the memory it writes, the symbols a failure
  leaves, where the pages of a library end up, and what a failed mapping leaves behind. The last two are shown on
  libraries given by their bytes, run through the whole call over a page table that is a map from pages to frames.
\<close>

section \<open>Two libraries\<close>

text \<open>
  ELF libraries without file contents: the header for one program header, and a \<open>PT_LOAD\<close> of \<open>pages\<close> (below 16)
  writable pages whose address is given by its bytes.
\<close>

definition library_header :: "u8 \<Rightarrow> u8 list" where
  "library_header phnum =
     [0x7f, 0x45, 0x4c, 0x46, 2, 1, 1, 0, 0, 0, 0, 0, 0, 0, 0, 0, 3, 0, 62, 0, 1, 0, 0, 0,
      0, 0, 0, 0, 0, 0, 0, 0, 64, 0, 0, 0, 0, 0, 0, 0, 0, 0, 0, 0, 0, 0, 0, 0, 0, 0, 0, 0, 64, 0, 56, 0, phnum, 0, 0, 0, 0, 0, 0, 0]"

definition load_header :: "u8 list \<Rightarrow> u8 \<Rightarrow> u8 list" where
  "load_header address pages =
     [1, 0, 0, 0, 6, 0, 0, 0, 0, 0, 0, 0, 0, 0, 0, 0] @ address @
     [0, 0, 0, 0, 0, 0, 0, 0, 0, 0, 0, 0, 0, 0, 0, 0, 0, push_bit 4 pages, 0, 0, 0, 0, 0, 0, 0, 0x10, 0, 0, 0, 0, 0, 0]"

definition stray_library :: "nat \<Rightarrow> u8 list" where
  "stray_library v = library_header 1 @ load_header (to_le_bytes 8 (of_nat v :: u64)) 1"

definition overlapping_library :: "u8 list" where
  "overlapping_library = library_header 2 @ load_header [0, 0x10, 0, 0, 0, 0, 0, 0] 1 @ load_header [0, 0, 0, 0, 0, 0, 0, 0] 2"

definition data_segment :: "nat \<Rightarrow> nat \<Rightarrow> elf_load_segment" where
  "data_segment v n = \<lparr>seg_flags = 6, seg_file_offset = 0, seg_virtual_address = v, seg_file_size = 0, seg_memory_size = n\<rparr>"

lemmas image_slices = slice_get_def sub_slice_def times64_def wrapping_add_def u64_max_def ok_or_def

lemma list8E:
  assumes "length xs = 8"
  obtains a b c d e f g h where "xs = [a, b, c, d, e, f, g, h]"
  using assms by (auto simp: numeral_eq_Suc length_Suc_conv)

lemma load_header_scan:
  assumes "length address = 8" "pages = 1 \<or> pages = 2" "length (ps_loads scan) < MAX_ELF_LOAD_SEGMENTS"
  shows "dependency_program img (load_header address pages) scan =
    Inr (scan\<lparr>ps_loads := ps_loads scan @ [data_segment (unat (from_le_bytes address :: u64)) (unat pages * 4096)]\<rparr>)"
proof -
  obtain a b c d e f g h where address: "address = [a, b, c, d, e, f, g, h]" using list8E[OF assms(1)] .
  have "read_u32_le (load_header address pages) 0 = Inr 1" "read_u32_le (load_header address pages) 4 = Inr 6"
    "read_u64_le (load_header address pages) 8 = Inr 0" "read_u64_le (load_header address pages) 32 = Inr 0"
    "read_u64_le (load_header address pages) 40 = Inr (unat pages * 4096)"
    using assms(2) by (auto simp: load_header_def address image_eval)
  moreover have "read_u64_le (load_header address pages) 16 = Inr (unat (from_le_bytes address :: u64))"
    by (simp add: load_header_def address image_slices read_u64_le_def)
  ultimately show ?thesis
    using assms(3) by (simp add: dependency_program_def scan_load_def data_segment_def ELF_SEGMENT_INTERP_def ELF_SEGMENT_DYNAMIC_def ELF_SEGMENT_LOAD_def)
qed

lemma library_header_reads:
  "is_elf64_image (library_header phnum @ rest)" "(library_header phnum @ rest) ! 4 = 2" "(library_header phnum @ rest) ! 5 = 1"
  "(library_header phnum @ rest) ! 6 = 1" "read_u16_le (library_header phnum @ rest) 16 = Inr 3"
  "read_u16_le (library_header phnum @ rest) 18 = Inr 62" "read_u64_le (library_header phnum @ rest) 32 = Inr 64"
  "read_u16_le (library_header phnum @ rest) 54 = Inr 56"
  by (simp_all add: library_header_def is_elf64_image_def ELF_MAGIC_def image_eval)

lemma length_library_header: "length (library_header phnum) = 64"
  by (simp add: library_header_def)

lemma library_header_count:
  "read_u16_le (library_header 1 @ rest) 56 = Inr 1" "read_u16_le (library_header 2 @ rest) 56 = Inr 2"
  by (simp_all add: library_header_def image_eval)

lemma length_load_header: "length address = 8 \<Longrightarrow> length (load_header address pages) = 56"
  by (simp add: load_header_def)

lemma slice_append:
  "k = length pre \<Longrightarrow> n = k + length mid \<Longrightarrow> slice_get (pre @ mid @ post) k n = Some mid"
  by (simp add: slice_get_def sub_slice_def)

lemma data_span:
  assumes "v mod PAGE_SIZE_BYTES = 0" "v + n \<le> u64_max"
  shows "dependency_span img (data_segment v n # rest) low high = dependency_span img rest (min low v) (max high (v + n))"
  using assms by (simp add: data_segment_def slice_get_def wrapping_add_def saturating_add_def)

lemma stray_plan:
  assumes "v mod PAGE_SIZE_BYTES = 0" "v + 4096 \<le> u64_max"
  shows "plan_elf_dependency_inner (stray_library v) X86_64 = Inr \<lparr>dp_loads = [data_segment v 4096], dp_dynamic_range = None, dp_span = 4096\<rparr>"
proof -
  let ?address = "to_le_bytes 8 (of_nat v :: u64)"
  have v: "unat (from_le_bytes ?address :: u64) = v"
    using assms(2) by (simp add: unat_of_nat u64_max_def)
  have l: "length ?address = 8" by simp
  have "slice_get (stray_library v) 64 120 = Some (load_header ?address 1)"
    using slice_append[of 64 "library_header 1" 120 "load_header ?address 1" "[]"] length_load_header[OF l, of 1] length_library_header
    by (simp add: stray_library_def)
  then have scan: "scan_programs dependency_program (stray_library v) 64 56 0 1 program_scan_new =
      Inr \<lparr>ps_loads = [data_segment v 4096], ps_dynamic_range = None, ps_interp_range = None, ps_gnu_stack_executable = False\<rparr>"
    using load_header_scan[OF l, of 1 program_scan_new] v
    by (simp add: checked_add_def u64_max_def wrapping_add_def program_scan_new_def MAX_ELF_LOAD_SEGMENTS_def ok_or_def)
  have span: "dependency_span (stray_library v) [data_segment v 4096] u64_max 0 = Inr (v, v + 4096)"
    using data_span[OF assms(1,2), of "stray_library v" "[]" u64_max 0] assms(2) by (simp add: min_def)
  have len: "length (stray_library v) = 120"
    using length_load_header[OF l, of 1] length_library_header by (simp add: stray_library_def)
  note h = library_header_reads[of 1 "load_header ?address 1", folded stray_library_def] library_header_count(1)[of "load_header ?address 1", folded stray_library_def]
  show ?thesis
    by (simp add: plan_elf_dependency_inner_def len h scan span ELF_CLASS_64_def ELF_DATA_LSB_def ELF_VERSION_CURRENT_def ELF_TYPE_DYN_def
        ELF_MACHINE_X86_64_def ELF_PROGRAM_HEADER_LEN_def check_interpreter_policy_def del: One_nat_def dependency_span.simps)
qed

lemma overlapping_plan:
  "plan_elf_dependency_inner overlapping_library X86_64 =
     Inr \<lparr>dp_loads = [data_segment 0x1000 4096, data_segment 0 8192], dp_dynamic_range = None, dp_span = 8192\<rparr>"
proof -
  let ?a = "[0, 0x10, 0, 0, 0, 0, 0, 0] :: u8 list" and ?b = "[0, 0, 0, 0, 0, 0, 0, 0] :: u8 list"
  have l: "length ?a = 8" "length ?b = 8" by simp_all
  have v: "unat (from_le_bytes ?a :: u64) = 0x1000" "unat (from_le_bytes ?b :: u64) = 0" by (simp_all add: from_le_bytes_def)
  have "slice_get overlapping_library 64 120 = Some (load_header ?a 1)"
    using slice_append[of 64 "library_header 2" 120 "load_header ?a 1" "load_header ?b 2"] length_load_header[OF l(1), of 1] length_library_header
    by (simp add: overlapping_library_def)
  moreover have "slice_get overlapping_library 120 176 = Some (load_header ?b 2)"
    using slice_append[of 120 "library_header 2 @ load_header ?a 1" 176 "load_header ?b 2" "[]"]
      length_load_header[OF l(1), of 1] length_load_header[OF l(2), of 2] length_library_header
    by (simp add: overlapping_library_def)
  ultimately have "scan_programs dependency_program overlapping_library 64 56 0 (Suc (Suc 0)) program_scan_new =
      Inr \<lparr>ps_loads = [data_segment 0x1000 4096, data_segment 0 8192], ps_dynamic_range = None, ps_interp_range = None, ps_gnu_stack_executable = False\<rparr>"
    using load_header_scan[OF l(1), of 1] load_header_scan[OF l(2), of 2] v
    by (simp add: checked_add_def u64_max_def wrapping_add_def program_scan_new_def MAX_ELF_LOAD_SEGMENTS_def ok_or_def)
  then have scan: "scan_programs dependency_program overlapping_library 64 56 0 2 program_scan_new =
      Inr \<lparr>ps_loads = [data_segment 0x1000 4096, data_segment 0 8192], ps_dynamic_range = None, ps_interp_range = None, ps_gnu_stack_executable = False\<rparr>"
    by (simp only: numeral_2_eq_2)
  have span: "dependency_span overlapping_library [data_segment 0x1000 4096, data_segment 0 8192] u64_max 0 = Inr (0, 8192)"
    by (simp add: data_segment_def slice_get_def wrapping_add_def saturating_add_def PAGE_SIZE_BYTES_def u64_max_def)
  have len: "length overlapping_library = 176"
    using length_load_header[OF l(1), of 1] length_load_header[OF l(2), of 2] length_library_header by (simp add: overlapping_library_def)
  note h = library_header_reads[of 2 "load_header ?a 1 @ load_header ?b 2", folded overlapping_library_def]
    library_header_count(2)[of "load_header ?a 1 @ load_header ?b 2", folded overlapping_library_def]
  show ?thesis
    by (simp add: plan_elf_dependency_inner_def len h scan span ELF_CLASS_64_def ELF_DATA_LSB_def ELF_VERSION_CURRENT_def ELF_TYPE_DYN_def
        ELF_MACHINE_X86_64_def ELF_PROGRAM_HEADER_LEN_def check_interpreter_policy_def del: dependency_span.simps)
qed

text \<open>A page table as the map from pages to frames; mapping a mapped page fails.\<close>

definition table_ops :: "(nat \<rightharpoonup> nat) page_table_ops" where
  "table_ops =
     \<lparr>pt_map_page = (\<lambda>m v f flags a. if m v = None then (Inr (), m(v \<mapsto> frame_base f), a) else (Inl AlreadyMapped, m, a)),
      pt_unmap_page = (\<lambda>m v. (Inr (), m(v := None))), pt_update_protection = (\<lambda>m v flags. (Inr (), m))\<rparr>"

definition sample_state :: "nat list \<Rightarrow> (nat \<rightharpoonup> nat) loader" where
  "sample_state frames = \<lparr>ld_mapper = Map.empty, ld_frames = free_pool frames, ld_memory = \<lambda>_. 0\<rparr>"

lemma sample_runtime_reserve:
  "reserve_mapping_range sample_runtime 5 n =
     (Some FIRST_SHARED_MAPPING_BASE, sample_runtime\<lparr>ur_address_spaces := [5 \<mapsto> \<lparr>as_root = 0x1000,
        as_next_mapping_base = plus64 FIRST_SHARED_MAPPING_BASE (times64 (div_ceil (max n PAGE_SIZE_BYTES) PAGE_SIZE_BYTES) PAGE_SIZE_BYTES)\<rparr>]\<rparr>)"
  by (simp add: reserve_mapping_range_def sample_runtime_def seed_library_state_def register_address_space_def user_runtime_new_def Let_def)

lemma sample_runtime_libraries:
  "ur_task_libraries (sample_runtime\<lparr>ur_address_spaces := x\<rparr>) 5 = Some (task_library_state_new namespace_empty)"
  by (simp add: sample_runtime_def seed_library_state_def register_address_space_def user_runtime_new_def)

text \<open>The call on a library without dynamic section: what is left is staging and mapping.\<close>

lemma load_plain_library:
  assumes "is_elf64_image bytes" "length bytes < 1000" "bytes \<noteq> []" "plan_elf_dependency_inner bytes X86_64 = Inr \<lparr>dp_loads = loads, dp_dynamic_range = None, dp_span = span\<rparr>"
    "span = 4096 \<or> span = 8192"
    "stage_segments bytes FIRST_SHARED_MAPPING_BASE loads [] s = Some (Inr (), segments, s1)"
    "map_staged_segments ops segments [] s1 = (mr, mapped, s2)"
  shows "\<exists>rt'. task_load_library ops 5 bytes sample_runtime s =
    Some (case mr of Inl _ \<Rightarrow> (Inl SysBusy, rt', release_staged \<lparr>sl_image = bytes, sl_loads = loads, sl_load_base = FIRST_SHARED_MAPPING_BASE,
        sl_info = dynamic_info_default, sl_tables = None, sl_segments = segments\<rparr> (unmap_segments ops mapped s2))
      | Inr _ \<Rightarrow> (Inr 1, rt', s2))"
proof -
  let ?staged = "\<lparr>sl_image = bytes, sl_loads = loads, sl_load_base = FIRST_SHARED_MAPPING_BASE, sl_info = dynamic_info_default,
    sl_tables = None, sl_segments = segments\<rparr>"
  have plan: "plan_elf_dependency bytes HOST_ELF_MACHINE = Inr \<lparr>dp_loads = loads, dp_dynamic_range = None, dp_span = span\<rparr>"
    using assms(4) by (simp add: plan_elf_dependency_def HOST_ELF_MACHINE_def)
  have stage: "stage_runtime_library bytes HOST_ELF_MACHINE FIRST_SHARED_MAPPING_BASE s = Some (Inr ?staged, s1)"
    using assms(1,4,6) by (simp add: stage_runtime_library_def HOST_ELF_MACHINE_def ld_then_def ld_return_def dependency_tables_def)
  have tables: "relocation_tables dynamic_info_default = []"
    by (simp add: relocation_tables_def dynamic_info_default_def map_filter_def)
  have span: "\<not> (mapping_span_bytes \<lparr>dp_loads = loads, dp_dynamic_range = None, dp_span = span\<rparr> = 0 \<or>
      mapping_span_bytes \<lparr>dp_loads = loads, dp_dynamic_range = None, dp_span = span\<rparr> > MAX_RUNTIME_LIBRARY_MAPPING_BYTES)"
    using assms(5) by (auto simp: mapping_span_bytes_def align_up_u64_def times64_def div_ceil_def PAGE_SIZE_BYTES_def u64_max_def MAX_RUNTIME_LIBRARY_MAPPING_BYTES_def)
  have link: "\<exists>rt'. link_staged_library ops 5 FIRST_SHARED_MAPPING_BASE ?staged (sample_runtime\<lparr>ur_address_spaces := x\<rparr>) s1 =
    Some (case mr of Inl _ \<Rightarrow> (Inl SysBusy, rt', release_staged ?staged (unmap_segments ops mapped s2)) | Inr _ \<Rightarrow> (Inr 1, rt', s2))" for x
  proof -
    let ?rt = "sample_runtime\<lparr>ur_address_spaces := x\<rparr>"
    define entry where "entry = task_library_state_new namespace_empty\<lparr>tl_next_handle := 2\<rparr>"
    define rt1 where "rt1 = ?rt\<lparr>ur_task_libraries := (ur_task_libraries ?rt)(5 \<mapsto> entry)\<rparr>"
    have started: "begin_runtime_load ?rt 5 = (Some (1, namespace_empty), rt1)"
      unfolding begin_runtime_load_def sample_runtime_libraries
      by (simp add: rt1_def entry_def task_library_state_new_def MAX_RUNTIME_LIBRARIES_def u32_max_def numeral_2_eq_2)
    have exports: "register_exports ?staged namespace_empty = Some (Inr (), namespace_empty)" by (simp add: register_exports_def)
    have relocs: "staged_apply_relocations ?staged namespace_empty (ld_memory s1) = (Inr (), ld_memory s1)"
      by (simp add: staged_apply_relocations_def tables)
    have map: "map_staged_segments ops (sl_segments ?staged) [] (s1\<lparr>ld_memory := ld_memory s1\<rparr>) = (mr, mapped, s2)"
      using assms(7) by simp
    have "ur_task_libraries rt1 5 = Some entry" by (simp add: rt1_def)
    then obtain rt2 where commit: "commit_runtime_load rt1 5 1 FIRST_SHARED_MAPPING_BASE (mapping_bytes ?staged) namespace_empty = (True, rt2)"
      by (simp add: commit_runtime_load_def)
    show ?thesis
      unfolding link_staged_library_def started prod.case option.case exports sum.case relocs map
      by (cases mr) (auto simp: commit simp del: One_nat_def)
  qed
  have "task_load_library ops 5 bytes sample_runtime s =
      link_staged_library ops 5 FIRST_SHARED_MAPPING_BASE ?staged (snd (reserve_mapping_range sample_runtime 5
        (mapping_span_bytes \<lparr>dp_loads = loads, dp_dynamic_range = None, dp_span = span\<rparr>))) s1"
    using assms(1-3) span stage plan
    by (simp add: task_load_library_def Let_def sample_runtime_reserve MAX_RUNTIME_LIBRARY_IMAGE_BYTES_def)
  then show ?thesis using link by (simp add: sample_runtime_reserve)
qed

lemma stage_data_segment:
  assumes "base + v \<le> u64_max"
  shows "stage_segments bytes base (data_segment v n # rest) segments s =
    (case stage_pages [] 0 (div_ceil n PAGE_SIZE_BYTES) [] s of
       None \<Rightarrow> None
     | Some (Inl e, s) \<Rightarrow> Some (Inl e, segments, s)
     | Some (Inr pages, s) \<Rightarrow> stage_segments bytes base rest
         (segments @ [\<lparr>rs_virtual_start = base + v, rs_executable = False, rs_writable = True, rs_pages = pages\<rparr>]) s)"
proof -
  have "checked_add u64_max base (seg_virtual_address (data_segment v n)) = Some (base + v)"
    "slice_get bytes (seg_file_offset (data_segment v n)) (plus64 (seg_file_offset (data_segment v n)) (seg_file_size (data_segment v n))) = Some []"
    "(seg_flags (data_segment v n) AND ELF_FLAG_EXECUTE \<noteq> 0) = False" "(seg_flags (data_segment v n) AND ELF_FLAG_WRITE \<noteq> 0) = True"
    "seg_memory_size (data_segment v n) = n"
    using assms by (simp_all add: data_segment_def checked_add_def slice_get_def sub_slice_def wrapping_add_def ELF_FLAG_EXECUTE_def ELF_FLAG_WRITE_def)
  then show ?thesis by (simp only: stage_segments.simps option.case)
qed

lemma stray_library_loads:
  assumes "t mod PAGE_SIZE_BYTES = 0" "FIRST_SHARED_MAPPING_BASE \<le> t" "t + 4096 \<le> u64_max"
  shows "\<exists>rt' s'. task_load_library table_ops 5 (stray_library (t - FIRST_SHARED_MAPPING_BASE)) sample_runtime (sample_state [7]) =
      Some (Inr 1, rt', s') \<and> ld_mapper s' t = Some (7 * 4096)"
proof -
  let ?v = "t - FIRST_SHARED_MAPPING_BASE" and ?lib = "stray_library (t - FIRST_SHARED_MAPPING_BASE)"
  have v: "?v mod PAGE_SIZE_BYTES = 0" "?v + 4096 \<le> u64_max" "FIRST_SHARED_MAPPING_BASE + ?v = t"
    using assms by (simp_all add: FIRST_SHARED_MAPPING_BASE_def PAGE_SIZE_BYTES_def mod_eq_0_iff_dvd dvd_diff_nat)
  obtain s1 where st: "stage_pages [] 0 (div_ceil 4096 PAGE_SIZE_BYTES) [] (sample_state [7]) = Some (Inr [7 * 4096], s1)" "ld_mapper s1 = Map.empty"
    by (simp add: div_ceil_def PAGE_SIZE_BYTES_def ld_then_def ld_return_def Let_def allocate_zeroed_frame_def sample_state_def
        allocate_4kib_def free_pool_def frame_at_def)
  have "stage_segments ?lib FIRST_SHARED_MAPPING_BASE [data_segment ?v 4096] [] (sample_state [7]) =
      Some (Inr (), [\<lparr>rs_virtual_start = t, rs_executable = False, rs_writable = True, rs_pages = [7 * 4096]\<rparr>], s1)"
    using stage_data_segment[of FIRST_SHARED_MAPPING_BASE ?v ?lib 4096 "[]" "[]" "sample_state [7]"] st v(3) assms(3) by simp
  moreover have "map_staged_segments table_ops [\<lparr>rs_virtual_start = t, rs_executable = False, rs_writable = True, rs_pages = [7 * 4096]\<rparr>] [] s1 =
      (Inr (), [(t, 1)], s1\<lparr>ld_mapper := [t \<mapsto> 7 * 4096]\<rparr>)"
    using st(2) assms(3) by (simp add: table_ops_def wrapping_add_def)
  moreover have "is_elf64_image ?lib" "length ?lib < 1000" "?lib \<noteq> []"
    using library_header_reads(1)[of 1] by (simp_all add: stray_library_def length_library_header load_header_def library_header_def)
  ultimately show ?thesis
    using load_plain_library[OF _ _ _ stray_plan[OF v(1,2)]] by fastforce
qed

definition taken_pool :: "nat list \<Rightarrow> nat list \<Rightarrow> early_frame_allocator" where
  "taken_pool taken free = (free_pool free)\<lparr>allocated_frames := length taken,
     reclaimed := map (\<lambda>n. \<lparr>start_frame = n, end_frame_exclusive = n + 1, next_frame = n + 1\<rparr>) taken @ reclaimed (free_pool free)\<rparr>"

lemma overlapping_library_fails:
  "\<exists>rt' s'. task_load_library table_ops 5 overlapping_library sample_runtime (sample_state [7, 9, 11]) = Some (Inl SysBusy, rt', s') \<and>
     ld_mapper s' FIRST_SHARED_MAPPING_BASE = Some (9 * 4096) \<and> 9 \<in># available (ld_frames s')"
proof -
  let ?b = FIRST_SHARED_MAPPING_BASE
  let ?s1 = "\<lparr>rs_virtual_start = ?b + 0x1000, rs_executable = False, rs_writable = True, rs_pages = [7 * 4096]\<rparr>"
    and ?s2 = "\<lparr>rs_virtual_start = ?b + 0, rs_executable = False, rs_writable = True, rs_pages = [9 * 4096, 11 * 4096]\<rparr>"
  have stage1: "\<exists>phys. stage_pages [] 0 (div_ceil 4096 PAGE_SIZE_BYTES) [] (sample_state [7, 9, 11]) =
      Some (Inr [7 * 4096], \<lparr>ld_mapper = (Map.empty :: nat \<rightharpoonup> nat), ld_frames = taken_pool [7] [9, 11], ld_memory = phys\<rparr>)"
    by (simp add: div_ceil_def PAGE_SIZE_BYTES_def ld_then_def ld_return_def Let_def allocate_zeroed_frame_def sample_state_def taken_pool_def
        allocate_4kib_def free_pool_def frame_at_def)
  have stage2: "\<exists>phys'. stage_pages [] 0 (div_ceil 8192 PAGE_SIZE_BYTES) [] \<lparr>ld_mapper = (Map.empty :: nat \<rightharpoonup> nat), ld_frames = taken_pool [7] [9, 11], ld_memory = phys\<rparr> =
      Some (Inr [9 * 4096, 11 * 4096], \<lparr>ld_mapper = (Map.empty :: nat \<rightharpoonup> nat), ld_frames = taken_pool [7, 9, 11] [], ld_memory = phys'\<rparr>)" for phys
    by (simp add: div_ceil_def PAGE_SIZE_BYTES_def ld_then_def ld_return_def Let_def allocate_zeroed_frame_def taken_pool_def
        allocate_4kib_def free_pool_def frame_at_def numeral_2_eq_2)
  obtain phys where stage: "stage_segments overlapping_library ?b [data_segment 0x1000 4096, data_segment 0 8192] [] (sample_state [7, 9, 11]) =
      Some (Inr (), [?s1, ?s2], \<lparr>ld_mapper = (Map.empty :: nat \<rightharpoonup> nat), ld_frames = taken_pool [7, 9, 11] [], ld_memory = phys\<rparr>)"
  proof -
    obtain phys1 where p1: "stage_pages [] 0 (div_ceil 4096 PAGE_SIZE_BYTES) [] (sample_state [7, 9, 11]) =
        Some (Inr [7 * 4096], \<lparr>ld_mapper = (Map.empty :: nat \<rightharpoonup> nat), ld_frames = taken_pool [7] [9, 11], ld_memory = phys1\<rparr>)"
      using stage1 by blast
    obtain phys2 where p2: "stage_pages [] 0 (div_ceil 8192 PAGE_SIZE_BYTES) [] \<lparr>ld_mapper = (Map.empty :: nat \<rightharpoonup> nat), ld_frames = taken_pool [7] [9, 11], ld_memory = phys1\<rparr> =
        Some (Inr [9 * 4096, 11 * 4096], \<lparr>ld_mapper = (Map.empty :: nat \<rightharpoonup> nat), ld_frames = taken_pool [7, 9, 11] [], ld_memory = phys2\<rparr>)"
      using stage2 by blast
    have fits: "?b + 0x1000 \<le> u64_max" "?b + 0 \<le> u64_max" by (simp_all add: FIRST_SHARED_MAPPING_BASE_def u64_max_def)
    show thesis
      by (rule that[of phys2]) (simp only: stage_data_segment[OF fits(1)] stage_data_segment[OF fits(2)] p1 p2 option.case prod.case sum.case
          stage_segments.simps(1) append.simps)
  qed
  let ?m = "\<lparr>ld_mapper = [?b + 0x1000 \<mapsto> 7 * 4096, ?b \<mapsto> 9 * 4096], ld_frames = taken_pool [7, 9, 11] [], ld_memory = phys\<rparr>"
  have map: "map_staged_segments table_ops [?s1, ?s2] [] \<lparr>ld_mapper = (Map.empty :: nat \<rightharpoonup> nat), ld_frames = taken_pool [7, 9, 11] [], ld_memory = phys\<rparr> =
      (Inl AlreadyMapped, [(?b + 0x1000, 1)], ?m)"
    by (simp add: table_ops_def wrapping_add_def FIRST_SHARED_MAPPING_BASE_def u64_max_def)
  have unmap: "ld_mapper (unmap_segments table_ops [(?b + 0x1000, 1)] ?m) ?b = Some (9 * 4096)"
    "ld_frames (unmap_segments table_ops [(?b + 0x1000, 1)] ?m) = taken_pool [7, 9, 11] []"
    by (simp_all add: unmap_segments_def table_ops_def wrapping_add_def FIRST_SHARED_MAPPING_BASE_def u64_max_def)
  have "9 \<in># available (release_frames [?s1, ?s2] (taken_pool [7, 9, 11] []))"
    by (simp add: release_frames_def taken_pool_def free_pool_def free_4kib_def scan_free.simps absorb_left_def absorb_right_def
        remove_reclaimed_def MAX_RECLAIMED_REGIONS_def PAGE_SIZE_BYTES_def available_def cursor_mset_def)
  moreover have "is_elf64_image overlapping_library" "length overlapping_library < 1000" "overlapping_library \<noteq> []"
    using library_header_reads(1)[of 2] by (simp_all add: overlapping_library_def length_library_header load_header_def library_header_def)
  ultimately show ?thesis
    using load_plain_library[OF _ _ _ overlapping_plan _ stage map] unmap by (auto simp: release_staged_def)
qed

section \<open>Properties\<close>

text \<open>C6. Loading a library writes no byte of physical memory outside the frames that were free before: whatever the
  bytes of the library, its relocations included, and however the call ends, every other byte keeps its value.\<close>

theorem load_library_writes_free_frames_only:
  assumes "allocator_inv (ld_frames s)" "task_load_library ops i bytes rt s = Some (r, rt', s')"
    "address div PAGE_SIZE_BYTES \<notin># available (ld_frames s)"
  shows "ld_memory s' address = ld_memory s address"
proof -
  have "kept_outside (unused_bytes (ld_frames s)) (ld_memory s) (ld_memory s')"
    using assms(2)
  proof (cases rule: task_load_library_cases)
    case (unstaged e e' base)
    then show ?thesis using stage_library_takes_free(1)[OF assms(1)] by blast
  next
    case (linked staged base rt1 s1)
    note t = stage_library_takes_free[OF assms(1) linked(1)]
    show ?thesis
      using kept_outside_trans[OF t(1) kept_outside_mono[OF link_staged_library_kept[OF linked(3)] t(2)[OF refl]]] .
  qed simp
  with assms(3) show ?thesis by (simp add: kept_outside_def unused_bytes_def)
qed

text \<open>C15. A load is all or nothing for the symbols of the task: when the call answers with an error, every name
  resolves as before and the same libraries are known, in every address space; when it answers with a handle, the
  library is recorded under this handle, and the names resolve in the old table with the exports of the library
  registered on top.\<close>

theorem load_library_all_or_nothing:
  assumes "task_load_library ops i bytes rt s = Some (r, rt', s')"
  shows "(\<forall>e. r = Inl e \<longrightarrow> (\<forall>j name. lookup_task_symbol rt' j name = lookup_task_symbol rt j name \<and>
        runtime_library_records rt' j = runtime_library_records rt j)) \<and>
    (\<forall>handle. r = Inr handle \<longrightarrow>
      (\<exists>staged base s1 entry ns. stage_runtime_library bytes HOST_ELF_MACHINE base s = Some (Inr staged, s1) \<and>
        ur_task_libraries rt i = Some entry \<and> register_exports staged (tl_table entry) = Some (Inr (), ns) \<and>
        (\<forall>name. lookup_task_symbol rt' i name = namespace_lookup ns name) \<and>
        runtime_library_records rt' i = runtime_library_records rt i @
          [\<lparr>rl_handle = handle, rl_base = base, rl_mapped_bytes = mapping_bytes staged\<rparr>] \<and>
        (\<forall>j. j \<noteq> i \<longrightarrow> ur_task_libraries rt' j = ur_task_libraries rt j)))"
  using assms
proof (cases rule: task_load_library_cases)
  case (refused e)
  show ?thesis by (simp add: refused(1) same_symbols_eq[OF refused(3)])
next
  case (unstaged e e' base)
  show ?thesis by (simp add: unstaged(1) same_symbols_eq[OF unstaged(3)])
next
  case (linked staged base rt1 s1)
  from linked(3) show ?thesis
  proof (cases rule: link_staged_library_cases)
    case full
    have "ur_task_libraries rt' = ur_task_libraries rt" using full(3) linked(2) by simp
    note same = same_symbols_eq[OF this]
    show ?thesis by (simp add: full(1) same)
  next
    case (unlinked e entry phys)
    show ?thesis by (simp add: unlinked(1) same_symbols_bump[OF unlinked(2,4)[unfolded linked(2)]])
  next
    case (unmapped entry ns phys e mapped s2)
    show ?thesis by (simp add: unmapped(1) same_symbols_bump[OF unmapped(2,4)[unfolded linked(2)]])
  next
    case (loaded entry ns phys mapped)
    have "lookup_task_symbol rt' i name = namespace_lookup ns name" for name
      using loaded(8) linked(2) by (simp add: lookup_task_symbol_def)
    moreover have "runtime_library_records rt' i = runtime_library_records rt i @
        [\<lparr>rl_handle = tl_next_handle entry, rl_base = base, rl_mapped_bytes = mapping_bytes staged\<rparr>]"
      using loaded(2,8) linked(2) by (simp add: runtime_library_records_def)
    moreover have "ur_task_libraries rt' j = ur_task_libraries rt j" if "j \<noteq> i" for j
      using loaded(8) linked(2) that by simp
    ultimately show ?thesis
      using loaded(1) linked(1) loaded(2)[unfolded linked(2)] loaded(5) by (simp only: sum.inject sum.distinct) blast
  qed
qed




lemma free_pool_inv: "allocator_inv (free_pool frames)" "available (free_pool frames) = mset frames"
proof -
  show "allocator_inv (free_pool frames)" by (simp add: allocator_inv_def free_pool_def list_all_iff)
  have "cursors_mset (map (\<lambda>n. \<lparr>start_frame = n, end_frame_exclusive = n + 1, next_frame = n\<rparr>) frames) = mset frames"
    by (induction frames) (simp_all add: cursor_mset_def)
  then show "available (free_pool frames) = mset frames" by (simp add: available_def free_pool_def)
qed

theorem load_library_writes_free_frames_only_witness:
  "\<exists>rt' s'. task_load_library table_ops 5 (stray_library 0) sample_runtime (sample_state [7]) = Some (Inr 1, rt', s') \<and>
     ld_memory s' 0x9000 = 0"
proof -
  obtain rt' s' where run: "task_load_library table_ops 5 (stray_library 0) sample_runtime (sample_state [7]) = Some (Inr 1, rt', s')"
    using stray_library_loads[of FIRST_SHARED_MAPPING_BASE] by (auto simp: FIRST_SHARED_MAPPING_BASE_def PAGE_SIZE_BYTES_def u64_max_def)
  have "ld_memory s' 0x9000 = ld_memory (sample_state [7]) 0x9000"
    by (rule load_library_writes_free_frames_only[OF _ run]) (simp_all add: sample_state_def free_pool_inv PAGE_SIZE_BYTES_def)
  then show ?thesis using run by (auto simp: sample_state_def)
qed

theorem load_library_all_or_nothing_witness:
  "(\<exists>rt' s'. task_load_library table_ops 5 (stray_library 0) sample_runtime (sample_state [7]) = Some (Inr 1, rt', s') \<and>
      map rl_handle (runtime_library_records rt' 5) = [1]) \<and>
   (\<exists>rt' s'. task_load_library table_ops 5 overlapping_library sample_runtime (sample_state [7, 9, 11]) = Some (Inl SysBusy, rt', s') \<and>
      runtime_library_records rt' 5 = [])"
proof -
  have none: "runtime_library_records sample_runtime 5 = []"
    by (simp add: runtime_library_records_def sample_runtime_def seed_library_state_def register_address_space_def user_runtime_new_def task_library_state_new_def)
  obtain rt1 s1 where run1: "task_load_library table_ops 5 (stray_library 0) sample_runtime (sample_state [7]) = Some (Inr 1, rt1, s1)"
    using stray_library_loads[of FIRST_SHARED_MAPPING_BASE] by (auto simp: FIRST_SHARED_MAPPING_BASE_def PAGE_SIZE_BYTES_def u64_max_def)
  obtain rt2 s2 where run2: "task_load_library table_ops 5 overlapping_library sample_runtime (sample_state [7, 9, 11]) = Some (Inl SysBusy, rt2, s2)"
    using overlapping_library_fails by blast
  have "map rl_handle (runtime_library_records rt1 5) = [1]"
    using load_library_all_or_nothing[OF run1] none by auto
  moreover have "runtime_library_records rt2 5 = []"
    using load_library_all_or_nothing[OF run2] none by simp
  ultimately show ?thesis by (simp add: run1 run2)
qed

end
