(* ===== verification/Spec2Isabelle.thy ===== *)
theory Spec2Isabelle
  imports Capability Channel Pipe Phys_Frames Kernel_Heap Kernel_Events Memory_Manager
    Timekeeping Memory_Object Ipc_Props Packet_Interface Aead X25519 Library_Loading
begin

text \<open>
  A verification library for ServiceOS, a capability-based microkernel with a
  userspace service platform, written in Rust.

  \<^bold>\<open>The program.\<close> The kernel core (\<open>src/kernel/core\<close>) hands out physical frames
  and kernel heap memory, keeps a registry of kernel objects (tasks, threads,
  channels, pipes, memory objects, timers, packet interfaces), gives each task a
  space of capabilities to them, schedules threads, passes messages with
  capability transfer between tasks, and loads and links user images. Drivers put
  received frames in a ring that the network service shares with the kernel. The
  shared crypto library (\<open>src/shared/crypto\<close>) is used by the services.

  \<^bold>\<open>Conventions\<close> (theory \<open>Prelude\<close>). A Rust \<open>Result\<close> is a sum with the error on the
  left, and every early return is a branch of the definition. A panic or a loop
  that does not end is \<open>None\<close> of an option type. Sizes, addresses and counters are
  natural numbers; where the source uses a checked, saturating or wrapping
  operation, its limit is written out (\<open>checked_add\<close>, \<open>plus64\<close>, \<open>minus64\<close>,
  \<open>times64\<close>). Bit sets, bytes and the limbs of the crypto code are machine words.
  A record models each struct, with prefixed field names. An operation
  under a lock is one atomic step. A constant has the name of the source, and
  is not listed one by one among the mapped definitions.

  \<^bold>\<open>Capabilities.\<close> \<open>BTree_Map\<close> models the ordered map of the Rust library behind
  the locale \<open>ordered_map\<close>. \<open>Capability\<close> models \<open>capability/types.rs\<close> and
  \<open>capability/space.rs\<close>: no sequence of operations between spaces gives a handle
  rights that its sources did not have; rolling a move back restores the space
  exactly.

  \<^bold>\<open>Messages and pipes.\<close> \<open>Deque_Spec\<close> is the contract of a bounded queue. \<open>Channel\<close>
  models \<open>ipc/types.rs\<close> and \<open>ipc/endpoint.rs\<close>; its queue meets the contract. \<open>Pipe\<close>
  models \<open>PipeObject\<close> of \<open>object/objects.rs\<close>, whose ring buffer is shown to be a
  byte stream. \<open>Ipc_Kernel\<close> and \<open>Ipc_Props\<close> model \<open>ipc/kernel.rs\<close>: failed sends and
  receives have no effect, messages arrive in the order they were sent with the
  objects and rights behind their handles, a send wakes the first receiver. A
  receive is two steps, one for each time it takes the lock of the queue, and the
  interleaving that loses a message is exhibited.

  \<^bold>\<open>Memory.\<close> \<open>Phys_Frames\<close> (\<open>memory/phys.rs\<close>, \<open>memory/types.rs\<close>): no frame is handed
  out twice, the headroom test is exact, and the merge condition of the source
  that breaks the first claim outside its hypotheses. \<open>Kernel_Heap\<close>
  (\<open>memory/heap.rs\<close>): live blocks never overlap, bytes are accounted for, free
  neighbours are merged. \<open>Memory_Manager\<close> (\<open>memory/layout.rs\<close>, \<open>pressure.rs\<close>,
  \<open>oom.rs\<close>, \<open>manager.rs\<close>): pressure levels and out-of-memory recovery.
  \<open>Memory_Object\<close> (\<open>object/objects.rs\<close>): every storage form behaves as one byte
  buffer. \<open>Kernel_Events\<close> (\<open>interrupts.rs\<close>): the event log is a sliding window.
  \<open>Timekeeping\<close> (\<open>time/\<close>): wakeups are exact.

  \<^bold>\<open>Objects and scheduling.\<close> \<open>Device_Core\<close> (\<open>network/core.rs\<close>, \<open>input/core.rs\<close>)
  models the backend registries. \<open>Object_Model\<close> (\<open>object/\<close>, \<open>task/objects.rs\<close>,
  \<open>task/types.rs\<close>) models the registry and its garbage collection. \<open>Scheduler\<close>
  models \<open>task/scheduler.rs\<close>; \<open>Scheduler_Inv\<close> has its invariants and
  \<open>Scheduler_Props\<close> what follows: references are to registered threads, a thread
  is in one place, turns are fair, balancing moves idle threads. Two
  interleavings show where the code falls short of its comments.

  \<^bold>\<open>Packets.\<close> \<open>Packet_Ring\<close> and \<open>Packet_Interface\<close> (\<open>network/ring.rs\<close>,
  \<open>network/backend.rs\<close>, and the ring ends of \<open>device.rs\<close> in the network service)
  over the locale \<open>ring_storage\<close>, interpreted on slices and on page frames: the ring
  refines a queue that drops its oldest frame, and the transmit ring loses its
  first frames.

  \<^bold>\<open>Crypto.\<close> \<open>Le_Bytes\<close> and \<open>Byte_Words\<close> relate bytes and words to numbers. \<open>Poly1305\<close>
  and \<open>Poly1305_Proof\<close> (\<open>poly1305.rs\<close>), \<open>Aead\<close> (\<open>chacha20.rs\<close>,
  \<open>chacha20poly1305.rs\<close>), \<open>Field25519\<close>, \<open>Field_Encoding\<close> and \<open>X25519\<close> (\<open>field.rs\<close>,
  \<open>x25519.rs\<close>) keep the limbs at their widths and show that no limb overflows and
  that the results are those of RFC 8439 and RFC 7748; decryption fails closed.

  \<^bold>\<open>User images.\<close> \<open>Image_Formats\<close>, \<open>Elf_Linking\<close> and \<open>Image_Loader\<close> model
  \<open>user/loader.rs\<close> and the image types of \<open>user/types.rs\<close>: the flat format, ELF64
  headers and dynamic sections, symbol tables, relocations, placement of pages,
  companion libraries. \<open>Elf_Link_Props\<close> shows that a name resolves to its
  strongest definition (locale \<open>export_table\<close>), when registration of exports ends
  and when it does not, and that eager binding gives what lazy binding would.
  \<open>Loader_Props\<close> shows that the pages of a load lie in the user image window, and
  that relocation words may miss the frame they are meant for. \<open>Runtime_Library\<close>
  models the staging of a library, the state of \<open>user/runtime.rs\<close>, the library
  system calls of \<open>syscall/handlers/task.rs\<close> and the mapping hooks of
  \<open>arch/x86_64/src/user.rs\<close>. \<open>Runtime_Props\<close> shows that its states stay well formed,
  and \<open>Library_Loading\<close> that a load writes only frames that were free and records
  all or nothing, and where the address check and the clean-up of a failed
  mapping are missing. The locale \<open>word_target\<close> is the contract of the two places
  relocation words are written to, the mapped segments and the staged frames.

  \<^bold>\<open>Bounds and fuel.\<close> Loops over a counted range recurse on the number of rounds
  left, which the source computes before the loop. The loops whose end depends on
  the input, the two walks of a hash chain and the flush of the transmit ring, are
  partial functions into the option type, so that not returning is a value; for
  the walks, termination is a theorem about the links. The number of CPUs, queue lengths and table sizes are the constants of the source.

  \<^bold>\<open>Parameters.\<close> The page table (map, unmap, change of protection), the page mapper
  of the loader, packet backends, input sources and the resolver of embedded images are
  arguments of the definitions that call them. Physical memory is a function
  from addresses to bytes.

  \<^bold>\<open>Not modelled.\<close> The architecture layers except the mapping hooks, the platform
  drivers and boot code: registers, memory-mapped devices and assembly have no
  meaning at the level of this model. Locks and fences, since steps are atomic;
  where the code releases a lock between two steps, the steps are separate. The
  decoding of system call arguments and the handlers other than the library
  calls, which copy from user memory and then call the operations modelled here.
  The saved machine context of a thread. The remaining crypto (hashes,
  key derivation, signatures), the SSH and bundle libraries and the wire records
  of the ABI: self-contained code that no modelled part calls. The services and
  applications in userspace, apart from the ring ends of the network service. The
  build tools and the test framework, which do not run on the machine.
\<close>

end
